(* ===== verification/Prelude.thy ===== *)
theory Prelude
  imports Main "HOL-Library.Word"
begin

unbundle bit_operations_syntax

text \<open>
  Shared vocabulary of the Chronos development: the machine integers of the Rust source as
  words of their width, the checked and saturating operations of the standard library, the
  \<open>Result\<close> type as a sum (\<open>Inl\<close> for \<open>Err\<close>), the order of \<open>Option\<close> (\<open>None\<close> below every \<open>Some\<close>),
  and the generic facts about them the component theories rely on.

  An unchecked \<open>+\<close>, \<open>-\<close> or \<open>*\<close> of the source is the word operation: it wraps, as a release
  build does. Collections of facts: \<open>rust_arith\<close> reads the standard-library operations as
  natural-number arithmetic, \<open>result_simps\<close> inverts the \<open>?\<close> operator.
\<close>

named_theorems rust_arith
named_theorems result_simps

subsection \<open>Integers\<close>

type_synonym u8 = "8 word"
type_synonym u16 = "16 word"
type_synonym u32 = "32 word"
type_synonym u64 = "64 word"

definition checked_add :: "'a::len word \<Rightarrow> 'a word \<Rightarrow> 'a word option" where
  "checked_add a b = (if unat a + unat b < 2 ^ LENGTH('a) then Some (a + b) else None)"

definition checked_mul :: "'a::len word \<Rightarrow> 'a word \<Rightarrow> 'a word option" where
  "checked_mul a b = (if unat a * unat b < 2 ^ LENGTH('a) then Some (a * b) else None)"

definition checked_sub :: "'a::len word \<Rightarrow> 'a word \<Rightarrow> 'a word option" where
  "checked_sub a b = (if b \<le> a then Some (a - b) else None)"

definition saturating_add :: "'a::len word \<Rightarrow> 'a word \<Rightarrow> 'a word" where
  "saturating_add a b = (if unat a + unat b < 2 ^ LENGTH('a) then a + b else - 1)"

definition saturating_mul :: "'a::len word \<Rightarrow> 'a word \<Rightarrow> 'a word" where
  "saturating_mul a b = (if unat a * unat b < 2 ^ LENGTH('a) then a * b else - 1)"

definition saturating_sub :: "'a::len word \<Rightarrow> 'a word \<Rightarrow> 'a word" where
  "saturating_sub a b = (if b \<le> a then a - b else 0)"

definition shl :: "'a::len word \<Rightarrow> u8 \<Rightarrow> 'a word" where
  \<comment> \<open>\<open><<\<close>: the amount is taken modulo the width, as in a release build\<close>
  "shl w n = push_bit (unat n mod LENGTH('a)) w"

definition shr :: "'a::len word \<Rightarrow> u8 \<Rightarrow> 'a word" where
  "shr w n = drop_bit (unat n mod LENGTH('a)) w"

lemma unat_max_word: "unat (- 1 :: 'a::len word) = 2 ^ LENGTH('a) - 1"
  by (simp add: unsigned_minus_1_eq_mask mask_eq_exp_minus_1)

lemma unat_add_small:
  "unat a + unat b < 2 ^ LENGTH('a) \<Longrightarrow> unat (a + b) = unat a + unat (b :: 'a::len word)"
  by (simp add: unat_add_lem)

lemma unat_mult_small:
  "unat a * unat b < 2 ^ LENGTH('a) \<Longrightarrow> unat (a * b) = unat a * unat (b :: 'a::len word)"
  by (simp add: unat_mult_lem)

lemma unat_of_nat_small: "n < 2 ^ LENGTH('a) \<Longrightarrow> unat (of_nat n :: 'a::len word) = n"
  by (simp add: unat_of_nat)

lemma unat_lt64 [simp]: "unat (x :: u64) < 18446744073709551616"
  using unsigned_less [of x, where ?'a = nat] by simp

lemma unat_lt32 [simp]: "unat (x :: u32) < 4294967296"
  using unsigned_less [of x, where ?'a = nat] by simp

lemma unat_lt8 [simp]: "unat (x :: u8) < 256"
  using unsigned_less [of x, where ?'a = nat] by simp

lemma checked_add_Some [rust_arith]:
  "checked_add a b = Some c \<longleftrightarrow> unat a + unat b < 2 ^ LENGTH('a) \<and> c = a + (b :: 'a::len word)"
  by (auto simp: checked_add_def)

lemma checked_add_SomeD:
  "checked_add a b = Some c \<Longrightarrow> unat c = unat a + unat (b :: 'a::len word)"
  by (auto simp: checked_add_Some unat_add_small)

lemma checked_add_None [rust_arith]:
  "checked_add a b = None \<longleftrightarrow> 2 ^ LENGTH('a) \<le> unat a + unat (b :: 'a::len word)"
  by (auto simp: checked_add_def)

lemma checked_mul_Some [rust_arith]:
  "checked_mul a b = Some c \<longleftrightarrow> unat a * unat b < 2 ^ LENGTH('a) \<and> c = a * (b :: 'a::len word)"
  by (auto simp: checked_mul_def)

lemma checked_mul_SomeD:
  "checked_mul a b = Some c \<Longrightarrow> unat c = unat a * unat (b :: 'a::len word)"
  by (auto simp: checked_mul_Some unat_mult_small)

lemma checked_sub_Some [rust_arith]:
  "checked_sub a b = Some c \<longleftrightarrow> b \<le> a \<and> c = a - (b :: 'a::len word)"
  by (auto simp: checked_sub_def)

lemma unat_saturating_add [rust_arith]:
  "unat (saturating_add a b) = min (unat a + unat b) (2 ^ LENGTH('a) - 1)"
  for a b :: "'a::len word"
  by (auto simp: saturating_add_def unat_add_small unat_max_word min_def)

lemma unat_saturating_mul [rust_arith]:
  "unat (saturating_mul a b) = min (unat a * unat b) (2 ^ LENGTH('a) - 1)"
  for a b :: "'a::len word"
proof (cases "unat a * unat b < 2 ^ LENGTH('a)")
  case True
  then show ?thesis by (simp add: saturating_mul_def unat_mult_small)
next
  case False
  then have "2 ^ LENGTH('a) - 1 \<le> unat a * unat b" by linarith
  with False show ?thesis by (simp add: saturating_mul_def unat_max_word min_absorb2)
qed

lemma unat_saturating_sub [rust_arith]:
  "unat (saturating_sub a b) = unat a - unat (b :: 'a::len word)"
  by (auto simp: saturating_sub_def unat_sub word_le_nat_alt)

lemma unat_max [rust_arith]: "unat (max a b) = max (unat a) (unat (b :: 'a::len word))"
  by (auto simp: max_def word_le_nat_alt)

lemma unat_min [rust_arith]: "unat (min a b) = min (unat a) (unat (b :: 'a::len word))"
  by (auto simp: min_def word_le_nat_alt)

lemma saturating_add_mono: "b \<le> c \<Longrightarrow> saturating_add a b \<le> saturating_add a (c :: 'a::len word)"
  by (auto simp: word_le_nat_alt unat_saturating_add)

lemma saturating_add_ge: "a \<le> saturating_add a (b :: 'a::len word)"
proof -
  have "unat a < 2 ^ LENGTH('a)" by (rule unsigned_less)
  then have "unat a \<le> 2 ^ LENGTH('a) - 1" by linarith
  then show ?thesis unfolding word_le_nat_alt unat_saturating_add by simp
qed

subsection \<open>Bit fields\<close>

lemma unat_push_bit_small:
  assumes "unat w * 2 ^ n < 2 ^ LENGTH('a)"
  shows "unat (push_bit n (w :: 'a::len word)) = unat w * 2 ^ n"
proof -
  have "unat (push_bit n w) = unat (w * 2 ^ n)" by (simp add: push_bit_eq_mult)
  also have "\<dots> = (unat w * unat (2 ^ n :: 'a word)) mod 2 ^ LENGTH('a)"
    by (simp add: unat_word_ariths)
  also have "unat (2 ^ n :: 'a word) = 2 ^ n mod 2 ^ LENGTH('a)"
    by (metis of_nat_numeral of_nat_power take_bit_eq_mod unat_of_nat)
  also have "(unat w * (2 ^ n mod 2 ^ LENGTH('a))) mod 2 ^ LENGTH('a) = unat w * 2 ^ n"
    using assms by (simp add: mod_mult_right_eq)
  finally show ?thesis .
qed

lemma unat_one_push_bit: "n < LENGTH('a) \<Longrightarrow> unat (push_bit n (1 :: 'a::len word)) = 2 ^ n"
  using unat_push_bit_small [of "1 :: 'a word" n] by simp

lemma unat_drop_bit: "unat (drop_bit n (w :: 'a::len word)) = unat w div 2 ^ n"
  using unat_drop_bit_eq [of n w] by (simp only: drop_bit_eq_div)

lemma unat_and_mask:
  assumes "m = 2 ^ n - 1" and "n \<le> LENGTH('a)"
  shows "unat (w AND (m :: 'a::len word)) = unat w mod 2 ^ n"
proof -
  have "w AND m = take_bit n w" by (simp add: assms(1) take_bit_eq_mask mask_eq_exp_minus_1)
  then show ?thesis
    by (simp add: take_bit_eq_mod unsigned_take_bit_eq flip: take_bit_eq_mod)
qed

lemma unat_and_mask':
  assumes "unat m = 2 ^ n - 1" and "n \<le> LENGTH('a)"
  shows "unat (w AND (m :: 'a::len word)) = unat w mod 2 ^ n"
proof -
  have "m = of_nat (unat m)" by simp
  also have "\<dots> = 2 ^ n - 1" by (simp only: assms(1)) (simp add: of_nat_diff)
  finally show ?thesis by (rule unat_and_mask) (rule assms(2))
qed

lemma or_eq_plus_nat:
  assumes "unat (b :: 'a::len word) < 2 ^ n" and "2 ^ n dvd unat a"
  shows "unat (a OR b) = unat a + unat b"
proof -
  have "unat a AND unat b = 0"
  proof (rule bit_eqI)
    fix i
    show "bit (unat a AND unat b) i \<longleftrightarrow> bit (0 :: nat) i"
    proof (cases "i < n")
      case True
      from assms(2) obtain k where "unat a = push_bit n k"
        by (auto simp: dvd_def push_bit_eq_mult mult.commute)
      with True have "\<not> bit (unat a) i" by (simp add: bit_push_bit_iff)
      then show ?thesis by (simp add: bit_and_iff)
    next
      case False
      from assms(1) have "take_bit n (unat b) = unat b" by (simp add: take_bit_nat_eq_self)
      with False have "\<not> bit (unat b) i" by (metis bit_take_bit_iff)
      then show ?thesis by (simp add: bit_and_iff)
    qed
  qed
  then have "unat a + unat b = unat a OR unat b" by (rule disjunctive_add_eq_or)
  then show ?thesis by (simp add: unsigned_or_eq)
qed

lemma mult_add_less_iff:
  assumes "r < m" "r' < (m :: nat)"
  shows "a * m + r < b * m + r' \<longleftrightarrow> a < b \<or> a = b \<and> r < r'"
proof -
  consider "a < b" | "a = b" | "b < a" by linarith
  then show ?thesis
  proof cases
    case 1
    then have "(a + 1) * m \<le> b * m" by (intro mult_right_mono) auto
    with assms 1 show ?thesis by (simp add: algebra_simps)
  next
    case 3
    then have "(b + 1) * m \<le> a * m" by (intro mult_right_mono) auto
    with assms 3 show ?thesis by (simp add: algebra_simps)
  qed simp
qed

subsection \<open>Results and options\<close>

definition and_then :: "'e + 'a \<Rightarrow> ('a \<Rightarrow> 'e + 'b) \<Rightarrow> 'e + 'b" where
  \<comment> \<open>the \<open>?\<close> operator: an error is returned at once\<close>
  "and_then r f = (case r of Inl e \<Rightarrow> Inl e | Inr a \<Rightarrow> f a)"

definition ok_or :: "'e \<Rightarrow> 'a option \<Rightarrow> 'e + 'a" where
  "ok_or e x = (case x of None \<Rightarrow> Inl e | Some a \<Rightarrow> Inr a)"

definition result_ok :: "'e + 'a \<Rightarrow> 'a option" where
  \<comment> \<open>\<open>Result::ok\<close>\<close>
  "result_ok r = (case r of Inl e \<Rightarrow> None | Inr a \<Rightarrow> Some a)"

definition opt_max :: "'a::linorder option \<Rightarrow> 'a option \<Rightarrow> 'a option" where
  \<comment> \<open>\<open>Ord::max\<close> on \<open>Option\<close>, where \<open>None < Some(_)\<close>; the source also writes it as a match\<close>
  "opt_max a b = (case a of None \<Rightarrow> b
     | Some x \<Rightarrow> (case b of None \<Rightarrow> Some x | Some y \<Rightarrow> Some (max x y)))"

definition opt_le :: "'a::linorder option \<Rightarrow> 'a option \<Rightarrow> bool" where
  "opt_le a b = (case a of None \<Rightarrow> True | Some x \<Rightarrow> (case b of None \<Rightarrow> False | Some y \<Rightarrow> x \<le> y))"

lemma and_then_simps [simp]:
  "and_then (Inl e) f = Inl e" "and_then (Inr a) f = f a"
  by (simp_all add: and_then_def)

lemma and_then_eq_Inr [result_simps]:
  "and_then r f = Inr b \<longleftrightarrow> (\<exists>a. r = Inr a \<and> f a = Inr b)"
  by (cases r) auto

lemma and_then_eq_Inl [result_simps]:
  "and_then r f = Inl e \<longleftrightarrow> r = Inl e \<or> (\<exists>a. r = Inr a \<and> f a = Inl e)"
  by (cases r) auto

lemma ok_or_simps [simp]: "ok_or e None = Inl e" "ok_or e (Some a) = Inr a"
  by (simp_all add: ok_or_def)

lemma ok_or_eq_Inr [result_simps]: "ok_or e x = Inr a \<longleftrightarrow> x = Some a"
  by (cases x) auto

lemma ok_or_eq_Inl [result_simps]: "ok_or e x = Inl e' \<longleftrightarrow> x = None \<and> e' = e"
  by (cases x) auto

lemma result_ok_simps [simp]: "result_ok (Inl e) = None" "result_ok (Inr a) = Some a"
  by (simp_all add: result_ok_def)

lemma result_ok_Some [result_simps]: "result_ok r = Some a \<longleftrightarrow> r = Inr a"
  by (cases r) auto

lemma opt_max_simps [simp]:
  "opt_max None b = b" "opt_max a None = a" "opt_max (Some x) (Some y) = Some (max x y)"
  by (auto simp: opt_max_def split: option.splits)

lemma opt_le_simps [simp]:
  "opt_le None b" "opt_le (Some x) (Some y) \<longleftrightarrow> x \<le> y" "\<not> opt_le (Some x) None"
  by (auto simp: opt_le_def split: option.splits)

lemma opt_le_refl [simp]: "opt_le a a"
  by (cases a) auto

lemma opt_le_trans: "opt_le a b \<Longrightarrow> opt_le b c \<Longrightarrow> opt_le a c"
  by (cases a; cases b; cases c) auto

lemma opt_le_max [simp]: "opt_le a (opt_max a b)" "opt_le b (opt_max a b)"
  by (cases a; cases b; simp)+

lemma opt_max_least: "opt_le a c \<Longrightarrow> opt_le b c \<Longrightarrow> opt_le (opt_max a b) c"
  by (cases a; cases b; cases c) auto

lemma opt_max_eq_None [simp]: "opt_max a b = None \<longleftrightarrow> a = None \<and> b = None"
  by (cases a; cases b) auto

end
