(* ===== verification/Rust_Strings.thy ===== *)
theory Rust_Strings
  imports Prelude "HOL-Library.Char_ord" "HOL-Library.List_Lexorder"
begin

text \<open>
  The parts of Rust's \<open>str\<close> and formatting machinery that Chronos uses. A string is the list
  of its UTF-8 bytes (\<open>char\<close> is a byte), so \<open>len\<close>, \<open>as_bytes\<close>, equality and the byte-wise order
  of the standard library are length, the list itself, equality and the lexicographic order.
  White space and control characters outside ASCII are recognised by their UTF-8 sequences.
\<close>

subsection \<open>Definitions\<close>

definition byte_char :: "nat \<Rightarrow> char" where
  "byte_char n = char_of n"

definition digit_char :: "nat \<Rightarrow> char" where
  "digit_char d = char_of (48 + d)"

fun fmt_dec :: "nat \<Rightarrow> string" where
  \<comment> \<open>\<open>Display\<close> of an unsigned integer\<close>
  "fmt_dec n = (if n < 10 then [digit_char n] else fmt_dec (n div 10) @ [digit_char (n mod 10)])"

declare fmt_dec.simps [simp del]

definition fmt_dec_pad :: "nat \<Rightarrow> nat \<Rightarrow> string" where
  \<comment> \<open>the format \<open>{:0w}\<close>: zero padded to width \<open>w\<close>\<close>
  "fmt_dec_pad w n = replicate (w - length (fmt_dec n)) (digit_char 0) @ fmt_dec n"

definition ws_seqs :: "string list" where
  \<comment> \<open>the UTF-8 sequences of the characters with \<open>char::is_whitespace\<close>\<close>
  "ws_seqs = map (map byte_char)
     ([[9], [10], [11], [12], [13], [32], [194, 133], [194, 160], [225, 154, 128]]
      @ map (\<lambda>k. [226, 128, 128 + k]) [0 ..< 11]
      @ [[226, 128, 168], [226, 128, 169], [226, 128, 175], [226, 129, 159], [227, 128, 128]])"

function strip_seqs :: "string list \<Rightarrow> string \<Rightarrow> string" where
  "strip_seqs ws s =
     (case find (\<lambda>w. w \<noteq> [] \<and> take (length w) s = w) ws of
        None \<Rightarrow> s
      | Some w \<Rightarrow> strip_seqs ws (drop (length w) s))"
  by pat_completeness auto
termination
proof (relation "measure (\<lambda>(ws, s). length s)")
  fix ws s w
  assume "find (\<lambda>w. w \<noteq> [] \<and> take (length w) s = w) ws = Some w"
  then have "w \<noteq> []" "take (length w) s = w" by (auto simp: find_Some_iff)
  then have "0 < length w" "s \<noteq> []" by auto
  then show "((ws, drop (length w) s), ws, s) \<in> measure (\<lambda>(ws, s). length s)" by simp
qed simp

declare strip_seqs.simps [simp del]

definition str_trim :: "string \<Rightarrow> string" where
  "str_trim s = rev (strip_seqs (map rev ws_seqs) (rev (strip_seqs ws_seqs s)))"

definition str_is_blank :: "string \<Rightarrow> bool" where
  \<comment> \<open>\<open>s.trim().is_empty()\<close>\<close>
  "str_is_blank s = (str_trim s = [])"

definition ascii_lower :: "char \<Rightarrow> char" where
  "ascii_lower c = (let n = of_char c :: nat in if 65 \<le> n \<and> n \<le> 90 then char_of (n + 32) else c)"

definition to_ascii_lowercase :: "string \<Rightarrow> string" where
  "to_ascii_lowercase = map ascii_lower"

definition eq_ignore_ascii_case :: "string \<Rightarrow> string \<Rightarrow> bool" where
  "eq_ignore_ascii_case a b = (to_ascii_lowercase a = to_ascii_lowercase b)"

definition str_contains :: "string \<Rightarrow> char \<Rightarrow> bool" where
  "str_contains s c = (c \<in> set s)"

definition str_starts_with :: "string \<Rightarrow> string \<Rightarrow> bool" where
  "str_starts_with s p = (take (length p) s = p)"

fun contains_control :: "string \<Rightarrow> bool" where
  \<comment> \<open>\<open>chars().any(char::is_control)\<close>: C0, DEL, and C1 as the sequences C2 80 .. C2 9F\<close>
  "contains_control [] = False"
| "contains_control (c # cs) =
     (let n = of_char c :: nat in
      n < 32 \<or> n = 127
      \<or> (n = 194 \<and> (case cs of [] \<Rightarrow> False | d # _ \<Rightarrow> 128 \<le> (of_char d :: nat) \<and> (of_char d :: nat) < 160))
      \<or> contains_control cs)"

subsection \<open>Decimal numbers\<close>

lemma of_char_digit_char: "d < 10 \<Longrightarrow> (of_char (digit_char d) :: nat) = 48 + d"
  by (simp add: digit_char_def)

lemma digit_char_inj: "d < 10 \<Longrightarrow> e < 10 \<Longrightarrow> digit_char d = digit_char e \<longleftrightarrow> d = e"
  by (metis add_left_cancel of_char_digit_char)

lemma digit_char_less: "d < 10 \<Longrightarrow> e < 10 \<Longrightarrow> digit_char d < digit_char e \<longleftrightarrow> d < e"
  by (simp add: less_char_def of_char_digit_char)

lemma fmt_dec_digits: "c \<in> set (fmt_dec n) \<Longrightarrow> \<exists>d < 10. c = digit_char d"
proof (induction n rule: fmt_dec.induct)
  case (1 n)
  show ?case
  proof (cases "n < 10")
    case True
    with 1 show ?thesis by (auto simp: fmt_dec.simps [of n])
  next
    case False
    with 1 have "c \<in> set (fmt_dec (n div 10)) \<or> c = digit_char (n mod 10)"
      by (auto simp: fmt_dec.simps [of n])
    then show ?thesis
    proof
      assume "c = digit_char (n mod 10)"
      then show ?thesis by (intro exI [of _ "n mod 10"]) simp
    qed (rule "1.IH" [OF False])
  qed
qed

lemma fmt_dec_nonempty: "fmt_dec n \<noteq> []"
  by (subst fmt_dec.simps) simp

lemma fmt_dec_small: "n < 10 \<Longrightarrow> fmt_dec n = [digit_char n]"
  by (simp add: fmt_dec.simps [of n])

lemma fmt_dec_large: "\<not> n < 10 \<Longrightarrow> fmt_dec n = fmt_dec (n div 10) @ [digit_char (n mod 10)]"
  by (simp add: fmt_dec.simps [of n])

lemma fmt_dec_single: "fmt_dec n = [digit_char d] \<Longrightarrow> n < 10"
  using fmt_dec_large [of n] fmt_dec_nonempty [of "n div 10"] by (cases "n < 10") auto

lemma fmt_dec_inj: "fmt_dec m = fmt_dec n \<Longrightarrow> m = n"
proof (induction m arbitrary: n rule: fmt_dec.induct)
  case (1 m)
  show ?case
  proof (cases "m < 10 \<or> n < 10")
    case True
    then have "m < 10" "n < 10"
      using "1.prems" fmt_dec_single fmt_dec_small by metis+
    with "1.prems" show ?thesis by (simp add: fmt_dec_small digit_char_inj)
  next
    case False
    then have "fmt_dec (m div 10) = fmt_dec (n div 10)" "m mod 10 = n mod 10"
      using "1.prems" by (simp_all add: fmt_dec_large digit_char_inj)
    with "1.IH" False have "m div 10 = n div 10" by blast
    with \<open>m mod 10 = n mod 10\<close> show ?thesis by (metis div_mult_mod_eq)
  qed
qed

lemma length_fmt_dec: "0 < k \<Longrightarrow> n < 10 ^ k \<Longrightarrow> length (fmt_dec n) \<le> k"
proof (induction n arbitrary: k rule: fmt_dec.induct)
  case (1 n)
  show ?case
  proof (cases "n < 10")
    case True
    with "1.prems" show ?thesis by (simp add: fmt_dec_small fmt_dec_large)
  next
    case False
    obtain j where k: "k = Suc j" using "1.prems" by (cases k) auto
    with "1.prems" False have j: "0 < j" by (cases j) auto
    from "1.prems" k have "n div 10 < 10 ^ j" by (simp add: less_mult_imp_div_less mult.commute)
    with "1.IH" [OF False j] have "length (fmt_dec (n div 10)) \<le> j" by simp
    with False k show ?thesis by (simp add: fmt_dec_small fmt_dec_large)
  qed
qed

lemma fmt_dec_pad_step:
  assumes "0 < k"
  shows "fmt_dec_pad (Suc k) n = fmt_dec_pad k (n div 10) @ [digit_char (n mod 10)]"
proof (cases "n < 10")
  case True
  with assms show ?thesis
    by (cases k)
      (simp_all add: fmt_dec_pad_def fmt_dec_small replicate_append_same)
next
  case False
  then show ?thesis by (simp add: fmt_dec_pad_def fmt_dec_large)
qed

lemma length_fmt_dec_pad: "0 < k \<Longrightarrow> n < 10 ^ k \<Longrightarrow> length (fmt_dec_pad k n) = k"
  using length_fmt_dec [of k n] by (simp add: fmt_dec_pad_def)

lemma list_less_append_same: "xs @ ys < xs @ zs \<longleftrightarrow> ys < (zs :: 'a::linorder list)"
  by (induction xs) auto

lemma list_less_same_length:
  "length xs = length ys \<Longrightarrow> xs @ us < ys @ vs \<longleftrightarrow> xs < ys \<or> xs = ys \<and> us < (vs :: 'a::linorder list)"
  by (induction xs ys rule: list_induct2) auto

lemma div_mod_10_less:
  "m div 10 < n div 10 \<or> m div 10 = n div 10 \<and> m mod 10 < n mod 10 \<longleftrightarrow> m < (n :: nat)"
  using div_mult_mod_eq [of m 10] div_mult_mod_eq [of n 10]
    mod_less_divisor [of 10 m] mod_less_divisor [of 10 n] by linarith

lemma div_mod_10_eq: "m div 10 = n div 10 \<and> m mod 10 = n mod 10 \<longleftrightarrow> m = (n :: nat)"
  by (metis div_mult_mod_eq)

lemma fmt_dec_pad_less:
  "0 < k \<Longrightarrow> m < 10 ^ k \<Longrightarrow> n < 10 ^ k \<Longrightarrow>
     (fmt_dec_pad k m < fmt_dec_pad k n \<longleftrightarrow> m < n) \<and> (fmt_dec_pad k m = fmt_dec_pad k n \<longleftrightarrow> m = n)"
proof (induction k arbitrary: m n)
  case 0
  then show ?case by simp
next
  case (Suc k)
  show ?case
  proof (cases k)
    case 0
    with Suc.prems show ?thesis
      by (simp add: fmt_dec_pad_def fmt_dec_small digit_char_inj
          digit_char_less)
  next
    case (Suc j)
    then have k: "0 < k" by simp
    have le: "m div 10 < 10 ^ k" "n div 10 < 10 ^ k"
      using \<open>m < 10 ^ Suc k\<close> \<open>n < 10 ^ Suc k\<close> by (simp_all add: less_mult_imp_div_less mult.commute)
    note IH = Suc.IH [OF k le]
    have len: "length (fmt_dec_pad k (m div 10)) = length (fmt_dec_pad k (n div 10))"
      using le k by (simp add: length_fmt_dec_pad)
    have "fmt_dec_pad (Suc k) m < fmt_dec_pad (Suc k) n \<longleftrightarrow>
        m div 10 < n div 10 \<or> m div 10 = n div 10 \<and> m mod 10 < n mod 10"
      using IH len k by (simp add: fmt_dec_pad_step list_less_same_length digit_char_less)
    also have "\<dots> \<longleftrightarrow> m < n" by (rule div_mod_10_less)
    finally have lt: "fmt_dec_pad (Suc k) m < fmt_dec_pad (Suc k) n \<longleftrightarrow> m < n" .
    have "fmt_dec_pad (Suc k) m = fmt_dec_pad (Suc k) n \<longleftrightarrow>
        m div 10 = n div 10 \<and> m mod 10 = n mod 10"
      using IH len k by (simp add: fmt_dec_pad_step digit_char_inj)
    also have "\<dots> \<longleftrightarrow> m = n" by (rule div_mod_10_eq)
    finally show ?thesis using lt by simp
  qed
qed

lemma u64_fits_20_digits: "unat (x :: u64) < 10 ^ 20"
  using unat_lt64 [of x] by (rule less_trans) simp

subsection \<open>Comparison of strings\<close>

lemma eq_ignore_ascii_case_refl [simp]: "eq_ignore_ascii_case a a"
  by (simp add: eq_ignore_ascii_case_def)

lemma eq_ignore_ascii_case_sym: "eq_ignore_ascii_case a b \<longleftrightarrow> eq_ignore_ascii_case b a"
  by (auto simp: eq_ignore_ascii_case_def)

subsection \<open>Trimming\<close>

definition visible_ascii :: "char \<Rightarrow> bool" where
  "visible_ascii c \<longleftrightarrow> 33 \<le> (of_char c :: nat) \<and> (of_char c :: nat) \<le> 126"

lemma strip_seqs_id:
  assumes "s \<noteq> []" "\<forall>w \<in> set ws. w = [] \<or> hd w \<noteq> hd s" shows "strip_seqs ws s = s"
proof -
  have "find (\<lambda>w. w \<noteq> [] \<and> take (length w) s = w) ws = None"
    unfolding find_None_iff
  proof (intro notI, elim bexE conjE exE)
    fix w assume "w \<in> set ws" "w \<noteq> []" "take (length w) s = w"
    then have "hd w = hd s" using assms(1) by (metis hd_take length_greater_0_conv)
    with \<open>w \<in> set ws\<close> \<open>w \<noteq> []\<close> show False using assms(2) by blast
  qed
  then show ?thesis by (simp add: strip_seqs.simps)
qed

lemma ws_seqs_ends: "\<forall>w \<in> set ws_seqs. w \<noteq> [] \<and> \<not> visible_ascii (hd w) \<and> \<not> visible_ascii (last w)"
  by (simp add: ws_seqs_def byte_char_def upt_rec visible_ascii_def)

lemma str_trim_visible:
  assumes "s \<noteq> []" "visible_ascii (hd s)" "visible_ascii (last s)" shows "str_trim s = s"
proof -
  have "strip_seqs ws_seqs s = s" using assms ws_seqs_ends by (intro strip_seqs_id) auto
  moreover have "strip_seqs (map rev ws_seqs) (rev s) = rev s"
    using assms ws_seqs_ends by (intro strip_seqs_id) (auto simp: hd_rev)
  ultimately show ?thesis by (simp add: str_trim_def)
qed

end
