(* ===== verification/Types.thy ===== *)
theory Types
  imports Rust_Strings
begin

text \<open>
  The value types every component shares: \<open>types.rs\<close> (routes, ranges, requests, lifecycle
  states), \<open>error.rs\<close> (the error type, each variant with its fields in the order of the source)
  and \<open>lifecycle.rs\<close> (the classification of lifecycle states for serving). Record fields carry a
  prefix per record because HOL record selectors are global.
\<close>

datatype resource_tier = Shared | Warm | Dedicated

datatype timeline_lifecycle_state = Creating | Active | Draining | Locked | Recovering

fun lifecycle_state_to_string :: "timeline_lifecycle_state \<Rightarrow> string" where
  "lifecycle_state_to_string Creating = ''creating''"
| "lifecycle_state_to_string Active = ''active''"
| "lifecycle_state_to_string Draining = ''draining''"
| "lifecycle_state_to_string Locked = ''locked''"
| "lifecycle_state_to_string Recovering = ''recovering''"

fun resource_tier_to_string :: "resource_tier \<Rightarrow> string" where
  "resource_tier_to_string Shared = ''shared''"
| "resource_tier_to_string Warm = ''warm''"
| "resource_tier_to_string Dedicated = ''dedicated''"

record timeline_route =
  rt_timeline_key :: string
  rt_generator_id :: u32
  rt_epoch :: u64
  rt_route_version :: u64
  rt_resource_tier :: resource_tier
  rt_owner_worker_endpoint :: string

record timestamp_range =
  rg_start_tso :: u64
  rg_end_tso :: u64

record allocate_request =
  rq_timeline_key :: string
  rq_count :: u32
  rq_expected_epoch :: u64
  rq_expected_route_version :: u64
  rq_client_request_id :: string

record allocate_response =
  rs_timeline_key :: string
  rs_generator_id :: u32
  rs_epoch :: u64
  rs_route_version :: u64
  rs_ranges :: "timestamp_range list"

record decoded_tso =
  dt_physical_ms :: u64
  dt_logical :: u32
  dt_generator_id :: u32
  dt_sequence :: u32

record health_info =
  hi_generator_count :: u32
  hi_timeline_count :: nat
  hi_worker_id :: string
  hi_instance_id :: string
  hi_advertise_endpoint :: string

datatype transfer_reason = Rebalance | Hotspot | Failover | Manual

datatype (plugins only: code size) tso_error =
    TimelineNotFound string
  | RouteVersionMismatch u64 u64
  | EpochMismatch u64 u64
  | InvalidCount
  | InvalidTimelineKey string
  | InvalidClientRequestId string
  | TimelineLimitReached nat
  | BatchTooLarge u32 u32
  | FutureBorrowExceeded u64 u64
  | IssuedUpperBoundExceeded u64 u64
  | GeneratorPoolExhausted
  | SharedGeneratorJumpAheadTooLarge u32 u64 u64
  | RecoveryCatchupBudgetExceeded u32 u64 u64
  | GeneratorIdOutOfRange u32
  | TsoOverflow
  | ClockBackwards u64
  | LeaseExpired string
  | FailoverRequiresExpiredLease string u64
  | FailoverLeaseExpiryUnknown string
  | FailoverMissingRecoveryFloor string u32
  | GeneratorLeaseExpired u32
  | TimelineNotReady string timeline_lifecycle_state
  | TimelineIngressSaturated string nat
  | TimelineRuntimeCacheSaturated string nat
  | AllocationContention u32
  | NotTimelineOwner string
  | NotGeneratorOwner u32 string
  | GeneratorNotOwnedByThisWorker u32 u32 u32
  | GeneratorOwnershipMisconfigured u32 u32
  | InstanceIdentityInUse string
  | TargetGeneratorIdRequired string
  | InvalidResourceTier int
  | InvalidTargetOwnerEndpoint
  | InvalidTransferReason int
  | UnsafeRemoteTransferTarget u32 string
  | Internal string
  | MetadataAlreadyExists
  | CasFailed
  | ClientRequestConflict string string
  | ClientRequestInProgress string string
  | ServiceShuttingDown
  | RequestCancelled

type_synonym 'a tso_result = "tso_error + 'a"

datatype timeline_serving_readiness = Serving | RequiresActivation | NotReady

datatype timeline_public_unavailability = TemporarilyUnavailable

fun serving_readiness :: "timeline_lifecycle_state \<Rightarrow> timeline_serving_readiness" where
  "serving_readiness Active = Serving"
| "serving_readiness Recovering = RequiresActivation"
| "serving_readiness Creating = NotReady"
| "serving_readiness Draining = NotReady"
| "serving_readiness Locked = NotReady"

definition should_activate_locally :: "timeline_lifecycle_state \<Rightarrow> bool" where
  "should_activate_locally s = (serving_readiness s = RequiresActivation)"

definition direct_public_unavailability ::
    "timeline_lifecycle_state \<Rightarrow> timeline_public_unavailability option" where
  "direct_public_unavailability s =
     (case serving_readiness s of
        NotReady \<Rightarrow> Some TemporarilyUnavailable
      | Serving \<Rightarrow> None
      | RequiresActivation \<Rightarrow> None)"

lemma serving_readiness_Serving [simp]: "serving_readiness s = Serving \<longleftrightarrow> s = Active"
  by (cases s) auto

lemma should_activate_locally_iff [simp]: "should_activate_locally s \<longleftrightarrow> s = Recovering"
  by (cases s) (auto simp: should_activate_locally_def)

end
