(* ===== verification/Timestamp.thy ===== *)
theory Timestamp
  imports Types
begin

text \<open>
  The timestamp codec: \<open>timestamp.rs\<close> (the layout of a 64-bit timestamp, its validation, encoding
  and decoding) and \<open>cursor.rs\<close> (the first slot of a generator above a floor). A timestamp is
  physical milliseconds, generator id and sequence number side by side; the lemmas read it as the
  number \<open>physical * 2 ^ (G + S) + generator * 2 ^ S + sequence\<close>, so that comparing timestamps is
  comparing triples.
\<close>

subsection \<open>Layout\<close>

record timestamp_layout =
  lay_format_version :: u32
  lay_epoch_unix_ms :: u64
  lay_physical_bits :: u8
  lay_generator_bits :: u8
  lay_sequence_bits :: u8

datatype layout_validation_error =
    UnsupportedFormatVersion u32 u32
  | ZeroPhysicalBits
  | ZeroSequenceBits
  | InvalidTotalBits u16
  | TooManyGeneratorBits u8
  | TooManySequenceBits u8
  | TooManyLogicalBits u8
  | UnixMillisecondHorizonOverflow

fun layout_error_to_string :: "layout_validation_error \<Rightarrow> string" where
  "layout_error_to_string (UnsupportedFormatVersion actual expected) =
     ''unsupported timestamp layout format version '' @ fmt_dec (unat actual)
       @ ''; expected '' @ fmt_dec (unat expected)"
| "layout_error_to_string ZeroPhysicalBits =
     ''timestamp layout physical_bits must be greater than 0''"
| "layout_error_to_string ZeroSequenceBits =
     ''timestamp layout sequence_bits must be greater than 0''"
| "layout_error_to_string (InvalidTotalBits actual) =
     ''timestamp layout bit widths must total 64, got '' @ fmt_dec (unat actual)"
| "layout_error_to_string (TooManyGeneratorBits actual) =
     ''timestamp layout generator_bits must not exceed 13, got '' @ fmt_dec (unat actual)"
| "layout_error_to_string (TooManySequenceBits actual) =
     ''timestamp layout sequence_bits must not exceed 31, got '' @ fmt_dec (unat actual)"
| "layout_error_to_string (TooManyLogicalBits actual) =
     ''timestamp layout generator_bits + sequence_bits must not exceed 32, got ''
       @ fmt_dec (unat actual)"
| "layout_error_to_string UnixMillisecondHorizonOverflow =
     ''timestamp layout epoch and physical capacity exceed u64 Unix milliseconds''"

definition TIMESTAMP_LAYOUT_FORMAT_VERSION :: u32 where
  "TIMESTAMP_LAYOUT_FORMAT_VERSION = 1"

definition CUSTOM_EPOCH_UNIX_MS :: u64 where
  "CUSTOM_EPOCH_UNIX_MS = 1767225600000"

definition PHYSICAL_BITS :: u32 where "PHYSICAL_BITS = 40"
definition GENERATOR_ID_BITS :: u32 where "GENERATOR_ID_BITS = 13"
definition SEQUENCE_BITS :: u32 where "SEQUENCE_BITS = 11"

definition DEFAULT_TIMESTAMP_LAYOUT :: timestamp_layout where
  "DEFAULT_TIMESTAMP_LAYOUT =
     \<lparr> lay_format_version = TIMESTAMP_LAYOUT_FORMAT_VERSION,
       lay_epoch_unix_ms = CUSTOM_EPOCH_UNIX_MS,
       lay_physical_bits = ucast PHYSICAL_BITS,
       lay_generator_bits = ucast GENERATOR_ID_BITS,
       lay_sequence_bits = ucast SEQUENCE_BITS \<rparr>"

definition logical_bits :: "timestamp_layout \<Rightarrow> u8" where
  "logical_bits l = lay_generator_bits l + lay_sequence_bits l"

definition max_generators :: "timestamp_layout \<Rightarrow> u32" where
  "max_generators l = shl 1 (lay_generator_bits l)"

definition sequence_capacity :: "timestamp_layout \<Rightarrow> u32" where
  "sequence_capacity l = shl 1 (lay_sequence_bits l)"

definition max_physical_ms :: "timestamp_layout \<Rightarrow> u64" where
  "max_physical_ms l = shl 1 (lay_physical_bits l) - 1"

definition max_unix_ms :: "timestamp_layout \<Rightarrow> u64" where
  "max_unix_ms l = lay_epoch_unix_ms l + max_physical_ms l"

definition layout_validate :: "timestamp_layout \<Rightarrow> layout_validation_error + unit" where
  "layout_validate l =
     (if lay_format_version l \<noteq> TIMESTAMP_LAYOUT_FORMAT_VERSION
      then Inl (UnsupportedFormatVersion (lay_format_version l) TIMESTAMP_LAYOUT_FORMAT_VERSION)
      else if lay_physical_bits l = 0 then Inl ZeroPhysicalBits
      else if lay_sequence_bits l = 0 then Inl ZeroSequenceBits
      else if 13 < lay_generator_bits l then Inl (TooManyGeneratorBits (lay_generator_bits l))
      else if 31 < lay_sequence_bits l then Inl (TooManySequenceBits (lay_sequence_bits l))
      else let logical_bits = lay_generator_bits l + lay_sequence_bits l in
        if 32 < logical_bits then Inl (TooManyLogicalBits logical_bits)
        else let total_bits = ucast (lay_physical_bits l) + ucast (lay_generator_bits l)
                           + ucast (lay_sequence_bits l) :: u16 in
          if total_bits \<noteq> 64 then Inl (InvalidTotalBits total_bits)
          else if checked_add (lay_epoch_unix_ms l) (max_physical_ms l) = None
          then Inl UnixMillisecondHorizonOverflow
          else Inr ())"

definition layout_new ::
    "u64 \<Rightarrow> u8 \<Rightarrow> u8 \<Rightarrow> u8 \<Rightarrow> layout_validation_error + timestamp_layout" where
  "layout_new epoch_unix_ms physical_bits generator_bits sequence_bits =
     (let layout = \<lparr> lay_format_version = TIMESTAMP_LAYOUT_FORMAT_VERSION,
                     lay_epoch_unix_ms = epoch_unix_ms,
                     lay_physical_bits = physical_bits,
                     lay_generator_bits = generator_bits,
                     lay_sequence_bits = sequence_bits \<rparr>
      in and_then (layout_validate layout) (\<lambda>_. Inr layout))"

definition layout_deserialize :: "timestamp_layout \<Rightarrow> layout_validation_error + timestamp_layout" where
  \<comment> \<open>the serialized form has the same fields; decoding re-validates them\<close>
  "layout_deserialize serialized =
     (let layout = \<lparr> lay_format_version = lay_format_version serialized,
                     lay_epoch_unix_ms = lay_epoch_unix_ms serialized,
                     lay_physical_bits = lay_physical_bits serialized,
                     lay_generator_bits = lay_generator_bits serialized,
                     lay_sequence_bits = lay_sequence_bits serialized \<rparr>
      in and_then (layout_validate layout) (\<lambda>_. Inr layout))"

subsection \<open>Capacity envelope\<close>

record tso_capacity_envelope =
  env_custom_epoch_unix_ms :: u64
  env_max_supported_unix_ms :: u64
  env_lifetime_ms :: u64
  env_max_physical_ms :: u64
  env_max_generators :: u32
  env_per_generator_per_ms_capacity :: u32
  env_cluster_per_ms_capacity_ceiling :: u64

datatype tso_unix_ms_boundary = BeforeCustomEpoch | BeyondCapacityEnvelope

definition capacity_envelope :: "timestamp_layout \<Rightarrow> tso_capacity_envelope" where
  "capacity_envelope l =
     \<lparr> env_custom_epoch_unix_ms = lay_epoch_unix_ms l,
       env_max_supported_unix_ms = max_unix_ms l,
       env_lifetime_ms = max_physical_ms l + 1,
       env_max_physical_ms = max_physical_ms l,
       env_max_generators = max_generators l,
       env_per_generator_per_ms_capacity = sequence_capacity l,
       env_cluster_per_ms_capacity_ceiling =
         ucast (max_generators l) * ucast (sequence_capacity l) \<rparr>"

definition first_unencodable_unix_ms :: "tso_capacity_envelope \<Rightarrow> u64" where
  "first_unencodable_unix_ms e = saturating_add (env_max_supported_unix_ms e) 1"

definition first_unencodable_physical_ms :: "tso_capacity_envelope \<Rightarrow> u64" where
  "first_unencodable_physical_ms e = env_max_physical_ms e + 1"

definition checked_physical_ms_from_unix_ms ::
    "timestamp_layout \<Rightarrow> u64 \<Rightarrow> tso_unix_ms_boundary + u64" where
  "checked_physical_ms_from_unix_ms l unix_ms =
     (if unix_ms < lay_epoch_unix_ms l then Inl BeforeCustomEpoch
      else if max_unix_ms l < unix_ms then Inl BeyondCapacityEnvelope
      else Inr (unix_ms - lay_epoch_unix_ms l))"

subsection \<open>Encoding and decoding\<close>

definition encode :: "timestamp_layout \<Rightarrow> u64 \<Rightarrow> u32 \<Rightarrow> u32 \<Rightarrow> u64 tso_result" where
  "encode l physical_ms generator_id sequence =
     (case layout_validate l of
        Inl error \<Rightarrow> Inl (Internal (layout_error_to_string error))
      | Inr _ \<Rightarrow>
          if max_physical_ms l < physical_ms then Inl TsoOverflow
          else if max_generators l \<le> generator_id then Inl (GeneratorIdOutOfRange generator_id)
          else if sequence_capacity l \<le> sequence then Inl TsoOverflow
          else Inr (shl physical_ms (logical_bits l)
                    OR shl (ucast generator_id) (lay_sequence_bits l)
                    OR ucast sequence))"

definition decode :: "timestamp_layout \<Rightarrow> u64 \<Rightarrow> decoded_tso" where
  "decode l tso =
     (let generator_mask = ucast (max_generators l - 1) :: u64;
          sequence_mask = ucast (sequence_capacity l - 1) :: u64;
          logical_mask = shl 1 (logical_bits l) - 1 :: u64
      in \<lparr> dt_physical_ms = shr tso (logical_bits l),
           dt_logical = ucast (tso AND logical_mask),
           dt_generator_id = ucast (shr tso (lay_sequence_bits l) AND generator_mask),
           dt_sequence = ucast (tso AND sequence_mask) \<rparr>)"

definition encode_tso :: "u64 \<Rightarrow> u32 \<Rightarrow> u32 \<Rightarrow> u64 tso_result" where
  "encode_tso physical_ms generator_id sequence =
     encode DEFAULT_TIMESTAMP_LAYOUT physical_ms generator_id sequence"

definition decode_tso :: "u64 \<Rightarrow> decoded_tso" where
  "decode_tso tso = decode DEFAULT_TIMESTAMP_LAYOUT tso"

subsection \<open>Cursor\<close>

record cursor =
  cu_physical_ms :: u64
  cu_sequence :: u32

definition next_cursor_after_with_layout ::
    "timestamp_layout \<Rightarrow> u64 \<Rightarrow> u32 \<Rightarrow> cursor tso_result" where
  "next_cursor_after_with_layout l tso_floor target_generator_id =
     (let floor = decode l tso_floor in
      if dt_generator_id floor < target_generator_id
      then Inr \<lparr> cu_physical_ms = dt_physical_ms floor, cu_sequence = 0 \<rparr>
      else if target_generator_id = dt_generator_id floor
      then (if dt_sequence floor + 1 < sequence_capacity l
            then Inr \<lparr> cu_physical_ms = dt_physical_ms floor, cu_sequence = dt_sequence floor + 1 \<rparr>
            else and_then (ok_or TsoOverflow (checked_add (dt_physical_ms floor) 1))
                   (\<lambda>physical_ms. Inr \<lparr> cu_physical_ms = physical_ms, cu_sequence = 0 \<rparr>))
      else and_then (ok_or TsoOverflow (checked_add (dt_physical_ms floor) 1))
             (\<lambda>physical_ms. Inr \<lparr> cu_physical_ms = physical_ms, cu_sequence = 0 \<rparr>))"

subsection \<open>Widths of a valid layout\<close>

abbreviation layout_valid :: "timestamp_layout \<Rightarrow> bool" where
  "layout_valid l \<equiv> layout_validate l = Inr ()"

abbreviation phys_w :: "timestamp_layout \<Rightarrow> nat" where "phys_w l \<equiv> unat (lay_physical_bits l)"
abbreviation gen_w :: "timestamp_layout \<Rightarrow> nat" where "gen_w l \<equiv> unat (lay_generator_bits l)"
abbreviation seq_w :: "timestamp_layout \<Rightarrow> nat" where "seq_w l \<equiv> unat (lay_sequence_bits l)"

lemma unat_shl_one: "unat n < LENGTH('a) \<Longrightarrow> unat (shl (1 :: 'a::len word) n) = 2 ^ unat n"
  using unat_one_push_bit [of "unat n", where ?'a = 'a] by (simp only: shl_def mod_less)

lemma unat_shl: "unat n < LENGTH('a) \<Longrightarrow> unat w * 2 ^ unat n < 2 ^ LENGTH('a) \<Longrightarrow>
    unat (shl (w :: 'a::len word) n) = unat w * 2 ^ unat n"
  by (simp add: shl_def unat_push_bit_small)

lemma unat_shr: "unat n < LENGTH('a) \<Longrightarrow> unat (shr (w :: 'a::len word) n) = unat w div 2 ^ unat n"
  by (simp add: shr_def unat_drop_bit)

lemma unat_ucast_8_16: "unat (ucast (x :: u8) :: u16) = unat x"
  by (simp add: unsigned_ucast_eq take_bit_nat_eq_self less_trans [OF unat_lt8])

lemma unat_ucast_32_64 [simp]: "unat (ucast (x :: u32) :: u64) = unat x"
  by (simp add: unsigned_ucast_eq take_bit_nat_eq_self less_trans [OF unat_lt32])

lemma unat_ucast_64_32: "unat (x :: u64) < 2 ^ 32 \<Longrightarrow> unat (ucast x :: u32) = unat x"
  by (simp add: unsigned_ucast_eq take_bit_nat_eq_self)

lemma layout_valid_bits:
  assumes "layout_valid l"
  shows "0 < seq_w l" "seq_w l \<le> 31" "gen_w l \<le> 13" "gen_w l + seq_w l \<le> 32"
    "phys_w l + gen_w l + seq_w l = 64"
proof -
  let ?p = "lay_physical_bits l" and ?g = "lay_generator_bits l" and ?s = "lay_sequence_bits l"
  from assms have s: "?s \<noteq> 0" and g: "\<not> 13 < ?g" and s31: "\<not> 31 < ?s" and gs: "\<not> 32 < ?g + ?s"
    and t: "(ucast ?p + ucast ?g + ucast ?s :: u16) = 64"
    by (auto simp: layout_validate_def Let_def split: if_splits)
  show "0 < seq_w l" using s by (simp add: unat_gt_0)
  show s31': "seq_w l \<le> 31" and g': "gen_w l \<le> 13"
    using g s31 by (simp_all add: word_less_nat_alt)
  have "unat (?g + ?s) = gen_w l + seq_w l" by (rule unat_add_small) (use s31' g' in simp)
  with gs show "gen_w l + seq_w l \<le> 32" by (simp add: word_less_nat_alt)
  have "phys_w l \<le> 255" using unat_lt8 [of ?p] by linarith
  then have "unat (ucast ?p + ucast ?g + ucast ?s :: u16) = phys_w l + gen_w l + seq_w l"
    using s31' g'
    by (subst unat_add_small; (subst unat_add_small)?; (subst unat_add_small)?; simp add: unat_ucast_8_16)
  with t show "phys_w l + gen_w l + seq_w l = 64" by simp
qed

lemma layout_valid_phys: "layout_valid l \<Longrightarrow> 32 \<le> phys_w l \<and> phys_w l \<le> 63"
  using layout_valid_bits [of l] by linarith

lemma unat_logical_bits: "layout_valid l \<Longrightarrow> unat (logical_bits l) = gen_w l + seq_w l"
  unfolding logical_bits_def using layout_valid_bits [of l] by (intro unat_add_small) simp

lemma unat_max_generators: "layout_valid l \<Longrightarrow> unat (max_generators l) = 2 ^ gen_w l"
  unfolding max_generators_def using layout_valid_bits [of l] by (intro unat_shl_one) simp

lemma unat_sequence_capacity: "layout_valid l \<Longrightarrow> unat (sequence_capacity l) = 2 ^ seq_w l"
  unfolding sequence_capacity_def using layout_valid_bits [of l] by (intro unat_shl_one) simp

lemma unat_max_physical_ms:
  assumes "layout_valid l" shows "unat (max_physical_ms l) = 2 ^ phys_w l - 1"
proof -
  have "unat (shl 1 (lay_physical_bits l) :: u64) = 2 ^ phys_w l"
    using layout_valid_phys [OF assms] by (intro unat_shl_one) simp
  then show ?thesis unfolding max_physical_ms_def
    by (subst unat_sub) (simp_all add: word_le_nat_alt)
qed

lemma layout_valid_horizon:
  assumes "layout_valid l"
  shows "unat (lay_epoch_unix_ms l) + (2 ^ phys_w l - 1) < 2 ^ 64"
proof -
  from assms have "checked_add (lay_epoch_unix_ms l) (max_physical_ms l) \<noteq> None"
    by (auto simp: layout_validate_def Let_def split: if_splits)
  then show ?thesis by (simp add: checked_add_None unat_max_physical_ms [OF assms] not_le)
qed

lemma unat_max_unix_ms:
  "layout_valid l \<Longrightarrow> unat (max_unix_ms l) = unat (lay_epoch_unix_ms l) + (2 ^ phys_w l - 1)"
  unfolding max_unix_ms_def using layout_valid_horizon [of l]
  by (simp add: unat_add_small unat_max_physical_ms)

lemmas layout_widths =
  unat_logical_bits unat_max_generators unat_sequence_capacity unat_max_physical_ms unat_max_unix_ms

lemmas default_layout_defs =
  DEFAULT_TIMESTAMP_LAYOUT_def TIMESTAMP_LAYOUT_FORMAT_VERSION_def CUSTOM_EPOCH_UNIX_MS_def
  PHYSICAL_BITS_def GENERATOR_ID_BITS_def SEQUENCE_BITS_def

lemma default_layout_valid: "layout_valid DEFAULT_TIMESTAMP_LAYOUT"
  by (simp add: layout_validate_def default_layout_defs max_physical_ms_def shl_def checked_add_def
      push_bit_eq_mult)

lemma default_layout_lit:
  "DEFAULT_TIMESTAMP_LAYOUT = \<lparr> lay_format_version = 1, lay_epoch_unix_ms = 1767225600000,
     lay_physical_bits = 40, lay_generator_bits = 13, lay_sequence_bits = 11 \<rparr>"
  by (simp add: default_layout_defs)

lemmas default_layout_valid_lit = default_layout_valid [unfolded default_layout_lit]

subsection \<open>Timestamps as numbers\<close>

definition tso_nat :: "timestamp_layout \<Rightarrow> nat \<Rightarrow> nat \<Rightarrow> nat \<Rightarrow> nat" where
  \<comment> \<open>the number a timestamp stands for\<close>
  "tso_nat l p g s = p * 2 ^ (gen_w l + seq_w l) + g * 2 ^ seq_w l + s"

lemma logical_part_bound:
  assumes "g < 2 ^ gen_w l" "s < 2 ^ seq_w l"
  shows "g * 2 ^ seq_w l + s < (2 :: nat) ^ (gen_w l + seq_w l)"
proof -
  have "g * 2 ^ seq_w l + s < (g + 1) * 2 ^ seq_w l" using assms(2) by simp
  also have "\<dots> \<le> 2 ^ gen_w l * 2 ^ seq_w l" using assms(1) by (intro mult_right_mono) auto
  finally show ?thesis by (simp add: power_add)
qed

lemma tso_nat_bound:
  assumes "layout_valid l" "p < 2 ^ phys_w l" "g < 2 ^ gen_w l" "s < 2 ^ seq_w l"
  shows "tso_nat l p g s < 2 ^ 64"
proof -
  let ?L = "gen_w l + seq_w l"
  have "tso_nat l p g s < (p + 1) * 2 ^ ?L"
    using logical_part_bound [OF assms(3,4)] by (simp add: tso_nat_def)
  also have "\<dots> \<le> 2 ^ phys_w l * 2 ^ ?L" using assms(2) by (intro mult_right_mono) auto
  also have "\<dots> = 2 ^ (phys_w l + gen_w l + seq_w l)" by (simp add: power_add)
  also have "\<dots> = 2 ^ 64" by (simp only: layout_valid_bits(5) [OF assms(1)])
  finally show ?thesis .
qed

lemma encode_bits:
  assumes v: "layout_valid l" and p: "unat p < 2 ^ phys_w l" and g: "unat g < 2 ^ gen_w l"
    and s: "unat s < 2 ^ seq_w l"
  shows "unat (shl p (logical_bits l) OR shl (ucast g) (lay_sequence_bits l) OR ucast s)
           = tso_nat l (unat (p :: u64)) (unat (g :: u32)) (unat (s :: u32))"
proof -
  note b = layout_valid_bits [OF v] and L = unat_logical_bits [OF v]
  have bound: "tso_nat l (unat p) (unat g) (unat s) < 2 ^ LENGTH(64)"
    using tso_nat_bound [OF v p g s] by simp
  then have "unat p * 2 ^ (gen_w l + seq_w l) < 2 ^ LENGTH(64)" "unat g * 2 ^ seq_w l < 2 ^ LENGTH(64)"
    unfolding tso_nat_def by linarith+
  then have P: "unat (shl p (logical_bits l)) = unat p * 2 ^ (gen_w l + seq_w l)"
    and G: "unat (shl (ucast g :: u64) (lay_sequence_bits l)) = unat g * 2 ^ seq_w l"
    using b L by (simp_all add: unat_shl)
  have S: "unat (ucast s :: u64) < 2 ^ seq_w l" using s by simp
  have GS: "unat (shl (ucast g :: u64) (lay_sequence_bits l) OR ucast s)
      = unat g * 2 ^ seq_w l + unat s"
    by (subst or_eq_plus_nat [OF S]) (simp_all add: G)
  show ?thesis
    by (subst or_eq_plus_nat [of _ "gen_w l + seq_w l"])
      (simp_all add: GS P tso_nat_def logical_part_bound [OF g s])
qed

lemma encode_Inr_iff:
  assumes "layout_valid l"
  shows "encode l p g s = Inr t \<longleftrightarrow>
    unat p < 2 ^ phys_w l \<and> unat g < 2 ^ gen_w l \<and> unat s < 2 ^ seq_w l
    \<and> unat t = tso_nat l (unat p) (unat g) (unat s)"
proof -
  have "max_physical_ms l < p \<longleftrightarrow> \<not> unat p < 2 ^ phys_w l"
    unfolding word_less_nat_alt unat_max_physical_ms [OF assms]
    using zero_less_power [of "2 :: nat" "phys_w l"] by linarith
  moreover have "max_generators l \<le> g \<longleftrightarrow> \<not> unat g < 2 ^ gen_w l"
    and "sequence_capacity l \<le> s \<longleftrightarrow> \<not> unat s < 2 ^ seq_w l"
    using assms by (auto simp: word_le_nat_alt layout_widths)
  ultimately show ?thesis
    using assms encode_bits [OF assms, of p g s]
    by (auto simp: encode_def word_unat_eq_iff)
qed

lemma encode_total:
  assumes "layout_valid l" "unat p < 2 ^ phys_w l" "unat g < 2 ^ gen_w l" "unat s < 2 ^ seq_w l"
  obtains t where "encode l p g s = Inr t" "unat t = tso_nat l (unat p) (unat g) (unat s)"
  using assms encode_Inr_iff [of l p g s
      "shl p (logical_bits l) OR shl (ucast g) (lay_sequence_bits l) OR ucast s"]
    encode_bits [of l p g s] by auto

lemma decode_physical:
  "layout_valid l \<Longrightarrow> unat (dt_physical_ms (decode l t)) = unat t div 2 ^ (gen_w l + seq_w l)"
  using layout_valid_bits [of l] by (simp add: decode_def unat_shr unat_logical_bits)

lemma decode_logical:
  assumes "layout_valid l"
  shows "unat (dt_logical (decode l t)) = unat t mod 2 ^ (gen_w l + seq_w l)"
proof -
  note b = layout_valid_bits [OF assms]
  have "unat (shl 1 (logical_bits l) - 1 :: u64) = 2 ^ (gen_w l + seq_w l) - 1"
    using b by (subst unat_sub) (simp_all add: unat_shl_one unat_logical_bits assms word_le_nat_alt)
  then have m: "unat (t AND (shl 1 (logical_bits l) - 1)) = unat t mod 2 ^ (gen_w l + seq_w l)"
    using b by (intro unat_and_mask') simp_all
  have "unat t mod 2 ^ (gen_w l + seq_w l) < (2 :: nat) ^ (gen_w l + seq_w l)" by simp
  also have "\<dots> \<le> 2 ^ 32" using b(4) by (intro power_increasing) simp_all
  finally show ?thesis by (simp add: decode_def unat_ucast_64_32 m)
qed

lemma decode_generator:
  assumes "layout_valid l"
  shows "unat (dt_generator_id (decode l t)) = unat t div 2 ^ seq_w l mod 2 ^ gen_w l"
proof -
  note b = layout_valid_bits [OF assms]
  have "unat (ucast (max_generators l - 1) :: u64) = 2 ^ gen_w l - 1"
    using assms by (simp, subst unat_sub) (simp_all add: unat_max_generators word_le_nat_alt)
  then have m: "unat (shr t (lay_sequence_bits l) AND ucast (max_generators l - 1))
      = unat t div 2 ^ seq_w l mod 2 ^ gen_w l"
    using b by (subst unat_and_mask') (simp_all add: unat_shr)
  have "unat t div 2 ^ seq_w l mod 2 ^ gen_w l < (2 :: nat) ^ gen_w l" by simp
  also have "\<dots> \<le> 2 ^ 32" using b(3) by (intro power_increasing) simp_all
  finally show ?thesis by (simp add: decode_def unat_ucast_64_32 m)
qed

lemma decode_sequence:
  assumes "layout_valid l"
  shows "unat (dt_sequence (decode l t)) = unat t mod 2 ^ seq_w l"
proof -
  note b = layout_valid_bits [OF assms]
  have "unat (ucast (sequence_capacity l - 1) :: u64) = 2 ^ seq_w l - 1"
    using assms by (simp, subst unat_sub) (simp_all add: unat_sequence_capacity word_le_nat_alt)
  then have m: "unat (t AND ucast (sequence_capacity l - 1)) = unat t mod 2 ^ seq_w l"
    using b by (intro unat_and_mask') simp_all
  have "unat t mod 2 ^ seq_w l < (2 :: nat) ^ seq_w l" by simp
  also have "\<dots> \<le> 2 ^ 32" using b(2) by (intro power_increasing) simp_all
  finally show ?thesis by (simp add: decode_def unat_ucast_64_32 m)
qed

lemmas decode_fields = decode_physical decode_logical decode_generator decode_sequence

lemma decode_bounds:
  assumes "layout_valid l"
  shows "unat (dt_physical_ms (decode l t)) < 2 ^ phys_w l"
    "unat (dt_generator_id (decode l t)) < 2 ^ gen_w l"
    "unat (dt_sequence (decode l t)) < 2 ^ seq_w l"
proof -
  have "unat t < 2 ^ phys_w l * 2 ^ (gen_w l + seq_w l)"
    unfolding power_add [symmetric] add.assoc [symmetric] layout_valid_bits(5) [OF assms] by simp
  then show "unat (dt_physical_ms (decode l t)) < 2 ^ phys_w l"
    by (simp add: decode_physical assms less_mult_imp_div_less)
qed (simp_all add: decode_fields assms)

lemma div_mod_two_fields: "n div 2 ^ (a + b) * 2 ^ (a + b) + n div 2 ^ b mod 2 ^ a * 2 ^ b + n mod 2 ^ b
    = (n :: nat)"
proof -
  have "n div 2 ^ b = n div 2 ^ (a + b) * 2 ^ a + n div 2 ^ b mod 2 ^ a"
    by (metis add.commute div_mult2_eq div_mult_mod_eq power_add)
  then have "n div 2 ^ b * 2 ^ b
      = n div 2 ^ (a + b) * 2 ^ (a + b) + n div 2 ^ b mod 2 ^ a * 2 ^ b"
    by (metis add_mult_distrib mult.assoc power_add)
  then show ?thesis by (metis div_mult_mod_eq)
qed

lemma tso_nat_decode:
  "layout_valid l \<Longrightarrow> tso_nat l (unat (dt_physical_ms (decode l t)))
     (unat (dt_generator_id (decode l t))) (unat (dt_sequence (decode l t))) = unat t"
  by (simp add: tso_nat_def decode_fields div_mod_two_fields)

lemma tso_nat_less_iff:
  assumes "g < 2 ^ gen_w l" "s < 2 ^ seq_w l" "g' < 2 ^ gen_w l" "s' < 2 ^ seq_w l"
  shows "tso_nat l p g s < tso_nat l p' g' s' \<longleftrightarrow> p < p' \<or> p = p' \<and> (g < g' \<or> g = g' \<and> s < s')"
  using mult_add_less_iff [OF logical_part_bound [OF assms(1,2)] logical_part_bound [OF assms(3,4)]]
    mult_add_less_iff [OF assms(2,4)]
  by (simp add: tso_nat_def add.assoc)

lemma tso_nat_eq_iff:
  assumes "g < 2 ^ gen_w l" "s < 2 ^ seq_w l" "g' < 2 ^ gen_w l" "s' < 2 ^ seq_w l"
  shows "tso_nat l p g s = tso_nat l p' g' s' \<longleftrightarrow> p = p' \<and> g = g' \<and> s = s'"
  using tso_nat_less_iff [OF assms, of p p']
    tso_nat_less_iff [OF assms(3,4) assms(1,2), of p' p] by (metis linorder_neq_iff)

lemma encode_decode:
  assumes "layout_valid l"
  shows "encode l (dt_physical_ms (decode l t)) (dt_generator_id (decode l t))
           (dt_sequence (decode l t)) = Inr t"
  using decode_bounds [OF assms] by (simp add: encode_Inr_iff assms tso_nat_decode)

lemma encode_inj:
  assumes "layout_valid l" "encode l p g s = Inr t" "encode l p' g' s' = Inr t"
  shows "p = p' \<and> g = g' \<and> s = s'"
proof -
  from assms have "tso_nat l (unat p) (unat g) (unat s) = tso_nat l (unat p') (unat g') (unat s')"
    and "unat g < 2 ^ gen_w l" "unat s < 2 ^ seq_w l" "unat g' < 2 ^ gen_w l" "unat s' < 2 ^ seq_w l"
    by (simp_all add: encode_Inr_iff)
  then show ?thesis by (simp add: tso_nat_eq_iff word_unat_eq_iff)
qed

lemma decode_encode:
  assumes "layout_valid l" "encode l p g s = Inr t"
  shows "dt_physical_ms (decode l t) = p" "dt_generator_id (decode l t) = g"
    "dt_sequence (decode l t) = s"
  using encode_inj [OF assms encode_decode [OF assms(1), of t]] by simp_all

lemma encode_less_iff:
  assumes "layout_valid l" "encode l p g s = Inr t" "encode l p' g' s' = Inr t'"
  shows "t < t' \<longleftrightarrow> p < p' \<or> p = p' \<and> (g < g' \<or> g = g' \<and> s < s')"
  using assms by (simp add: encode_Inr_iff word_less_nat_alt word_unat_eq_iff tso_nat_less_iff)

subsection \<open>The cursor above a floor\<close>

lemma unat_physical_succ:
  assumes "layout_valid l" "unat (p :: u64) < 2 ^ phys_w l"
  shows "checked_add p 1 = Some (p + 1)" "unat (p + 1) = unat p + 1"
proof -
  have "(2 :: nat) ^ phys_w l \<le> 2 ^ 63" using layout_valid_phys [OF assms(1)]
    by (intro power_increasing) simp_all
  with assms(2) have "unat p + unat (1 :: u64) < 2 ^ LENGTH(64)" by simp
  then show "checked_add p 1 = Some (p + 1)" "unat (p + 1) = unat p + 1"
    by (simp_all add: checked_add_def unat_add_small)
qed

lemma unat_sequence_succ:
  assumes "layout_valid l" "unat (s :: u32) < 2 ^ seq_w l"
  shows "unat (s + 1) = unat s + 1"
proof -
  have "(2 :: nat) ^ seq_w l \<le> 2 ^ 31" using layout_valid_bits(2) [OF assms(1)]
    by (intro power_increasing) simp_all
  with assms(2) have "unat s + unat (1 :: u32) < 2 ^ LENGTH(32)" by simp
  then show ?thesis by (simp add: unat_add_small)
qed

lemma next_cursor_cases:
  assumes "layout_valid l"
  obtains c where "next_cursor_after_with_layout l f g = Inr c"
    and "dt_generator_id (decode l f) < g \<Longrightarrow>
           unat (cu_physical_ms c) = unat (dt_physical_ms (decode l f)) \<and> unat (cu_sequence c) = 0"
    and "g = dt_generator_id (decode l f) \<Longrightarrow>
           unat (dt_sequence (decode l f)) + 1 < 2 ^ seq_w l \<Longrightarrow>
           unat (cu_physical_ms c) = unat (dt_physical_ms (decode l f))
           \<and> unat (cu_sequence c) = unat (dt_sequence (decode l f)) + 1"
    and "g < dt_generator_id (decode l f) \<or> g = dt_generator_id (decode l f)
           \<and> unat (dt_sequence (decode l f)) + 1 = 2 ^ seq_w l \<Longrightarrow>
           unat (cu_physical_ms c) = unat (dt_physical_ms (decode l f)) + 1 \<and> unat (cu_sequence c) = 0"
proof -
  let ?d = "decode l f"
  note b = decode_bounds [OF assms, of f]
  note su = unat_physical_succ [OF assms b(1)] unat_sequence_succ [OF assms b(3)]
  have cap: "dt_sequence ?d + 1 < sequence_capacity l \<longleftrightarrow> unat (dt_sequence ?d) + 1 < 2 ^ seq_w l"
    by (simp add: word_less_nat_alt su unat_sequence_capacity [OF assms])
  show thesis
    by (rule that [of "case next_cursor_after_with_layout l f g of Inr c \<Rightarrow> c"])
      (auto simp: next_cursor_after_with_layout_def Let_def cap su)
qed

lemma next_cursor_least_nat:
  assumes v: "layout_valid l" and g: "unat g < 2 ^ gen_w l"
  obtains c where "next_cursor_after_with_layout l f g = Inr c"
    and "unat (cu_sequence c) < 2 ^ seq_w l"
    and "unat f < tso_nat l (unat (cu_physical_ms c)) (unat g) (unat (cu_sequence c))"
    and "\<And>p s. s < 2 ^ seq_w l \<Longrightarrow> unat f < tso_nat l p (unat g) s \<Longrightarrow>
           tso_nat l (unat (cu_physical_ms c)) (unat g) (unat (cu_sequence c)) \<le> tso_nat l p (unat g) s"
proof -
  let ?d = "decode l f"
  note b = decode_bounds [OF v, of f]
  obtain c where c: "next_cursor_after_with_layout l f g = Inr c"
    "dt_generator_id ?d < g \<Longrightarrow>
       unat (cu_physical_ms c) = unat (dt_physical_ms ?d) \<and> unat (cu_sequence c) = 0"
    "g = dt_generator_id ?d \<Longrightarrow> unat (dt_sequence ?d) + 1 < 2 ^ seq_w l \<Longrightarrow>
       unat (cu_physical_ms c) = unat (dt_physical_ms ?d)
       \<and> unat (cu_sequence c) = unat (dt_sequence ?d) + 1"
    "g < dt_generator_id ?d \<or> g = dt_generator_id ?d \<and> unat (dt_sequence ?d) + 1 = 2 ^ seq_w l \<Longrightarrow>
       unat (cu_physical_ms c) = unat (dt_physical_ms ?d) + 1 \<and> unat (cu_sequence c) = 0"
    by (rule next_cursor_cases [OF v, of f g]) blast
  have f_less: "unat f < tso_nat l p (unat g) s \<longleftrightarrow>
      unat (dt_physical_ms ?d) < p \<or> unat (dt_physical_ms ?d) = p \<and>
        (dt_generator_id ?d < g \<or> g = dt_generator_id ?d \<and> unat (dt_sequence ?d) < s)"
    if "s < 2 ^ seq_w l" for p s
    using tso_nat_less_iff [OF b(2,3) g that, of "unat (dt_physical_ms ?d)" p]
    unfolding tso_nat_decode [OF v, of f] by (auto simp: word_less_nat_alt word_unat_eq_iff)
  consider "dt_generator_id ?d < g" | "g = dt_generator_id ?d" "unat (dt_sequence ?d) + 1 < 2 ^ seq_w l"
    | "g < dt_generator_id ?d \<or> g = dt_generator_id ?d \<and> unat (dt_sequence ?d) + 1 = 2 ^ seq_w l"
    using b(3) by (metis Suc_eq_plus1 Suc_lessI linorder_neqE)
  then have "unat (cu_sequence c) < 2 ^ seq_w l
    \<and> unat f < tso_nat l (unat (cu_physical_ms c)) (unat g) (unat (cu_sequence c))
    \<and> (\<forall>p s. s < 2 ^ seq_w l \<longrightarrow> unat f < tso_nat l p (unat g) s \<longrightarrow>
         \<not> tso_nat l p (unat g) s < tso_nat l (unat (cu_physical_ms c)) (unat g) (unat (cu_sequence c)))"
    by cases (use c b g f_less in \<open>auto simp: tso_nat_less_iff\<close>)
  with c(1) that show thesis by (meson not_less)
qed

subsection \<open>Properties of the codec\<close>

text \<open>
  C9: under a valid layout the codec is a bijection. Every 64-bit timestamp decodes to fields that
  encode back to it, and fields that encode are exactly the fields of the decoded timestamp.
\<close>
theorem codec_roundtrip:
  assumes "layout_valid l"
  shows "encode l (dt_physical_ms (decode l t)) (dt_generator_id (decode l t))
           (dt_sequence (decode l t)) = Inr t
    \<and> (encode l p g s = Inr t \<longleftrightarrow>
           dt_physical_ms (decode l t) = p \<and> dt_generator_id (decode l t) = g
           \<and> dt_sequence (decode l t) = s)"
  using encode_decode [OF assms] decode_encode [OF assms, of p g s t] by auto

theorem codec_roundtrip_witness:
  "encode DEFAULT_TIMESTAMP_LAYOUT 5 7 9 = Inr (5 * 2 ^ 24 + 7 * 2 ^ 11 + 9)
   \<and> dt_generator_id (decode DEFAULT_TIMESTAMP_LAYOUT (5 * 2 ^ 24 + 7 * 2 ^ 11 + 9)) = 7"
proof -
  have e: "encode DEFAULT_TIMESTAMP_LAYOUT 5 7 9 = Inr (5 * 2 ^ 24 + 7 * 2 ^ 11 + 9)"
    by (simp add: encode_Inr_iff [OF default_layout_valid])
      (simp add: default_layout_defs tso_nat_def)
  then show ?thesis
    using codec_roundtrip [OF default_layout_valid, of "5 * 2 ^ 24 + 7 * 2 ^ 11 + 9" 5 7 9]
    by simp
qed

text \<open>
  Timestamps order like their fields: physical time first, then generator id, then sequence
  number. In particular distinct fields never share a timestamp.
\<close>
theorem encode_order:
  assumes "layout_valid l" "encode l p g s = Inr t" "encode l p' g' s' = Inr t'"
  shows "(t < t' \<longleftrightarrow> p < p' \<or> p = p' \<and> (g < g' \<or> g = g' \<and> s < s'))
    \<and> (t = t' \<longleftrightarrow> p = p' \<and> g = g' \<and> s = s')"
  using encode_less_iff [OF assms] assms encode_inj [OF assms(1)] by auto

theorem encode_order_witness:
  "encode DEFAULT_TIMESTAMP_LAYOUT 5 7 9 = Inr 83900425
   \<and> encode DEFAULT_TIMESTAMP_LAYOUT 5 8 0 = Inr 83902464 \<and> (83900425 :: u64) < 83902464"
proof -
  have "encode DEFAULT_TIMESTAMP_LAYOUT 5 7 9 = Inr 83900425"
    "encode DEFAULT_TIMESTAMP_LAYOUT 5 8 0 = Inr 83902464"
    by (simp_all add: encode_Inr_iff [OF default_layout_valid])
      (simp_all add: default_layout_defs tso_nat_def)
  with encode_order [OF default_layout_valid this] show ?thesis by simp
qed

text \<open>
  A valid layout maps exactly the Unix milliseconds of its window
  \<open>[epoch, epoch + 2 ^ physical_bits)\<close> to encodable physical times; times before and after the
  window are reported with the boundary they cross.
\<close>
theorem checked_physical_ms_window:
  assumes "layout_valid l"
  shows "(checked_physical_ms_from_unix_ms l u = Inl BeforeCustomEpoch
            \<longleftrightarrow> unat u < unat (lay_epoch_unix_ms l))
    \<and> (checked_physical_ms_from_unix_ms l u = Inl BeyondCapacityEnvelope
            \<longleftrightarrow> unat (lay_epoch_unix_ms l) + 2 ^ phys_w l \<le> unat u)
    \<and> (checked_physical_ms_from_unix_ms l u = Inr p
            \<longleftrightarrow> unat u = unat (lay_epoch_unix_ms l) + unat p \<and> unat p < 2 ^ phys_w l)"
proof -
  let ?e = "unat (lay_epoch_unix_ms l)"
  have pos: "0 < (2 :: nat) ^ phys_w l" by simp
  have hi: "max_unix_ms l < u \<longleftrightarrow> ?e + 2 ^ phys_w l \<le> unat u"
    unfolding word_less_nat_alt unat_max_unix_ms [OF assms] using pos by linarith
  have lo: "u < lay_epoch_unix_ms l \<longleftrightarrow> unat u < ?e" by (rule word_less_nat_alt)
  have "unat (u - lay_epoch_unix_ms l) = unat u - ?e" if "?e \<le> unat u"
    using that by (simp add: unat_sub word_le_nat_alt)
  then show ?thesis
    using layout_valid_horizon [OF assms]
    by (auto simp: checked_physical_ms_from_unix_ms_def hi lo word_unat_eq_iff not_less)
qed

theorem checked_physical_ms_window_witness:
  "checked_physical_ms_from_unix_ms DEFAULT_TIMESTAMP_LAYOUT 1767225600042 = Inr 42"
  using checked_physical_ms_window [OF default_layout_valid, of 1767225600042 42]
  by (simp add: default_layout_defs)

text \<open>
  C10: the cursor of a generator above a floor is the least slot of that generator above the floor:
  the search never fails, the slot it returns encodes to a timestamp above the floor and no slot of
  the generator between the two exists; if the slot does not encode, the generator has no slot left
  above the floor.
\<close>
theorem next_cursor_after_least:
  assumes "layout_valid l" "g < max_generators l"
  shows "\<exists>c. next_cursor_after_with_layout l tso_floor g = Inr c \<and>
    (case encode l (cu_physical_ms c) g (cu_sequence c) of
       Inr t \<Rightarrow> tso_floor < t \<and> \<not> (\<exists>p s t'. encode l p g s = Inr t' \<and> tso_floor < t' \<and> t' < t)
     | Inl e \<Rightarrow> e = TsoOverflow \<and> \<not> (\<exists>p s t'. encode l p g s = Inr t' \<and> tso_floor < t'))"
proof -
  have g: "unat g < 2 ^ gen_w l" using assms by (simp add: word_less_nat_alt unat_max_generators)
  obtain c where c: "next_cursor_after_with_layout l tso_floor g = Inr c"
    and s: "unat (cu_sequence c) < 2 ^ seq_w l"
    and gt: "unat tso_floor < tso_nat l (unat (cu_physical_ms c)) (unat g) (unat (cu_sequence c))"
    and least: "\<And>p s. s < 2 ^ seq_w l \<Longrightarrow> unat tso_floor < tso_nat l p (unat g) s \<Longrightarrow>
      tso_nat l (unat (cu_physical_ms c)) (unat g) (unat (cu_sequence c)) \<le> tso_nat l p (unat g) s"
    by (rule next_cursor_least_nat [OF assms(1) g]) blast
  have above: "unat (cu_physical_ms c) < 2 ^ phys_w l
      \<and> tso_nat l (unat (cu_physical_ms c)) (unat g) (unat (cu_sequence c)) \<le> unat t'"
    if "encode l p g s = Inr t'" "tso_floor < t'" for p s t'
  proof -
    from that have e: "unat p < 2 ^ phys_w l" "unat s < 2 ^ seq_w l"
      "unat t' = tso_nat l (unat p) (unat g) (unat s)" by (simp_all add: encode_Inr_iff assms(1))
    with least [of "unat s" "unat p"] that(2) have le:
      "tso_nat l (unat (cu_physical_ms c)) (unat g) (unat (cu_sequence c)) \<le> unat t'"
      by (simp add: word_less_nat_alt)
    then have "\<not> unat p < unat (cu_physical_ms c)"
      using tso_nat_less_iff [OF g e(2) g s, of "unat p" "unat (cu_physical_ms c)"] e(3) by simp
    with e(1) le show ?thesis by simp
  qed
  show ?thesis
  proof (cases "encode l (cu_physical_ms c) g (cu_sequence c)")
    case (Inl e)
    then have "\<not> unat (cu_physical_ms c) < 2 ^ phys_w l" "e = TsoOverflow"
      using encode_total [OF assms(1) _ g s, of "cu_physical_ms c"] assms
      by (auto simp: encode_def split: if_splits)
    with Inl c above show ?thesis by force
  next
    case (Inr t)
    then have "unat t = tso_nat l (unat (cu_physical_ms c)) (unat g) (unat (cu_sequence c))"
      by (simp add: encode_Inr_iff assms(1))
    with Inr c gt above show ?thesis by (force simp: word_less_nat_alt)
  qed
qed

theorem next_cursor_after_least_witness:
  "\<exists>c. next_cursor_after_with_layout DEFAULT_TIMESTAMP_LAYOUT 83900425 3 = Inr c \<and>
     (case encode DEFAULT_TIMESTAMP_LAYOUT (cu_physical_ms c) 3 (cu_sequence c) of
        Inr t \<Rightarrow> 83900425 < t \<and> \<not> (\<exists>p s t'. encode DEFAULT_TIMESTAMP_LAYOUT p 3 s = Inr t'
          \<and> 83900425 < t' \<and> t' < t)
      | Inl e \<Rightarrow> e = TsoOverflow \<and> \<not> (\<exists>p s t'. encode DEFAULT_TIMESTAMP_LAYOUT p 3 s = Inr t'
          \<and> 83900425 < t'))"
proof -
  have "(3 :: u32) < max_generators DEFAULT_TIMESTAMP_LAYOUT"
    by (simp add: word_less_nat_alt unat_max_generators [OF default_layout_valid])
      (simp add: default_layout_defs)
  then show ?thesis by (rule next_cursor_after_least [OF default_layout_valid])
qed

end
