(* ===== verification/Generator.thy ===== *)
theory Generator
  imports Timestamp "HOL-Library.AList"
begin

text \<open>
  The in-memory generators of a worker: \<open>runtime/generator_lease.rs\<close>. A generator hands out the
  slots of its id in order; the slot number (\<open>next_index\<close>) is physical time times the sequence
  capacity plus the sequence number. Allocation is a compare-and-swap loop on an atomic counter
  that other threads move too: the model takes what each atomic access finds as a parameter
  (\<open>env i v\<close> is the value access \<open>i\<close> sees when the loop last saw \<open>v\<close>), and a step relation over
  several threads in theory \<open>Generator_Threads\<close> gives these parameters their meaning. A concurrent
  map is an association list with distinct keys, in the (unspecified) order its iteration has.
\<close>

subsection \<open>Generators\<close>

datatype allocate_after_result = Allocated "timestamp_range list" | Contended

record generator =
  gn_id :: u32
  gn_layout :: timestamp_layout
  gn_next_index :: u64
  gn_ready_lease_token :: u64

record allocate_args =
  \<comment> \<open>the arguments of \<open>Generator::allocate_after\<close>\<close>
  al_count :: u32
  al_floor :: "u64 option"
  al_now_ms :: u64
  al_max_future_borrow_ms :: u64
  al_max_clock_rewind_ms :: u64
  al_issued_upper_bound :: "u64 option"

definition MAX_GENERATOR_CONTENTION_RETRIES :: nat where
  "MAX_GENERATOR_CONTENTION_RETRIES = 32"

definition generator_with_layout :: "u32 \<Rightarrow> timestamp_layout \<Rightarrow> generator" where
  "generator_with_layout gid l =
     \<lparr> gn_id = gid, gn_layout = l, gn_next_index = 0, gn_ready_lease_token = 0 \<rparr>"

definition seq_cap :: "timestamp_layout \<Rightarrow> u64" where
  \<comment> \<open>\<open>u64::from(self.layout.sequence_capacity())\<close>\<close>
  "seq_cap l = ucast (sequence_capacity l)"

definition cursor_index :: "timestamp_layout \<Rightarrow> cursor \<Rightarrow> u64 option" where
  "cursor_index l c =
     Option.bind (checked_mul (cu_physical_ms c) (seq_cap l))
       (\<lambda>v. checked_add v (ucast (cu_sequence c)))"

definition init_after_floor :: "u64 \<Rightarrow> generator \<Rightarrow> generator \<times> unit tso_result" where
  "init_after_floor floor g =
     (case next_cursor_after_with_layout (gn_layout g) floor (gn_id g) of
        Inl e \<Rightarrow> (g, Inl e)
      | Inr c \<Rightarrow>
          (case cursor_index (gn_layout g) c of
             None \<Rightarrow> (g, Inl TsoOverflow)
           | Some index \<Rightarrow> (g \<lparr> gn_next_index := max (gn_next_index g) index \<rparr>, Inr ())))"

definition mark_ready_for_lease :: "u64 \<Rightarrow> generator \<Rightarrow> generator" where
  "mark_ready_for_lease token g = g \<lparr> gn_ready_lease_token := token \<rparr>"

definition clear_ready_lease :: "generator \<Rightarrow> generator" where
  "clear_ready_lease g = g \<lparr> gn_ready_lease_token := 0 \<rparr>"

definition ready_for_lease :: "u64 \<Rightarrow> generator \<Rightarrow> bool" where
  "ready_for_lease token g = (token \<noteq> 0 \<and> gn_ready_lease_token g = token)"

definition current_last_issued_tso :: "generator \<Rightarrow> u64 option tso_result" where
  "current_last_issued_tso g =
     (let cap = seq_cap (gn_layout g); next_i = gn_next_index g in
      if next_i = 0 then Inr None
      else let last_index = next_i - 1;
               physical_ms = last_index div cap;
               sequence = ucast (last_index mod cap)
           in and_then (encode (gn_layout g) physical_ms (gn_id g) sequence) (\<lambda>t. Inr (Some t)))"

definition floor_index :: "timestamp_layout \<Rightarrow> u32 \<Rightarrow> u64 option \<Rightarrow> u64 tso_result" where
  "floor_index l gid floor =
     (case floor of
        Some v \<Rightarrow>
          and_then (next_cursor_after_with_layout l v gid) (\<lambda>c.
            Inr (case cursor_index l c of Some i \<Rightarrow> i | None \<Rightarrow> - 1))
      | None \<Rightarrow> Inr 0)"

definition allocate_attempt ::
    "timestamp_layout \<Rightarrow> u32 \<Rightarrow> allocate_args \<Rightarrow> u64 \<Rightarrow> u64 \<Rightarrow> (u64 \<times> u64 \<times> u64) tso_result" where
  \<comment> \<open>one round of the loop up to the compare-and-swap: start, last and new index\<close>
  "allocate_attempt l gid a floor_i old_index =
     (let cap = seq_cap l;
          now_ms = al_now_ms a;
          current_physical_ms = old_index div cap
      in
      if now_ms < current_physical_ms \<and> al_max_clock_rewind_ms a < current_physical_ms - now_ms
      then Inl (ClockBackwards (current_physical_ms - now_ms))
      else
        let effective_now_ms = (if now_ms < current_physical_ms then current_physical_ms else now_ms);
            allowed_physical_ms =
              max current_physical_ms (saturating_add now_ms (al_max_future_borrow_ms a));
            base_index = max old_index (saturating_mul effective_now_ms cap);
            start_index = max base_index floor_i;
            start_physical_ms = start_index div cap
        in
        if allowed_physical_ms < start_physical_ms
        then Inl (FutureBorrowExceeded start_physical_ms allowed_physical_ms)
        else
          and_then (ok_or TsoOverflow
            (Option.bind (checked_add start_index (ucast (al_count a))) (\<lambda>v. checked_sub v 1)))
          (\<lambda>last_index.
            let last_physical_ms = last_index div cap;
                last_sequence = ucast (last_index mod cap) :: u32
            in
            if allowed_physical_ms < last_physical_ms
            then Inl (FutureBorrowExceeded last_physical_ms allowed_physical_ms)
            else
              and_then
                (case al_issued_upper_bound a of
                   None \<Rightarrow> Inr ()
                 | Some issued_upper_bound \<Rightarrow>
                     and_then (encode l last_physical_ms gid last_sequence) (\<lambda>requested_end_tso.
                       if issued_upper_bound < requested_end_tso
                       then Inl (IssuedUpperBoundExceeded requested_end_tso issued_upper_bound)
                       else Inr ()))
                (\<lambda>_. and_then (ok_or TsoOverflow (checked_add last_index 1)) (\<lambda>new_index.
                   Inr (start_index, last_index, new_index)))))"

lemma seq_cap_pos: "0 < seq_cap l"
proof -
  have "unat (sequence_capacity l) = 2 ^ (seq_w l mod 32)"
    unfolding sequence_capacity_def shl_def using unat_one_push_bit [where ?'a = 32] by simp
  then have "0 < unat (seq_cap l)" by (simp add: seq_cap_def)
  then show ?thesis by (simp add: word_less_nat_alt)
qed

lemma take_pos: "r \<noteq> 0 \<Longrightarrow> 0 < unat (min r (seq_cap l - i mod seq_cap l))"
proof -
  assume "r \<noteq> 0"
  have "i mod seq_cap l < seq_cap l" by (rule word_mod_less_divisor [OF seq_cap_pos])
  then have "0 < unat (seq_cap l - i mod seq_cap l)" by (simp add: unat_sub word_less_nat_alt order_less_imp_le)
  with \<open>r \<noteq> 0\<close> show ?thesis by (simp add: unat_min unat_gt_0)
qed

function build_ranges ::
    "timestamp_layout \<Rightarrow> u32 \<Rightarrow> u64 \<Rightarrow> u64 \<Rightarrow> timestamp_range list tso_result" where
  "build_ranges l gid cursor_i remaining =
     (if remaining = 0 then Inr []
      else
        let cap = seq_cap l;
            physical_ms = cursor_i div cap;
            sequence_index = cursor_i mod cap;
            sequence = ucast sequence_index :: u32;
            available = cap - sequence_index;
            take_n = min remaining available
        in and_then (encode l physical_ms gid sequence) (\<lambda>start_tso.
             let end_sequence = sequence + ucast take_n - 1 in
             and_then (encode l physical_ms gid end_sequence) (\<lambda>end_tso.
             and_then (ok_or TsoOverflow (checked_add cursor_i take_n)) (\<lambda>next_i.
             and_then (build_ranges l gid next_i (remaining - take_n)) (\<lambda>ranges.
               Inr (\<lparr> rg_start_tso = start_tso, rg_end_tso = end_tso \<rparr> # ranges))))))"
  by pat_completeness auto
termination
proof (relation "measure (\<lambda>(l, gid, c, r). unat r)", goal_cases)
  case (2 l gid c r)
  let ?t = "min r (seq_cap l - c mod seq_cap l)"
  have "0 < unat ?t" "?t \<le> r" using 2(1) by (rule take_pos) simp
  then have "unat (r - ?t) < unat r" by (simp add: unat_sub word_le_nat_alt)
  then show ?case using 2 by simp
qed simp

declare build_ranges.simps [simp del]

function allocate_loop ::
    "(nat \<Rightarrow> u64 \<Rightarrow> u64) \<Rightarrow> allocate_args \<Rightarrow> u64 \<Rightarrow> nat \<Rightarrow> nat \<Rightarrow> generator
       \<Rightarrow> generator \<times> allocate_after_result tso_result" where
  "allocate_loop env a floor_i i contention_retries g =
     (let old_index = env i (gn_next_index g) in
      case allocate_attempt (gn_layout g) (gn_id g) a floor_i old_index of
        Inl e \<Rightarrow> (g \<lparr> gn_next_index := old_index \<rparr>, Inl e)
      | Inr (start_index, last_index, new_index) \<Rightarrow>
          let seen = env (i + 1) old_index in
          if seen = old_index
          then (g \<lparr> gn_next_index := new_index \<rparr>,
                and_then (build_ranges (gn_layout g) (gn_id g) start_index (ucast (al_count a)))
                  (\<lambda>ranges. Inr (Allocated ranges)))
          else let retries = contention_retries + 1 in
            if MAX_GENERATOR_CONTENTION_RETRIES \<le> retries
            then (g \<lparr> gn_next_index := seen \<rparr>, Inr Contended)
            else allocate_loop env a floor_i (i + 2) retries (g \<lparr> gn_next_index := seen \<rparr>))"
  by pat_completeness auto
termination
  by (relation "measure (\<lambda>(env, a, f, i, r, g). MAX_GENERATOR_CONTENTION_RETRIES - r)") auto

declare allocate_loop.simps [simp del]

definition allocate_after ::
    "(nat \<Rightarrow> u64 \<Rightarrow> u64) \<Rightarrow> allocate_args \<Rightarrow> generator
       \<Rightarrow> generator \<times> allocate_after_result tso_result" where
  "allocate_after env a g =
     (case floor_index (gn_layout g) (gn_id g) (al_floor a) of
        Inl e \<Rightarrow> (g, Inl e)
      | Inr floor_i \<Rightarrow> allocate_loop env a floor_i 0 0 g)"

subsection \<open>The generators, leases and dedicated claims of a worker\<close>

record generator_lease_state =
  ls_revision :: u64
  ls_owner_instance_id :: string
  ls_generator_lease_token :: u64
  ls_lease_expire_at_ms :: u64
  ls_last_persisted_tso :: "u64 option"
  ls_issued_upper_bound :: "u64 option"

record generator_runtime =
  grs_generators :: "generator list"
  grs_leases :: "(u32 \<times> generator_lease_state) list"
  grs_dedicated_claims :: "(u32 \<times> string) list"

definition index_panic :: tso_error where
  \<comment> \<open>stands for the panic of an out-of-range \<open>self.generators[id]\<close>\<close>
  "index_panic = Internal ''index out of bounds''"

definition runtime_with_layout :: "u32 \<Rightarrow> timestamp_layout \<Rightarrow> generator_runtime" where
  "runtime_with_layout max_gens l =
     \<lparr> grs_generators = map (\<lambda>i. generator_with_layout (of_nat i) l) [0 ..< unat max_gens],
       grs_leases = [], grs_dedicated_claims = [] \<rparr>"

definition generator_count :: "generator_runtime \<Rightarrow> u32" where
  "generator_count rs = of_nat (length (grs_generators rs))"

definition generator_at :: "generator_runtime \<Rightarrow> u32 \<Rightarrow> generator tso_result" where
  "generator_at rs gid =
     (if unat gid < length (grs_generators rs) then Inr (grs_generators rs ! unat gid)
      else Inl index_panic)"

definition set_generator :: "u32 \<Rightarrow> generator \<Rightarrow> generator_runtime \<Rightarrow> generator_runtime" where
  \<comment> \<open>write back an atomically updated generator\<close>
  "set_generator gid g rs = rs \<lparr> grs_generators := (grs_generators rs)[unat gid := g] \<rparr>"

definition lease_keys :: "generator_runtime \<Rightarrow> u32 list" where
  "lease_keys rs = map fst (grs_leases rs)"

definition lease_state :: "generator_runtime \<Rightarrow> u32 \<Rightarrow> generator_lease_state option" where
  "lease_state rs gid = map_of (grs_leases rs) gid"

definition lease_matches_owner_and_time :: "generator_lease_state \<Rightarrow> string \<Rightarrow> u64 \<Rightarrow> bool" where
  "lease_matches_owner_and_time lease owner_instance_id now_ms =
     (now_ms < ls_lease_expire_at_ms lease \<and> ls_owner_instance_id lease = owner_instance_id)"

definition lease_valid_for_owner ::
    "generator_runtime \<Rightarrow> u32 \<Rightarrow> string \<Rightarrow> u64 \<Rightarrow> bool tso_result" where
  "lease_valid_for_owner rs gid owner_instance_id now_ms =
     (case lease_state rs gid of
        None \<Rightarrow> Inr False
      | Some lease \<Rightarrow>
          if lease_matches_owner_and_time lease owner_instance_id now_ms
          then and_then (generator_at rs gid) (\<lambda>g.
                 Inr (ready_for_lease (ls_generator_lease_token lease) g))
          else Inr False)"

definition valid_lease_upper_bound_for_owner ::
    "generator_runtime \<Rightarrow> u32 \<Rightarrow> string \<Rightarrow> u64 \<Rightarrow> u64 option tso_result" where
  "valid_lease_upper_bound_for_owner rs gid owner_instance_id now_ms =
     (case lease_state rs gid of
        None \<Rightarrow> Inr None
      | Some lease \<Rightarrow>
          if lease_matches_owner_and_time lease owner_instance_id now_ms
          then and_then (generator_at rs gid) (\<lambda>g.
                 Inr (if ready_for_lease (ls_generator_lease_token lease) g
                      then ls_issued_upper_bound lease else None))
          else Inr None)"

definition mark_generator_ready_for_lease ::
    "u32 \<Rightarrow> u64 \<Rightarrow> generator_runtime \<Rightarrow> generator_runtime tso_result" where
  "mark_generator_ready_for_lease gid token rs =
     and_then (generator_at rs gid) (\<lambda>g.
       Inr (set_generator gid (mark_ready_for_lease token g) rs))"

definition upsert_lease ::
    "u32 \<Rightarrow> generator_lease_state \<Rightarrow> generator_runtime \<Rightarrow> generator_runtime" where
  "upsert_lease gid lease rs = rs \<lparr> grs_leases := AList.update gid lease (grs_leases rs) \<rparr>"

definition remove_lease :: "u32 \<Rightarrow> generator_runtime \<Rightarrow> generator_runtime tso_result" where
  "remove_lease gid rs =
     (let rs' = rs \<lparr> grs_leases := AList.delete gid (grs_leases rs) \<rparr> in
      and_then (generator_at rs' gid) (\<lambda>g. Inr (set_generator gid (clear_ready_lease g) rs')))"

definition clear_leases :: "generator_runtime \<Rightarrow> generator_runtime" where
  "clear_leases rs =
     rs \<lparr> grs_leases := [], grs_generators := map clear_ready_lease (grs_generators rs) \<rparr>"

definition claimed_generator_for_timeline :: "generator_runtime \<Rightarrow> string \<Rightarrow> u32 option" where
  "claimed_generator_for_timeline rs timeline_key =
     map_option fst (find (\<lambda>(gid, key). key = timeline_key) (grs_dedicated_claims rs))"

definition claim_dedicated ::
    "u32 \<Rightarrow> string \<Rightarrow> generator_runtime \<Rightarrow> generator_runtime \<times> bool tso_result" where
  "claim_dedicated gid timeline_key rs =
     (case map_of (grs_dedicated_claims rs) gid of
        Some key \<Rightarrow> (rs, if key \<noteq> timeline_key then Inl GeneratorPoolExhausted else Inr False)
      | None \<Rightarrow>
          (rs \<lparr> grs_dedicated_claims := AList.update gid timeline_key (grs_dedicated_claims rs) \<rparr>,
           Inr True))"

definition release_dedicated :: "u32 \<Rightarrow> string \<Rightarrow> generator_runtime \<Rightarrow> generator_runtime" where
  "release_dedicated gid timeline_key rs =
     (case map_of (grs_dedicated_claims rs) gid of
        Some key \<Rightarrow>
          if key = timeline_key
          then rs \<lparr> grs_dedicated_claims := AList.delete gid (grs_dedicated_claims rs) \<rparr> else rs
      | None \<Rightarrow> rs)"

definition clear_dedicated_claims :: "generator_runtime \<Rightarrow> generator_runtime" where
  "clear_dedicated_claims rs = rs \<lparr> grs_dedicated_claims := [] \<rparr>"

subsection \<open>Slots as numbers\<close>

lemma unat_seq_cap: "layout_valid l \<Longrightarrow> unat (seq_cap l) = 2 ^ seq_w l"
  by (simp add: seq_cap_def unat_sequence_capacity)

definition slot_tso :: "timestamp_layout \<Rightarrow> u32 \<Rightarrow> nat \<Rightarrow> nat" where
  \<comment> \<open>the timestamp of slot number \<open>i\<close> of a generator\<close>
  "slot_tso l gid i = tso_nat l (i div 2 ^ seq_w l) (unat gid) (i mod 2 ^ seq_w l)"

lemma slot_tso_less:
  assumes "unat gid < 2 ^ gen_w l"
  shows "slot_tso l gid i < slot_tso l gid j \<longleftrightarrow> i < j"
proof -
  let ?c = "2 ^ seq_w l :: nat"
  have "slot_tso l gid i < slot_tso l gid j \<longleftrightarrow>
      i div ?c < j div ?c \<or> i div ?c = j div ?c \<and> i mod ?c < j mod ?c"
    unfolding slot_tso_def using assms by (subst tso_nat_less_iff) auto
  also have "\<dots> \<longleftrightarrow> i div ?c * ?c + i mod ?c < j div ?c * ?c + j mod ?c"
    by (rule mult_add_less_iff [symmetric]) simp_all
  finally show ?thesis by (simp only: div_mult_mod_eq)
qed

lemma slot_tso_eq: "unat gid < 2 ^ gen_w l \<Longrightarrow> slot_tso l gid i = slot_tso l gid j \<longleftrightarrow> i = j"
  using slot_tso_less [of gid l i j] slot_tso_less [of gid l j i] by (metis linorder_neq_iff)

lemma slot_tso_le: "unat gid < 2 ^ gen_w l \<Longrightarrow> slot_tso l gid i \<le> slot_tso l gid j \<longleftrightarrow> i \<le> j"
  using slot_tso_less [of gid l j i] by (simp add: not_less [symmetric])

lemma encode_slot:
  assumes v: "layout_valid l"
  shows "encode l (i div seq_cap l) gid (ucast (i mod seq_cap l)) = Inr t \<longleftrightarrow>
    unat i div 2 ^ seq_w l < 2 ^ phys_w l \<and> unat gid < 2 ^ gen_w l \<and> unat t = slot_tso l gid (unat i)"
proof -
  have m: "unat (i mod seq_cap l) = unat i mod 2 ^ seq_w l" and
    d: "unat (i div seq_cap l) = unat i div 2 ^ seq_w l"
    by (simp_all add: unat_mod unat_div unat_seq_cap v)
  have lt: "unat i mod 2 ^ seq_w l < 2 ^ seq_w l" by simp
  also have "(2 :: nat) ^ seq_w l \<le> 2 ^ 32"
    using layout_valid_bits(2) [OF v] by (intro power_increasing) simp_all
  finally have "unat (ucast (i mod seq_cap l) :: u32) = unat i mod 2 ^ seq_w l"
    by (simp add: unat_ucast_64_32 m)
  then show ?thesis by (auto simp: encode_Inr_iff [OF v] d slot_tso_def)
qed

subsection \<open>Splitting an interval of slots into ranges\<close>

definition range_tsos :: "timestamp_range \<Rightarrow> nat list" where
  \<comment> \<open>the timestamps a range stands for, both ends included\<close>
  "range_tsos r = [unat (rg_start_tso r) ..< Suc (unat (rg_end_tso r))]"

definition ranges_tsos :: "timestamp_range list \<Rightarrow> nat list" where
  "ranges_tsos rs = concat (map range_tsos rs)"

lemma ranges_tsos_simps [simp]:
  "ranges_tsos [] = []" "ranges_tsos (r # rs) = range_tsos r @ ranges_tsos rs"
  by (simp_all add: ranges_tsos_def)

lemma slot_tso_add:
  assumes "i mod 2 ^ seq_w l + j < 2 ^ seq_w l"
  shows "slot_tso l gid (i + j) = slot_tso l gid i + j"
proof -
  let ?c = "2 ^ seq_w l :: nat"
  have e: "i + j = (i mod ?c + j) + i div ?c * ?c" using div_mult_mod_eq [of i ?c] by linarith
  have "(i + j) div ?c = i div ?c" by (subst e) (use assms in simp)
  moreover have "(i + j) mod ?c = i mod ?c + j" by (subst e) (use assms in simp)
  ultimately show ?thesis by (simp add: slot_tso_def tso_nat_def)
qed

lemma map_upt_shift: "(\<And>j. j < k \<Longrightarrow> f (i + j) = t + j) \<Longrightarrow> map f [i ..< i + k] = [t ..< t + k]"
  by (rule nth_equalityI) simp_all

lemma unat_take:
  "layout_valid l \<Longrightarrow> unat (min r (seq_cap l - i mod seq_cap l))
     = min (unat r) (2 ^ seq_w l - unat i mod 2 ^ seq_w l)"
proof -
  assume v: "layout_valid l"
  have "i mod seq_cap l \<le> seq_cap l"
    using word_mod_less_divisor [OF seq_cap_pos, of i l] by (rule order_less_imp_le)
  then show ?thesis by (simp add: unat_min unat_sub unat_mod unat_seq_cap v)
qed

lemma unat_end_sequence:
  fixes i r :: u64
  assumes v: "layout_valid l" and r: "r \<noteq> 0"
  defines "k \<equiv> min r (seq_cap l - i mod seq_cap l)"
  shows "unat (ucast (i mod seq_cap l) + ucast k - 1 :: u32) = unat i mod 2 ^ seq_w l + unat k - 1"
    and "unat i mod 2 ^ seq_w l + unat k \<le> 2 ^ seq_w l" and "0 < unat k"
proof -
  show pos: "0 < unat k" unfolding k_def by (rule take_pos [OF r])
  have m: "unat i mod 2 ^ seq_w l < 2 ^ seq_w l" by simp
  have le: "unat i mod 2 ^ seq_w l + unat k \<le> 2 ^ seq_w l"
    using min.cobounded2 [of "unat r" "2 ^ seq_w l - unat i mod 2 ^ seq_w l"] m
    unfolding k_def unat_take [OF v] by linarith
  then show "unat i mod 2 ^ seq_w l + unat k \<le> 2 ^ seq_w l" .
  have c: "(2 :: nat) ^ seq_w l \<le> 2 ^ 31"
    using layout_valid_bits(2) [OF v] by (intro power_increasing) simp_all
  have u: "unat (ucast (i mod seq_cap l) :: u32) = unat i mod 2 ^ seq_w l"
    "unat (ucast k :: u32) = unat k"
    using le c pos by (auto simp: unat_ucast_64_32 unat_mod unat_seq_cap v)
  have add: "unat (ucast (i mod seq_cap l) + ucast k :: u32) = unat i mod 2 ^ seq_w l + unat k"
    using u le c by (subst unat_add_small) auto
  then show "unat (ucast (i mod seq_cap l) + ucast k - 1 :: u32) = unat i mod 2 ^ seq_w l + unat k - 1"
    using pos by (subst unat_sub) (simp_all add: word_le_nat_alt)
qed

lemma encode_range_end:
  fixes i r :: u64
  assumes v: "layout_valid l" and r: "r \<noteq> 0"
  defines "k \<equiv> min r (seq_cap l - i mod seq_cap l)"
  shows "encode l (i div seq_cap l) gid (ucast (i mod seq_cap l) + ucast k - 1) = Inr t \<longleftrightarrow>
    unat i div 2 ^ seq_w l < 2 ^ phys_w l \<and> unat gid < 2 ^ gen_w l
    \<and> unat t = slot_tso l gid (unat i) + (unat k - 1)"
proof -
  note e = unat_end_sequence [OF v r, of i, folded k_def]
  have "unat i mod 2 ^ seq_w l + unat k - 1 < 2 ^ seq_w l" using e(2,3) by linarith
  moreover have "tso_nat l p g (s + k' - 1) = tso_nat l p g s + (k' - 1)" if "0 < k'" for p g s k'
    using that by (simp add: tso_nat_def)
  ultimately show ?thesis
    using e(3) by (auto simp: encode_Inr_iff [OF v] e(1) unat_div unat_seq_cap v slot_tso_def)
qed

lemma slot_tso_bound:
  "layout_valid l \<Longrightarrow> unat gid < 2 ^ gen_w l \<Longrightarrow> i div 2 ^ seq_w l < 2 ^ phys_w l \<Longrightarrow>
     slot_tso l gid i < 2 ^ 64"
  unfolding slot_tso_def by (rule tso_nat_bound) simp_all

lemma build_ranges_step:
  fixes i r :: u64
  assumes v: "layout_valid l" and r: "r \<noteq> 0"
  defines "k \<equiv> min r (seq_cap l - i mod seq_cap l)"
  shows "build_ranges l gid i r = Inr rs \<longleftrightarrow>
    unat i div 2 ^ seq_w l < 2 ^ phys_w l \<and> unat gid < 2 ^ gen_w l \<and> unat i + unat k < 2 ^ 64
    \<and> (\<exists>r0 rs'. rs = r0 # rs' \<and> build_ranges l gid (i + k) (r - k) = Inr rs'
         \<and> unat (rg_start_tso r0) = slot_tso l gid (unat i)
         \<and> unat (rg_end_tso r0) = slot_tso l gid (unat i) + (unat k - 1))"
  (is "?L \<longleftrightarrow> ?R")
proof
  assume ?L
  then show ?R
    using r by (subst (asm) build_ranges.simps)
      (auto simp: Let_def and_then_eq_Inr ok_or_eq_Inr checked_add_Some encode_slot [OF v]
        encode_range_end [OF v r, of i, folded k_def] simp flip: k_def)
next
  assume R: ?R
  then obtain r0 rs' where rs: "rs = r0 # rs'" "build_ranges l gid (i + k) (r - k) = Inr rs'"
    "unat (rg_start_tso r0) = slot_tso l gid (unat i)"
    "unat (rg_end_tso r0) = slot_tso l gid (unat i) + (unat k - 1)" by blast
  with R have "encode l (i div seq_cap l) gid (ucast (i mod seq_cap l)) = Inr (rg_start_tso r0)"
    "encode l (i div seq_cap l) gid (ucast (i mod seq_cap l) + ucast k - 1) = Inr (rg_end_tso r0)"
    "checked_add i k = Some (i + k)"
    unfolding k_def by (simp_all add: encode_slot [OF v] encode_range_end [OF v r] checked_add_def)
  with rs r show ?L by (subst build_ranges.simps) (simp add: Let_def flip: k_def)
qed

lemma build_ranges_tsos:
  assumes "layout_valid l"
  shows "build_ranges l gid i r = Inr rs \<Longrightarrow>
    ranges_tsos rs = map (slot_tso l gid) [unat i ..< unat i + unat r]
    \<and> (\<forall>r0 \<in> set rs. rg_start_tso r0 \<le> rg_end_tso r0)"
proof (induction "unat r" arbitrary: i r rs rule: less_induct)
  case less
  show ?case
  proof (cases "r = 0")
    case True
    with less.prems show ?thesis by (simp add: build_ranges.simps [of _ _ _ 0])
  next
    case False
    define k where "k = min r (seq_cap l - i mod seq_cap l)"
    note e = unat_end_sequence(2,3) [OF assms False, of i, folded k_def]
    have kr: "k \<le> r" "unat (r - k) = unat r - unat k" "unat k \<le> unat r"
      by (simp_all add: k_def unat_sub word_le_nat_alt [symmetric])
    from less.prems obtain r0 rs' where rs: "rs = r0 # rs'"
      "build_ranges l gid (i + k) (r - k) = Inr rs'" "unat i + unat k < 2 ^ 64"
      "unat (rg_start_tso r0) = slot_tso l gid (unat i)"
      "unat (rg_end_tso r0) = slot_tso l gid (unat i) + (unat k - 1)"
      using build_ranges_step [OF assms False, of gid i rs] unfolding k_def by blast
    have ik: "unat (i + k) = unat i + unat k" using rs(3) by (simp add: unat_add_small)
    have IH: "ranges_tsos rs' = map (slot_tso l gid) [unat i + unat k ..< unat i + unat r]"
      "\<forall>r0 \<in> set rs'. rg_start_tso r0 \<le> rg_end_tso r0"
      using less.hyps [of "r - k" "i + k" rs'] rs(2) kr e(2) by (simp_all add: ik)
    have "range_tsos r0 = map (slot_tso l gid) [unat i ..< unat i + unat k]"
      unfolding range_tsos_def rs(4,5) using e
      by (subst map_upt_shift [where t = "slot_tso l gid (unat i)"]) (auto simp: slot_tso_add)
    then have "ranges_tsos rs = map (slot_tso l gid) [unat i ..< unat i + unat r]"
      using kr upt_add_eq_append [of "unat i" "unat i + unat k" "unat r - unat k"]
      by (simp add: rs(1) IH)
    moreover have "rg_start_tso r0 \<le> rg_end_tso r0" by (simp add: word_le_nat_alt rs(4,5))
    ultimately show ?thesis using IH rs(1) by simp
  qed
qed

lemma build_ranges_total:
  assumes v: "layout_valid l" and g: "unat gid < 2 ^ gen_w l"
  shows "unat i + unat r < 2 ^ 64 \<Longrightarrow> (unat i + unat r - 1) div 2 ^ seq_w l < 2 ^ phys_w l \<Longrightarrow>
    \<exists>rs. build_ranges l gid i r = Inr rs"
proof (induction "unat r" arbitrary: i r rule: less_induct)
  case less
  show ?case
  proof (cases "r = 0")
    case True
    then show ?thesis by (simp add: build_ranges.simps [of _ _ _ 0])
  next
    case False
    define k where "k = min r (seq_cap l - i mod seq_cap l)"
    note e = unat_end_sequence(2,3) [OF v False, of i, folded k_def]
    have kr: "unat (r - k) = unat r - unat k" "unat k \<le> unat r"
      by (simp_all add: k_def unat_sub word_le_nat_alt [symmetric])
    have ik: "unat (i + k) = unat i + unat k" using less.prems kr by (simp add: unat_add_small)
    obtain rs' where rs': "build_ranges l gid (i + k) (r - k) = Inr rs'"
      using less.hyps [of "r - k" "i + k"] less.prems kr e(2) by (auto simp: ik)
    have p: "unat i div 2 ^ seq_w l < 2 ^ phys_w l"
      using less.prems(2) e(2) kr(2) div_le_mono [of "unat i" "unat i + unat r - 1" "2 ^ seq_w l"]
      by linarith
    have end_i: "slot_tso l gid (unat i) + (unat k - 1) = slot_tso l gid (unat i + (unat k - 1))"
      using e by (intro slot_tso_add [symmetric]) linarith
    have "(unat i + (unat k - 1)) div 2 ^ seq_w l \<le> (unat i + unat r - 1) div 2 ^ seq_w l"
      using kr e by (intro div_le_mono) linarith
    then have b: "slot_tso l gid (unat i) < 2 ^ 64" "slot_tso l gid (unat i) + (unat k - 1) < 2 ^ 64"
      unfolding end_i using slot_tso_bound [OF v g] p less.prems(2) by simp_all
    have ik64: "unat i + unat k < 2 ^ 64" using less.prems(1) kr(2) by linarith
    have "build_ranges l gid i r = Inr
      (\<lparr> rg_start_tso = of_nat (slot_tso l gid (unat i)),
         rg_end_tso = of_nat (slot_tso l gid (unat i) + (unat k - 1)) \<rparr> # rs')"
      unfolding build_ranges_step [OF v False] k_def [symmetric]
      using b p g rs' ik64 by (simp add: unat_of_nat_small del: of_nat_add)
    then show ?thesis by blast
  qed
qed

subsection \<open>One round of the allocation loop\<close>

lemma unat_div_seq_cap: "layout_valid l \<Longrightarrow> unat (i div seq_cap l) = unat i div 2 ^ seq_w l"
  by (simp add: unat_div unat_seq_cap)

lemma allocate_attempt_Inr:
  assumes v: "layout_valid l" and a: "allocate_attempt l gid a fi old = Inr (s, la, n)"
  shows "old \<le> s" "fi \<le> s" "unat n = unat s + unat (al_count a)" "unat n = unat la + 1"
    "saturating_mul (al_now_ms a) (seq_cap l) \<le> s"
    "la div seq_cap l \<le> max (old div seq_cap l) (saturating_add (al_now_ms a) (al_max_future_borrow_ms a))"
    "al_issued_upper_bound a = Some u \<Longrightarrow>
       unat la div 2 ^ seq_w l < 2 ^ phys_w l \<and> slot_tso l gid (unat la) \<le> unat u"
    "unat (old div seq_cap l) \<le> unat (al_now_ms a) + unat (al_max_clock_rewind_ms a)"
proof -
  let ?cap = "seq_cap l" and ?now = "al_now_ms a"
  let ?eff = "if ?now < old div ?cap then old div ?cap else ?now"
  let ?allowed = "max (old div ?cap) (saturating_add ?now (al_max_future_borrow_ms a))"
  from a have c: "\<not> (?now < old div ?cap \<and> al_max_clock_rewind_ms a < old div ?cap - ?now)"
    and s: "s = max (max old (saturating_mul ?eff ?cap)) fi"
    and la: "Option.bind (checked_add s (ucast (al_count a))) (\<lambda>v. checked_sub v 1) = Some la"
    and al: "\<not> ?allowed < la div ?cap" and n: "checked_add la 1 = Some n"
    and ub: "\<And>u. al_issued_upper_bound a = Some u \<Longrightarrow>
      \<exists>t. encode l (la div ?cap) gid (ucast (la mod ?cap)) = Inr t \<and> \<not> u < t"
    by (auto simp: allocate_attempt_def Let_def result_simps split: if_splits)
  show "old \<le> s" "fi \<le> s" by (simp_all add: s le_max_iff_disj)
  show "la div ?cap \<le> ?allowed" using al by (simp only: not_less)
  show nla: "unat n = unat la + 1" using checked_add_SomeD [OF n] by simp
  from la obtain w where w: "checked_add s (ucast (al_count a)) = Some w" "1 \<le> w" "la = w - 1"
    by (auto simp: checked_sub_Some bind_eq_Some_conv)
  have "unat w = unat s + unat (al_count a)" using checked_add_SomeD [OF w(1)] by simp
  moreover have "unat la = unat w - 1" "1 \<le> unat w"
    using w by (simp_all add: unat_sub word_le_nat_alt)
  ultimately show "unat n = unat s + unat (al_count a)" using nla by simp
  have "?now \<le> ?eff" by (simp add: order_less_imp_le)
  then have "saturating_mul ?now ?cap \<le> saturating_mul ?eff ?cap"
    by (auto simp: word_le_nat_alt unat_saturating_mul intro: le_trans [OF min.cobounded1] mult_right_mono)
  then show "saturating_mul ?now ?cap \<le> s" by (auto simp: s le_max_iff_disj)
  show "unat la div 2 ^ seq_w l < 2 ^ phys_w l \<and> slot_tso l gid (unat la) \<le> unat u"
    if "al_issued_upper_bound a = Some u"
    using ub [OF that] by (auto simp: encode_slot [OF v] not_less word_le_nat_alt)
  show "unat (old div ?cap) \<le> unat ?now + unat (al_max_clock_rewind_ms a)"
    using c by (cases "?now < old div ?cap")
      (auto simp: word_less_nat_alt unat_sub word_le_nat_alt not_less)
qed

lemma cursor_index_slot:
  assumes v: "layout_valid l" and s: "unat (cu_sequence c) < 2 ^ seq_w l" and i: "cursor_index l c = Some i"
  shows "slot_tso l gid (unat i) = tso_nat l (unat (cu_physical_ms c)) (unat gid) (unat (cu_sequence c))"
proof -
  from i obtain m where m: "checked_mul (cu_physical_ms c) (seq_cap l) = Some m"
    "checked_add m (ucast (cu_sequence c)) = Some i"
    by (auto simp: cursor_index_def bind_eq_Some_conv)
  have "unat i = unat (cu_sequence c) + unat (cu_physical_ms c) * 2 ^ seq_w l"
    using checked_mul_SomeD [OF m(1)] checked_add_SomeD [OF m(2)] by (simp add: unat_seq_cap v)
  then show ?thesis using s by (simp add: slot_tso_def)
qed

lemma floor_index_above:
  assumes v: "layout_valid l" and g: "unat gid < 2 ^ gen_w l"
    and f: "floor_index l gid (Some f) = Inr fi" and s: "fi \<le> s" "unat s < 2 ^ 64 - 1"
  shows "unat f < slot_tso l gid (unat s)"
proof -
  obtain c where c: "next_cursor_after_with_layout l f gid = Inr c" "unat (cu_sequence c) < 2 ^ seq_w l"
    "unat f < tso_nat l (unat (cu_physical_ms c)) (unat gid) (unat (cu_sequence c))"
    by (rule next_cursor_least_nat [OF v g]) blast
  show ?thesis
  proof (cases "cursor_index l c")
    case None
    then have "fi = - 1" using f c by (simp add: floor_index_def)
    with s show ?thesis by (simp add: word_le_nat_alt unat_max_word)
  next
    case (Some i)
    then have "fi = i" using f c by (simp add: floor_index_def)
    moreover have "unat f < slot_tso l gid (unat i)" using cursor_index_slot [OF v c(2) Some] c(3) by simp
    ultimately show ?thesis
      using s(1) slot_tso_le [OF g, of "unat i" "unat s"] by (simp add: word_le_nat_alt)
  qed
qed

subsection \<open>The whole loop\<close>

lemma allocate_loop_Allocated:
  "allocate_loop env a fi i r g = (g', Inr (Allocated rs)) \<Longrightarrow>
   \<exists>old s la. allocate_attempt (gn_layout g) (gn_id g) a fi old = Inr (s, la, gn_next_index g')
     \<and> build_ranges (gn_layout g) (gn_id g) s (ucast (al_count a)) = Inr rs
     \<and> g' = g \<lparr> gn_next_index := gn_next_index g' \<rparr>
     \<and> ((\<forall>j v. v \<le> env j v) \<longrightarrow> gn_next_index g \<le> old)"
proof (induction env a fi i r g rule: allocate_loop.induct)
  case (1 env a fi i r g)
  let ?old = "env i (gn_next_index g)"
  obtain t where t: "allocate_attempt (gn_layout g) (gn_id g) a fi ?old = Inr t"
    using "1.prems" by (subst (asm) allocate_loop.simps) (auto simp: Let_def split: sum.splits)
  obtain s la n where t': "(s, la, n) = t" by (cases t) auto
  let ?seen = "env (i + 1) ?old"
  show ?case
  proof (cases "?seen = ?old")
    case True
    with "1.prems" t t' [symmetric] have "g' = g \<lparr> gn_next_index := n \<rparr>"
      "build_ranges (gn_layout g) (gn_id g) s (ucast (al_count a)) = Inr rs"
      by (subst (asm) allocate_loop.simps, auto simp: Let_def and_then_eq_Inr)+
    with t t' show ?thesis by (intro exI [of _ ?old] exI [of _ s] exI [of _ la]) auto
  next
    case False
    with "1.prems" t t' [symmetric] have r: "\<not> MAX_GENERATOR_CONTENTION_RETRIES \<le> r + 1"
      and l: "allocate_loop env a fi (i + 2) (r + 1) (g \<lparr> gn_next_index := ?seen \<rparr>)
        = (g', Inr (Allocated rs))"
      by (subst (asm) allocate_loop.simps, simp add: Let_def split: if_splits)+
    have "\<exists>old s la. allocate_attempt (gn_layout g) (gn_id g) a fi old = Inr (s, la, gn_next_index g')
      \<and> build_ranges (gn_layout g) (gn_id g) s (ucast (al_count a)) = Inr rs
      \<and> g' = g \<lparr> gn_next_index := gn_next_index g' \<rparr>
      \<and> ((\<forall>j v. v \<le> env j v) \<longrightarrow> ?seen \<le> old)"
      using "1.IH" [OF refl t t' refl refl False refl r l] by simp
    moreover have "gn_next_index g \<le> ?seen" if m: "\<forall>j v. v \<le> env j v"
      using m by (meson order_trans)
    ultimately show ?thesis by (meson order_trans)
  qed
qed

lemma allocate_after_Allocated:
  assumes v: "layout_valid (gn_layout g)" and g: "gn_id g < max_generators (gn_layout g)"
    and c: "al_count a \<noteq> 0"
    and r: "allocate_after env a g = (g', Inr (Allocated rs))"
  obtains start where
    "ranges_tsos rs = map (slot_tso (gn_layout g) (gn_id g)) [start ..< start + unat (al_count a)]"
    "\<forall>r0 \<in> set rs. rg_start_tso r0 \<le> rg_end_tso r0"
    "unat (gn_next_index g') = start + unat (al_count a)"
    "g' = g \<lparr> gn_next_index := gn_next_index g' \<rparr>"
    "\<forall>j v. v \<le> env j v \<Longrightarrow> unat (gn_next_index g) \<le> start"
    "unat (al_now_ms a) * 2 ^ seq_w (gn_layout g) \<le> start"
    "\<And>f. al_floor a = Some f \<Longrightarrow> unat f < slot_tso (gn_layout g) (gn_id g) start"
    "\<And>u. al_issued_upper_bound a = Some u \<Longrightarrow>
       slot_tso (gn_layout g) (gn_id g) (start + unat (al_count a) - 1) \<le> unat u"
proof -
  let ?l = "gn_layout g" and ?id = "gn_id g"
  from r obtain fi where fi: "floor_index ?l ?id (al_floor a) = Inr fi"
    and l: "allocate_loop env a fi 0 0 g = (g', Inr (Allocated rs))"
    by (auto simp: allocate_after_def split: sum.splits)
  from l obtain old s la where a: "allocate_attempt ?l ?id a fi old = Inr (s, la, gn_next_index g')"
    and b: "build_ranges ?l ?id s (ucast (al_count a)) = Inr rs"
    and g': "g' = g \<lparr> gn_next_index := gn_next_index g' \<rparr>"
    and m: "(\<forall>j v. v \<le> env j v) \<longrightarrow> gn_next_index g \<le> old"
    using allocate_loop_Allocated by blast
  note f = allocate_attempt_Inr [OF v a]
  have id: "unat ?id < 2 ^ gen_w ?l" using g by (simp add: word_less_nat_alt unat_max_generators v)
  have c': "0 < unat (al_count a)" using c by (simp add: unat_gt_0)
  have s: "unat s < 2 ^ 64 - 1" using f(3) unat_lt64 [of "gn_next_index g'"] c' by simp
  have "min (unat (al_now_ms a) * 2 ^ seq_w ?l) (2 ^ 64 - 1) \<le> unat s"
    using f(5) by (simp add: word_le_nat_alt unat_saturating_mul unat_seq_cap v)
  with s have now: "unat (al_now_ms a) * 2 ^ seq_w ?l \<le> unat s" by (simp add: min_le_iff_disj)
  have la: "unat la = unat s + unat (al_count a) - 1" using f(3,4) by simp
  show thesis
  proof (rule that [of "unat s"])
    show "unat (gn_next_index g) \<le> unat s" if "\<forall>j v. v \<le> env j v"
      using m that f(1) by (simp add: word_le_nat_alt)
    show "unat x < slot_tso ?l ?id (unat s)" if "al_floor a = Some x" for x
      using floor_index_above [OF v id _ f(2) s] fi that by simp
    show "slot_tso ?l ?id (unat s + unat (al_count a) - 1) \<le> unat u"
      if "al_issued_upper_bound a = Some u" for u
      using f(7) [OF that] la by simp
  qed (use build_ranges_tsos [OF v b] f(3) g' now in simp_all)
qed

lemma decode_slot:
  assumes "layout_valid l" "unat gid < 2 ^ gen_w l" "unat t = slot_tso l gid i"
  shows "unat (dt_physical_ms (decode l t)) = i div 2 ^ seq_w l"
    "dt_generator_id (decode l t) = gid" "unat (dt_sequence (decode l t)) = i mod 2 ^ seq_w l"
  using tso_nat_decode [OF assms(1), of t] assms(2,3) decode_bounds [OF assms(1), of t]
  by (simp_all add: slot_tso_def tso_nat_eq_iff word_unat_eq_iff)

lemma sorted_wrt_slots:
  "unat gid < 2 ^ gen_w l \<Longrightarrow> sorted_wrt (<) (map (slot_tso l gid) [i ..< j])"
  by (simp add: sorted_wrt_map slot_tso_less)

lemma init_after_floor_monotone:
  "init_after_floor f g = (g', r) \<Longrightarrow>
     gn_next_index g \<le> gn_next_index g' \<and> gn_id g' = gn_id g \<and> gn_layout g' = gn_layout g
     \<and> gn_ready_lease_token g' = gn_ready_lease_token g"
  by (auto simp: init_after_floor_def split: sum.splits option.splits)

lemma init_after_floor_above:
  assumes v: "layout_valid (gn_layout g)" and g: "unat (gn_id g) < 2 ^ gen_w (gn_layout g)"
    and r: "init_after_floor f g = (g', Inr ())"
  shows "unat f < slot_tso (gn_layout g) (gn_id g) (unat (gn_next_index g'))"
proof -
  obtain c where c: "next_cursor_after_with_layout (gn_layout g) f (gn_id g) = Inr c"
    "unat (cu_sequence c) < 2 ^ seq_w (gn_layout g)"
    "unat f < tso_nat (gn_layout g) (unat (cu_physical_ms c)) (unat (gn_id g)) (unat (cu_sequence c))"
    by (rule next_cursor_least_nat [OF v g]) blast
  with r obtain i where i: "cursor_index (gn_layout g) c = Some i"
    "gn_next_index g' = max (gn_next_index g) i"
    by (auto simp: init_after_floor_def split: option.splits)
  have "unat f < slot_tso (gn_layout g) (gn_id g) (unat i)"
    using cursor_index_slot [OF v c(2) i(1)] c(3) by simp
  also have "\<dots> \<le> slot_tso (gn_layout g) (gn_id g) (unat (gn_next_index g'))"
    by (simp add: slot_tso_le [OF g] i(2) unat_max)
  finally show ?thesis .
qed

lemma current_last_issued_slot:
  assumes "layout_valid (gn_layout g)" "current_last_issued_tso g = Inr (Some t)"
  shows "0 < unat (gn_next_index g)"
    "unat t = slot_tso (gn_layout g) (gn_id g) (unat (gn_next_index g) - 1)"
proof -
  from assms(2) have n: "gn_next_index g \<noteq> 0"
    and e: "encode (gn_layout g) ((gn_next_index g - 1) div seq_cap (gn_layout g)) (gn_id g)
      (ucast ((gn_next_index g - 1) mod seq_cap (gn_layout g))) = Inr t"
    by (auto simp: current_last_issued_tso_def Let_def and_then_eq_Inr split: if_splits)
  from n show p: "0 < unat (gn_next_index g)" by (simp add: unat_gt_0)
  have "unat (gn_next_index g - 1) = unat (gn_next_index g) - 1"
    using p by (subst unat_sub) (simp_all add: word_le_nat_alt)
  with e show "unat t = slot_tso (gn_layout g) (gn_id g) (unat (gn_next_index g) - 1)"
    by (simp add: encode_slot [OF assms(1)])
qed

lemma allocate_after_uncontended:
  "allocate_after (\<lambda>_ v. v) a g =
     (case floor_index (gn_layout g) (gn_id g) (al_floor a) of
        Inl e \<Rightarrow> (g, Inl e)
      | Inr fi \<Rightarrow>
          (case allocate_attempt (gn_layout g) (gn_id g) a fi (gn_next_index g) of
             Inl e \<Rightarrow> (g, Inl e)
           | Inr (s, la, n) \<Rightarrow>
               (g \<lparr> gn_next_index := n \<rparr>,
                and_then (build_ranges (gn_layout g) (gn_id g) s (ucast (al_count a)))
                  (\<lambda>rs. Inr (Allocated rs)))))"
  by (auto simp: allocate_after_def allocate_loop.simps Let_def split: sum.splits)

lemma allocate_attempt_ok:
  assumes v: "layout_valid l" and g: "unat gid < 2 ^ gen_w l"
  defines "c \<equiv> 2 ^ seq_w l"
  assumes rewind: "unat old div c \<le> unat (al_now_ms a) + unat (al_max_clock_rewind_ms a)"
  assumes s: "unat s = max (max (unat old) (unat (al_now_ms a) * c)) (unat fi)"
    and n: "unat n = unat s + unat (al_count a)" "0 < unat (al_count a)"
    and borrow: "(unat n - 1) div c \<le> max (unat old div c)
      (min (unat (al_now_ms a) + unat (al_max_future_borrow_ms a)) (2 ^ 64 - 1))"
    and fits: "(unat n - 1) div c < 2 ^ phys_w l"
    and ub: "\<And>u. al_issued_upper_bound a = Some u \<Longrightarrow> slot_tso l gid (unat n - 1) \<le> unat u"
  shows "allocate_attempt l gid a fi old = Inr (s, n - 1, n)"
proof -
  let ?cap = "seq_cap l" and ?now = "al_now_ms a"
  let ?eff = "if ?now < old div ?cap then old div ?cap else ?now"
  let ?allowed = "max (old div ?cap) (saturating_add ?now (al_max_future_borrow_ms a))"
  have cap: "unat ?cap = c" by (simp add: c_def unat_seq_cap v)
  have cur: "unat (old div ?cap) = unat old div c" by (simp add: unat_div cap)
  have eff: "unat ?eff = max (unat ?now) (unat old div c)"
    by (simp add: word_less_nat_alt cur max_def)
  have le: "unat old div c * c \<le> unat old" by simp
  have n64: "unat n < 2 ^ 64" by simp
  have ec: "unat ?eff * c = max (unat ?now * c) (unat old div c * c)"
    unfolding eff by (simp add: max_def)
  have "unat ?eff * c \<le> unat s" unfolding ec s using le by linarith
  then have "unat (saturating_mul ?eff ?cap) = unat ?eff * c"
    using n64 n by (simp add: unat_saturating_mul cap)
  then have start: "max (max old (saturating_mul ?eff ?cap)) fi = s"
    unfolding word_unat_eq_iff unat_max s using le ec by linarith
  have n1: "unat (n - 1) = unat n - 1" using n by (subst unat_sub) (simp_all add: word_le_nat_alt)
  have add: "checked_add s (ucast (al_count a)) = Some n"
    using n n64 by (simp add: checked_add_def word_unat_eq_iff unat_add_small)
  have sub: "checked_sub n 1 = Some (n - 1)" using n by (simp add: checked_sub_def word_le_nat_alt)
  have succ: "checked_add (n - 1) 1 = Some n" using n n64 n1 by (simp add: checked_add_def)
  have allowed: "unat ?allowed = max (unat old div c)
      (min (unat ?now + unat (al_max_future_borrow_ms a)) (2 ^ 64 - 1))"
    by (simp add: unat_max cur unat_saturating_add)
  have b2: "\<not> ?allowed < (n - 1) div ?cap"
    using borrow by (simp only: word_less_nat_alt allowed unat_div cap n1 not_less)
  have "unat s div c \<le> (unat n - 1) div c" using n by (intro div_le_mono) linarith
  then have b1: "\<not> ?allowed < s div ?cap"
    using borrow unfolding word_less_nat_alt allowed unat_div cap by linarith
  have rw: "\<not> (?now < old div ?cap \<and> al_max_clock_rewind_ms a < old div ?cap - ?now)"
    using rewind by (auto simp: word_less_nat_alt cur unat_sub word_le_nat_alt)
  have "\<exists>t. encode l ((n - 1) div ?cap) gid (ucast ((n - 1) mod ?cap)) = Inr t
      \<and> unat t = slot_tso l gid (unat n - 1)"
    using slot_tso_bound [OF v g, of "unat n - 1"] fits g n1
    by (intro exI [of _ "of_nat (slot_tso l gid (unat n - 1))"])
      (simp add: encode_slot [OF v] unat_of_nat_small c_def)
  then obtain t where t: "encode l ((n - 1) div ?cap) gid (ucast ((n - 1) mod ?cap)) = Inr t"
    "unat t = slot_tso l gid (unat n - 1)" by blast
  have "\<not> u < t" if "al_issued_upper_bound a = Some u" for u
    using ub [OF that] t(2) by (simp add: word_less_nat_alt)
  with rw b1 b2 t(1) show ?thesis
    unfolding allocate_attempt_def Let_def start
    by (simp add: add sub succ split: option.splits)
qed

subsection \<open>Properties of allocation\<close>

text \<open>
  C4: a successful allocation hands out exactly the requested number of timestamps, strictly
  increasing, all of the generator's own id, none before the current time, all above the floor and
  none above the issued upper bound of the lease. They are the slots from some position at or above
  the counter the call started from, and the counter ends right behind the last of them, however
  often other threads won the race in between.
\<close>
theorem allocate_after_correct:
  assumes "layout_valid (gn_layout g)" "gn_id g < max_generators (gn_layout g)" "al_count a \<noteq> 0"
    and "\<forall>i v. v \<le> env i v"
    and "allocate_after env a g = (g', Inr (Allocated rs))"
  shows "length (ranges_tsos rs) = unat (al_count a) \<and> sorted_wrt (<) (ranges_tsos rs)
    \<and> (\<forall>t. unat t \<in> set (ranges_tsos rs) \<longrightarrow>
          dt_generator_id (decode (gn_layout g) t) = gn_id g
          \<and> al_now_ms a \<le> dt_physical_ms (decode (gn_layout g) t)
          \<and> (\<forall>f. al_floor a = Some f \<longrightarrow> f < t) \<and> (\<forall>u. al_issued_upper_bound a = Some u \<longrightarrow> t \<le> u))
    \<and> (\<exists>start \<ge> unat (gn_next_index g).
          ranges_tsos rs = map (slot_tso (gn_layout g) (gn_id g)) [start ..< unat (gn_next_index g')])"
proof -
  let ?l = "gn_layout g" and ?id = "gn_id g" and ?n = "unat (al_count a)"
  obtain start where ts: "ranges_tsos rs = map (slot_tso ?l ?id) [start ..< start + ?n]"
    and n: "unat (gn_next_index g') = start + ?n" and s: "unat (gn_next_index g) \<le> start"
    and now: "unat (al_now_ms a) * 2 ^ seq_w ?l \<le> start"
    and fl: "\<And>f. al_floor a = Some f \<Longrightarrow> unat f < slot_tso ?l ?id start"
    and ub: "\<And>u. al_issued_upper_bound a = Some u \<Longrightarrow> slot_tso ?l ?id (start + ?n - 1) \<le> unat u"
    by (rule allocate_after_Allocated [OF assms(1-3,5)]) (use assms(4) in blast)
  have id: "unat ?id < 2 ^ gen_w ?l"
    using assms(1,2) by (simp add: word_less_nat_alt unat_max_generators)
  have "dt_generator_id (decode ?l t) = ?id \<and> al_now_ms a \<le> dt_physical_ms (decode ?l t)
      \<and> (\<forall>f. al_floor a = Some f \<longrightarrow> f < t) \<and> (\<forall>u. al_issued_upper_bound a = Some u \<longrightarrow> t \<le> u)"
    if "unat t \<in> set (ranges_tsos rs)" for t
  proof -
    from that ts obtain i where i: "unat t = slot_tso ?l ?id i" "start \<le> i" "i \<le> start + ?n - 1"
      by fastforce
    have "unat (al_now_ms a) \<le> i div 2 ^ seq_w ?l"
      using now i(2) by (simp add: less_eq_div_iff_mult_less_eq)
    moreover have "slot_tso ?l ?id start \<le> unat t" "unat t \<le> slot_tso ?l ?id (start + ?n - 1)"
      using i by (simp_all add: slot_tso_le [OF id])
    ultimately show ?thesis
      using decode_slot [OF assms(1) id i(1)]
      by (auto simp: word_le_nat_alt word_less_nat_alt dest!: fl ub)
  qed
  then show ?thesis using ts n s sorted_wrt_slots [OF id] by auto
qed

lemmas alloc_eval =
  allocate_after_def floor_index_def next_cursor_after_with_layout_def decode_def encode_def
  cursor_index_def seq_cap_def sequence_capacity_def max_generators_def max_physical_ms_def
  logical_bits_def shl_def shr_def push_bit_eq_mult drop_bit_eq_div generator_with_layout_def
  default_layout_lit default_layout_valid_lit checked_add_def checked_mul_def checked_sub_def saturating_add_def
  saturating_mul_def allocate_attempt_def

theorem allocate_after_correct_witness:
  "\<exists>g' rs. allocate_after (\<lambda>i v. v)
      \<lparr> al_count = 3, al_floor = Some 83900425, al_now_ms = 5, al_max_future_borrow_ms = 10,
         al_max_clock_rewind_ms = 0, al_issued_upper_bound = Some 83902463 \<rparr>
      (generator_with_layout 7 DEFAULT_TIMESTAMP_LAYOUT) = (g', Inr (Allocated rs))
    \<and> length (ranges_tsos rs) = 3 \<and> sorted_wrt (<) (ranges_tsos rs)"
proof -
  let ?a = "\<lparr> al_count = 3, al_floor = Some 83900425, al_now_ms = 5, al_max_future_borrow_ms = 10,
         al_max_clock_rewind_ms = 0, al_issued_upper_bound = Some 83902463 \<rparr> :: allocate_args"
  let ?g = "generator_with_layout 7 DEFAULT_TIMESTAMP_LAYOUT"
  have l: "gn_layout ?g = DEFAULT_TIMESTAMP_LAYOUT" "gn_id ?g = 7"
    by (simp_all add: generator_with_layout_def)
  have r: "allocate_after (\<lambda>i v. v) ?a ?g = (?g \<lparr> gn_next_index := 10253 \<rparr>,
      Inr (Allocated [\<lparr> rg_start_tso = 83900426, rg_end_tso = 83900428 \<rparr>]))"
    by (simp add: alloc_eval allocate_loop.simps
      build_ranges.simps [of _ _ _ 3] build_ranges.simps [of _ _ _ 0])
  have "gn_id ?g < max_generators (gn_layout ?g)" 
    by (simp add: alloc_eval)
  moreover have "al_count ?a \<noteq> 0" "\<forall>i v. (v :: u64) \<le> (\<lambda>i v. v) i v" by simp_all
  ultimately show ?thesis
    using allocate_after_correct [OF _ _ _ _ r] default_layout_valid r unfolding l by fastforce
qed

text \<open>
  C5: when no other thread interferes, allocation succeeds exactly on demand: if the clock is at most
  the tolerated rewind behind the counter, the last slot needed stays within the future-borrow
  window, the layout and the issued upper bound, then the call returns the ranges that start at the
  largest of counter, current time and floor, and advances the counter by the count.
\<close>
theorem allocate_after_available:
  fixes g :: generator and a :: allocate_args
  defines "c \<equiv> 2 ^ seq_w (gn_layout g)"
  defines "start \<equiv> \<lambda>fi. max (max (unat (gn_next_index g)) (unat (al_now_ms a) * c)) (unat (fi :: u64))"
  defines "lst \<equiv> \<lambda>fi. start fi + unat (al_count a) - 1"
  assumes "layout_valid (gn_layout g)" "gn_id g < max_generators (gn_layout g)" "al_count a \<noteq> 0"
    and "floor_index (gn_layout g) (gn_id g) (al_floor a) = Inr fi"
    and "unat (gn_next_index g) div c \<le> unat (al_now_ms a) + unat (al_max_clock_rewind_ms a)"
    and "start fi + unat (al_count a) < 2 ^ 64"
    and "lst fi div c \<le> max (unat (gn_next_index g) div c)
           (min (unat (al_now_ms a) + unat (al_max_future_borrow_ms a)) (2 ^ 64 - 1))"
    and "lst fi div c < 2 ^ phys_w (gn_layout g)"
    and "\<forall>u. al_issued_upper_bound a = Some u \<longrightarrow>
           slot_tso (gn_layout g) (gn_id g) (lst fi) \<le> unat u"
  shows "\<exists>rs. allocate_after (\<lambda>_ v. v) a g =
      (g \<lparr> gn_next_index := of_nat (start fi + unat (al_count a)) \<rparr>, Inr (Allocated rs))
    \<and> ranges_tsos rs =
        map (slot_tso (gn_layout g) (gn_id g)) [start fi ..< start fi + unat (al_count a)]"
proof -
  let ?l = "gn_layout g" and ?id = "gn_id g" and ?n = "of_nat (start fi + unat (al_count a)) :: u64"
  let ?s = "of_nat (start fi) :: u64"
  have id: "unat ?id < 2 ^ gen_w ?l"
    using assms(4,5) by (simp add: word_less_nat_alt unat_max_generators)
  have n: "unat ?n = start fi + unat (al_count a)" using assms(9) by (intro unat_of_nat_small) simp
  have s: "unat ?s = start fi" using assms(9) by (intro unat_of_nat_small) simp
  have c0: "0 < unat (al_count a)" using assms(6) by (simp add: unat_gt_0)
  have lst: "unat ?n - 1 = lst fi" using n by (simp add: lst_def)
  have at: "allocate_attempt ?l ?id a fi (gn_next_index g) = Inr (?s, ?n - 1, ?n)"
  proof (rule allocate_attempt_ok [OF assms(4) id, folded c_def])
    show "unat ?s = max (max (unat (gn_next_index g)) (unat (al_now_ms a) * c)) (unat fi)"
      using s unfolding start_def .
    show "unat ?n = unat ?s + unat (al_count a)" by (simp only: s n)
  qed (use assms(8,10,11,12) c0 in \<open>simp_all only: lst\<close>)
  obtain rs where rs: "build_ranges ?l ?id ?s (ucast (al_count a)) = Inr rs"
    using build_ranges_total [OF assms(4) id, of ?s "ucast (al_count a)"] assms(9,11)
    by (auto simp: s lst_def c_def)
  show ?thesis
    using at rs build_ranges_tsos [OF assms(4) rs]
    by (simp add: allocate_after_uncontended assms(7) s)
qed

theorem allocate_after_available_witness:
  "\<exists>rs. allocate_after (\<lambda>_ v. v)
      \<lparr> al_count = 3, al_floor = None, al_now_ms = 5, al_max_future_borrow_ms = 10,
         al_max_clock_rewind_ms = 0, al_issued_upper_bound = None \<rparr>
      (generator_with_layout 7 DEFAULT_TIMESTAMP_LAYOUT)
    = (generator_with_layout 7 DEFAULT_TIMESTAMP_LAYOUT \<lparr> gn_next_index := 10243 \<rparr>, Inr (Allocated rs))"
proof -
  let ?a = "\<lparr> al_count = 3, al_floor = None, al_now_ms = 5, al_max_future_borrow_ms = 10,
         al_max_clock_rewind_ms = 0, al_issued_upper_bound = None \<rparr> :: allocate_args"
  let ?g = "generator_with_layout 7 DEFAULT_TIMESTAMP_LAYOUT"
  have g: "gn_layout ?g = DEFAULT_TIMESTAMP_LAYOUT" "gn_id ?g = 7" "gn_next_index ?g = 0"
    by (simp_all add: generator_with_layout_def)
  have w: "seq_w DEFAULT_TIMESTAMP_LAYOUT = 11" "phys_w DEFAULT_TIMESTAMP_LAYOUT = 40"
    "7 < max_generators DEFAULT_TIMESTAMP_LAYOUT"
    by (simp_all add: default_layout_lit max_generators_def shl_def push_bit_eq_mult)
  show ?thesis
    using allocate_after_available [of ?g ?a 0] default_layout_valid
    by (fastforce simp: g w floor_index_def)
qed

text \<open>
  An allocation under an issued upper bound is all or nothing when no other thread interferes: it
  returns ranges, or it returns an error and leaves the generator as it was. It never reports
  contention.
\<close>
theorem allocate_after_fenced_atomic:
  assumes "layout_valid (gn_layout g)" "gn_id g < max_generators (gn_layout g)"
    and "al_count a \<noteq> 0" and "al_issued_upper_bound a = Some u"
  shows "(\<exists>g' rs. allocate_after (\<lambda>_ v. v) a g = (g', Inr (Allocated rs)))
    \<or> (\<exists>e. allocate_after (\<lambda>_ v. v) a g = (g, Inl e))"
proof (cases "floor_index (gn_layout g) (gn_id g) (al_floor a)")
  case (Inr fi)
  let ?l = "gn_layout g" and ?id = "gn_id g"
  show ?thesis
  proof (cases "allocate_attempt ?l ?id a fi (gn_next_index g)")
    case (Inr t)
    obtain s la n where t: "t = (s, la, n)" by (cases t)
    note f = allocate_attempt_Inr [OF assms(1) Inr [unfolded t]]
    have id: "unat ?id < 2 ^ gen_w ?l"
      using assms(1,2) by (simp add: word_less_nat_alt unat_max_generators)
    have "unat s + unat (ucast (al_count a) :: u64) < 2 ^ 64" using f(3) unat_lt64 [of n] by simp
    moreover have "unat s + unat (ucast (al_count a) :: u64) - 1 = unat la" using f(3,4) by simp
    ultimately obtain rs where "build_ranges ?l ?id s (ucast (al_count a)) = Inr rs"
      using build_ranges_total [OF assms(1) id, of s "ucast (al_count a)"] f(7) [OF assms(4)] by auto
    with Inr \<open>floor_index _ _ _ = Inr fi\<close> t show ?thesis by (simp add: allocate_after_uncontended)
  qed (simp add: allocate_after_uncontended Inr)
qed (simp add: allocate_after_uncontended)

theorem allocate_after_fenced_atomic_witness:
  "(\<exists>g' rs. allocate_after (\<lambda>_ v. v)
      \<lparr> al_count = 3, al_floor = None, al_now_ms = 5, al_max_future_borrow_ms = 10,
         al_max_clock_rewind_ms = 0, al_issued_upper_bound = Some 7 \<rparr>
      (generator_with_layout 7 DEFAULT_TIMESTAMP_LAYOUT) = (g', Inr (Allocated rs)))
    \<or> (\<exists>e. allocate_after (\<lambda>_ v. v)
      \<lparr> al_count = 3, al_floor = None, al_now_ms = 5, al_max_future_borrow_ms = 10,
         al_max_clock_rewind_ms = 0, al_issued_upper_bound = Some 7 \<rparr>
      (generator_with_layout 7 DEFAULT_TIMESTAMP_LAYOUT)
      = (generator_with_layout 7 DEFAULT_TIMESTAMP_LAYOUT, Inl e))"
proof -
  have "layout_valid (gn_layout (generator_with_layout 7 DEFAULT_TIMESTAMP_LAYOUT))"
    by (simp add: generator_with_layout_def default_layout_valid)
  moreover have "gn_id (generator_with_layout 7 DEFAULT_TIMESTAMP_LAYOUT)
      < max_generators (gn_layout (generator_with_layout 7 DEFAULT_TIMESTAMP_LAYOUT))"
    by (simp add: alloc_eval)
  ultimately show ?thesis by (rule allocate_after_fenced_atomic) simp_all
qed

end
