(* ===== verification/Generator_Threads.thy ===== *)
theory Generator_Threads
  imports Generator
begin

text \<open>
  Several threads on one generator. The atomic accesses of \<open>Generator::allocate_after\<close> and
  \<open>Generator::init_after_floor\<close> (\<open>runtime/generator_lease.rs\<close>) become the steps of a relation: a
  thread loads the counter, later tries to swap it and either wins, loses the race or gives up with
  an error. A ghost list records the slot intervals handed out, newest first. Between two accesses
  of one thread any number of steps of other threads may happen.
\<close>

datatype thread_state = Idle | Loaded allocate_args u64 u64

record shared_generator =
  sg_next_index :: u64
  sg_threads :: "nat \<Rightarrow> thread_state"
  sg_issued :: "(nat \<times> nat) list"

definition shared_init :: "u64 \<Rightarrow> shared_generator" where
  "shared_init n = \<lparr> sg_next_index = n, sg_threads = (\<lambda>_. Idle), sg_issued = [] \<rparr>"

definition set_thread :: "nat \<Rightarrow> thread_state \<Rightarrow> shared_generator \<Rightarrow> shared_generator" where
  "set_thread t p s = s \<lparr> sg_threads := (sg_threads s)(t := p) \<rparr>"

inductive gen_step :: "timestamp_layout \<Rightarrow> u32 \<Rightarrow> shared_generator \<Rightarrow> shared_generator \<Rightarrow> bool"
  for l :: timestamp_layout and gid :: u32 where
  load: "sg_threads s t = Idle \<Longrightarrow> al_count a \<noteq> 0 \<Longrightarrow>
     floor_index l gid (al_floor a) = Inr fi \<Longrightarrow>
     gen_step l gid s (set_thread t (Loaded a fi (sg_next_index s)) s)"
| swap: "sg_threads s t = Loaded a fi old \<Longrightarrow>
     allocate_attempt l gid a fi old = Inr (start_index, last_index, new_index) \<Longrightarrow>
     sg_next_index s = old \<Longrightarrow>
     gen_step l gid s (set_thread t Idle
       (s \<lparr> sg_next_index := new_index,
            sg_issued := (unat start_index, unat new_index) # sg_issued s \<rparr>))"
| lost: "sg_threads s t = Loaded a fi old \<Longrightarrow>
     allocate_attempt l gid a fi old = Inr r \<Longrightarrow> sg_next_index s \<noteq> old \<Longrightarrow>
     gen_step l gid s (set_thread t Idle s)"
| failed: "sg_threads s t = Loaded a fi old \<Longrightarrow>
     allocate_attempt l gid a fi old = Inl e \<Longrightarrow>
     gen_step l gid s (set_thread t Idle s)"
| raise: "next_cursor_after_with_layout l floor gid = Inr c \<Longrightarrow> cursor_index l c = Some index \<Longrightarrow>
     gen_step l gid s (s \<lparr> sg_next_index := max (sg_next_index s) index \<rparr>)"

inductive gen_steps :: "timestamp_layout \<Rightarrow> u32 \<Rightarrow> shared_generator \<Rightarrow> shared_generator \<Rightarrow> bool"
  for l :: timestamp_layout and gid :: u32 where
  refl: "gen_steps l gid s s"
| step: "gen_steps l gid s s' \<Longrightarrow> gen_step l gid s' s'' \<Longrightarrow> gen_steps l gid s s''"

inductive_cases gen_stepE: "gen_step l gid s s'"

lemma set_thread_simps [simp]:
  "sg_next_index (set_thread t p s) = sg_next_index s" "sg_issued (set_thread t p s) = sg_issued s"
  "sg_threads (set_thread t p s) = (sg_threads s)(t := p)"
  by (simp_all add: set_thread_def)

subsection \<open>Invariant\<close>

definition loaded_ok :: "shared_generator \<Rightarrow> bool" where
  "loaded_ok s \<longleftrightarrow> (\<forall>t a fi old. sg_threads s t = Loaded a fi old \<longrightarrow> al_count a \<noteq> 0)"

definition issued_ok :: "shared_generator \<Rightarrow> bool" where
  \<comment> \<open>newer intervals start at or above the end of older ones, none beyond the counter\<close>
  "issued_ok s \<longleftrightarrow> sorted_wrt (\<lambda>(s1, e1) (s2, e2). e2 \<le> s1) (sg_issued s)
     \<and> (\<forall>(s1, e1) \<in> set (sg_issued s). s1 < e1 \<and> e1 \<le> unat (sg_next_index s))"

lemma gen_step_next_mono:
  assumes "layout_valid l" "gen_step l gid s s'" shows "sg_next_index s \<le> sg_next_index s'"
  using assms(2)
proof cases
  case (swap t a fi old start_index last_index new_index)
  note f = allocate_attempt_Inr [OF assms(1) swap(3)]
  have "unat old \<le> unat new_index" using f(1,3) by (simp add: word_le_nat_alt)
  with swap show ?thesis by (simp add: word_le_nat_alt)
qed simp_all

lemma gen_step_loaded_ok: "gen_step l gid s s' \<Longrightarrow> loaded_ok s \<Longrightarrow> loaded_ok s'"
  by (erule gen_stepE) (auto simp: loaded_ok_def)

lemma gen_step_issued_ok:
  assumes "layout_valid l" "gen_step l gid s s'" "loaded_ok s" "issued_ok s" shows "issued_ok s'"
  using assms(2)
proof cases
  case (swap t a fi old start_index last_index new_index)
  note f = allocate_attempt_Inr [OF assms(1) swap(3)]
  have "0 < unat (al_count a)" using assms(3) swap(2) by (force simp: loaded_ok_def unat_gt_0)
  then have "unat (sg_next_index s) \<le> unat start_index" "unat start_index < unat new_index"
    using f(1,3) swap(4) by (simp_all add: word_le_nat_alt)
  with assms(4) swap(1) show ?thesis by (fastforce simp: issued_ok_def)
next
  case (raise floor c index)
  with assms(4) show ?thesis by (fastforce simp: issued_ok_def unat_max)
qed (use assms(4) in \<open>simp_all add: issued_ok_def\<close>)

lemma gen_steps_invariant:
  assumes "layout_valid l" "gen_steps l gid s s'"
  shows "loaded_ok s \<and> issued_ok s \<Longrightarrow>
    loaded_ok s' \<and> issued_ok s' \<and> sg_next_index s \<le> sg_next_index s'"
  using assms(2)
proof (induction rule: gen_steps.induct)
  case (step s s' s'')
  then show ?case
    using gen_step_loaded_ok [OF step.hyps(2)] gen_step_issued_ok [OF assms(1) step.hyps(2)]
      gen_step_next_mono [OF assms(1) step.hyps(2)] by auto
qed simp

definition issued_tsos :: "timestamp_layout \<Rightarrow> u32 \<Rightarrow> shared_generator \<Rightarrow> nat list" where
  \<comment> \<open>all timestamps handed out, in the order of the winning swaps\<close>
  "issued_tsos l gid s = concat (map (\<lambda>(b, e). map (slot_tso l gid) [b ..< e]) (rev (sg_issued s)))"

lemma sorted_wrt_concat:
  assumes "sorted_wrt (\<lambda>xs ys. \<forall>x \<in> set xs. \<forall>y \<in> set ys. R x y) xss" "\<forall>xs \<in> set xss. sorted_wrt R xs"
  shows "sorted_wrt R (concat xss)"
  using assms by (induction xss) (auto simp: sorted_wrt_append)

text \<open>
  C3: however the steps of any number of threads interleave, including concurrent raises of the
  counter to new floors, the timestamps one generator hands out are strictly increasing in the order
  of the winning compare-and-swap operations. No timestamp is ever handed out twice.
\<close>
theorem concurrent_allocations_increase:
  assumes "layout_valid l" "gid < max_generators l" "gen_steps l gid (shared_init n) s"
  shows "sorted_wrt (<) (issued_tsos l gid s)"
proof -
  have g: "unat gid < 2 ^ gen_w l" using assms by (simp add: word_less_nat_alt unat_max_generators)
  have "issued_ok s"
    using gen_steps_invariant [OF assms(1,3)] by (simp add: loaded_ok_def issued_ok_def shared_init_def)
  then have "sorted_wrt (\<lambda>(s1, e1) (s2, e2). e1 \<le> s2) (rev (sg_issued s))"
    by (auto simp: issued_ok_def sorted_wrt_rev elim: sorted_wrt_mono_rel [rotated])
  then have "sorted_wrt (\<lambda>xs ys. \<forall>x \<in> set xs. \<forall>y \<in> set ys. x < y)
      (map (\<lambda>(b, e). map (slot_tso l gid) [b ..< e]) (rev (sg_issued s)))"
    unfolding sorted_wrt_map
    by (rule sorted_wrt_mono_rel [rotated]) (auto simp: slot_tso_less [OF g])
  then show ?thesis unfolding issued_tsos_def
    by (rule sorted_wrt_concat) (auto simp: sorted_wrt_slots [OF g])
qed

theorem concurrent_allocations_increase_witness:
  "\<exists>s. gen_steps DEFAULT_TIMESTAMP_LAYOUT 7 (shared_init 0) s \<and> sg_issued s = [(10250, 10253)]
     \<and> sorted_wrt (<) (issued_tsos DEFAULT_TIMESTAMP_LAYOUT 7 s)"
proof -
  let ?l = DEFAULT_TIMESTAMP_LAYOUT
  let ?a = "\<lparr> al_count = 3, al_floor = Some 83900425, al_now_ms = 5, al_max_future_borrow_ms = 10,
         al_max_clock_rewind_ms = 0, al_issued_upper_bound = Some 83902463 \<rparr> :: allocate_args"
  let ?s1 = "set_thread 0 (Loaded ?a 10250 0) (shared_init 0)"
  let ?s2 = "set_thread 0 Idle (?s1 \<lparr> sg_next_index := 10253,
    sg_issued := (unat (10250 :: u64), unat (10253 :: u64)) # sg_issued ?s1 \<rparr>)"
  have f: "floor_index ?l 7 (al_floor ?a) = Inr 10250" by (simp add: alloc_eval)
  have at: "allocate_attempt ?l 7 ?a 10250 0 = Inr (10250, 10252, 10253)" by (simp add: alloc_eval)
  have "gen_step ?l 7 (shared_init 0) ?s1"
    using gen_step.load [of "shared_init 0" 0 ?a ?l 7 10250] f by (simp add: shared_init_def)
  moreover have "gen_step ?l 7 ?s1 ?s2"
    by (rule gen_step.swap [of _ _ ?a 10250 0, OF _ at]) (simp_all add: shared_init_def)
  ultimately have s: "gen_steps ?l 7 (shared_init 0) ?s2" by (meson gen_steps.intros)
  have "7 < max_generators ?l" by (simp add: alloc_eval)
  from concurrent_allocations_increase [OF default_layout_valid this s] s show ?thesis
    by (intro exI [of _ ?s2]) (simp add: shared_init_def)
qed

end
