(* ===== verification/Keys.thy ===== *)
theory Keys
  imports Types
begin

text \<open>
  The key space of the metadata store: \<open>metadata/keys.rs\<close>, and the rounding of the identity lease
  TTL in \<open>metadata/mod.rs\<close>. The lemmas show what the store relies on: request keys determine the
  timeline and the request id they were built from, and the keys of the cleanup index sort like the
  numbers they contain.
\<close>

subsection \<open>Definitions\<close>

definition namespace :: "string \<Rightarrow> string \<Rightarrow> string" where
  "namespace prefix suffix = (if prefix = [] then suffix else prefix @ ''/'' @ suffix)"

definition hex_digit :: "nat \<Rightarrow> char" where
  "hex_digit d = ''0123456789abcdef'' ! d"

definition encode_component :: "string \<Rightarrow> string" where
  "encode_component value =
     concat (map (\<lambda>byte. [hex_digit (of_char byte div 16), hex_digit (of_char byte mod 16)]) value)"

definition normalize_endpoint_component :: "string \<Rightarrow> string" where
  "normalize_endpoint_component value = to_ascii_lowercase (str_trim value)"

definition timeline_key :: "string \<Rightarrow> string \<Rightarrow> string" where
  "timeline_key prefix tk = namespace prefix (''routes/'' @ tk)"

definition generator_key :: "string \<Rightarrow> u32 \<Rightarrow> string" where
  "generator_key prefix generator_id =
     namespace prefix (''generators/'' @ fmt_dec (unat generator_id))"

definition generator_prefix :: "string \<Rightarrow> string" where
  "generator_prefix prefix = namespace prefix ''generators/''"

definition route_prefix :: "string \<Rightarrow> string" where
  "route_prefix prefix = namespace prefix ''routes/''"

definition timeline_status_index_prefix :: "string \<Rightarrow> string" where
  "timeline_status_index_prefix prefix = namespace prefix ''timeline_status/''"

definition timeline_status_index_marker_key :: "string \<Rightarrow> string" where
  "timeline_status_index_marker_key prefix = namespace prefix ''timeline_status/__ready''"

definition timeline_status_index_rebuild_lock_key :: "string \<Rightarrow> string" where
  "timeline_status_index_rebuild_lock_key prefix =
     namespace prefix ''cluster/timeline_status_index_rebuild_lock''"

definition timeline_status_owner_index_key :: "string \<Rightarrow> string \<Rightarrow> string \<Rightarrow> string" where
  "timeline_status_owner_index_key prefix owner_worker_endpoint tk =
     namespace prefix (''timeline_status/by_owner/''
       @ encode_component (normalize_endpoint_component owner_worker_endpoint) @ ''/'' @ tk)"

definition timeline_status_owner_index_prefix :: "string \<Rightarrow> string \<Rightarrow> string" where
  "timeline_status_owner_index_prefix prefix owner_worker_endpoint =
     namespace prefix (''timeline_status/by_owner/''
       @ encode_component (normalize_endpoint_component owner_worker_endpoint) @ ''/'')"

definition timeline_status_state_index_key :: "string \<Rightarrow> string \<Rightarrow> string \<Rightarrow> string" where
  "timeline_status_state_index_key prefix state tk =
     namespace prefix (''timeline_status/by_state/'' @ state @ ''/'' @ tk)"

definition timeline_status_state_index_prefix :: "string \<Rightarrow> string \<Rightarrow> string" where
  "timeline_status_state_index_prefix prefix state =
     namespace prefix (''timeline_status/by_state/'' @ state @ ''/'')"

definition request_key :: "string \<Rightarrow> string \<Rightarrow> string \<Rightarrow> string" where
  "request_key prefix tk client_request_id =
     namespace prefix (''requests_v2/'' @ encode_component tk @ ''/''
       @ encode_component client_request_id)"

definition request_prefix :: "string \<Rightarrow> string" where
  "request_prefix prefix = namespace prefix ''requests_v2/''"

definition legacy_request_key :: "string \<Rightarrow> string \<Rightarrow> string \<Rightarrow> string" where
  "legacy_request_key prefix tk client_request_id =
     namespace prefix (''requests/'' @ tk @ ''/'' @ client_request_id)"

definition legacy_request_prefix :: "string \<Rightarrow> string" where
  "legacy_request_prefix prefix = namespace prefix ''requests/''"

definition legacy_request_key_is_unambiguous :: "string \<Rightarrow> string \<Rightarrow> bool" where
  "legacy_request_key_is_unambiguous tk client_request_id =
     (\<not> str_contains tk (CHR ''/'') \<and> \<not> str_contains client_request_id (CHR ''/''))"

definition request_cleanup_index_key :: "string \<Rightarrow> u64 \<Rightarrow> string \<Rightarrow> string \<Rightarrow> string" where
  "request_cleanup_index_key prefix updated_at_ms tk client_request_id =
     namespace prefix (''request_cleanup_v2/'' @ fmt_dec_pad 20 (unat updated_at_ms) @ ''/''
       @ encode_component tk @ ''/'' @ encode_component client_request_id)"

definition request_cleanup_index_prefix :: "string \<Rightarrow> string" where
  "request_cleanup_index_prefix prefix = namespace prefix ''request_cleanup_v2/''"

definition request_cleanup_index_cutoff :: "string \<Rightarrow> u64 \<Rightarrow> string" where
  "request_cleanup_index_cutoff prefix older_than_ms =
     namespace prefix (''request_cleanup_v2/'' @ fmt_dec_pad 20 (unat older_than_ms) @ ''/'')"

definition legacy_request_cleanup_index_key :: "string \<Rightarrow> u64 \<Rightarrow> string \<Rightarrow> string \<Rightarrow> string" where
  "legacy_request_cleanup_index_key prefix updated_at_ms tk client_request_id =
     namespace prefix (''request_cleanup/'' @ fmt_dec_pad 20 (unat updated_at_ms) @ ''/''
       @ tk @ ''/'' @ client_request_id)"

definition legacy_request_cleanup_index_prefix :: "string \<Rightarrow> string" where
  "legacy_request_cleanup_index_prefix prefix = namespace prefix ''request_cleanup/''"

definition legacy_request_cleanup_index_cutoff :: "string \<Rightarrow> u64 \<Rightarrow> string" where
  "legacy_request_cleanup_index_cutoff prefix older_than_ms =
     namespace prefix (''request_cleanup/'' @ fmt_dec_pad 20 (unat older_than_ms) @ ''/'')"

definition instance_identity_key :: "string \<Rightarrow> string \<Rightarrow> string" where
  "instance_identity_key prefix instance_id = namespace prefix (''identity/instances/'' @ instance_id)"

definition instance_identity_prefix :: "string \<Rightarrow> string" where
  "instance_identity_prefix prefix = namespace prefix ''identity/instances/''"

definition ownership_plan_key :: "string \<Rightarrow> string" where
  "ownership_plan_key prefix = namespace prefix ''cluster/ownership_plan''"

definition cluster_format_key :: "string \<Rightarrow> string" where
  "cluster_format_key prefix = namespace prefix ''cluster/format_version''"

definition cluster_prefix :: "string \<Rightarrow> string" where
  "cluster_prefix prefix = namespace prefix ''cluster/''"

definition cluster_timestamp_layout_key :: "string \<Rightarrow> string" where
  "cluster_timestamp_layout_key prefix = namespace prefix ''cluster/timestamp_layout''"

definition timeline_creation_lock_key :: "string \<Rightarrow> string" where
  "timeline_creation_lock_key prefix = namespace prefix ''cluster/timeline_creation_lock''"

definition identity_lease_grant_request_ttl_seconds :: "u64 \<Rightarrow> u32 \<Rightarrow> int tso_result" where
  \<comment> \<open>a duration is its whole seconds and the nanoseconds below one second\<close>
  "identity_lease_grant_request_ttl_seconds whole_seconds subsec_nanos =
     and_then (ok_or (Internal ''identity lease grant request TTL seconds overflowed u64'')
       (checked_add whole_seconds (if subsec_nanos \<noteq> 0 then 1 else 0)))
     (\<lambda>s. let rounded_seconds = max s 1 in
        if unat rounded_seconds < 2 ^ 63 then Inr (int (unat rounded_seconds))
        else Inl (Internal (''identity lease grant request TTL '' @ fmt_dec (unat rounded_seconds)
                            @ ''s exceeds etcd i64 seconds'')))"

subsection \<open>Components\<close>

lemma namespace_inj [simp]: "namespace p a = namespace p b \<longleftrightarrow> a = b"
  by (simp add: namespace_def)

lemma namespace_less: "namespace p a < namespace p b \<longleftrightarrow> a < b"
  by (simp add: namespace_def list_less_append_same)

lemma namespace_starts_with: "str_starts_with (namespace p a) (namespace p b) \<longleftrightarrow> str_starts_with a b"
  by (simp add: namespace_def str_starts_with_def)

lemma hex_digit_cases:
  "d < 16 \<Longrightarrow> hex_digit d \<noteq> CHR ''/''" "d < 16 \<Longrightarrow> e < 16 \<Longrightarrow> hex_digit d = hex_digit e \<longleftrightarrow> d = e"
  unfolding hex_digit_def
  by (auto simp: numeral_eq_Suc less_Suc_eq)

lemma byte_halves: "(of_char c :: nat) div 16 < 16" "(of_char c :: nat) mod 16 < 16"
proof -
  have "(of_char c :: nat) < 256" by (rule nat_of_char_less_256)
  then show "(of_char c :: nat) div 16 < 16" "(of_char c :: nat) mod 16 < 16"
    by (simp_all only: less_mult_imp_div_less)
qed

lemma encode_component_no_slash: "CHR ''/'' \<notin> set (encode_component s)"
proof (induction s)
  case (Cons c s)
  have "hex_digit (of_char c div 16) \<noteq> CHR ''/''" "hex_digit (of_char c mod 16) \<noteq> CHR ''/''"
    using byte_halves [of c] hex_digit_cases(1) by blast+
  with Cons show ?case by (auto simp: encode_component_def)
qed (simp add: encode_component_def)

lemma encode_component_inj [simp]: "encode_component a = encode_component b \<longleftrightarrow> a = b"
proof
  show "encode_component a = encode_component b \<Longrightarrow> a = b"
  proof (induction a arbitrary: b)
    case Nil
    then show ?case by (cases b) (auto simp: encode_component_def)
  next
    case (Cons c a)
    then obtain d b' where b: "b = d # b'" by (cases b) (auto simp: encode_component_def)
    from Cons.prems have "hex_digit (of_char c div 16) = hex_digit (of_char d div 16)"
      "hex_digit (of_char c mod 16) = hex_digit (of_char d mod 16)"
      and r: "encode_component a = encode_component b'" by (auto simp: b encode_component_def)
    then have "(of_char c :: nat) div 16 = of_char d div 16" "(of_char c :: nat) mod 16 = of_char d mod 16"
      using hex_digit_cases(2) byte_halves by blast+
    then have "(of_char c :: nat) = of_char d" by (metis div_mult_mod_eq)
    with Cons.IH [OF r] show ?case by (simp add: b)
  qed
qed simp

lemma slash_split:
  "CHR ''/'' \<notin> set a \<Longrightarrow> CHR ''/'' \<notin> set c \<Longrightarrow> a @ CHR ''/'' # b = c @ CHR ''/'' # d \<longleftrightarrow> a = c \<and> b = d"
proof (induction a arbitrary: c)
  case Nil
  then show ?case by (cases c) auto
next
  case (Cons x a)
  then show ?case by (cases c) auto
qed

lemma components_inj:
  "encode_component a @ CHR ''/'' # encode_component b
     = encode_component c @ CHR ''/'' # encode_component d \<longleftrightarrow> a = c \<and> b = d"
  by (simp add: slash_split encode_component_no_slash)

lemma padded_key_less:
  fixes t u :: u64
  shows "fmt_dec_pad 20 (unat t) @ CHR ''/'' # rest < fmt_dec_pad 20 (unat u) @ ''/'' \<longleftrightarrow> t < u"
proof -
  have b: "unat t < 10 ^ 20" "unat u < 10 ^ 20" by (rule u64_fits_20_digits)+
  have "length (fmt_dec_pad 20 (unat t)) = length (fmt_dec_pad 20 (unat u))"
    using b by (simp add: length_fmt_dec_pad)
  then have "fmt_dec_pad 20 (unat t) @ CHR ''/'' # rest < fmt_dec_pad 20 (unat u) @ ''/'' \<longleftrightarrow>
      fmt_dec_pad 20 (unat t) < fmt_dec_pad 20 (unat u)"
    by (subst list_less_same_length) auto
  then show ?thesis using fmt_dec_pad_less [OF _ b] by (simp add: word_less_nat_alt)
qed

subsection \<open>Properties of the key space\<close>

text \<open>
  A request key determines its timeline and its client request id, whatever bytes they contain,
  so two requests never share a record; so does a cleanup index key, together with its time.
\<close>
theorem request_key_injective:
  "(request_key p tk rid = request_key p tk' rid' \<longleftrightarrow> tk = tk' \<and> rid = rid')
   \<and> (request_cleanup_index_key p t tk rid = request_cleanup_index_key p t' tk' rid'
        \<longleftrightarrow> t = t' \<and> tk = tk' \<and> rid = rid')"
proof -
  have b: "unat t < 10 ^ 20" "unat t' < 10 ^ 20" by (rule u64_fits_20_digits)+
  then have "length (fmt_dec_pad 20 (unat t)) = length (fmt_dec_pad 20 (unat t'))"
    by (simp add: length_fmt_dec_pad)
  moreover have "fmt_dec_pad 20 (unat t) = fmt_dec_pad 20 (unat t') \<longleftrightarrow> t = t'"
    using fmt_dec_pad_less [OF _ b] by (simp add: word_unat_eq_iff)
  ultimately show ?thesis
    by (simp add: request_key_def request_cleanup_index_key_def components_inj)
qed

text \<open>
  The legacy request keys are ambiguous in general (two different requests share a key), and the
  guard the store applies before it reads a legacy key excludes exactly this: guarded requests with
  the same legacy key are the same request.
\<close>
theorem legacy_request_key_guard:
  "(legacy_request_key_is_unambiguous tk rid \<and> legacy_request_key_is_unambiguous tk' rid'
      \<and> legacy_request_key p tk rid = legacy_request_key p tk' rid' \<longrightarrow> tk = tk' \<and> rid = rid')
   \<and> legacy_request_key p ''a'' ''b/c'' = legacy_request_key p ''a/b'' ''c''"
  by (auto simp: legacy_request_key_is_unambiguous_def str_contains_def legacy_request_key_def
      slash_split)

theorem legacy_request_key_guard_witness:
  "legacy_request_key_is_unambiguous ''orders'' ''r1''
   \<and> legacy_request_key [] ''orders'' ''r1'' \<noteq> legacy_request_key [] ''orders'' ''r2''"
  using legacy_request_key_guard [of "''orders''" "''r1''" "''orders''" "''r2''" "[]"]
  by (auto simp: legacy_request_key_is_unambiguous_def str_contains_def)

text \<open>
  The byte order of cleanup index keys is the order of the times in them: a key lies below the
  cutoff key of a time exactly when its own time is smaller, in the current and in the legacy index.
\<close>
theorem cleanup_cutoff_order:
  "(request_cleanup_index_key p t tk rid < request_cleanup_index_cutoff p older \<longleftrightarrow> t < older)
   \<and> (legacy_request_cleanup_index_key p t tk rid < legacy_request_cleanup_index_cutoff p older
        \<longleftrightarrow> t < older)"
  by (simp add: request_cleanup_index_key_def request_cleanup_index_cutoff_def namespace_less
      legacy_request_cleanup_index_key_def legacy_request_cleanup_index_cutoff_def
      list_less_append_same padded_key_less)

text \<open>
  The families of keys are separate: a scan of one prefix never meets a key of another family. In
  particular a scan of the legacy request prefix does not see the keys of the current format.
\<close>
theorem key_families_separate:
  "\<not> str_starts_with (request_key p tk rid) (legacy_request_prefix p)
   \<and> \<not> str_starts_with (legacy_request_key p tk rid) (request_prefix p)
   \<and> \<not> str_starts_with (request_cleanup_index_key p t tk rid) (legacy_request_cleanup_index_prefix p)
   \<and> \<not> str_starts_with (legacy_request_cleanup_index_key p t tk rid) (request_cleanup_index_prefix p)
   \<and> \<not> str_starts_with (timeline_key p tk) (generator_prefix p)
   \<and> \<not> str_starts_with (generator_key p g) (route_prefix p)
   \<and> \<not> str_starts_with (timeline_status_index_rebuild_lock_key p) (timeline_status_index_prefix p)
   \<and> str_starts_with (timeline_status_owner_index_key p ep tk) (timeline_status_owner_index_prefix p ep)
   \<and> str_starts_with (timeline_key p tk) (route_prefix p)"
  unfolding request_key_def legacy_request_prefix_def legacy_request_key_def request_prefix_def
    request_cleanup_index_key_def legacy_request_cleanup_index_prefix_def
    legacy_request_cleanup_index_key_def request_cleanup_index_prefix_def timeline_key_def
    generator_prefix_def generator_key_def route_prefix_def
    timeline_status_index_rebuild_lock_key_def timeline_status_index_prefix_def
    timeline_status_owner_index_key_def timeline_status_owner_index_prefix_def namespace_starts_with
  by (simp add: str_starts_with_def)

text \<open>
  The TTL requested for an identity lease is the configured duration rounded up to whole seconds
  and at least one second: never shorter than configured, and less than one second longer, unless it
  is the one-second minimum. It fails only when the value does not fit the signed field.
\<close>
theorem identity_ttl_rounds_up:
  "(identity_lease_grant_request_ttl_seconds s ns = Inr r \<longrightarrow>
      r = int (max 1 (unat s + (if ns = 0 then 0 else 1))))
   \<and> ((\<exists>r. identity_lease_grant_request_ttl_seconds s ns = Inr r) \<longleftrightarrow>
      unat s + (if ns = 0 then 0 else 1) < 2 ^ 63)"
proof -
  define d :: u64 where "d = (if ns \<noteq> 0 then 1 else 0)"
  have d: "unat d = (if ns = 0 then 0 else 1)" by (simp add: d_def)
  have def: "identity_lease_grant_request_ttl_seconds s ns =
     and_then (ok_or (Internal ''identity lease grant request TTL seconds overflowed u64'')
       (checked_add s d))
     (\<lambda>w. if max (unat w) 1 < 2 ^ 63 then Inr (int (max (unat w) 1))
        else Inl (Internal (''identity lease grant request TTL '' @ fmt_dec (max (unat w) 1)
                            @ ''s exceeds etcd i64 seconds'')))"
    by (simp only: identity_lease_grant_request_ttl_seconds_def d_def Let_def unat_max unat_1)
  show ?thesis
  proof (cases "unat s + unat d < 2 ^ 64")
    case True
    then have "checked_add s d = Some (s + d)" "unat (s + d) = unat s + unat d"
      by (simp_all add: checked_add_def unat_add_small)
    then show ?thesis unfolding def d [symmetric] by (auto simp: max.commute)
  next
    case False
    then have "checked_add s d = None" by (simp add: checked_add_def)
    with False show ?thesis unfolding def d [symmetric] by simp
  qed
qed

theorem identity_ttl_rounds_up_witness:
  "identity_lease_grant_request_ttl_seconds 10 500 = Inr 11"
  using identity_ttl_rounds_up [of 10 500] by force

end
