(* ===== verification/Endpoint.thy ===== *)
theory Endpoint
  imports Types "HOL-Library.Monad_Syntax"
begin

text \<open>
  Comparison of worker endpoints: \<open>service/mod.rs\<close> (\<open>endpoints_match\<close>) and its twin
  \<open>owner_endpoint_matches\<close> in \<open>metadata/types.rs\<close>. Both fall back to comparing parsed
  socket addresses, so the parser of the standard library (\<open>core::net\<close>) is modelled: a parser takes
  the unread bytes and returns the value and the rest, or nothing, in which case nothing was read.
\<close>

subsection \<open>Parsing socket addresses\<close>

type_synonym 'a parser = "string \<Rightarrow> ('a \<times> string) option"

datatype socket_addr =
    SocketV4 "nat list" nat
  | SocketV6 "nat list" nat nat  \<comment> \<open>groups, port, scope id; the flow info is always 0\<close>

definition to_digit :: "nat \<Rightarrow> char \<Rightarrow> nat option" where
  "to_digit radix c =
     (let n = of_char c :: nat;
          d = (if 48 \<le> n \<and> n \<le> 57 then n - 48
               else if 97 \<le> n \<and> n \<le> 122 then n - 87
               else if 65 \<le> n \<and> n \<le> 90 then n - 55
               else radix)
      in if d < radix then Some d else None)"

fun read_digits :: "nat \<Rightarrow> string \<Rightarrow> nat list \<times> string" where
  "read_digits radix [] = ([], [])"
| "read_digits radix (c # cs) =
     (case to_digit radix c of
        None \<Rightarrow> ([], c # cs)
      | Some d \<Rightarrow> (case read_digits radix cs of (ds, rest) \<Rightarrow> (d # ds, rest)))"

definition digits_value :: "nat \<Rightarrow> nat \<Rightarrow> nat list \<Rightarrow> nat option" where
  \<comment> \<open>checked accumulation below \<open>bound\<close>\<close>
  "digits_value radix bound ds =
     foldl (\<lambda>acc d. do { v \<leftarrow> acc; if v * radix + d < bound then Some (v * radix + d) else None })
       (Some 0) ds"

definition read_number :: "nat \<Rightarrow> nat option \<Rightarrow> bool \<Rightarrow> nat \<Rightarrow> nat parser" where
  "read_number radix max_digits allow_zero_prefix bound s =
     (let (ds, rest) = read_digits radix s;
          has_leading_zero = (s \<noteq> [] \<and> hd s = CHR ''0'')
      in if (case max_digits of Some m \<Rightarrow> m < length ds | None \<Rightarrow> False) then None
         else if ds = [] then None
         else if \<not> allow_zero_prefix \<and> has_leading_zero \<and> 1 < length ds then None
         else map_option (\<lambda>v. (v, rest)) (digits_value radix bound ds))"

definition read_given_char :: "char \<Rightarrow> unit parser" where
  "read_given_char c s = (case s of [] \<Rightarrow> None | d # ds \<Rightarrow> if d = c then Some ((), ds) else None)"

definition read_separator :: "char \<Rightarrow> nat \<Rightarrow> 'a parser \<Rightarrow> 'a parser" where
  "read_separator sep index inner s =
     (if 0 < index then do { (_, s1) \<leftarrow> read_given_char sep s; inner s1 } else inner s)"

fun read_ipv4_groups :: "nat \<Rightarrow> nat \<Rightarrow> nat list parser" where
  "read_ipv4_groups 0 i s = Some ([], s)"
| "read_ipv4_groups (Suc n) i s =
     do { (g, s1) \<leftarrow> read_separator (CHR ''.'') i (read_number 10 (Some 3) False 256) s;
          (gs, s2) \<leftarrow> read_ipv4_groups n (Suc i) s1;
          Some (g # gs, s2) }"

definition read_ipv4_addr :: "nat list parser" where
  "read_ipv4_addr s = read_ipv4_groups 4 0 s"

fun read_groups :: "nat \<Rightarrow> nat \<Rightarrow> string \<Rightarrow> (nat list \<times> bool) \<times> string" where
  \<comment> \<open>\<open>n\<close> groups left, \<open>i\<close> read so far; the flag tells of a trailing IPv4 address\<close>
  "read_groups 0 i s = (([], False), s)"
| "read_groups (Suc n) i s =
     (case (if 0 < n then read_separator (CHR '':'') i read_ipv4_addr s else None) of
        Some (v4, s1) \<Rightarrow> (([v4 ! 0 * 256 + v4 ! 1, v4 ! 2 * 256 + v4 ! 3], True), s1)
      | None \<Rightarrow>
          (case read_separator (CHR '':'') i (read_number 16 (Some 4) True 65536) s of
             Some (g, s1) \<Rightarrow> (case read_groups n (Suc i) s1 of ((gs, b), s2) \<Rightarrow> ((g # gs, b), s2))
           | None \<Rightarrow> (([], False), s)))"

definition read_ipv6_addr :: "nat list parser" where
  "read_ipv6_addr s =
     (let ((head, head_ipv4), s1) = read_groups 8 0 s in
      if length head = 8 then Some (head, s1)
      else if head_ipv4 then None
      else do {
        (_, s2) \<leftarrow> read_given_char (CHR '':'') s1;
        (_, s3) \<leftarrow> read_given_char (CHR '':'') s2;
        let ((tail, _), s4) = read_groups (8 - (length head + 1)) 0 s3;
        Some (head @ replicate (8 - length head - length tail) 0 @ tail, s4) })"

definition read_port :: "nat parser" where
  "read_port s = do { (_, s1) \<leftarrow> read_given_char (CHR '':'') s; read_number 10 None True 65536 s1 }"

definition read_scope_id :: "nat parser" where
  "read_scope_id s =
     do { (_, s1) \<leftarrow> read_given_char (CHR ''%'') s; read_number 10 None True 4294967296 s1 }"

definition read_socket_addr_v4 :: "socket_addr parser" where
  "read_socket_addr_v4 s =
     do { (ip, s1) \<leftarrow> read_ipv4_addr s; (port, s2) \<leftarrow> read_port s1; Some (SocketV4 ip port, s2) }"

definition read_socket_addr_v6 :: "socket_addr parser" where
  "read_socket_addr_v6 s =
     do { (_, s1) \<leftarrow> read_given_char (CHR ''['') s;
          (ip, s2) \<leftarrow> read_ipv6_addr s1;
          let (scope_id, s3) = (case read_scope_id s2 of Some r \<Rightarrow> r | None \<Rightarrow> (0, s2));
          (_, s4) \<leftarrow> read_given_char (CHR '']'') s3;
          (port, s5) \<leftarrow> read_port s4;
          Some (SocketV6 ip port scope_id, s5) }"

definition parse_socket_addr :: "string \<Rightarrow> socket_addr option" where
  "parse_socket_addr s =
     do { (a, rest) \<leftarrow> (case read_socket_addr_v4 s of Some r \<Rightarrow> Some r | None \<Rightarrow> read_socket_addr_v6 s);
          if rest = [] then Some a else None }"

subsection \<open>Comparing endpoints\<close>

definition endpoints_match :: "string \<Rightarrow> string \<Rightarrow> bool" where
  "endpoints_match left right =
     (let l = str_trim left; r = str_trim right in
      if l = r \<or> eq_ignore_ascii_case l r then True
      else case (parse_socket_addr l, parse_socket_addr r) of
          (Some a, Some b) \<Rightarrow> a = b
        | _ \<Rightarrow> False)"

definition owner_endpoint_matches :: "string \<Rightarrow> string \<Rightarrow> bool" where
  "owner_endpoint_matches left right =
     (let l = str_trim left; r = str_trim right in
      if l = r \<or> eq_ignore_ascii_case l r then True
      else case (parse_socket_addr l, parse_socket_addr r) of
          (Some a, Some b) \<Rightarrow> a = b
        | _ \<Rightarrow> False)"

subsection \<open>Parsing ignores the case of letters\<close>

abbreviation lower :: "string \<Rightarrow> string" where "lower \<equiv> to_ascii_lowercase"

abbreviation lower_rest :: "('a \<times> string) option \<Rightarrow> ('a \<times> string) option" where
  "lower_rest \<equiv> map_option (map_prod id lower)"

lemma of_char_ascii_lower:
  "(of_char (ascii_lower c) :: nat) =
     (if 65 \<le> (of_char c :: nat) \<and> (of_char c :: nat) \<le> 90 then of_char c + 32 else of_char c)"
  by (simp add: ascii_lower_def Let_def)

lemma to_digit_lower: "radix \<le> 36 \<Longrightarrow> to_digit radix (ascii_lower c) = to_digit radix c"
  by (simp add: to_digit_def of_char_ascii_lower Let_def)

lemma lower_simps [simp]:
  "lower [] = []" "lower (c # cs) = ascii_lower c # lower cs" "lower s = [] \<longleftrightarrow> s = []"
  by (simp_all add: to_ascii_lowercase_def)

lemma read_digits_lower:
  "radix \<le> 36 \<Longrightarrow> read_digits radix (lower s) = map_prod id lower (read_digits radix s)"
  by (induction s) (auto simp: to_digit_lower split: option.splits prod.splits)

definition case_blind :: "'a parser \<Rightarrow> bool" where
  "case_blind p \<longleftrightarrow> (\<forall>s. p (lower s) = lower_rest (p s))"

lemma case_blindD: "case_blind p \<Longrightarrow> p (lower s) = lower_rest (p s)"
  by (simp add: case_blind_def)

definition caseless :: "char \<Rightarrow> bool" where
  "caseless c \<longleftrightarrow> \<not> (65 \<le> (of_char c :: nat) \<and> (of_char c :: nat) \<le> 90)
     \<and> \<not> (97 \<le> (of_char c :: nat) \<and> (of_char c :: nat) \<le> 122)"

lemma caseless_separators [simp]:
  "caseless (CHR ''.'')" "caseless (CHR '':'')" "caseless (CHR ''%'')" "caseless (CHR ''['')"
  "caseless (CHR '']'')" "caseless (CHR ''0'')"
  by (simp_all add: caseless_def)

lemma ascii_lower_caseless: "caseless c \<Longrightarrow> ascii_lower d = c \<longleftrightarrow> d = c"
proof
  assume c: "caseless c" and "ascii_lower d = c"
  then have "(of_char c :: nat) = of_char (ascii_lower d)" by simp
  with c have "(of_char c :: nat) = of_char d"
    by (auto simp: of_char_ascii_lower caseless_def split: if_splits)
  then show "d = c" by simp
next
  assume "caseless c" "d = c"
  then show "ascii_lower d = c" by (auto simp: ascii_lower_def caseless_def Let_def)
qed

lemma read_given_char_blind: "caseless c \<Longrightarrow> case_blind (read_given_char c)"
  by (auto simp: case_blind_def read_given_char_def ascii_lower_caseless split: list.splits)

lemma read_number_blind: "radix \<le> 36 \<Longrightarrow> case_blind (read_number radix m z b)"
proof -
  have "hd (lower s) = CHR ''0'' \<longleftrightarrow> hd s = CHR ''0''" if "s \<noteq> []" for s
    using that by (cases s) (simp_all add: ascii_lower_caseless)
  then show "radix \<le> 36 \<Longrightarrow> case_blind (read_number radix m z b)"
    by (auto simp: case_blind_def read_number_def read_digits_lower Let_def option.map_comp comp_def
        split: prod.splits cong: option.case_cong)
qed

lemma bind_blind:
  "case_blind p \<Longrightarrow> (\<And>a. case_blind (f a)) \<Longrightarrow>
     case_blind (\<lambda>s. Option.bind (p s) (\<lambda>(a, s1). f a s1))"
  unfolding case_blind_def
proof (intro allI)
  fix s
  assume p: "\<forall>s. p (lower s) = lower_rest (p s)" and f: "\<And>a. \<forall>s. f a (lower s) = lower_rest (f a s)"
  show "Option.bind (p (lower s)) (\<lambda>(a, s1). f a s1)
      = lower_rest (Option.bind (p s) (\<lambda>(a, s1). f a s1))"
    using p f by (cases "p s") auto
qed

lemma return_blind: "case_blind (\<lambda>s. Some (a, s))"
  by (simp add: case_blind_def)

lemma read_separator_blind:
  "caseless c \<Longrightarrow> case_blind p \<Longrightarrow> case_blind (read_separator c i p)"
  unfolding read_separator_def [abs_def]
  by (cases "0 < i") (simp_all add: bind_blind read_given_char_blind)

lemma read_ipv4_groups_blind: "case_blind (read_ipv4_groups n i)"
proof (induction n arbitrary: i)
  case 0
  then show ?case by (simp add: case_blind_def)
next
  case (Suc n)
  have "case_blind (\<lambda>s. read_separator (CHR ''.'') i (read_number 10 (Some 3) False 256) s \<bind>
      (\<lambda>(g, s1). read_ipv4_groups n (Suc i) s1 \<bind> (\<lambda>(gs, s2). Some (g # gs, s2))))"
    by (intro bind_blind read_separator_blind read_number_blind Suc return_blind) simp_all
  then show ?case by (simp add: case_blind_def)
qed

lemma read_ipv4_addr_blind: "case_blind read_ipv4_addr"
  using read_ipv4_groups_blind by (simp add: read_ipv4_addr_def [abs_def])

lemma read_groups_lower: "read_groups n i (lower s) = map_prod id lower (read_groups n i s)"
proof (induction n arbitrary: i s)
  case (Suc n)
  have v4: "read_separator (CHR '':'') i read_ipv4_addr (lower s)
      = lower_rest (read_separator (CHR '':'') i read_ipv4_addr s)"
    by (intro case_blindD read_separator_blind read_ipv4_addr_blind) simp
  have v6: "read_separator (CHR '':'') i (read_number 16 (Some 4) True 65536) (lower s)
      = lower_rest (read_separator (CHR '':'') i (read_number 16 (Some 4) True 65536) s)"
    by (intro case_blindD read_separator_blind read_number_blind) simp_all
  show ?case
    by (auto simp: v4 v6 Suc split: option.splits prod.splits)
qed simp

lemma read_ipv6_addr_blind: "case_blind read_ipv6_addr"
  unfolding case_blind_def
proof
  fix s
  obtain hd b s1 where h: "read_groups 8 0 s = ((hd, b), s1)" by (metis prod.exhaust)
  have "case_blind (\<lambda>s1. read_given_char (CHR '':'') s1 \<bind> (\<lambda>(_, s2).
      read_given_char (CHR '':'') s2 \<bind> (\<lambda>(_, s3).
        (let ((tail, _), s4) = read_groups (8 - (length hd + 1)) 0 s3
         in Some (hd @ replicate (8 - length hd - length tail) 0 @ tail, s4)))))"
    by (intro bind_blind read_given_char_blind)
      (auto simp: case_blind_def read_groups_lower Let_def split: prod.splits)
  then show "read_ipv6_addr (lower s) = lower_rest (read_ipv6_addr s)"
    by (auto simp: read_ipv6_addr_def read_groups_lower h case_blind_def)
qed

lemma read_port_blind: "case_blind read_port"
  unfolding read_port_def [abs_def]
  by (intro bind_blind read_given_char_blind read_number_blind) simp_all

lemma read_scope_id_blind: "case_blind read_scope_id"
  unfolding read_scope_id_def [abs_def]
  by (intro bind_blind read_given_char_blind read_number_blind) simp_all

lemma read_socket_addr_v4_blind: "case_blind read_socket_addr_v4"
  unfolding read_socket_addr_v4_def [abs_def]
  by (intro bind_blind read_ipv4_addr_blind read_port_blind return_blind)

lemma read_socket_addr_v6_blind: "case_blind read_socket_addr_v6"
proof -
  have "case_blind (\<lambda>s3. read_given_char (CHR '']'') s3 \<bind> (\<lambda>(_, s4).
      read_port s4 \<bind> (\<lambda>(port, s5). Some (SocketV6 ip port scope_id, s5))))" for ip scope_id
    by (intro bind_blind read_given_char_blind read_port_blind return_blind) simp
  then have "case_blind (\<lambda>s2. let (scope_id, s3) = (case read_scope_id s2 of Some r \<Rightarrow> r | None \<Rightarrow> (0, s2))
      in read_given_char (CHR '']'') s3 \<bind> (\<lambda>(_, s4).
        read_port s4 \<bind> (\<lambda>(port, s5). Some (SocketV6 ip port scope_id, s5))))" for ip
    using case_blindD [OF read_scope_id_blind]
    by (auto simp: case_blind_def Let_def split: option.splits prod.splits)
  then show ?thesis unfolding read_socket_addr_v6_def [abs_def]
    by (intro bind_blind read_given_char_blind read_ipv6_addr_blind) simp_all
qed

lemma parse_socket_addr_lower: "parse_socket_addr (lower s) = parse_socket_addr s"
  using case_blindD [OF read_socket_addr_v4_blind, of s] case_blindD [OF read_socket_addr_v6_blind, of s]
  by (cases "read_socket_addr_v4 s"; cases "read_socket_addr_v6 s")
    (auto simp: parse_socket_addr_def)

lemma endpoints_match_iff:
  "endpoints_match a b \<longleftrightarrow> lower (str_trim a) = lower (str_trim b)
     \<or> (\<exists>x. parse_socket_addr (str_trim a) = Some x \<and> parse_socket_addr (str_trim b) = Some x)"
  by (auto simp: endpoints_match_def eq_ignore_ascii_case_def Let_def split: option.splits)

lemma owner_endpoint_matches_eq: "owner_endpoint_matches = endpoints_match"
  by (intro ext) (simp add: owner_endpoint_matches_def endpoints_match_def)

lemma endpoints_match_refl [simp]: "endpoints_match a a"
  by (simp add: endpoints_match_iff)

lemma endpoints_match_sym: "endpoints_match a b \<longleftrightarrow> endpoints_match b a"
  by (auto simp: endpoints_match_iff)

lemma endpoints_match_trans: "endpoints_match a b \<Longrightarrow> endpoints_match b c \<Longrightarrow> endpoints_match a c"
proof -
  have e: "parse_socket_addr (str_trim x) = parse_socket_addr (str_trim y)"
    if "lower (str_trim x) = lower (str_trim y)" for x y
    using parse_socket_addr_lower [of "str_trim x"] parse_socket_addr_lower [of "str_trim y"] that
    by simp
  assume ab: "endpoints_match a b" and bc: "endpoints_match b c"
  show "endpoints_match a c"
  proof (cases "lower (str_trim a) = lower (str_trim b)")
    case True
    then show ?thesis using bc e [OF True] by (simp add: endpoints_match_iff)
  next
    case False
    then obtain x where x: "parse_socket_addr (str_trim a) = Some x" "parse_socket_addr (str_trim b) = Some x"
      using ab by (auto simp: endpoints_match_iff)
    have "parse_socket_addr (str_trim c) = Some x"
      using bc x(2) e [of b c] unfolding endpoints_match_iff by auto
    with x(1) show ?thesis by (simp add: endpoints_match_iff)
  qed
qed

text \<open>
  Matching of worker endpoints is an equivalence relation although it tries textual equality,
  equality up to case and equality of parsed socket addresses in turn, and the copy of the function
  in the metadata layer agrees with it. Ownership tests by endpoint are therefore consistent
  whichever spelling of an endpoint a record carries.
\<close>
theorem endpoints_match_equivalence:
  "endpoints_match a a
   \<and> (endpoints_match a b \<longleftrightarrow> endpoints_match b a)
   \<and> (endpoints_match a b \<and> endpoints_match b c \<longrightarrow> endpoints_match a c)
   \<and> owner_endpoint_matches a b = endpoints_match a b"
  using endpoints_match_sym endpoints_match_trans by (auto simp: owner_endpoint_matches_eq)

theorem endpoints_match_equivalence_witness:
  "endpoints_match ''Node:1'' ''node:1'' \<and> endpoints_match ''node:1'' ''NODE:1''
   \<and> endpoints_match ''Node:1'' ''NODE:1''"
proof -
  have "str_trim ''Node:1'' = ''Node:1''" "str_trim ''node:1'' = ''node:1''"
    "str_trim ''NODE:1'' = ''NODE:1''"
    by (rule str_trim_visible; simp add: visible_ascii_def)+
  then have "endpoints_match ''Node:1'' ''node:1''" "endpoints_match ''node:1'' ''NODE:1''"
    by (simp_all add: endpoints_match_iff ascii_lower_def char_of_def bit_0)
  with endpoints_match_equivalence [of "''Node:1''" "''node:1''" "''NODE:1''"] show ?thesis by blast
qed

end
