(* ===== verification/Metadata.thy ===== *)
theory Metadata
  imports Endpoint
begin

text \<open>
  The persisted records and the store-independent logic over them: \<open>metadata/types.rs\<close>. It holds the
  schema checks, the cluster ownership plan, the replay of completed requests, the route-change
  tests and the default paging methods of the \<open>TimelineAuthority\<close> and \<open>GeneratorLeaseAuthority\<close>
  traits, which work on any store: the records a listing returns are an argument. Sizes (\<open>usize\<close>) are
  natural numbers.
\<close>

subsection \<open>Records\<close>

definition CURRENT_METADATA_SCHEMA_VERSION :: u32 where
  "CURRENT_METADATA_SCHEMA_VERSION = 1"

datatype route_update_signal = RouteUpdate timeline_route | RouteReset

record timeline_record =
  tl_schema_version :: u32
  tl_route :: timeline_route
  tl_state :: timeline_lifecycle_state
  tl_recovery_floor_tso :: "u64 option"
  tl_issued_upper_bound :: "u64 option"
  tl_last_graceful_issued :: "u64 option"
  tl_lease_expire_at_ms :: "u64 option"
  tl_updated_at_ms :: u64

record timeline_filter_record =
  tf_schema_version :: u32
  tf_route :: timeline_route
  tf_state :: timeline_lifecycle_state

record timeline_route_record =
  tr_schema_version :: u32
  tr_route :: timeline_route

record generator_record =
  gr_schema_version :: u32
  gr_generator_id :: u32
  gr_owner_worker_endpoint :: string
  gr_owner_instance_id :: string
  gr_generator_lease_token :: u64
  gr_lease_expire_at_ms :: "u64 option"
  gr_last_issued_tso :: "u64 option"
  gr_issued_upper_bound :: "u64 option"
  gr_updated_at_ms :: u64

record ownership_plan_member =
  om_remainder :: u32
  om_worker_id :: string
  om_advertise_endpoint :: string

record ownership_plan_record =
  op_schema_version :: u32
  op_plan_id :: string
  op_modulo :: u32
  op_members :: "ownership_plan_member list"
  op_updated_at_ms :: u64

datatype request_record_state = Pending | Completed

record allocation_request_fingerprint =
  fp_timeline_key :: string
  fp_count :: u32

record allocation_response_record =
  ar_timeline_key :: string
  ar_generator_id :: u32
  ar_epoch :: u64
  ar_route_version :: u64
  ar_ranges :: "timestamp_range list"

record request_record =
  rr_schema_version :: u32
  rr_fingerprint :: allocation_request_fingerprint
  rr_state :: request_record_state
  rr_response :: "allocation_response_record option"
  rr_updated_at_ms :: u64

record timeline_batch_op =
  tb_timeline_key :: string
  tb_previous_revision :: u64
  tb_record :: timeline_record

record generator_batch_op =
  gb_generator_id :: u32
  gb_previous_revision :: u64
  gb_record :: generator_record

record 'a list_page =
  \<comment> \<open>\<open>TimelineRecordListPage\<close> and \<open>TimelineFilterRecordListPage\<close>\<close>
  pg_records :: "'a list"
  pg_next_start_after_timeline_key :: "string option"

subsection \<open>Schema versions\<close>

definition unsupported_schema :: "string \<Rightarrow> u32 \<Rightarrow> tso_error" where
  "unsupported_schema what v =
     Internal (''unsupported '' @ what @ '' metadata schema_version '' @ fmt_dec (unat v))"

definition validate_timeline_schema :: "timeline_record \<Rightarrow> unit tso_result" where
  "validate_timeline_schema r =
     (if tl_schema_version r = CURRENT_METADATA_SCHEMA_VERSION then Inr ()
      else Inl (unsupported_schema ''timeline'' (tl_schema_version r)))"

definition stamp_timeline :: "timeline_record \<Rightarrow> timeline_record" where
  "stamp_timeline r = r \<lparr> tl_schema_version := CURRENT_METADATA_SCHEMA_VERSION \<rparr>"

definition validate_plan_schema :: "ownership_plan_record \<Rightarrow> unit tso_result" where
  "validate_plan_schema r =
     (if op_schema_version r = CURRENT_METADATA_SCHEMA_VERSION then Inr ()
      else Inl (unsupported_schema ''ownership plan'' (op_schema_version r)))"

definition validate_filter_schema :: "timeline_filter_record \<Rightarrow> unit tso_result" where
  "validate_filter_schema r =
     (if CURRENT_METADATA_SCHEMA_VERSION \<le> tf_schema_version r then Inr ()
      else Inl (unsupported_schema ''timeline'' (tf_schema_version r)))"

definition validate_route_schema :: "timeline_route_record \<Rightarrow> unit tso_result" where
  "validate_route_schema r =
     (if CURRENT_METADATA_SCHEMA_VERSION \<le> tr_schema_version r then Inr ()
      else Inl (unsupported_schema ''timeline'' (tr_schema_version r)))"

definition validate_generator_schema :: "generator_record \<Rightarrow> unit tso_result" where
  "validate_generator_schema r =
     (if gr_schema_version r = CURRENT_METADATA_SCHEMA_VERSION then Inr ()
      else Inl (unsupported_schema ''generator'' (gr_schema_version r)))"

definition stamp_generator :: "generator_record \<Rightarrow> generator_record" where
  "stamp_generator r = r \<lparr> gr_schema_version := CURRENT_METADATA_SCHEMA_VERSION \<rparr>"

definition validate_request_schema :: "request_record \<Rightarrow> unit tso_result" where
  "validate_request_schema r =
     (if rr_schema_version r = CURRENT_METADATA_SCHEMA_VERSION then Inr ()
      else Inl (unsupported_schema ''request'' (rr_schema_version r)))"

definition stamp_request :: "request_record \<Rightarrow> request_record" where
  "stamp_request r = r \<lparr> rr_schema_version := CURRENT_METADATA_SCHEMA_VERSION \<rparr>"

definition completed_response ::
    "string \<Rightarrow> request_record \<Rightarrow> allocate_response option tso_result" where
  "completed_response tk r =
     (case (rr_state r, rr_response r) of
        (Pending, _) \<Rightarrow> Inr None
      | (Completed, Some response) \<Rightarrow>
          if ar_timeline_key response \<noteq> [] \<and> ar_timeline_key response \<noteq> tk
          then Inl (Internal (''request response timeline mismatch: stored=''
                 @ ar_timeline_key response @ '' requested='' @ tk))
          else Inr (Some \<lparr> rs_timeline_key = tk, rs_generator_id = ar_generator_id response,
                          rs_epoch = ar_epoch response, rs_route_version = ar_route_version response,
                          rs_ranges = ar_ranges response \<rparr>)
      | (Completed, None) \<Rightarrow>
          Inl (Internal (''completed request record missing response for timeline '' @ tk)))"

subsection \<open>The ownership plan\<close>

definition plan_new ::
    "string \<Rightarrow> u32 \<Rightarrow> ownership_plan_member \<Rightarrow> u64 \<Rightarrow> ownership_plan_record" where
  "plan_new plan_id modul member updated_at_ms =
     \<lparr> op_schema_version = CURRENT_METADATA_SCHEMA_VERSION, op_plan_id = plan_id,
       op_modulo = modul, op_members = [member], op_updated_at_ms = updated_at_ms \<rparr>"

definition remainder_outside :: "u32 \<Rightarrow> u32 \<Rightarrow> tso_error" where
  "remainder_outside remainder modul =
     Internal (''ownership plan member remainder '' @ fmt_dec (unat remainder)
       @ '' is outside modulo '' @ fmt_dec (unat modul))"

fun check_members :: "u32 \<Rightarrow> u32 list \<Rightarrow> ownership_plan_member list \<Rightarrow> unit tso_result" where
  "check_members modul remainders [] = Inr ()"
| "check_members modul remainders (m # ms) =
     (if modul \<le> om_remainder m then Inl (remainder_outside (om_remainder m) modul)
      else if om_remainder m \<in> set remainders
      then Inl (Internal (''ownership plan contains duplicate remainder ''
                          @ fmt_dec (unat (om_remainder m))))
      else check_members modul (om_remainder m # remainders) ms)"

definition validate_integrity :: "ownership_plan_record \<Rightarrow> unit tso_result" where
  "validate_integrity p =
     (if str_is_blank (op_plan_id p)
      then Inl (Internal ''ownership plan metadata plan_id must not be blank'')
      else if op_modulo p = 0
      then Inl (Internal ''ownership plan metadata modulo must be greater than 0'')
      else check_members (op_modulo p) [] (op_members p))"

definition admit_member ::
    "string \<Rightarrow> u32 \<Rightarrow> ownership_plan_member \<Rightarrow> u64 \<Rightarrow> ownership_plan_record
       \<Rightarrow> ownership_plan_record \<times> bool tso_result" where
  "admit_member expected_plan_id expected_modulo member updated_at_ms p =
     (case and_then (validate_plan_schema p) (\<lambda>_. validate_integrity p) of
        Inl e \<Rightarrow> (p, Inl e)
      | Inr _ \<Rightarrow>
          if op_plan_id p \<noteq> expected_plan_id
          then (p, Inl (Internal (''ownership plan mismatch: metadata plan_id='' @ op_plan_id p
                  @ '' local plan_id='' @ expected_plan_id)))
          else if op_modulo p \<noteq> expected_modulo
          then (p, Inl (Internal (''ownership plan modulo mismatch: metadata modulo=''
                  @ fmt_dec (unat (op_modulo p)) @ '' local modulo='' @ fmt_dec (unat expected_modulo))))
          else if op_modulo p \<le> om_remainder member
          then (p, Inl (remainder_outside (om_remainder member) (op_modulo p)))
          else case find (\<lambda>m. om_remainder m = om_remainder member) (op_members p) of
              Some existing \<Rightarrow>
                if om_worker_id existing = om_worker_id member
                   \<and> om_advertise_endpoint existing = om_advertise_endpoint member
                then (p, Inr False)
                else (p, Inl (Internal (''ownership plan remainder ''
                       @ fmt_dec (unat (om_remainder existing)) @ '' is already assigned to worker_id=''
                       @ om_worker_id existing @ '' advertise_endpoint=''
                       @ om_advertise_endpoint existing)))
            | None \<Rightarrow>
                (p \<lparr> op_members := sort_key om_remainder (op_members p @ [member]),
                     op_updated_at_ms := updated_at_ms \<rparr>, Inr True))"

definition replace_if_empty ::
    "string \<Rightarrow> u32 \<Rightarrow> u64 \<Rightarrow> ownership_plan_record \<Rightarrow> ownership_plan_record \<times> bool tso_result" where
  "replace_if_empty expected_plan_id expected_modulo updated_at_ms p =
     (case and_then (validate_plan_schema p) (\<lambda>_. validate_integrity p) of
        Inl e \<Rightarrow> (p, Inl e)
      | Inr _ \<Rightarrow>
          if op_members p \<noteq> [] \<or> (op_plan_id p = expected_plan_id \<and> op_modulo p = expected_modulo)
          then (p, Inr False)
          else (p \<lparr> op_plan_id := expected_plan_id, op_modulo := expected_modulo,
                     op_updated_at_ms := updated_at_ms \<rparr>, Inr True))"

definition prune_inactive_members ::
    "(string \<times> string) list \<Rightarrow> u64 \<Rightarrow> ownership_plan_record \<Rightarrow> ownership_plan_record \<times> nat tso_result" where
  "prune_inactive_members active updated_at_ms p =
     (case and_then (validate_plan_schema p) (\<lambda>_. validate_integrity p) of
        Inl e \<Rightarrow> (p, Inl e)
      | Inr _ \<Rightarrow>
          let members = filter (\<lambda>m. (om_worker_id m, om_advertise_endpoint m) \<in> set active) (op_members p);
              pruned = length (op_members p) - length members;
              p' = p \<lparr> op_members := members \<rparr>
          in (if 0 < pruned then p' \<lparr> op_updated_at_ms := updated_at_ms \<rparr> else p', Inr pruned))"

subsection \<open>Route changes and status filters\<close>

definition timeline_route_update_from_routes ::
    "timeline_route option \<Rightarrow> timeline_route \<Rightarrow> timeline_route option" where
  "timeline_route_update_from_routes previous_route next_route =
     (if (case previous_route of None \<Rightarrow> True | Some route \<Rightarrow> route \<noteq> next_route)
      then Some next_route else None)"

definition timeline_route_changed :: "timeline_record option \<Rightarrow> timeline_record \<Rightarrow> bool" where
  "timeline_route_changed previous next_record =
     (timeline_route_update_from_routes (map_option tl_route previous) (tl_route next_record) \<noteq> None)"

definition timeline_route_update ::
    "timeline_record option \<Rightarrow> timeline_record \<Rightarrow> timeline_route option" where
  "timeline_route_update previous next_record =
     (if timeline_route_changed previous next_record then Some (tl_route next_record) else None)"

definition collect_timeline_route_update ::
    "timeline_record option \<Rightarrow> timeline_record \<Rightarrow> timeline_route list \<Rightarrow> timeline_route list" where
  "collect_timeline_route_update previous next_record route_updates =
     (case timeline_route_update previous next_record of
        Some route_update \<Rightarrow> route_updates @ [route_update]
      | None \<Rightarrow> route_updates)"

definition timeline_matches_status_filter ::
    "timeline_lifecycle_state list \<Rightarrow> string option \<Rightarrow> timeline_record \<Rightarrow> bool" where
  "timeline_matches_status_filter states owner_worker_endpoint r =
     ((states = [] \<or> tl_state r \<in> set states)
      \<and> (case owner_worker_endpoint of
           Some endpoint \<Rightarrow> owner_endpoint_matches (rt_owner_worker_endpoint (tl_route r)) endpoint
         | None \<Rightarrow> True))"

subsection \<open>Paging\<close>

abbreviation record_key :: "timeline_record \<Rightarrow> string" where
  "record_key r \<equiv> rt_timeline_key (tl_route r)"

definition list_timelines_page ::
    "timeline_record list \<Rightarrow> string option \<Rightarrow> nat \<Rightarrow> timeline_record list_page" where
  \<comment> \<open>the default method, on the records \<open>list_timelines\<close> returned; the keys of a store are distinct\<close>
  "list_timelines_page listed start_after limit =
     (if limit = 0 then \<lparr> pg_records = [], pg_next_start_after_timeline_key = None \<rparr>
      else
        let records = sort_key record_key listed;
            start_index = (case start_after of
                Some k \<Rightarrow> length (takeWhile (\<lambda>r. record_key r \<le> k) records)
              | None \<Rightarrow> 0);
            page_records = take (limit + 1) (drop start_index records);
            next_key = (if limit < length page_records
                        then Some (record_key (page_records ! (limit - 1))) else None)
        in \<lparr> pg_records = take limit page_records, pg_next_start_after_timeline_key = next_key \<rparr>)"

definition list_timeline_filters_page ::
    "timeline_record list \<Rightarrow> string option \<Rightarrow> nat \<Rightarrow> timeline_filter_record list_page" where
  "list_timeline_filters_page listed start_after limit =
     (let page = list_timelines_page listed start_after limit in
      \<lparr> pg_records = map (\<lambda>r. \<lparr> tf_schema_version = tl_schema_version r, tf_route = tl_route r,
                                tf_state = tl_state r \<rparr>) (pg_records page),
        pg_next_start_after_timeline_key = pg_next_start_after_timeline_key page \<rparr>)"

fun push_matching :: "(timeline_record \<Rightarrow> bool) \<Rightarrow> nat \<Rightarrow> timeline_record list \<Rightarrow> timeline_record list
    \<Rightarrow> timeline_record list" where
  \<comment> \<open>the inner loop of the status scan, left as soon as more than \<open>limit\<close> records matched\<close>
  "push_matching P limit matched [] = matched"
| "push_matching P limit matched (r # rs) =
     (if P r
      then (let matched' = matched @ [r] in
            if limit < length matched' then matched' else push_matching P limit matched' rs)
      else push_matching P limit matched rs)"

definition records_after :: "timeline_record list \<Rightarrow> string option \<Rightarrow> timeline_record list" where
  \<comment> \<open>what is still to be listed behind a cursor\<close>
  "records_after listed start_after =
     (case start_after of
        Some k \<Rightarrow> filter (\<lambda>r. k < record_key r) (sort_key record_key listed)
      | None \<Rightarrow> sort_key record_key listed)"

lemma sorted_takeWhile_filter:
  "sorted (map f xs) \<Longrightarrow> drop (length (takeWhile (\<lambda>x. f x \<le> k) xs)) xs = filter (\<lambda>x. k < f x) xs"
  for f :: "'a \<Rightarrow> 'b::linorder"
proof (induction xs)
  case (Cons x xs)
  show ?case
  proof (cases "f x \<le> k")
    case False
    then have "\<forall>y \<in> set (x # xs). k < f y" using Cons.prems by (auto simp: not_le)
    then show ?thesis using False by simp
  qed (use Cons in simp)
qed simp

lemma list_timelines_page_after:
  assumes "0 < limit"
  shows "list_timelines_page listed start limit =
    \<lparr> pg_records = take limit (records_after listed start),
      pg_next_start_after_timeline_key =
        (if limit < length (records_after listed start)
         then Some (record_key (records_after listed start ! (limit - 1))) else None) \<rparr>"
proof -
  have e: "drop (case start of Some k \<Rightarrow> length (takeWhile (\<lambda>r. record_key r \<le> k) (sort_key record_key listed))
      | None \<Rightarrow> 0) (sort_key record_key listed) = records_after listed start"
    by (auto simp: records_after_def sorted_takeWhile_filter split: option.split)
  show ?thesis unfolding list_timelines_page_def Let_def e using assms by (auto simp: min_def)
qed

lemma records_after_sorted: "sorted (map record_key (records_after listed start))"
  by (auto simp: records_after_def sorted_filter split: option.split)

lemma records_after_distinct:
  "distinct (map record_key listed) \<Longrightarrow> distinct (map record_key (records_after listed start))"
  by (auto simp: records_after_def distinct_map inj_on_def split: option.split)

lemma filter_after_nth:
  fixes f :: "'a \<Rightarrow> 'b::linorder"
  assumes "sorted (map f xs)" "distinct (map f xs)" "i < length xs"
  shows "filter (\<lambda>x. f (xs ! i) < f x) xs = drop (Suc i) xs"
proof -
  have s: "sorted_wrt (<) (map f xs)" using assms by (simp add: strict_sorted_iff)
  have "filter (\<lambda>x. f (xs ! i) < f x) (take (Suc i) xs) = []"
    using sorted_wrt_nth_less [OF s] assms(3)
    by (auto simp: filter_empty_conv in_set_conv_nth not_less) (metis less_SucE less_imp_le order_refl length_map nth_map)
  moreover have "filter (\<lambda>x. f (xs ! i) < f x) (drop (Suc i) xs) = drop (Suc i) xs"
    using sorted_wrt_nth_less [OF s, of i] assms(3) by (auto simp: filter_id_conv in_set_conv_nth)
  ultimately show ?thesis by (metis append_take_drop_id append_Nil filter_append)
qed

lemma records_after_next:
  assumes "distinct (map record_key listed)" "i < length (records_after listed start)"
  shows "records_after listed (Some (record_key (records_after listed start ! i)))
    = drop (Suc i) (records_after listed start)"
proof -
  let ?xs = "records_after listed start" and ?s = "sort_key record_key listed"
  let ?k = "record_key (?xs ! i)"
  have "filter (\<lambda>r. ?k < record_key r) ?s = filter (\<lambda>r. ?k < record_key r) ?xs"
  proof (cases start)
    case (Some k)
    have "?xs ! i \<in> set ?xs" using assms(2) by (rule nth_mem)
    then have "k < ?k" by (simp add: records_after_def Some)
    then have "(k < record_key r \<and> ?k < record_key r) \<longleftrightarrow> ?k < record_key r" for r by auto
    then show ?thesis by (simp add: records_after_def Some)
  qed (simp add: records_after_def)
  also have "\<dots> = drop (Suc i) ?xs"
    by (rule filter_after_nth [OF records_after_sorted records_after_distinct [OF assms(1)] assms(2)])
  finally show ?thesis by (simp add: records_after_def)
qed

lemma page_next_decreases:
  assumes "pg_next_start_after_timeline_key (list_timelines_page listed start limit) = Some k"
  shows "length (records_after listed (Some k)) < length (records_after listed start)"
proof -
  let ?xs = "records_after listed start"
  from assms have l: "0 < limit" by (auto simp: list_timelines_page_def split: if_splits)
  with assms have i: "limit - 1 < length ?xs" and k: "k = record_key (?xs ! (limit - 1))"
    by (auto simp: list_timelines_page_after split: if_splits)
  have mem: "?xs ! (limit - 1) \<in> set ?xs" using i by (rule nth_mem)
  have "records_after listed (Some k) = filter (\<lambda>r. k < record_key r) ?xs"
  proof (cases start)
    case (Some c)
    with mem k have "c < k" by (simp add: records_after_def)
    then have "(c < record_key r \<and> k < record_key r) \<longleftrightarrow> k < record_key r" for r by auto
    then show ?thesis by (simp add: records_after_def Some)
  qed (simp add: records_after_def)
  also have "length \<dots> < length ?xs" by (rule length_filter_less [OF mem]) (simp add: k)
  finally show ?thesis .
qed

function scan_status_filter :: "(timeline_record \<Rightarrow> bool) \<Rightarrow> nat \<Rightarrow> timeline_record list \<Rightarrow> string option
    \<Rightarrow> timeline_record list \<Rightarrow> timeline_record list" where
  "scan_status_filter P limit listed scan_cursor matched =
     (if length matched \<le> limit
      then let page = list_timelines_page listed scan_cursor limit in
        if pg_records page = [] then matched
        else let matched' = push_matching P limit matched (pg_records page) in
          case pg_next_start_after_timeline_key page of
            None \<Rightarrow> matched'
          | Some k \<Rightarrow> scan_status_filter P limit listed (Some k) matched'
      else matched)"
  by pat_completeness auto
termination
  by (relation "measure (\<lambda>(P, limit, listed, c, m). length (records_after listed c))")
    (auto intro: page_next_decreases)

declare scan_status_filter.simps [simp del]

definition list_timelines_by_status_filter_page ::
    "timeline_record list \<Rightarrow> timeline_lifecycle_state list \<Rightarrow> string option \<Rightarrow> string option \<Rightarrow> nat
       \<Rightarrow> timeline_record list_page" where
  "list_timelines_by_status_filter_page listed states owner_worker_endpoint start_after limit =
     (if states = [] \<and> owner_worker_endpoint = None then list_timelines_page listed start_after limit
      else if limit = 0 then \<lparr> pg_records = [], pg_next_start_after_timeline_key = None \<rparr>
      else
        let matched = scan_status_filter (timeline_matches_status_filter states owner_worker_endpoint)
                        limit listed start_after [];
            next_key = (if limit < length matched
                        then Some (record_key (matched ! (limit - 1))) else None)
        in \<lparr> pg_records = take limit matched, pg_next_start_after_timeline_key = next_key \<rparr>)"

function page_walk :: "timeline_record list \<Rightarrow> string option \<Rightarrow> nat \<Rightarrow> timeline_record list" where
  \<comment> \<open>a client that follows the cursors to the end\<close>
  "page_walk listed start limit =
     (let page = list_timelines_page listed start limit in
      pg_records page @
        (case pg_next_start_after_timeline_key page of
           None \<Rightarrow> [] | Some k \<Rightarrow> page_walk listed (Some k) limit))"
  by pat_completeness auto
termination
  by (relation "measure (\<lambda>(listed, c, limit). length (records_after listed c))")
    (auto intro: page_next_decreases)

declare page_walk.simps [simp del]

lemma take_take_append: "take n (take n xs @ ys) = take n (xs @ ys)"
  by (simp add: min_def)

lemma push_matching_take:
  "length matched \<le> limit \<Longrightarrow>
     push_matching P limit matched rs = take (limit + 1) (matched @ filter P rs)"
proof (induction rs arbitrary: matched)
  case (Cons r rs)
  show ?case
  proof (cases "length matched = limit")
    case False
    then obtain d where "limit = Suc (length matched + d)"
      using Cons.prems less_imp_Suc_add [of "length matched" limit] by auto
    then show ?thesis using Cons.IH [of matched] Cons.IH [of "matched @ [r]"] by (simp add: Let_def)
  qed (use Cons.IH [of matched] in \<open>simp add: Let_def\<close>)
qed simp

lemma page_cases:
  assumes "0 < limit" "distinct (map record_key listed)"
  obtains (last) "length (records_after listed c) \<le> limit"
      "list_timelines_page listed c limit =
         \<lparr> pg_records = records_after listed c, pg_next_start_after_timeline_key = None \<rparr>"
    | (more) k where "limit < length (records_after listed c)"
      "list_timelines_page listed c limit =
         \<lparr> pg_records = take limit (records_after listed c), pg_next_start_after_timeline_key = Some k \<rparr>"
      "records_after listed (Some k) = drop limit (records_after listed c)"
proof (cases "limit < length (records_after listed c)")
  case True
  then show thesis
    using assms records_after_next [OF assms(2), of "limit - 1" c]
    by (intro more [of "record_key (records_after listed c ! (limit - 1))"])
      (simp_all add: list_timelines_page_after)
next
  case False
  then show thesis using assms by (intro last) (simp_all add: list_timelines_page_after)
qed

lemma scan_status_filter_take:
  assumes "0 < limit" "distinct (map record_key listed)"
  shows "length matched \<le> limit \<Longrightarrow>
    scan_status_filter P limit listed c matched
      = take (limit + 1) (matched @ filter P (records_after listed c))"
proof (induction "length (records_after listed c)" arbitrary: c matched rule: less_induct)
  case less
  from assms show ?case
  proof (cases rule: page_cases [where c = c])
    case last
    with less.prems show ?thesis
      by (cases "records_after listed c")
        (simp_all add: scan_status_filter.simps Let_def push_matching_take del: push_matching.simps)
  next
    case (more k)
    let ?xs = "records_after listed c"
    let ?m = "push_matching P limit matched (take limit ?xs)"
    have m: "?m = take (limit + 1) (matched @ filter P (take limit ?xs))"
      by (rule push_matching_take [OF less.prems])
    have ne: "take limit ?xs \<noteq> []" using more(1) assms(1) by auto
    have split: "filter P ?xs = filter P (take limit ?xs) @ filter P (drop limit ?xs)"
      by (metis append_take_drop_id filter_append)
    have "scan_status_filter P limit listed c matched = scan_status_filter P limit listed (Some k) ?m"
      using less.prems more(2) ne by (simp add: scan_status_filter.simps [of P limit listed c] Let_def)
    also have "\<dots> = take (limit + 1) (?m @ filter P (drop limit ?xs))"
    proof (cases "length ?m \<le> limit")
      case True
      have "length (records_after listed (Some k)) < length ?xs" using more(1,3) assms(1) by simp
      from less.hyps [OF this True] show ?thesis by (simp only: more(3))
    next
      case False
      moreover have "length ?m \<le> limit + 1" unfolding m by simp
      ultimately have "length ?m = limit + 1" by simp
      with False show ?thesis by (simp only: scan_status_filter.simps [of P limit listed "Some k"]) simp
    qed
    also have "\<dots> = take (limit + 1) (matched @ filter P ?xs)"
      by (simp only: m split take_take_append append_assoc)
    finally show ?thesis .
  qed
qed

lemma check_members_ok:
  "check_members md seen ms = Inr () \<longleftrightarrow>
     (\<forall>m \<in> set ms. om_remainder m < md \<and> om_remainder m \<notin> set seen) \<and> distinct (map om_remainder ms)"
  by (induction ms arbitrary: seen) (auto simp: not_le image_iff)

lemma validate_integrity_ok:
  "validate_integrity p = Inr () \<longleftrightarrow>
     \<not> str_is_blank (op_plan_id p) \<and> op_modulo p \<noteq> 0
     \<and> (\<forall>m \<in> set (op_members p). om_remainder m < op_modulo p)
     \<and> distinct (map om_remainder (op_members p))"
  by (auto simp: validate_integrity_def check_members_ok)

abbreviation plan_valid :: "ownership_plan_record \<Rightarrow> bool" where
  "plan_valid p \<equiv> validate_plan_schema p = Inr () \<and> validate_integrity p = Inr ()"

lemma plan_check_ok: "and_then (validate_plan_schema p) (\<lambda>_. validate_integrity p) = Inr u \<longleftrightarrow> plan_valid p"
  by (cases "validate_plan_schema p") auto

lemma admit_member_cases:
  assumes "admit_member pid md m t p = (p', r)"
  obtains (rejected) e where "r = Inl e" "p' = p"
    | (known) "r = Inr False" "p' = p" "m \<in> set (op_members p)"
    | (admitted) "r = Inr True" "plan_valid p" "op_plan_id p = pid" "op_modulo p = md"
        "om_remainder m < md" "om_remainder m \<notin> om_remainder ` set (op_members p)"
        "p' = p \<lparr> op_members := sort_key om_remainder (op_members p @ [m]), op_updated_at_ms := t \<rparr>"
proof (cases "and_then (validate_plan_schema p) (\<lambda>_. validate_integrity p)")
  case (Inl e)
  with assms show thesis by (intro rejected) (auto simp: admit_member_def)
next
  case (Inr u)
  then have v: "plan_valid p" by (simp add: plan_check_ok)
  show thesis
  proof (cases "find (\<lambda>m'. om_remainder m' = om_remainder m) (op_members p)")
    case None
    then have "om_remainder m \<notin> om_remainder ` set (op_members p)" by (auto simp: find_None_iff)
    with assms Inr None v show thesis
      by (cases "r = Inr True") (auto simp: admit_member_def split: if_splits intro: admitted rejected)
  next
    case (Some ex)
    then have ex: "ex \<in> set (op_members p)" "om_remainder ex = om_remainder m"
      by (auto simp: find_Some_iff)
    show thesis
    proof (cases "om_worker_id ex = om_worker_id m \<and> om_advertise_endpoint ex = om_advertise_endpoint m")
      case True
      then have "ex = m" using ex(2) by (cases ex; cases m) simp
      with ex(1) have m: "m \<in> set (op_members p)" by simp
      from assms Inr Some True show thesis
        by (auto simp: admit_member_def split: if_splits intro: rejected known [OF _ _ m])
    qed (use assms Inr Some in \<open>auto simp: admit_member_def split: if_splits intro: rejected\<close>)
  qed
qed

lemma distinct_map_sort_key: "distinct (map f (sort_key f xs)) \<longleftrightarrow> distinct (map f xs)"
  by (simp add: distinct_map)

lemma plan_owner_unique:
  assumes "plan_valid q" "a \<in> set (op_members q)" "b \<in> set (op_members q)"
    "gid mod op_modulo q = om_remainder a \<and> gid mod op_modulo q = om_remainder b"
  shows "a = b"
proof -
  have "inj_on om_remainder (set (op_members q))"
    using assms(1) by (simp add: validate_integrity_ok distinct_map)
  then show ?thesis using assms(2-4) by (metis inj_onD)
qed

subsection \<open>Properties\<close>

text \<open>
  C13: admission to the ownership plan keeps the plan valid and never takes a remainder away: members
  stay, an admitted member is added under a remainder that was free, a repeated admission of the same
  worker changes nothing, and a rejected one changes nothing. In a valid plan at most one member owns
  a generator id.
\<close>
theorem ownership_plan_admission:
  assumes "admit_member pid md m t p = (p', r)" and "plan_valid p"
  shows "plan_valid p' \<and> set (op_members p) \<subseteq> set (op_members p')
    \<and> (r = Inr True \<longrightarrow> set (op_members p') = insert m (set (op_members p))
         \<and> om_remainder m \<notin> om_remainder ` set (op_members p))
    \<and> (r \<noteq> Inr True \<longrightarrow> p' = p) \<and> (r = Inr False \<longrightarrow> m \<in> set (op_members p))
    \<and> (\<forall>gid. \<forall>a \<in> set (op_members p'). \<forall>b \<in> set (op_members p').
         gid mod op_modulo p' = om_remainder a \<and> gid mod op_modulo p' = om_remainder b \<longrightarrow> a = b)"
proof -
  from assms(1) have "plan_valid p' \<and> set (op_members p) \<subseteq> set (op_members p')
    \<and> (r = Inr True \<longrightarrow> set (op_members p') = insert m (set (op_members p))
         \<and> om_remainder m \<notin> om_remainder ` set (op_members p))
    \<and> (r \<noteq> Inr True \<longrightarrow> p' = p) \<and> (r = Inr False \<longrightarrow> m \<in> set (op_members p))"
  proof (cases rule: admit_member_cases)
    case admitted
    have "distinct (map om_remainder (sort_key om_remainder (op_members p @ [m])))"
      using admitted(2,6) by (simp add: distinct_map_sort_key validate_integrity_ok)
    then have "validate_integrity p' = Inr ()"
      using admitted(2,4,5,7) by (auto simp: validate_integrity_ok)
    moreover have "validate_plan_schema p' = Inr ()"
      using admitted(2,7) by (auto simp: validate_plan_schema_def split: if_splits)
    ultimately show ?thesis using admitted(1,6,7) by (simp add: subset_insertI)
  qed (use assms(2) in simp_all)
  moreover from this have v: "plan_valid p'" by (elim conjE) (intro conjI)
  have "\<forall>gid. \<forall>a \<in> set (op_members p'). \<forall>b \<in> set (op_members p').
      gid mod op_modulo p' = om_remainder a \<and> gid mod op_modulo p' = om_remainder b \<longrightarrow> a = b"
    by (intro allI ballI impI) (rule plan_owner_unique [OF v])
  ultimately show ?thesis by (elim conjE) (intro conjI, assumption+)
qed

theorem ownership_plan_admission_witness:
  "\<exists>p' r. admit_member ''p'' 4
       \<lparr> om_remainder = 1, om_worker_id = ''w1'', om_advertise_endpoint = ''e1'' \<rparr> 7
       (plan_new ''p'' 4 \<lparr> om_remainder = 0, om_worker_id = ''w0'', om_advertise_endpoint = ''e0'' \<rparr> 5)
     = (p', r) \<and> plan_valid p'"
proof -
  let ?p = "plan_new ''p'' 4 \<lparr> om_remainder = 0, om_worker_id = ''w0'', om_advertise_endpoint = ''e0'' \<rparr> 5"
  let ?m = "\<lparr> om_remainder = 1, om_worker_id = ''w1'', om_advertise_endpoint = ''e1'' \<rparr>"
  have "str_trim ''p'' = ''p''" by (rule str_trim_visible) (simp_all add: visible_ascii_def)
  then have "plan_valid ?p"
    by (simp add: plan_new_def validate_plan_schema_def validate_integrity_def str_is_blank_def)
  moreover obtain p' r where "admit_member ''p'' 4 ?m 7 ?p = (p', r)" by fastforce
  ultimately show ?thesis using ownership_plan_admission by blast
qed

definition sample_timeline :: "string \<Rightarrow> timeline_lifecycle_state \<Rightarrow> timeline_record" where
  \<comment> \<open>a record for concrete instances\<close>
  "sample_timeline k st =
     \<lparr> tl_schema_version = 1,
       tl_route = \<lparr> rt_timeline_key = k, rt_generator_id = 3, rt_epoch = 1, rt_route_version = 1,
                    rt_resource_tier = Shared, rt_owner_worker_endpoint = ''w'' \<rparr>,
       tl_state = st, tl_recovery_floor_tso = None, tl_issued_upper_bound = None,
       tl_last_graceful_issued = None, tl_lease_expire_at_ms = None, tl_updated_at_ms = 0 \<rparr>"

text \<open>
  C17: following the page cursors lists every record exactly once and in key order: whatever page size
  a client picks, the concatenation of its pages is the sorted listing behind its start key.
\<close>
theorem page_walk_complete:
  assumes "0 < limit" "distinct (map record_key listed)"
  shows "page_walk listed start limit = records_after listed start"
proof (induction "length (records_after listed start)" arbitrary: start rule: less_induct)
  case less
  from assms show ?case
  proof (cases rule: page_cases [where c = start])
    case last
    then show ?thesis by (simp add: page_walk.simps [of listed start])
  next
    case (more k)
    then have "length (records_after listed (Some k)) < length (records_after listed start)"
      using assms(1) by simp
    from less [OF this] more show ?thesis by (simp add: page_walk.simps [of listed start])
  qed
qed

theorem page_walk_complete_witness:
  "page_walk [sample_timeline ''b'' Active, sample_timeline ''a'' Active] None 1
     = [sample_timeline ''a'' Active, sample_timeline ''b'' Active]"
  using page_walk_complete [of 1 "[sample_timeline ''b'' Active, sample_timeline ''a'' Active]" None]
  by (simp add: sample_timeline_def records_after_def less_eq_char_def)

text \<open>
  The page of a status filter is exactly a page of the filtered listing, although it is computed
  by scanning unfiltered pages: the first \<open>limit\<close> matching records behind the start key, with a
  cursor exactly when more of them follow.
\<close>
theorem status_filter_page_exact:
  fixes states :: "timeline_lifecycle_state list" and owner start :: "string option"
  assumes "0 < limit" "distinct (map record_key listed)"
  defines "F \<equiv> filter (timeline_matches_status_filter states owner) (records_after listed start)"
  shows "list_timelines_by_status_filter_page listed states owner start limit =
    \<lparr> pg_records = take limit F,
      pg_next_start_after_timeline_key =
        (if limit < length F then Some (record_key (F ! (limit - 1))) else None) \<rparr>"
proof (cases "states = [] \<and> owner = None")
  case True
  then have "F = records_after listed start"
    unfolding F_def by (intro filter_True) (simp add: timeline_matches_status_filter_def)
  with True show ?thesis
    using assms(1) by (simp add: list_timelines_by_status_filter_page_def list_timelines_page_after)
next
  case False
  have "scan_status_filter (timeline_matches_status_filter states owner) limit listed start []
      = take (limit + 1) F"
    using scan_status_filter_take [OF assms(1,2), of "[]"] by (simp add: F_def)
  with False assms(1) show ?thesis
    by (auto simp: list_timelines_by_status_filter_page_def Let_def min_def)
qed

theorem status_filter_page_exact_witness:
  "list_timelines_by_status_filter_page
     [sample_timeline ''b'' Active, sample_timeline ''a'' Locked, sample_timeline ''c'' Active]
     [Active] None None 1
   = \<lparr> pg_records = [sample_timeline ''b'' Active], pg_next_start_after_timeline_key = Some ''b'' \<rparr>"
  using status_filter_page_exact [of 1
      "[sample_timeline ''b'' Active, sample_timeline ''a'' Locked, sample_timeline ''c'' Active]"
      "[Active]" None None]
  by (simp add: sample_timeline_def records_after_def less_eq_char_def timeline_matches_status_filter_def)

end
