(* ===== verification/Memory_Store.thy ===== *)
theory Memory_Store
  imports Metadata Keys "HOL-Library.AList"
begin

text \<open>
  The in-memory metadata store: \<open>metadata/memory.rs\<close>. Its concurrent maps are association lists with
  distinct keys; an operation that holds a lock of the store for its whole duration is one function
  on the store. Route updates that are broadcast to subscribers are kept in a log, oldest first.
  Latency timers, error counters and test hooks are not modelled.
\<close>

subsection \<open>State\<close>

record memory_store =
  ms_records :: "(string \<times> (timeline_record \<times> u64)) list"
  ms_generators :: "(u32 \<times> (generator_record \<times> u64)) list"
  ms_request_records :: "(string \<times> (request_record \<times> u64)) list"
  ms_request_cleanup_index :: "(string \<times> string) list"
  ms_sorted_timeline_keys :: "string list option"
  ms_route_updates :: "route_update_signal list"

definition LEGACY_REQUEST_REVISION_FLAG :: u64 where
  "LEGACY_REQUEST_REVISION_FLAG = push_bit 63 1"

definition memory_store_new :: memory_store where
  "memory_store_new =
     \<lparr> ms_records = [], ms_generators = [], ms_request_records = [], ms_request_cleanup_index = [],
       ms_sorted_timeline_keys = None, ms_route_updates = [] \<rparr>"

definition create_entry ::
    "('k \<times> ('v \<times> u64)) list \<Rightarrow> 'k \<Rightarrow> 'v \<Rightarrow> ('k \<times> ('v \<times> u64)) list \<times> u64 tso_result" where
  "create_entry store key r =
     (case map_of store key of
        Some _ \<Rightarrow> (store, Inl MetadataAlreadyExists)
      | None \<Rightarrow> (AList.update key (r, 1) store, Inr 1))"

definition cas_entry ::
    "('k \<times> ('v \<times> u64)) list \<Rightarrow> 'k \<Rightarrow> u64 \<Rightarrow> 'v \<Rightarrow> tso_error
       \<Rightarrow> ('k \<times> ('v \<times> u64)) list \<times> u64 tso_result" where
  "cas_entry store key previous_revision r not_found_error =
     (case map_of store key of
        Some (_, current_revision) \<Rightarrow>
          if current_revision \<noteq> previous_revision then (store, Inl CasFailed)
          else let new_revision = current_revision + 1
               in (AList.update key (r, new_revision) store, Inr new_revision)
      | None \<Rightarrow> (store, Inl not_found_error))"

definition publish_route_update :: "timeline_route \<Rightarrow> memory_store \<Rightarrow> memory_store" where
  "publish_route_update route s =
     s \<lparr> ms_route_updates := ms_route_updates s @ [RouteUpdate route] \<rparr>"

definition invalidate_sorted_timeline_keys :: "memory_store \<Rightarrow> memory_store" where
  "invalidate_sorted_timeline_keys s = s \<lparr> ms_sorted_timeline_keys := None \<rparr>"

definition collect_timeline_keys :: "memory_store \<Rightarrow> string list" where
  \<comment> \<open>the scan of the record map, done without the lock of the cached list\<close>
  "collect_timeline_keys s = sort (map fst (ms_records s))"

definition publish_sorted_timeline_keys :: "string list \<Rightarrow> memory_store \<Rightarrow> string list \<times> memory_store" where
  \<comment> \<open>\<open>get_or_insert_with\<close> under the write lock\<close>
  "publish_sorted_timeline_keys timeline_keys s =
     (case ms_sorted_timeline_keys s of
        Some ks \<Rightarrow> (ks, s)
      | None \<Rightarrow> (timeline_keys, s \<lparr> ms_sorted_timeline_keys := Some timeline_keys \<rparr>))"

definition sorted_timeline_keys :: "memory_store \<Rightarrow> string list \<times> memory_store" where
  "sorted_timeline_keys s =
     (case ms_sorted_timeline_keys s of
        Some ks \<Rightarrow> (ks, s)
      | None \<Rightarrow> publish_sorted_timeline_keys (collect_timeline_keys s) s)"

subsection \<open>Timelines\<close>

definition ms_load_timeline :: "memory_store \<Rightarrow> string \<Rightarrow> (timeline_record \<times> u64) option tso_result" where
  "ms_load_timeline s tk =
     (case map_of (ms_records s) tk of
        None \<Rightarrow> Inr None
      | Some (r, revision) \<Rightarrow>
          and_then (validate_timeline_schema r) (\<lambda>_. Inr (Some (r, revision))))"

definition ms_load_timeline_route ::
    "memory_store \<Rightarrow> string \<Rightarrow> (timeline_route_record \<times> u64) option tso_result" where
  "ms_load_timeline_route s tk =
     (case map_of (ms_records s) tk of
        None \<Rightarrow> Inr None
      | Some (r, revision) \<Rightarrow>
          let route_record = \<lparr> tr_schema_version = tl_schema_version r, tr_route = tl_route r \<rparr>
          in and_then (validate_route_schema route_record) (\<lambda>_. Inr (Some (route_record, revision))))"

fun collect_results :: "'a tso_result list \<Rightarrow> 'a list tso_result" where
  \<comment> \<open>\<open>collect::<Result<Vec<_>, _>>\<close> and a loop with \<open>?\<close>: the first error wins\<close>
  "collect_results [] = Inr []"
| "collect_results (r # rs) =
     and_then r (\<lambda>x. and_then (collect_results rs) (\<lambda>xs. Inr (x # xs)))"

definition ms_list_timelines :: "memory_store \<Rightarrow> timeline_record list tso_result" where
  "ms_list_timelines s =
     collect_results (map (\<lambda>(k, r, rv). and_then (validate_timeline_schema r) (\<lambda>_. Inr r)) (ms_records s))"

definition page_keys :: "string list \<Rightarrow> string option \<Rightarrow> nat \<Rightarrow> string list" where
  "page_keys timeline_keys start_after limit =
     (let start_index = (case start_after of
            Some k \<Rightarrow> length (takeWhile (\<lambda>tk. tk \<le> k) timeline_keys)
          | None \<Rightarrow> 0)
      in take (limit + 1) (drop start_index timeline_keys))"

definition ms_list_timelines_page ::
    "string option \<Rightarrow> nat \<Rightarrow> memory_store \<Rightarrow> memory_store \<times> timeline_record list_page tso_result" where
  "ms_list_timelines_page start_after limit s =
     (if limit = 0 then (s, Inr \<lparr> pg_records = [], pg_next_start_after_timeline_key = None \<rparr>)
      else let (timeline_keys, s') = sorted_timeline_keys s in
        (s', and_then
          (collect_results (List.map_filter (\<lambda>tk. case map_of (ms_records s') tk of
               None \<Rightarrow> None
             | Some (r, rv) \<Rightarrow> Some (and_then (validate_timeline_schema r) (\<lambda>_. Inr r)))
             (page_keys timeline_keys start_after limit)))
          (\<lambda>page_records. Inr
             \<lparr> pg_records = take limit page_records,
               pg_next_start_after_timeline_key =
                 (if limit < length page_records
                  then Some (record_key (page_records ! (limit - 1))) else None) \<rparr>)))"

definition ms_list_timeline_filters_page ::
    "string option \<Rightarrow> nat \<Rightarrow> memory_store \<Rightarrow> memory_store \<times> timeline_filter_record list_page tso_result" where
  "ms_list_timeline_filters_page start_after limit s =
     (if limit = 0 then (s, Inr \<lparr> pg_records = [], pg_next_start_after_timeline_key = None \<rparr>)
      else let (timeline_keys, s') = sorted_timeline_keys s in
        (s', and_then
          (collect_results (List.map_filter (\<lambda>tk. case map_of (ms_records s') tk of
               None \<Rightarrow> None
             | Some (r, rv) \<Rightarrow>
                 let f = \<lparr> tf_schema_version = tl_schema_version r, tf_route = tl_route r,
                           tf_state = tl_state r \<rparr>
                 in Some (and_then (validate_filter_schema f) (\<lambda>_. Inr f)))
             (page_keys timeline_keys start_after limit)))
          (\<lambda>page_records. Inr
             \<lparr> pg_records = take limit page_records,
               pg_next_start_after_timeline_key =
                 (if limit < length page_records
                  then Some (rt_timeline_key (tf_route (page_records ! (limit - 1)))) else None) \<rparr>)))"

definition ms_create_timeline ::
    "string \<Rightarrow> timeline_record \<Rightarrow> memory_store \<Rightarrow> memory_store \<times> u64 tso_result" where
  "ms_create_timeline tk r s =
     (case validate_timeline_schema r of
        Inl e \<Rightarrow> (s, Inl e)
      | Inr _ \<Rightarrow>
          let stamped = stamp_timeline r in
          case create_entry (ms_records s) tk stamped of
            (_, Inl e) \<Rightarrow> (s, Inl e)
          | (records, Inr revision) \<Rightarrow>
              let s1 = invalidate_sorted_timeline_keys (s \<lparr> ms_records := records \<rparr>);
                  route_updates = collect_timeline_route_update None stamped []
              in (fold publish_route_update route_updates s1, Inr revision))"

definition ms_create_timeline_with_limit ::
    "string \<Rightarrow> timeline_record \<Rightarrow> nat \<Rightarrow> memory_store \<Rightarrow> memory_store \<times> u64 tso_result" where
  "ms_create_timeline_with_limit tk r max_timelines s =
     (if map_of (ms_records s) tk \<noteq> None then (s, Inl MetadataAlreadyExists)
      else if max_timelines \<le> length (ms_records s) then (s, Inl (TimelineLimitReached max_timelines))
      else
        case validate_timeline_schema r of
          Inl e \<Rightarrow> (s, Inl e)
        | Inr _ \<Rightarrow>
            let stamped = stamp_timeline r in
            case create_entry (ms_records s) tk stamped of
              (_, Inl e) \<Rightarrow> (s, Inl e)
            | (records, Inr revision) \<Rightarrow>
                (publish_route_update (tl_route stamped)
                   (invalidate_sorted_timeline_keys (s \<lparr> ms_records := records \<rparr>)), Inr revision))"

definition ms_compare_exchange_timeline ::
    "string \<Rightarrow> u64 \<Rightarrow> timeline_record \<Rightarrow> memory_store \<Rightarrow> memory_store \<times> u64 tso_result" where
  "ms_compare_exchange_timeline tk expected_revision r s =
     (case validate_timeline_schema r of
        Inl e \<Rightarrow> (s, Inl e)
      | Inr _ \<Rightarrow>
          let stamped = stamp_timeline r in
          case map_of (ms_records s) tk of
            None \<Rightarrow> (s, Inl (TimelineNotFound tk))
          | Some (current_record, current_revision) \<Rightarrow>
              if current_revision \<noteq> expected_revision then (s, Inl CasFailed)
              else
                let route_updates = collect_timeline_route_update (Some current_record) stamped [];
                    timeline_key_changed = (record_key stamped \<noteq> tk);
                    new_revision = current_revision + 1;
                    s1 = s \<lparr> ms_records := AList.update tk (stamped, new_revision) (ms_records s) \<rparr>;
                    s2 = (if timeline_key_changed then invalidate_sorted_timeline_keys s1 else s1)
                in (fold publish_route_update route_updates s2, Inr new_revision))"

fun check_timeline_ops ::
    "memory_store \<Rightarrow> string list \<Rightarrow> timeline_batch_op list \<Rightarrow> unit tso_result" where
  "check_timeline_ops s seen [] = Inr ()"
| "check_timeline_ops s seen (op # ops) =
     and_then (validate_timeline_schema (tb_record op)) (\<lambda>_.
       if tb_timeline_key op \<in> set seen then Inl CasFailed
       else case map_of (ms_records s) (tb_timeline_key op) of
           None \<Rightarrow> Inl (TimelineNotFound (tb_timeline_key op))
         | Some (_, revision) \<Rightarrow>
             if revision \<noteq> tb_previous_revision op then Inl CasFailed
             else check_timeline_ops s (tb_timeline_key op # seen) ops)"

fun apply_timeline_ops ::
    "timeline_batch_op list \<Rightarrow> u64 list \<Rightarrow> timeline_route list \<Rightarrow> bool \<Rightarrow> memory_store
       \<Rightarrow> memory_store \<times> (u64 list \<times> timeline_route list \<times> bool) tso_result" where
  "apply_timeline_ops [] revisions updates changed s = (s, Inr (revisions, updates, changed))"
| "apply_timeline_ops (op # ops) revisions updates changed s =
     (case map_of (ms_records s) (tb_timeline_key op) of
        None \<Rightarrow> (s, Inl (TimelineNotFound (tb_timeline_key op)))
      | Some (current_record, current_revision) \<Rightarrow>
          let new_revision = current_revision + 1 in
          apply_timeline_ops ops (revisions @ [new_revision])
            (collect_timeline_route_update (Some current_record) (tb_record op) updates)
            (changed \<or> record_key (tb_record op) \<noteq> tb_timeline_key op)
            (s \<lparr> ms_records := AList.update (tb_timeline_key op) (tb_record op, new_revision)
                                (ms_records s) \<rparr>))"

definition ms_compare_exchange_timelines ::
    "timeline_batch_op list \<Rightarrow> memory_store \<Rightarrow> memory_store \<times> u64 list tso_result" where
  "ms_compare_exchange_timelines ops s =
     (case check_timeline_ops s [] ops of
        Inl e \<Rightarrow> (s, Inl e)
      | Inr _ \<Rightarrow>
          (case apply_timeline_ops ops [] [] False s of
             (s', Inl e) \<Rightarrow> (s', Inl e)
           | (s', Inr (revisions, updates, changed)) \<Rightarrow>
               let s2 = (if changed then invalidate_sorted_timeline_keys s' else s')
               in (fold publish_route_update updates s2, Inr revisions)))"

subsection \<open>Generators\<close>

definition ms_load_generator :: "memory_store \<Rightarrow> u32 \<Rightarrow> (generator_record \<times> u64) option tso_result" where
  "ms_load_generator s gid =
     (case map_of (ms_generators s) gid of
        None \<Rightarrow> Inr None
      | Some (r, revision) \<Rightarrow>
          and_then (validate_generator_schema r) (\<lambda>_. Inr (Some (r, revision))))"

fun ms_load_generators :: "memory_store \<Rightarrow> u32 list \<Rightarrow> (u32 \<times> generator_record option) list
    \<Rightarrow> (u32 \<times> generator_record option) list tso_result" where
  "ms_load_generators s [] loaded = Inr loaded"
| "ms_load_generators s (gid # gids) loaded =
     and_then
       (case map_of (ms_generators s) gid of
          None \<Rightarrow> Inr None
        | Some (r, _) \<Rightarrow> and_then (validate_generator_schema r) (\<lambda>_. Inr (Some r)))
       (\<lambda>r. ms_load_generators s gids (AList.update gid r loaded))"

definition ms_scan_generators :: "memory_store \<Rightarrow> generator_record list tso_result" where
  "ms_scan_generators s =
     collect_results
       (map (\<lambda>(gid, r, rv). and_then (validate_generator_schema r) (\<lambda>_. Inr r)) (ms_generators s))"

definition ms_create_generator ::
    "u32 \<Rightarrow> generator_record \<Rightarrow> memory_store \<Rightarrow> memory_store \<times> u64 tso_result" where
  "ms_create_generator gid r s =
     (case validate_generator_schema r of
        Inl e \<Rightarrow> (s, Inl e)
      | Inr _ \<Rightarrow>
          (case create_entry (ms_generators s) gid (stamp_generator r) of
             (generators, res) \<Rightarrow> (s \<lparr> ms_generators := generators \<rparr>, res)))"

definition generator_not_found :: "u32 \<Rightarrow> tso_error" where
  "generator_not_found gid = TimelineNotFound (''generator:'' @ fmt_dec (unat gid))"

definition ms_compare_exchange_generator ::
    "u32 \<Rightarrow> u64 \<Rightarrow> generator_record \<Rightarrow> memory_store \<Rightarrow> memory_store \<times> u64 tso_result" where
  "ms_compare_exchange_generator gid expected_revision r s =
     (case validate_generator_schema r of
        Inl e \<Rightarrow> (s, Inl e)
      | Inr _ \<Rightarrow>
          (case cas_entry (ms_generators s) gid expected_revision (stamp_generator r)
                  (generator_not_found gid) of
             (generators, res) \<Rightarrow> (s \<lparr> ms_generators := generators \<rparr>, res)))"

fun check_generator_ops ::
    "memory_store \<Rightarrow> u32 list \<Rightarrow> generator_batch_op list \<Rightarrow> unit tso_result" where
  "check_generator_ops s seen [] = Inr ()"
| "check_generator_ops s seen (op # ops) =
     (if gb_generator_id op \<in> set seen then Inl CasFailed
      else case map_of (ms_generators s) (gb_generator_id op) of
          None \<Rightarrow> Inl (generator_not_found (gb_generator_id op))
        | Some (_, revision) \<Rightarrow>
            if revision \<noteq> gb_previous_revision op then Inl CasFailed
            else check_generator_ops s (gb_generator_id op # seen) ops)"

fun apply_generator_ops ::
    "generator_batch_op list \<Rightarrow> u64 list \<Rightarrow> memory_store \<Rightarrow> memory_store \<times> u64 list tso_result" where
  "apply_generator_ops [] revisions s = (s, Inr revisions)"
| "apply_generator_ops (op # ops) revisions s =
     (case map_of (ms_generators s) (gb_generator_id op) of
        None \<Rightarrow> (s, Inl (generator_not_found (gb_generator_id op)))
      | Some (_, current_revision) \<Rightarrow>
          let new_revision = current_revision + 1 in
          apply_generator_ops ops (revisions @ [new_revision])
            (s \<lparr> ms_generators := AList.update (gb_generator_id op) (gb_record op, new_revision)
                                   (ms_generators s) \<rparr>))"

definition ms_compare_exchange_generators ::
    "generator_batch_op list \<Rightarrow> memory_store \<Rightarrow> memory_store \<times> u64 list tso_result" where
  "ms_compare_exchange_generators ops s =
     (case check_generator_ops s [] ops of
        Inl e \<Rightarrow> (s, Inl e)
      | Inr _ \<Rightarrow> apply_generator_ops ops [] s)"

subsection \<open>Request records\<close>

definition insert_request_cleanup_index ::
    "string \<Rightarrow> string \<Rightarrow> request_record \<Rightarrow> memory_store \<Rightarrow> memory_store" where
  "insert_request_cleanup_index tk rid r s =
     (if rr_state r \<noteq> Completed then s
      else s \<lparr> ms_request_cleanup_index :=
             AList.update (request_cleanup_index_key [] (rr_updated_at_ms r) tk rid) (request_key [] tk rid)
               (ms_request_cleanup_index s) \<rparr>)"

definition remove_request_cleanup_index ::
    "string \<Rightarrow> string \<Rightarrow> request_record \<Rightarrow> memory_store \<Rightarrow> memory_store" where
  "remove_request_cleanup_index tk rid r s =
     (if rr_state r \<noteq> Completed then s
      else s \<lparr> ms_request_cleanup_index :=
             AList.delete (request_cleanup_index_key [] (rr_updated_at_ms r) tk rid)
               (ms_request_cleanup_index s) \<rparr>)"

definition remove_legacy_request_cleanup_index ::
    "string \<Rightarrow> string \<Rightarrow> request_record \<Rightarrow> memory_store \<Rightarrow> memory_store" where
  "remove_legacy_request_cleanup_index tk rid r s =
     (if rr_state r \<noteq> Completed then s
      else s \<lparr> ms_request_cleanup_index :=
             AList.delete (legacy_request_cleanup_index_key [] (rr_updated_at_ms r) tk rid)
               (ms_request_cleanup_index s) \<rparr>)"

definition ms_load_request_record ::
    "memory_store \<Rightarrow> string \<Rightarrow> string \<Rightarrow> (request_record \<times> u64) option tso_result" where
  "ms_load_request_record s tk rid =
     and_then
       (case map_of (ms_request_records s) (request_key [] tk rid) of
          None \<Rightarrow> Inr None
        | Some (r, revision) \<Rightarrow> and_then (validate_request_schema r) (\<lambda>_. Inr (Some (r, revision))))
       (\<lambda>current.
          if current \<noteq> None \<or> \<not> legacy_request_key_is_unambiguous tk rid then Inr current
          else case map_of (ms_request_records s) (legacy_request_key [] tk rid) of
              None \<Rightarrow> Inr None
            | Some (r, revision) \<Rightarrow>
                and_then (validate_request_schema r) (\<lambda>_.
                  Inr (Some (r, revision OR LEGACY_REQUEST_REVISION_FLAG))))"

definition ms_create_request_record ::
    "string \<Rightarrow> string \<Rightarrow> request_record \<Rightarrow> memory_store \<Rightarrow> memory_store \<times> u64 tso_result" where
  "ms_create_request_record tk rid r s =
     (case validate_request_schema r of
        Inl e \<Rightarrow> (s, Inl e)
      | Inr _ \<Rightarrow>
          let stamped = stamp_request r in
          if legacy_request_key_is_unambiguous tk rid
             \<and> map_of (ms_request_records s) (legacy_request_key [] tk rid) \<noteq> None
          then (s, Inl MetadataAlreadyExists)
          else case create_entry (ms_request_records s) (request_key [] tk rid) stamped of
              (_, Inl e) \<Rightarrow> (s, Inl e)
            | (records, Inr revision) \<Rightarrow>
                (insert_request_cleanup_index tk rid stamped (s \<lparr> ms_request_records := records \<rparr>),
                 Inr revision))"

definition request_not_found :: "string \<Rightarrow> string \<Rightarrow> tso_error" where
  "request_not_found tk rid = TimelineNotFound (''request:'' @ tk @ '':'' @ rid)"

definition ms_compare_exchange_request_record ::
    "string \<Rightarrow> string \<Rightarrow> u64 \<Rightarrow> request_record \<Rightarrow> memory_store \<Rightarrow> memory_store \<times> u64 tso_result" where
  "ms_compare_exchange_request_record tk rid expected r s =
     (case validate_request_schema r of
        Inl e \<Rightarrow> (s, Inl e)
      | Inr _ \<Rightarrow>
          let stamped = stamp_request r;
              legacy = (expected AND LEGACY_REQUEST_REVISION_FLAG \<noteq> 0);
              expected_revision = expected AND NOT LEGACY_REQUEST_REVISION_FLAG;
              key = (if legacy then legacy_request_key [] tk rid else request_key [] tk rid);
              target_key = request_key [] tk rid
          in case map_of (ms_request_records s) key of
              None \<Rightarrow> (s, Inl (request_not_found tk rid))
            | Some (current_record, current_revision) \<Rightarrow>
                if current_revision \<noteq> expected_revision then (s, Inl CasFailed)
                else let new_revision = current_revision + 1 in
                  if legacy
                  then (if map_of (ms_request_records s) target_key \<noteq> None then (s, Inl CasFailed)
                        else
                          let s1 = s \<lparr> ms_request_records :=
                                 AList.update target_key (stamped, new_revision)
                                   (AList.delete key (ms_request_records s)) \<rparr>;
                              s2 = remove_legacy_request_cleanup_index tk rid current_record s1
                          in (insert_request_cleanup_index tk rid stamped s2, Inr new_revision))
                  else
                    let s1 = s \<lparr> ms_request_records :=
                           AList.update key (stamped, new_revision) (ms_request_records s) \<rparr>;
                        s2 = remove_request_cleanup_index tk rid current_record s1
                    in (insert_request_cleanup_index tk rid stamped s2, Inr new_revision))"

definition ms_compare_delete_request_record ::
    "string \<Rightarrow> string \<Rightarrow> u64 \<Rightarrow> memory_store \<Rightarrow> memory_store \<times> unit tso_result" where
  "ms_compare_delete_request_record tk rid expected s =
     (let legacy = (expected AND LEGACY_REQUEST_REVISION_FLAG \<noteq> 0);
          expected_revision = expected AND NOT LEGACY_REQUEST_REVISION_FLAG;
          key = (if legacy then legacy_request_key [] tk rid else request_key [] tk rid)
      in case map_of (ms_request_records s) key of
          None \<Rightarrow> (s, Inl (request_not_found tk rid))
        | Some (r, revision) \<Rightarrow>
            if revision \<noteq> expected_revision then (s, Inl CasFailed)
            else
              let s1 = s \<lparr> ms_request_records := AList.delete key (ms_request_records s) \<rparr>
              in ((if legacy then remove_legacy_request_cleanup_index tk rid r s1
                   else remove_request_cleanup_index tk rid r s1), Inr ()))"

definition remove_index_key :: "string \<Rightarrow> memory_store \<Rightarrow> memory_store" where
  "remove_index_key k s = s \<lparr> ms_request_cleanup_index := AList.delete k (ms_request_cleanup_index s) \<rparr>"

fun prune_index_candidates ::
    "u64 \<Rightarrow> nat \<Rightarrow> (string \<times> string) list \<Rightarrow> nat \<Rightarrow> memory_store \<Rightarrow> memory_store \<times> nat" where
  "prune_index_candidates older limit [] pruned s = (s, pruned)"
| "prune_index_candidates older limit ((index_key, req_key) # cs) pruned s =
     (if limit \<le> pruned then (s, pruned)
      else case map_of (ms_request_records s) req_key of
          None \<Rightarrow> prune_index_candidates older limit cs pruned (remove_index_key index_key s)
        | Some (r, _) \<Rightarrow>
            if rr_state r \<noteq> Completed \<or> older \<le> rr_updated_at_ms r
            then prune_index_candidates older limit cs pruned (remove_index_key index_key s)
            else prune_index_candidates older limit cs (pruned + 1)
                   (remove_index_key index_key
                      (s \<lparr> ms_request_records := AList.delete req_key (ms_request_records s) \<rparr>)))"

fun prune_legacy_candidates :: "nat \<Rightarrow> string list \<Rightarrow> nat \<Rightarrow> memory_store \<Rightarrow> memory_store \<times> nat" where
  "prune_legacy_candidates limit [] pruned s = (s, pruned)"
| "prune_legacy_candidates limit (key # keys) pruned s =
     (let (s', pruned') =
        (if map_of (ms_request_records s) key \<noteq> None
         then (s \<lparr> ms_request_records := AList.delete key (ms_request_records s),
                   ms_request_cleanup_index :=
                     filter (\<lambda>(k, v). v \<noteq> key) (ms_request_cleanup_index s) \<rparr>, pruned + 1)
         else (s, pruned))
      in if limit \<le> pruned' then (s', pruned') else prune_legacy_candidates limit keys pruned' s')"

definition ms_prune_completed_request_records ::
    "u64 \<Rightarrow> nat \<Rightarrow> memory_store \<Rightarrow> memory_store \<times> nat" where
  "ms_prune_completed_request_records older_than_ms limit s =
     (if limit = 0 then (s, 0)
      else
        let index_candidates = sort_key fst (filter (\<lambda>(k, v).
              str_starts_with k (request_cleanup_index_prefix [])
              \<and> k < request_cleanup_index_cutoff [] older_than_ms) (ms_request_cleanup_index s));
            (s1, pruned) = prune_index_candidates older_than_ms limit index_candidates 0 s
        in if limit \<le> pruned then (s1, pruned)
           else
             let legacy_candidates = take (limit - pruned) (map fst (filter (\<lambda>(k, r, _).
                   rr_state r = Completed \<and> rr_updated_at_ms r < older_than_ms) (ms_request_records s1)))
             in prune_legacy_candidates limit legacy_candidates pruned s1)"

end
