(* ===== verification/Store_Contract.thy ===== *)
theory Store_Contract
  imports Memory_Store
begin

text \<open>
  What the service relies on from a metadata store: the contract of revisions in the traits
  \<open>TimelineAuthority\<close> and \<open>GeneratorLeaseAuthority\<close> (\<open>metadata/types.rs\<close>), as a locale over one table
  of records, with its consequence proved once: a conditional write succeeds only if the record is
  still the one that was read. The in-memory store implements it for timelines and generators.
\<close>

subsection \<open>The contract\<close>

datatype ('k, 'v) store_op = Create 'k 'v | Cas 'k u64 'v

fun store_run :: "('k \<Rightarrow> 'v \<Rightarrow> 's \<Rightarrow> 's \<times> u64 tso_result) \<Rightarrow> ('k \<Rightarrow> u64 \<Rightarrow> 'v \<Rightarrow> 's \<Rightarrow> 's \<times> u64 tso_result)
    \<Rightarrow> ('k, 'v) store_op list \<Rightarrow> 's \<Rightarrow> 's" where
  "store_run create cas [] s = s"
| "store_run create cas (Create k v # ops) s = store_run create cas ops (fst (create k v s))"
| "store_run create cas (Cas k e v # ops) s = store_run create cas ops (fst (cas k e v s))"

locale revision_table =
  fixes lookup :: "'s \<Rightarrow> 'k \<Rightarrow> ('v \<times> u64) option"
    and create :: "'k \<Rightarrow> 'v \<Rightarrow> 's \<Rightarrow> 's \<times> u64 tso_result"
    and cas :: "'k \<Rightarrow> u64 \<Rightarrow> 'v \<Rightarrow> 's \<Rightarrow> 's \<times> u64 tso_result"
    and stamp :: "'v \<Rightarrow> 'v"
  assumes create_ok: "create k v s = (s', Inr r) \<Longrightarrow>
      lookup s k = None \<and> r = 1 \<and> lookup s' = (lookup s)(k \<mapsto> (stamp v, 1))"
    and create_err: "create k v s = (s', Inl e) \<Longrightarrow> lookup s' = lookup s"
    and cas_ok: "cas k r0 v s = (s', Inr r) \<Longrightarrow>
      (\<exists>v0. lookup s k = Some (v0, r0)) \<and> r = r0 + 1 \<and> lookup s' = (lookup s)(k \<mapsto> (stamp v, r0 + 1))"
    and cas_err: "cas k r0 v s = (s', Inl e) \<Longrightarrow> lookup s' = lookup s"
begin

abbreviation run where "run \<equiv> store_run create cas"

lemma op_revision:
  assumes "lookup s k = Some (v, r)" "unat r + 1 < 2 ^ 64"
  shows "\<exists>v' r'. lookup (run [op] s) k = Some (v', r') \<and> unat r \<le> unat r' \<and> unat r' \<le> unat r + 1
    \<and> (r' = r \<longrightarrow> v' = v)"
proof -
  have succ: "unat (r + 1) = unat r + 1" using assms(2) by (simp add: unat_add_small)
  then have ne: "r + 1 \<noteq> r" by (metis add_cancel_left_right zero_neq_one)
  show ?thesis
  proof (cases op)
    case (Create k' w)
    obtain s' res where c: "create k' w s = (s', res)" by fastforce
    then have "lookup s' k = Some (v, r)"
      using create_ok [of k' w s s'] create_err [of k' w s s'] assms(1) by (cases res) auto
    then show ?thesis using Create c by simp
  next
    case (Cas k' e w)
    obtain s' res where c: "cas k' e w s = (s', res)" by fastforce
    then have "lookup s' k = Some (v, r) \<or> lookup s' k = Some (stamp w, r + 1)"
      using cas_ok [of k' e w s s'] cas_err [of k' e w s s'] assms(1) by (cases res; cases "k' = k") auto
    then show ?thesis using Cas c succ ne by auto
  qed
qed

lemma run_revision:
  "lookup s k = Some (v, r) \<Longrightarrow> unat r + length ops < 2 ^ 64 \<Longrightarrow>
   \<exists>v' r'. lookup (run ops s) k = Some (v', r') \<and> unat r \<le> unat r' \<and> unat r' \<le> unat r + length ops
     \<and> (r' = r \<longrightarrow> v' = v)"
proof (induction ops arbitrary: s v r)
  case (Cons op ops)
  let ?s1 = "run [op] s"
  have "unat r + 1 < 2 ^ 64" using Cons.prems(2) by simp
  from op_revision [OF Cons.prems(1) this, of op] obtain v1 r1 where
    1: "lookup ?s1 k = Some (v1, r1)" "unat r \<le> unat r1" "unat r1 \<le> unat r + 1" "r1 = r \<longrightarrow> v1 = v"
    by blast
  have "unat r1 + length ops < 2 ^ 64" using 1(3) Cons.prems(2) by simp
  from Cons.IH [OF 1(1) this] obtain v' r' where
    2: "lookup (run ops ?s1) k = Some (v', r')" "unat r1 \<le> unat r'" "unat r' \<le> unat r1 + length ops"
    "r' = r1 \<longrightarrow> v' = v1" by blast
  have "run (op # ops) s = run ops ?s1" by (cases op) simp_all
  moreover have "r' = r \<longrightarrow> v' = v"
    using 1(2,4) 2(2,4) by (metis le_antisym word_unat_eq_iff)
  ultimately show ?case using 1(2,3) 2 by (intro exI [of _ v'] exI [of _ r']) auto
qed simp

lemma cas_no_lost_update:
  assumes "lookup s k = Some (v, r)" "unat r + length ops < 2 ^ 64"
    and "cas k r w (run ops s) = (s', Inr r')"
  shows "lookup (run ops s) k = Some (v, r)" and "lookup s' k = Some (stamp w, r + 1)" and "r' = r + 1"
proof -
  have c: "\<exists>v0. lookup (run ops s) k = Some (v0, r)" "r' = r + 1"
    "lookup s' = (lookup (run ops s))(k \<mapsto> (stamp w, r + 1))"
    using cas_ok [OF assms(3)] by blast+
  with run_revision [OF assms(1,2)] show "lookup (run ops s) k = Some (v, r)" by auto
  from c show "lookup s' k = Some (stamp w, r + 1)" "r' = r + 1" by simp_all
qed

end

subsection \<open>The in-memory store keeps it\<close>

definition generator_entry :: "memory_store \<Rightarrow> u32 \<Rightarrow> (generator_record \<times> u64) option" where
  "generator_entry s gid = map_of (ms_generators s) gid"

definition timeline_entry :: "memory_store \<Rightarrow> string \<Rightarrow> (timeline_record \<times> u64) option" where
  "timeline_entry s tk = map_of (ms_records s) tk"

lemma create_entry_cases:
  "create_entry store k v = (store', res) \<Longrightarrow>
     (case res of
        Inl e \<Rightarrow> store' = store \<and> e = MetadataAlreadyExists \<and> map_of store k \<noteq> None
      | Inr r \<Rightarrow> map_of store k = None \<and> r = 1 \<and> map_of store' = (map_of store)(k \<mapsto> (v, 1)))"
  by (auto simp: create_entry_def update_conv' split: option.splits)

lemma cas_entry_cases:
  "cas_entry store k r0 v nf = (store', res) \<Longrightarrow>
     (case res of
        Inl e \<Rightarrow> store' = store
      | Inr r \<Rightarrow> (\<exists>v0. map_of store k = Some (v0, r0)) \<and> r = r0 + 1
          \<and> map_of store' = (map_of store)(k \<mapsto> (v, r0 + 1)))"
  by (auto simp: cas_entry_def update_conv' Let_def split: option.splits if_splits)

lemma publish_route_updates_records [simp]:
  "ms_records (fold publish_route_update us s) = ms_records s"
  "ms_generators (fold publish_route_update us s) = ms_generators s"
  "ms_request_records (fold publish_route_update us s) = ms_request_records s"
  "ms_request_cleanup_index (fold publish_route_update us s) = ms_request_cleanup_index s"
  "ms_sorted_timeline_keys (fold publish_route_update us s) = ms_sorted_timeline_keys s"
  by (induction us arbitrary: s) (simp_all add: publish_route_update_def)

lemma publish_route_update_fields [simp]:
  "ms_records (publish_route_update u s) = ms_records s"
  "ms_sorted_timeline_keys (publish_route_update u s) = ms_sorted_timeline_keys s"
  "ms_generators (publish_route_update u s) = ms_generators s"
  by (simp_all add: publish_route_update_def)

lemma invalidate_fields [simp]:
  "ms_records (invalidate_sorted_timeline_keys s) = ms_records s"
  "ms_generators (invalidate_sorted_timeline_keys s) = ms_generators s"
  "ms_sorted_timeline_keys (invalidate_sorted_timeline_keys s) = None"
  by (simp_all add: invalidate_sorted_timeline_keys_def)

interpretation gens: revision_table generator_entry ms_create_generator ms_compare_exchange_generator
  stamp_generator
proof
  fix k v r0 s s' r e
  show "ms_create_generator k v s = (s', Inr r) \<Longrightarrow>
      generator_entry s k = None \<and> r = 1 \<and> generator_entry s' = (generator_entry s)(k \<mapsto> (stamp_generator v, 1))"
    by (auto simp: ms_create_generator_def generator_entry_def [abs_def] split: sum.splits prod.splits
        dest!: create_entry_cases)
  show "ms_create_generator k v s = (s', Inl e) \<Longrightarrow> generator_entry s' = generator_entry s"
    by (auto simp: ms_create_generator_def generator_entry_def [abs_def] split: sum.splits prod.splits
        dest!: create_entry_cases)
  show "ms_compare_exchange_generator k r0 v s = (s', Inr r) \<Longrightarrow>
      (\<exists>v0. generator_entry s k = Some (v0, r0)) \<and> r = r0 + 1
      \<and> generator_entry s' = (generator_entry s)(k \<mapsto> (stamp_generator v, r0 + 1))"
    by (auto simp: ms_compare_exchange_generator_def generator_entry_def [abs_def]
        split: sum.splits prod.splits dest!: cas_entry_cases)
  show "ms_compare_exchange_generator k r0 v s = (s', Inl e) \<Longrightarrow> generator_entry s' = generator_entry s"
    by (auto simp: ms_compare_exchange_generator_def generator_entry_def [abs_def]
        split: sum.splits prod.splits dest!: cas_entry_cases)
qed

interpretation tls: revision_table timeline_entry ms_create_timeline ms_compare_exchange_timeline
  stamp_timeline
proof
  fix k v r0 s s' r e
  show "ms_create_timeline k v s = (s', Inr r) \<Longrightarrow>
      timeline_entry s k = None \<and> r = 1 \<and> timeline_entry s' = (timeline_entry s)(k \<mapsto> (stamp_timeline v, 1))"
    by (auto simp: ms_create_timeline_def timeline_entry_def [abs_def] Let_def
        split: sum.splits prod.splits dest!: create_entry_cases)
  show "ms_create_timeline k v s = (s', Inl e) \<Longrightarrow> timeline_entry s' = timeline_entry s"
    by (auto simp: ms_create_timeline_def timeline_entry_def [abs_def] Let_def
        split: sum.splits prod.splits dest!: create_entry_cases)
  show "ms_compare_exchange_timeline k r0 v s = (s', Inr r) \<Longrightarrow>
      (\<exists>v0. timeline_entry s k = Some (v0, r0)) \<and> r = r0 + 1
      \<and> timeline_entry s' = (timeline_entry s)(k \<mapsto> (stamp_timeline v, r0 + 1))"
    by (auto simp: ms_compare_exchange_timeline_def timeline_entry_def [abs_def] Let_def update_conv'
        split: sum.splits option.splits prod.splits if_splits)
  show "ms_compare_exchange_timeline k r0 v s = (s', Inl e) \<Longrightarrow> timeline_entry s' = timeline_entry s"
    by (auto simp: ms_compare_exchange_timeline_def timeline_entry_def [abs_def] Let_def
        split: sum.splits option.splits prod.splits if_splits)
qed

subsection \<open>Batches\<close>

definition ops_map :: "('op \<Rightarrow> 'k) \<Rightarrow> ('op \<Rightarrow> 'v) \<Rightarrow> ('op \<Rightarrow> u64) \<Rightarrow> 'op list \<Rightarrow> ('k \<rightharpoonup> 'v \<times> u64)
    \<Rightarrow> ('k \<rightharpoonup> 'v \<times> u64)" where
  \<comment> \<open>all writes of a batch at once\<close>
  "ops_map key val prev ops m = m ++ map_of (map (\<lambda>op. (key op, val op, prev op + 1)) ops)"

lemma check_timeline_ops_ok:
  "check_timeline_ops s seen ops = Inr () \<Longrightarrow>
     distinct (map tb_timeline_key ops) \<and> set (map tb_timeline_key ops) \<inter> set seen = {}
     \<and> (\<forall>op \<in> set ops. \<exists>r. map_of (ms_records s) (tb_timeline_key op) = Some (r, tb_previous_revision op))
     \<and> (\<forall>op \<in> set ops. validate_timeline_schema (tb_record op) = Inr ())"
proof (induction ops arbitrary: seen)
  case (Cons op ops)
  from Cons.prems obtain r where
    v: "validate_timeline_schema (tb_record op) = Inr ()" and n: "tb_timeline_key op \<notin> set seen"
    and m: "map_of (ms_records s) (tb_timeline_key op) = Some (r, tb_previous_revision op)"
    and c: "check_timeline_ops s (tb_timeline_key op # seen) ops = Inr ()"
    by (auto simp: and_then_eq_Inr split: if_splits option.splits)
  from Cons.IH [OF c] v n m show ?case by auto
qed simp

lemma apply_timeline_ops_ok:
  "distinct (map tb_timeline_key ops) \<Longrightarrow>
   \<forall>op \<in> set ops. \<exists>r. map_of (ms_records s) (tb_timeline_key op) = Some (r, tb_previous_revision op) \<Longrightarrow>
   \<exists>us ch. apply_timeline_ops ops revs updates changed s =
       (s \<lparr> ms_records := ms_records (fst (apply_timeline_ops ops revs updates changed s)) \<rparr>,
        Inr (revs @ map (\<lambda>op. tb_previous_revision op + 1) ops, us, ch))
     \<and> map_of (ms_records (fst (apply_timeline_ops ops revs updates changed s)))
         = ops_map tb_timeline_key tb_record tb_previous_revision ops (map_of (ms_records s))"
proof (induction ops arbitrary: revs updates changed s)
  case Nil
  then show ?case by (simp add: ops_map_def)
next
  case (Cons op ops)
  from Cons.prems obtain r where m: "map_of (ms_records s) (tb_timeline_key op) = Some (r, tb_previous_revision op)"
    by auto
  define s1 where "s1 = s \<lparr> ms_records := AList.update (tb_timeline_key op)
    (tb_record op, tb_previous_revision op + 1) (ms_records s) \<rparr>"
  have s1: "map_of (ms_records s1) = (map_of (ms_records s))(tb_timeline_key op \<mapsto> (tb_record op, tb_previous_revision op + 1))"
    by (simp add: s1_def update_conv')
  have pre: "\<forall>op' \<in> set ops. \<exists>r. map_of (ms_records s1) (tb_timeline_key op') = Some (r, tb_previous_revision op')"
  proof
    fix op' assume op': "op' \<in> set ops"
    then have "tb_timeline_key op' \<in> tb_timeline_key ` set ops" by (rule imageI)
    then have "tb_timeline_key op' \<noteq> tb_timeline_key op" using Cons.prems(1) by auto
    with op' Cons.prems(2) show "\<exists>r. map_of (ms_records s1) (tb_timeline_key op')
        = Some (r, tb_previous_revision op')" by (simp add: s1)
  qed
  let ?us = "collect_timeline_route_update (Some r) (tb_record op) updates"
  let ?ch = "changed \<or> record_key (tb_record op) \<noteq> tb_timeline_key op"
  have eq: "apply_timeline_ops (op # ops) revs updates changed s
      = apply_timeline_ops ops (revs @ [tb_previous_revision op + 1]) ?us ?ch s1"
    using m by (simp add: s1_def Let_def)
  have fresh: "tb_timeline_key op \<notin> dom (map_of (map (\<lambda>op. (tb_timeline_key op, tb_record op, tb_previous_revision op + 1)) ops))"
    using Cons.prems(1) by (auto simp: dom_map_of_conv_image_fst image_iff)
  have upd: "ops_map tb_timeline_key tb_record tb_previous_revision ops (map_of (ms_records s1))
      = ops_map tb_timeline_key tb_record tb_previous_revision (op # ops) (map_of (ms_records s))"
    using fresh by (auto simp: ops_map_def s1 map_add_def fun_eq_iff domIff split: option.splits)
  have s1u: "s1 \<lparr> ms_records := x \<rparr> = s \<lparr> ms_records := x \<rparr>" for x by (simp add: s1_def)
  show ?case
    using Cons.IH [OF _ pre, of "revs @ [tb_previous_revision op + 1]" ?us ?ch] Cons.prems(1)
    unfolding eq by (simp add: s1u upd)
qed

lemma check_generator_ops_ok:
  "check_generator_ops s seen ops = Inr () \<Longrightarrow>
     distinct (map gb_generator_id ops) \<and> set (map gb_generator_id ops) \<inter> set seen = {}
     \<and> (\<forall>op \<in> set ops. \<exists>r. map_of (ms_generators s) (gb_generator_id op) = Some (r, gb_previous_revision op))"
proof (induction ops arbitrary: seen)
  case (Cons op ops)
  from Cons.prems obtain r where n: "gb_generator_id op \<notin> set seen"
    and m: "map_of (ms_generators s) (gb_generator_id op) = Some (r, gb_previous_revision op)"
    and c: "check_generator_ops s (gb_generator_id op # seen) ops = Inr ()"
    by (auto split: if_splits option.splits)
  from Cons.IH [OF c] n m show ?case by auto
qed simp

lemma apply_generator_ops_ok:
  "distinct (map gb_generator_id ops) \<Longrightarrow>
   \<forall>op \<in> set ops. \<exists>r. map_of (ms_generators s) (gb_generator_id op) = Some (r, gb_previous_revision op) \<Longrightarrow>
   apply_generator_ops ops revs s =
       (s \<lparr> ms_generators := ms_generators (fst (apply_generator_ops ops revs s)) \<rparr>,
        Inr (revs @ map (\<lambda>op. gb_previous_revision op + 1) ops))
     \<and> map_of (ms_generators (fst (apply_generator_ops ops revs s)))
         = ops_map gb_generator_id gb_record gb_previous_revision ops (map_of (ms_generators s))"
proof (induction ops arbitrary: revs s)
  case Nil
  then show ?case by (simp add: ops_map_def)
next
  case (Cons op ops)
  from Cons.prems obtain r where m: "map_of (ms_generators s) (gb_generator_id op) = Some (r, gb_previous_revision op)"
    by auto
  define s1 where "s1 = s \<lparr> ms_generators := AList.update (gb_generator_id op)
    (gb_record op, gb_previous_revision op + 1) (ms_generators s) \<rparr>"
  have s1: "map_of (ms_generators s1) = (map_of (ms_generators s))(gb_generator_id op \<mapsto> (gb_record op, gb_previous_revision op + 1))"
    by (simp add: s1_def update_conv')
  have pre: "\<forall>op' \<in> set ops. \<exists>r. map_of (ms_generators s1) (gb_generator_id op') = Some (r, gb_previous_revision op')"
  proof
    fix op' assume op': "op' \<in> set ops"
    then have "gb_generator_id op' \<in> gb_generator_id ` set ops" by (rule imageI)
    then have "gb_generator_id op' \<noteq> gb_generator_id op" using Cons.prems(1) by auto
    with op' Cons.prems(2) show "\<exists>r. map_of (ms_generators s1) (gb_generator_id op')
        = Some (r, gb_previous_revision op')" by (simp add: s1)
  qed
  have eq: "apply_generator_ops (op # ops) revs s
      = apply_generator_ops ops (revs @ [gb_previous_revision op + 1]) s1"
    using m by (simp add: s1_def Let_def)
  have fresh: "gb_generator_id op \<notin> dom (map_of (map (\<lambda>op. (gb_generator_id op, gb_record op, gb_previous_revision op + 1)) ops))"
    using Cons.prems(1) by (auto simp: dom_map_of_conv_image_fst image_iff)
  have upd: "ops_map gb_generator_id gb_record gb_previous_revision ops (map_of (ms_generators s1))
      = ops_map gb_generator_id gb_record gb_previous_revision (op # ops) (map_of (ms_generators s))"
    using fresh by (auto simp: ops_map_def s1 map_add_def fun_eq_iff domIff split: option.splits)
  have s1u: "s1 \<lparr> ms_generators := x \<rparr> = s \<lparr> ms_generators := x \<rparr>" for x by (simp add: s1_def)
  show ?case
    using Cons.IH [OF _ pre, of "revs @ [gb_previous_revision op + 1]"] Cons.prems(1)
    unfolding eq by (simp add: s1u upd)
qed

lemma generator_batch:
  "case ms_compare_exchange_generators gops s of
      (s', Inl e) \<Rightarrow> s' = s
    | (s', Inr revs) \<Rightarrow>
        map (\<lambda>op. map_option snd (generator_entry s (gb_generator_id op))) gops
          = map (\<lambda>op. Some (gb_previous_revision op)) gops
        \<and> distinct (map gb_generator_id gops)
        \<and> revs = map (\<lambda>op. gb_previous_revision op + 1) gops
        \<and> generator_entry s' = ops_map gb_generator_id gb_record gb_previous_revision gops (generator_entry s)
        \<and> ms_records s' = ms_records s"
proof (cases "check_generator_ops s [] gops")
  case (Inr u)
  then have c: "distinct (map gb_generator_id gops)" "\<forall>op \<in> set gops. \<exists>r. map_of (ms_generators s)
      (gb_generator_id op) = Some (r, gb_previous_revision op)"
    using check_generator_ops_ok [of s "[]" gops] by auto
  obtain s' res where a: "apply_generator_ops gops [] s = (s', res)" by fastforce
  from apply_generator_ops_ok [OF c, of "[]"] c Inr show ?thesis
    unfolding a by (auto simp: ms_compare_exchange_generators_def a generator_entry_def [abs_def])
      (metis memory_store.select_convs(1) memory_store.surjective memory_store.update_convs(2))
qed (simp add: ms_compare_exchange_generators_def)

lemma timeline_batch:
  "case ms_compare_exchange_timelines tops s of
      (s', Inl e) \<Rightarrow> s' = s
    | (s', Inr revs) \<Rightarrow>
        map (\<lambda>op. map_option snd (timeline_entry s (tb_timeline_key op))) tops
          = map (\<lambda>op. Some (tb_previous_revision op)) tops
        \<and> distinct (map tb_timeline_key tops)
        \<and> revs = map (\<lambda>op. tb_previous_revision op + 1) tops
        \<and> timeline_entry s' = ops_map tb_timeline_key tb_record tb_previous_revision tops (timeline_entry s)
        \<and> ms_generators s' = ms_generators s"
proof (cases "check_timeline_ops s [] tops")
  case (Inr u)
  then have c: "distinct (map tb_timeline_key tops)" "\<forall>op \<in> set tops. \<exists>r. map_of (ms_records s)
      (tb_timeline_key op) = Some (r, tb_previous_revision op)"
    using check_timeline_ops_ok [of s "[]" tops] by auto
  obtain s' us ch where a: "apply_timeline_ops tops [] [] False s
      = (s', Inr (map (\<lambda>op. tb_previous_revision op + 1) tops, us, ch))"
    and s': "s' = s \<lparr> ms_records := ms_records s' \<rparr>"
    "map_of (ms_records s') = ops_map tb_timeline_key tb_record tb_previous_revision tops (map_of (ms_records s))"
    using apply_timeline_ops_ok [OF c, of "[]" "[]" False] by (metis append_Nil fst_conv)
  have "ms_generators s' = ms_generators s" using s'(1) by (metis memory_store.select_convs(2)
        memory_store.surjective memory_store.update_convs(1))
  with c Inr s' show ?thesis
    by (auto simp: ms_compare_exchange_timelines_def a timeline_entry_def [abs_def] Let_def)
qed (simp add: ms_compare_exchange_timelines_def)

subsection \<open>Properties\<close>

text \<open>
  C11: a conditional write to a generator record succeeds only if the record is still exactly the one
  that was read: if a worker read revision \<open>r\<close> and any other creates and conditional writes happened
  since (fewer than would exhaust the 64-bit revision), then success means the record is unchanged,
  and the write is the only change it makes. The same holds for timeline records.
\<close>
theorem conditional_writes_no_lost_update:
  assumes "generator_entry s gid = Some (v, r)" "unat r + length ops < 2 ^ 64"
    and "ms_compare_exchange_generator gid r w
           (store_run ms_create_generator ms_compare_exchange_generator ops s) = (s', Inr r')"
    and "timeline_entry t tk = Some (x, q)" "unat q + length tops < 2 ^ 64"
    and "ms_compare_exchange_timeline tk q y
           (store_run ms_create_timeline ms_compare_exchange_timeline tops t) = (t', Inr q')"
  shows "generator_entry (store_run ms_create_generator ms_compare_exchange_generator ops s) gid = Some (v, r)
    \<and> generator_entry s' gid = Some (stamp_generator w, r + 1) \<and> r' = r + 1
    \<and> timeline_entry (store_run ms_create_timeline ms_compare_exchange_timeline tops t) tk = Some (x, q)
    \<and> timeline_entry t' tk = Some (stamp_timeline y, q + 1) \<and> q' = q + 1"
  using gens.cas_no_lost_update [OF assms(1-3)] tls.cas_no_lost_update [OF assms(4-6)] by blast

definition sample_generator :: "u32 \<Rightarrow> u32 \<Rightarrow> generator_record" where
  \<comment> \<open>a record for concrete instances\<close>
  "sample_generator version gid =
     \<lparr> gr_schema_version = version, gr_generator_id = gid, gr_owner_worker_endpoint = ''w'',
       gr_owner_instance_id = ''i'', gr_generator_lease_token = 1, gr_lease_expire_at_ms = None,
       gr_last_issued_tso = None, gr_issued_upper_bound = None, gr_updated_at_ms = 0 \<rparr>"

definition sample_store :: memory_store where
  "sample_store = memory_store_new
     \<lparr> ms_generators := [(3, sample_generator 1 3, 1)], ms_records := [(''a'', sample_timeline ''a'' Active, 1)] \<rparr>"

theorem conditional_writes_no_lost_update_witness:
  "\<exists>s' t'. ms_compare_exchange_generator 3 1 (sample_generator 1 3) sample_store = (s', Inr 2)
     \<and> ms_compare_exchange_timeline ''a'' 1 (sample_timeline ''a'' Locked) sample_store = (t', Inr 2)
     \<and> generator_entry s' 3 = Some (sample_generator 1 3, 2)
     \<and> timeline_entry t' ''a'' = Some (sample_timeline ''a'' Locked, 2)"
proof -
  have stamps: "stamp_generator (sample_generator 1 3) = sample_generator 1 3"
    "stamp_timeline (sample_timeline ''a'' Locked) = sample_timeline ''a'' Locked"
    by (simp_all add: stamp_generator_def stamp_timeline_def sample_generator_def sample_timeline_def
        CURRENT_METADATA_SCHEMA_VERSION_def)
  have e: "generator_entry sample_store 3 = Some (sample_generator 1 3, 1)"
    "timeline_entry sample_store ''a'' = Some (sample_timeline ''a'' Active, 1)"
    by (simp_all add: generator_entry_def timeline_entry_def sample_store_def memory_store_new_def)
  obtain s' where s': "ms_compare_exchange_generator 3 1 (sample_generator 1 3) sample_store = (s', Inr 2)"
    using e by (auto simp: ms_compare_exchange_generator_def validate_generator_schema_def sample_generator_def
        CURRENT_METADATA_SCHEMA_VERSION_def cas_entry_def generator_entry_def)
  obtain t' where t': "ms_compare_exchange_timeline ''a'' 1 (sample_timeline ''a'' Locked) sample_store = (t', Inr 2)"
    using e by (auto simp: ms_compare_exchange_timeline_def validate_timeline_schema_def sample_timeline_def
        CURRENT_METADATA_SCHEMA_VERSION_def timeline_entry_def Let_def)
  show ?thesis
    using conditional_writes_no_lost_update [of sample_store 3 "sample_generator 1 3" 1 "[]"
        "sample_generator 1 3" s' 2 sample_store "''a''" "sample_timeline ''a'' Active" 1 "[]"
        "sample_timeline ''a'' Locked" t' 2] e s' t' by (auto simp: stamps)
qed

text \<open>
  C12: a batch of conditional writes is all or nothing, for generators and for timelines: on an error the
  store is untouched; otherwise every record of the batch had the expected revision, every write is
  in place with the next revision, and nothing else changed.
\<close>
theorem batch_all_or_nothing:
  "(case ms_compare_exchange_generators gops s of
      (s', Inl e) \<Rightarrow> s' = s
    | (s', Inr revs) \<Rightarrow>
        map (\<lambda>op. map_option snd (generator_entry s (gb_generator_id op))) gops
          = map (\<lambda>op. Some (gb_previous_revision op)) gops
        \<and> distinct (map gb_generator_id gops)
        \<and> revs = map (\<lambda>op. gb_previous_revision op + 1) gops
        \<and> generator_entry s' = ops_map gb_generator_id gb_record gb_previous_revision gops (generator_entry s)
        \<and> ms_records s' = ms_records s)
   \<and> (case ms_compare_exchange_timelines tops s of
      (s', Inl e) \<Rightarrow> s' = s
    | (s', Inr revs) \<Rightarrow>
        map (\<lambda>op. map_option snd (timeline_entry s (tb_timeline_key op))) tops
          = map (\<lambda>op. Some (tb_previous_revision op)) tops
        \<and> distinct (map tb_timeline_key tops)
        \<and> revs = map (\<lambda>op. tb_previous_revision op + 1) tops
        \<and> timeline_entry s' = ops_map tb_timeline_key tb_record tb_previous_revision tops (timeline_entry s)
        \<and> ms_generators s' = ms_generators s)"
  by (intro conjI generator_batch timeline_batch)

end
