(* ===== verification/Store_Listing.thy ===== *)
theory Store_Listing
  imports Store_Contract
begin

text \<open>
  Listing and limits of the in-memory store (\<open>metadata/memory.rs\<close>): its page listing goes
  through a cached list of sorted keys and agrees with the reference listing of the trait as long as
  the cache is coherent, which every operation keeps when it runs alone; a scan that overlaps a
  create breaks it.
\<close>

subsection \<open>Invariant of the timeline table\<close>

definition cache_coherent :: "memory_store \<Rightarrow> bool" where
  "cache_coherent s \<longleftrightarrow> (\<forall>ks. ms_sorted_timeline_keys s = Some ks \<longrightarrow> ks = sort (map fst (ms_records s)))"

definition timelines_wf :: "memory_store \<Rightarrow> bool" where
  \<comment> \<open>distinct keys, each record filed under its own key with the current schema\<close>
  "timelines_wf s \<longleftrightarrow> distinct (map fst (ms_records s)) \<and> cache_coherent s
     \<and> (\<forall>(k, r, rv) \<in> set (ms_records s). record_key r = k \<and> validate_timeline_schema r = Inr ())"

lemma map_fst_update:
  "map fst (AList.update k v al) = (if k \<in> set (map fst al) then map fst al else map fst al @ [k])"
  by (rule update_keys)

lemma set_update_subset: "set (AList.update k v al) \<subseteq> insert (k, v) (set al)"
  by (induction al) auto

lemma validate_stamp_timeline [simp]:
  "validate_timeline_schema (stamp_timeline r) = Inr ()" "record_key (stamp_timeline r) = record_key r"
  by (simp_all add: validate_timeline_schema_def stamp_timeline_def)

lemma timelines_wf_update:
  assumes "timelines_wf s" "ms_records s' = AList.update k (stamp_timeline r, rv) (ms_records s)"
    and "record_key r = k" "cache_coherent s'"
  shows "timelines_wf s'"
proof -
  have "distinct (map fst (ms_records s'))"
    using assms(1,2) by (simp add: timelines_wf_def distinct_update)
  moreover have "set (ms_records s') \<subseteq> insert (k, stamp_timeline r, rv) (set (ms_records s))"
    using assms(2) set_update_subset by metis
  ultimately show ?thesis using assms unfolding timelines_wf_def by fastforce
qed

lemma create_timeline_wf:
  assumes "timelines_wf s" "record_key r = tk"
  shows "timelines_wf (fst (ms_create_timeline tk r s))"
proof (cases "validate_timeline_schema r")
  case (Inr u)
  show ?thesis
  proof (cases "map_of (ms_records s) tk")
    case None
    then show ?thesis using Inr assms
      by (intro timelines_wf_update [OF assms(1), where k = tk and r = r and rv = 1])
        (simp_all add: ms_create_timeline_def create_entry_def Let_def cache_coherent_def)
  qed (use Inr assms in \<open>simp add: ms_create_timeline_def create_entry_def Let_def\<close>)
qed (use assms in \<open>simp add: ms_create_timeline_def\<close>)

lemma create_timeline_with_limit_wf:
  assumes "timelines_wf s" "record_key r = tk"
  shows "timelines_wf (fst (ms_create_timeline_with_limit tk r m s))"
proof (cases "map_of (ms_records s) tk = None \<and> \<not> m \<le> length (ms_records s)
    \<and> validate_timeline_schema r = Inr ()")
  case True
  then show ?thesis using assms
    by (intro timelines_wf_update [OF assms(1), where k = tk and r = r and rv = 1])
      (simp_all add: ms_create_timeline_with_limit_def create_entry_def Let_def cache_coherent_def)
next
  case False
  then have "fst (ms_create_timeline_with_limit tk r m s) = s"
    by (auto simp: ms_create_timeline_with_limit_def split: sum.splits)
  then show ?thesis using assms by simp
qed

lemma compare_exchange_timeline_wf:
  assumes "timelines_wf s" "record_key r = tk"
  shows "timelines_wf (fst (ms_compare_exchange_timeline tk e r s))"
proof (cases "\<exists>cur. validate_timeline_schema r = Inr () \<and> map_of (ms_records s) tk = Some (cur, e)")
  case True
  then obtain cur where c: "validate_timeline_schema r = Inr ()" "map_of (ms_records s) tk = Some (cur, e)"
    by blast
  then have "tk \<in> set (map fst (ms_records s))" by (metis map_of_eq_None_iff option.distinct(1) set_map)
  then show ?thesis using c assms
    by (intro timelines_wf_update [OF assms(1), where k = tk and r = r and rv = "e + 1"])
      (simp_all add: ms_compare_exchange_timeline_def Let_def cache_coherent_def map_fst_update
        timelines_wf_def)
next
  case False
  then have "fst (ms_compare_exchange_timeline tk e r s) = s"
    by (auto simp: ms_compare_exchange_timeline_def Let_def split: sum.splits option.splits if_splits)
  then show ?thesis using assms by simp
qed

lemma sorted_timeline_keys_coherent:
  assumes "cache_coherent s"
  shows "fst (sorted_timeline_keys s) = sort (map fst (ms_records s))"
    and "ms_records (snd (sorted_timeline_keys s)) = ms_records s"
    and "cache_coherent (snd (sorted_timeline_keys s))"
  using assms
  by (auto simp: sorted_timeline_keys_def publish_sorted_timeline_keys_def collect_timeline_keys_def
      cache_coherent_def split: option.splits)

subsection \<open>The cached listing agrees with the reference listing\<close>

definition stored_timelines :: "memory_store \<Rightarrow> timeline_record list" where
  "stored_timelines s = map (\<lambda>(k, r, rv). r) (ms_records s)"

definition stored_record :: "memory_store \<Rightarrow> string \<Rightarrow> timeline_record" where
  "stored_record s k = fst (the (map_of (ms_records s) k))"

lemma stored_keys:
  "timelines_wf s \<Longrightarrow> map record_key (stored_timelines s) = map fst (ms_records s)"
  by (auto simp: stored_timelines_def timelines_wf_def)

lemma stored_record_of:
  assumes "timelines_wf s" "r \<in> set (stored_timelines s)" shows "stored_record s (record_key r) = r"
proof -
  from assms(2) obtain k rv where "(k, r, rv) \<in> set (ms_records s)"
    by (auto simp: stored_timelines_def)
  moreover from this have "record_key r = k" using assms(1) by (auto simp: timelines_wf_def)
  ultimately show ?thesis
    using assms(1) map_of_is_SomeI [of "ms_records s" k "(r, rv)"]
    by (simp add: stored_record_def timelines_wf_def)
qed

lemma sorted_listing:
  assumes "timelines_wf s"
  shows "sort_key record_key (stored_timelines s) = map (stored_record s) (sort (map fst (ms_records s)))"
    (is "?L = _")
proof -
  have "distinct (map record_key ?L)"
    using assms by (simp add: distinct_map_sort_key stored_keys) (simp add: timelines_wf_def)
  then have "map record_key ?L = sort (map fst (ms_records s))"
    using assms by (intro sorted_distinct_set_unique)
      (auto simp: stored_keys [OF assms, symmetric] timelines_wf_def)
  moreover have "map (stored_record s) (map record_key ?L) = ?L"
    unfolding map_map by (rule map_idI) (simp add: stored_record_of [OF assms])
  ultimately show ?thesis by simp
qed

lemma collect_results_map_Inr: "collect_results (map (\<lambda>x. Inr (f x)) xs) = Inr (map f xs)"
  by (induction xs) auto

lemma page_lookup:
  assumes "timelines_wf s" "set ks \<subseteq> set (map fst (ms_records s))"
  shows "collect_results (List.map_filter (\<lambda>tk. case map_of (ms_records s) tk of
       None \<Rightarrow> None
     | Some (r, rv) \<Rightarrow> Some (and_then (validate_timeline_schema r) (\<lambda>_. Inr r))) ks)
    = Inr (map (stored_record s) ks)"
  using assms(2)
proof (induction ks)
  case (Cons k ks)
  then obtain r rv where m: "map_of (ms_records s) k = Some (r, rv)"
    by (auto simp: map_of_eq_None_iff dest!: weak_map_of_SomeI)
  then have "(k, r, rv) \<in> set (ms_records s)" by (rule map_of_SomeD)
  then have "validate_timeline_schema r = Inr ()" using assms(1) by (auto simp: timelines_wf_def)
  with Cons m show ?case by (simp add: List.map_filter_simps stored_record_def)
qed (simp add: List.map_filter_simps)

lemma page_keys_map:
  "map f (page_keys (map g xs) start limit) = map (\<lambda>x. f (g x))
     (take (limit + 1) (drop (case start of
        Some k \<Rightarrow> length (takeWhile (\<lambda>x. g x \<le> k) xs) | None \<Rightarrow> 0) xs))"
  by (cases start) (simp_all add: page_keys_def take_map drop_map takeWhile_map comp_def)

lemma ms_page_reference:
  assumes "timelines_wf s"
  shows "snd (ms_list_timelines_page start limit s) = Inr (list_timelines_page (stored_timelines s) start limit)"
    and "timelines_wf (fst (ms_list_timelines_page start limit s))"
    and "ms_records (fst (ms_list_timelines_page start limit s)) = ms_records s"
proof -
  obtain ks s' where k: "sorted_timeline_keys s = (ks, s')" by fastforce
  have co: "cache_coherent s" using assms by (simp add: timelines_wf_def)
  note sk = sorted_timeline_keys_coherent [OF co, unfolded k fst_conv snd_conv]
  have wf': "timelines_wf s'" using assms sk by (simp add: timelines_wf_def)
  then show "timelines_wf (fst (ms_list_timelines_page start limit s))"
    "ms_records (fst (ms_list_timelines_page start limit s)) = ms_records s"
    using assms sk by (simp_all add: ms_list_timelines_page_def k)
  let ?L = "sort_key record_key (stored_timelines s)"
  have same: "stored_record s' = stored_record s" by (simp add: fun_eq_iff stored_record_def sk(2))
  have Lk: "map record_key ?L = ks"
  proof -
    have "record_key (stored_record s k) = k" if "k \<in> set (map fst (ms_records s))" for k
      using that stored_record_of [OF assms] stored_keys [OF assms] by (metis (no_types, lifting) imageE set_map)
    then show ?thesis unfolding sorted_listing [OF assms] sk(1) map_map by (intro map_idI) simp
  qed
  have sub: "set (page_keys ks start limit) \<subseteq> set (map fst (ms_records s'))"
    unfolding page_keys_def Let_def using sk by (auto dest!: in_set_takeD in_set_dropD)
  have "map (stored_record s) (page_keys ks start limit)
      = take (limit + 1) (drop (case start of
          Some k \<Rightarrow> length (takeWhile (\<lambda>r. record_key r \<le> k) ?L) | None \<Rightarrow> 0) ?L)"
    unfolding Lk [symmetric] page_keys_map
    by (rule map_idI) (auto simp: stored_record_of [OF assms] dest!: in_set_takeD in_set_dropD)
  then show "snd (ms_list_timelines_page start limit s)
      = Inr (list_timelines_page (stored_timelines s) start limit)"
    using page_lookup [OF wf' sub]
    by (simp add: ms_list_timelines_page_def list_timelines_page_def k same Let_def)
qed

lemma ms_filters_page_reference:
  assumes "timelines_wf s"
  shows "snd (ms_list_timeline_filters_page start limit s)
      = Inr (list_timeline_filters_page (stored_timelines s) start limit)"
    and "timelines_wf (fst (ms_list_timeline_filters_page start limit s))"
proof -
  let ?f = "\<lambda>r. \<lparr> tf_schema_version = tl_schema_version r, tf_route = tl_route r, tf_state = tl_state r \<rparr>"
  obtain ks s' where k: "sorted_timeline_keys s = (ks, s')" by fastforce
  have co: "cache_coherent s" using assms by (simp add: timelines_wf_def)
  note sk = sorted_timeline_keys_coherent [OF co, unfolded k fst_conv snd_conv]
  have wf': "timelines_wf s'" using assms sk by (simp add: timelines_wf_def)
  then show "timelines_wf (fst (ms_list_timeline_filters_page start limit s))"
    using assms by (simp add: ms_list_timeline_filters_page_def k)
  have filtered: "collect_results (List.map_filter (\<lambda>tk. case map_of (ms_records s') tk of
         None \<Rightarrow> None
       | Some (r, rv) \<Rightarrow> let f = ?f r in Some (and_then (validate_filter_schema f) (\<lambda>_. Inr f))) keys)
      = and_then (collect_results (List.map_filter (\<lambda>tk. case map_of (ms_records s') tk of
           None \<Rightarrow> None
         | Some (r, rv) \<Rightarrow> Some (and_then (validate_timeline_schema r) (\<lambda>_. Inr r))) keys)) (\<lambda>rs. Inr (map ?f rs))"
    if "set keys \<subseteq> set (map fst (ms_records s'))" for keys
    using that
  proof (induction keys)
    case (Cons tk keys)
    then obtain r rv where m: "map_of (ms_records s') tk = Some (r, rv)"
      by (auto simp: map_of_eq_None_iff dest!: weak_map_of_SomeI)
    then have v: "validate_timeline_schema r = Inr ()"
      using wf' by (auto simp: timelines_wf_def dest!: map_of_SomeD)
    then have "validate_filter_schema (?f r) = Inr ()"
      by (simp add: validate_filter_schema_def validate_timeline_schema_def split: if_splits)
    with Cons m v show ?case by (simp add: List.map_filter_simps Let_def and_then_def split: sum.split)
  qed (simp add: List.map_filter_simps)
  have sub: "set (page_keys ks start limit) \<subseteq> set (map fst (ms_records s'))"
    unfolding page_keys_def Let_def using sk by (auto dest!: in_set_takeD in_set_dropD)
  define xs where "xs = map (stored_record s') (page_keys ks start limit)"
  note found = page_lookup [OF wf' sub, folded xs_def]
  have "snd (ms_list_timeline_filters_page start limit s)
      = Inr \<lparr> pg_records = map ?f (pg_records p), pg_next_start_after_timeline_key = pg_next_start_after_timeline_key p \<rparr>"
    if "snd (ms_list_timelines_page start limit s) = Inr p" for p
    using that found filtered [OF sub]
    by (cases "limit = 0") (auto simp: ms_list_timeline_filters_page_def ms_list_timelines_page_def k take_map)
  from this [OF ms_page_reference(1) [OF assms]]
  show "snd (ms_list_timeline_filters_page start limit s)
      = Inr (list_timeline_filters_page (stored_timelines s) start limit)"
    by (simp add: list_timeline_filters_page_def Let_def)
qed

subsection \<open>Every sequence of store operations\<close>

datatype table_op =
    Create_Timeline string timeline_record
  | Create_Timeline_With_Limit string timeline_record nat
  | Compare_Exchange_Timeline string u64 timeline_record
  | Compare_Exchange_Timelines "timeline_batch_op list"
  | List_Timelines_Page "string option" nat
  | List_Timeline_Filters_Page "string option" nat
  | Create_Generator u32 generator_record
  | Compare_Exchange_Generator u32 u64 generator_record
  | Compare_Exchange_Generators "generator_batch_op list"
  | Create_Request_Record string string request_record
  | Compare_Exchange_Request_Record string string u64 request_record
  | Compare_Delete_Request_Record string string u64
  | Prune_Completed_Request_Records u64 nat

fun table_step :: "table_op \<Rightarrow> memory_store \<Rightarrow> memory_store" where
  \<comment> \<open>what a call of the store leaves behind: every operation of the trait that writes\<close>
  "table_step (Create_Timeline tk r) s = fst (ms_create_timeline tk r s)"
| "table_step (Create_Timeline_With_Limit tk r m) s = fst (ms_create_timeline_with_limit tk r m s)"
| "table_step (Compare_Exchange_Timeline tk rv r) s = fst (ms_compare_exchange_timeline tk rv r s)"
| "table_step (Compare_Exchange_Timelines ops) s = fst (ms_compare_exchange_timelines ops s)"
| "table_step (List_Timelines_Page start limit) s = fst (ms_list_timelines_page start limit s)"
| "table_step (List_Timeline_Filters_Page start limit) s = fst (ms_list_timeline_filters_page start limit s)"
| "table_step (Create_Generator gid g) s = fst (ms_create_generator gid g s)"
| "table_step (Compare_Exchange_Generator gid rv g) s = fst (ms_compare_exchange_generator gid rv g s)"
| "table_step (Compare_Exchange_Generators ops) s = fst (ms_compare_exchange_generators ops s)"
| "table_step (Create_Request_Record tk rid q) s = fst (ms_create_request_record tk rid q s)"
| "table_step (Compare_Exchange_Request_Record tk rid rv q) s = fst (ms_compare_exchange_request_record tk rid rv q s)"
| "table_step (Compare_Delete_Request_Record tk rid rv) s = fst (ms_compare_delete_request_record tk rid rv s)"
| "table_step (Prune_Completed_Request_Records older limit) s = fst (ms_prune_completed_request_records older limit s)"

fun own_key :: "table_op \<Rightarrow> bool" where
  \<comment> \<open>a timeline record is written under the key its route names; the store does not check this\<close>
  "own_key (Create_Timeline tk r) = (record_key r = tk)"
| "own_key (Create_Timeline_With_Limit tk r m) = (record_key r = tk)"
| "own_key (Compare_Exchange_Timeline tk rv r) = (record_key r = tk)"
| "own_key (Compare_Exchange_Timelines ops) = list_all (\<lambda>op. record_key (tb_record op) = tb_timeline_key op) ops"
| "own_key _ = True"

lemma timelines_wf_cong:
  "ms_records s' = ms_records s \<Longrightarrow> ms_sorted_timeline_keys s' = ms_sorted_timeline_keys s \<Longrightarrow>
   timelines_wf s' = timelines_wf s"
  by (simp add: timelines_wf_def cache_coherent_def)

lemma apply_timeline_ops_wf:
  assumes "timelines_wf s" "list_all (\<lambda>op. record_key (tb_record op) = tb_timeline_key op) ops"
    and "\<forall>op \<in> set ops. validate_timeline_schema (tb_record op) = Inr ()"
    and "apply_timeline_ops ops revs us changed s = (s', res)"
  shows "timelines_wf s' \<and> (\<forall>revs' us' ch. res = Inr (revs', us', ch) \<longrightarrow> ch = changed)"
  using assms
proof (induction ops arbitrary: revs us changed s)
  case (Cons op ops)
  show ?case
  proof (cases "map_of (ms_records s) (tb_timeline_key op)")
    case None
    with Cons.prems show ?thesis by auto
  next
    case (Some p)
    obtain cur rv where p: "p = (cur, rv)" by fastforce
    let ?s = "s \<lparr> ms_records := AList.update (tb_timeline_key op) (tb_record op, rv + 1) (ms_records s) \<rparr>"
    have key: "tb_timeline_key op \<in> set (map fst (ms_records s))"
      using Some by (metis map_of_eq_None_iff option.distinct(1) set_map)
    have "set (ms_records ?s) \<subseteq> insert (tb_timeline_key op, tb_record op, rv + 1) (set (ms_records s))"
      using set_update_subset by simp
    moreover have "map fst (ms_records ?s) = map fst (ms_records s)" using key by (simp add: map_fst_update)
    ultimately have "timelines_wf ?s"
      using Cons.prems(1-3) unfolding timelines_wf_def cache_coherent_def by fastforce
    from Cons.IH [OF this _ _, of "revs @ [rv + 1]" "collect_timeline_route_update (Some cur) (tb_record op) us" changed]
      Cons.prems Some p show ?thesis by (simp add: Let_def)
  qed
qed auto

lemma compare_exchange_timelines_wf:
  assumes "timelines_wf s" "list_all (\<lambda>op. record_key (tb_record op) = tb_timeline_key op) ops"
  shows "timelines_wf (fst (ms_compare_exchange_timelines ops s))"
proof (cases "check_timeline_ops s [] ops")
  case (Inr u)
  obtain s' res where a: "apply_timeline_ops ops [] [] False s = (s', res)" by fastforce
  have "\<forall>op \<in> set ops. validate_timeline_schema (tb_record op) = Inr ()"
    using Inr check_timeline_ops_ok [of s "[]" ops] by auto
  from apply_timeline_ops_wf [OF assms this a] Inr a show ?thesis
    by (cases res) (auto simp: ms_compare_exchange_timelines_def Let_def
        timelines_wf_cong [of "fold publish_route_update us s'" s' for us])
qed (use assms in \<open>simp add: ms_compare_exchange_timelines_def\<close>)

lemma generator_ops_keep_timelines:
  "ms_records (fst (apply_generator_ops ops revs s)) = ms_records s
   \<and> ms_sorted_timeline_keys (fst (apply_generator_ops ops revs s)) = ms_sorted_timeline_keys s"
  by (induction ops arbitrary: revs s) (auto simp: Let_def split: option.split)

lemma prune_index_keeps_timelines:
  "prune_index_candidates older limit cs n s = (s', n') \<Longrightarrow>
   ms_records s' = ms_records s \<and> ms_sorted_timeline_keys s' = ms_sorted_timeline_keys s"
  by (induction cs arbitrary: n s) (auto simp: remove_index_key_def split: option.splits if_splits)

lemma prune_legacy_keeps_timelines [simp]:
  "ms_records (fst (prune_legacy_candidates limit keys n s)) = ms_records s"
  "ms_sorted_timeline_keys (fst (prune_legacy_candidates limit keys n s)) = ms_sorted_timeline_keys s"
  by (induction keys arbitrary: n s) (simp_all add: Let_def)

lemma request_writes_wf [simp]:
  "timelines_wf (fst (ms_create_request_record tk rid q s)) = timelines_wf s"
  "timelines_wf (fst (ms_compare_exchange_request_record tk rid rv q s)) = timelines_wf s"
  "timelines_wf (fst (ms_compare_delete_request_record tk rid rv s)) = timelines_wf s"
  by (rule timelines_wf_cong;
    simp add: ms_create_request_record_def ms_compare_exchange_request_record_def ms_compare_delete_request_record_def
      insert_request_cleanup_index_def remove_request_cleanup_index_def remove_legacy_request_cleanup_index_def Let_def
      split: sum.split option.split prod.split)+

lemma prune_wf [simp]: "timelines_wf (fst (ms_prune_completed_request_records older limit s)) = timelines_wf s"
  by (rule timelines_wf_cong)
    (auto simp: ms_prune_completed_request_records_def Let_def split: prod.split
      dest!: prune_index_keeps_timelines)

lemma generator_writes_wf [simp]:
  "timelines_wf (fst (ms_create_generator gid g s)) = timelines_wf s"
  "timelines_wf (fst (ms_compare_exchange_generator gid rv g s)) = timelines_wf s"
  "timelines_wf (fst (ms_compare_exchange_generators ops s)) = timelines_wf s"
  by (rule timelines_wf_cong;
    simp add: ms_create_generator_def ms_compare_exchange_generator_def ms_compare_exchange_generators_def
      generator_ops_keep_timelines split: sum.split prod.split)+

lemma table_step_wf: "timelines_wf s \<Longrightarrow> own_key op \<Longrightarrow> timelines_wf (table_step op s)"
  by (cases op) (simp_all add: ms_page_reference(2) ms_filters_page_reference(2) create_timeline_wf
      create_timeline_with_limit_wf compare_exchange_timeline_wf compare_exchange_timelines_wf)

lemma table_run_wf: "timelines_wf s \<Longrightarrow> list_all own_key ops \<Longrightarrow> timelines_wf (fold table_step ops s)"
  by (induction ops arbitrary: s) (simp_all add: table_step_wf)

subsection \<open>Properties\<close>

text \<open>
  C16: after any sequence of operations of the store, one after the other from the empty store, the page
  listings (which read a cached list of sorted keys) return exactly the pages of the reference methods of
  the trait over the records stored at that moment. The operations are all that write: creates, with
  and without a limit, single and batch conditional writes, the listings themselves, and the writes to the
  generator and request tables. The one condition, which the store leaves to its callers, is that each
  timeline record is written under the key its own route names.
\<close>
theorem memory_page_matches_reference:
  assumes "list_all own_key ops" "s = fold table_step ops memory_store_new"
  shows "snd (ms_list_timelines_page start limit s) = Inr (list_timelines_page (stored_timelines s) start limit)
    \<and> snd (ms_list_timeline_filters_page start limit s)
        = Inr (list_timeline_filters_page (stored_timelines s) start limit)
    \<and> Inr (stored_timelines s) = ms_list_timelines s"
proof -
  have "timelines_wf memory_store_new" by (simp add: timelines_wf_def cache_coherent_def memory_store_new_def)
  then have wf: "timelines_wf s" unfolding assms(2) by (rule table_run_wf [OF _ assms(1)])
  have "map (\<lambda>(k, r, rv). and_then (validate_timeline_schema r) (\<lambda>_. Inr r)) (ms_records s)
      = map (\<lambda>e. Inr (fst (snd e))) (ms_records s)"
    by (rule map_cong) (use wf in \<open>auto simp: timelines_wf_def\<close>)
  then have "ms_list_timelines s = Inr (stored_timelines s)"
    by (simp only: ms_list_timelines_def collect_results_map_Inr) (simp add: stored_timelines_def case_prod_unfold)
  with wf show ?thesis by (simp add: ms_page_reference ms_filters_page_reference)
qed

theorem memory_page_matches_reference_witness:
  "\<exists>ops s. list_all own_key ops \<and> s = fold table_step ops memory_store_new \<and> stored_timelines s \<noteq> []
     \<and> snd (ms_list_timelines_page None 1 s) = Inr (list_timelines_page (stored_timelines s) None 1)"
proof -
  let ?ops = "[List_Timelines_Page None 1, Create_Timeline ''a'' (sample_timeline ''a'' Active)]"
  have "list_all own_key ?ops" by (simp add: sample_timeline_def)
  moreover have "stored_timelines (fold table_step ?ops memory_store_new) \<noteq> []"
    by (simp add: stored_timelines_def ms_list_timelines_page_def sorted_timeline_keys_def collect_timeline_keys_def
        publish_sorted_timeline_keys_def ms_create_timeline_def memory_store_new_def create_entry_def sample_timeline_def
        validate_timeline_schema_def CURRENT_METADATA_SCHEMA_VERSION_def Let_def)
  ultimately show ?thesis
    using memory_page_matches_reference [of ?ops _ None 1] by blast
qed

text \<open>
  C18: a scan of the keys that overlaps the creation of a timeline poisons the cache: when the keys are
  collected before the create and published after it, the new timeline is stored, yet the cached key
  list, and with it every page listing, misses it until another create drops the cache.
\<close>
theorem stale_key_cache_race:
  assumes "ms_create_timeline tk r s = (s1, Inr rv)"
    and "publish_sorted_timeline_keys (collect_timeline_keys s) s1 = (ks, s2)"
  shows "timeline_entry s2 tk = Some (stamp_timeline r, rv)
    \<and> tk \<notin> set (fst (sorted_timeline_keys s2))
    \<and> ms_sorted_timeline_keys s2 = Some (collect_timeline_keys s)
    \<and> \<not> cache_coherent s2"
proof -
  have c: "timeline_entry s tk = None" "rv = 1"
    "timeline_entry s1 = (timeline_entry s)(tk \<mapsto> (stamp_timeline r, 1))"
    using tls.create_ok [OF assms(1)] by auto
  have n: "ms_sorted_timeline_keys s1 = None"
    using assms(1) by (auto simp: ms_create_timeline_def Let_def split: sum.splits prod.splits)
  then have s2: "s2 = s1 \<lparr> ms_sorted_timeline_keys := Some (collect_timeline_keys s) \<rparr>"
    using assms(2) by (auto simp: publish_sorted_timeline_keys_def)
  have tk: "tk \<notin> set (collect_timeline_keys s)"
    using c(1) by (simp add: collect_timeline_keys_def timeline_entry_def map_of_eq_None_iff)
  have "tk \<in> set (map fst (ms_records s1))"
    using c(3) by (metis fun_upd_same map_of_eq_None_iff option.distinct(1) set_map timeline_entry_def)
  with tk have "collect_timeline_keys s \<noteq> sort (map fst (ms_records s1))" by (metis set_sort)
  with s2 have "\<not> cache_coherent s2" by (simp add: cache_coherent_def)
  with c s2 tk show ?thesis by (simp add: timeline_entry_def fun_eq_iff sorted_timeline_keys_def)
qed

theorem stale_key_cache_race_witness:
  "\<exists>s1 ks s2. ms_create_timeline ''a'' (sample_timeline ''a'' Active) memory_store_new = (s1, Inr 1)
     \<and> publish_sorted_timeline_keys (collect_timeline_keys memory_store_new) s1 = (ks, s2)
     \<and> ''a'' \<notin> set (fst (sorted_timeline_keys s2))"
proof -
  obtain s1 where s1: "ms_create_timeline ''a'' (sample_timeline ''a'' Active) memory_store_new = (s1, Inr 1)"
    by (auto simp: ms_create_timeline_def memory_store_new_def create_entry_def sample_timeline_def
        validate_timeline_schema_def CURRENT_METADATA_SCHEMA_VERSION_def Let_def)
  obtain ks s2 where s2: "publish_sorted_timeline_keys (collect_timeline_keys memory_store_new) s1 = (ks, s2)"
    by fastforce
  from stale_key_cache_race [OF s1 s2] s1 s2 show ?thesis by blast
qed

text \<open>
  The limit on timelines holds: creation with a limit never stores more than the limit, reports the
  limit exactly when a new key meets a full store, refuses a key that exists before it looks at the
  limit, and otherwise changes nothing but the new record.
\<close>
theorem create_with_limit:
  assumes "ms_create_timeline_with_limit tk r m s = (s', res)"
  shows "(length (ms_records s) \<le> m \<longrightarrow> length (ms_records s') \<le> m)
    \<and> (res = Inl MetadataAlreadyExists \<longleftrightarrow> timeline_entry s tk \<noteq> None)
    \<and> (res = Inl (TimelineLimitReached m) \<longleftrightarrow> timeline_entry s tk = None \<and> m \<le> length (ms_records s))
    \<and> (\<forall>e. res = Inl e \<longrightarrow> s' = s)
    \<and> (\<forall>rv. res = Inr rv \<longrightarrow> rv = 1 \<and> timeline_entry s' = (timeline_entry s)(tk \<mapsto> (stamp_timeline r, 1)))"
proof -
  have v: "validate_timeline_schema r = Inl e \<Longrightarrow> e \<noteq> MetadataAlreadyExists \<and> e \<noteq> TimelineLimitReached m" for e
    by (auto simp: validate_timeline_schema_def unsupported_schema_def split: if_splits)
  have len: "map_of (ms_records s) tk = None \<Longrightarrow>
      length (AList.update tk x (ms_records s)) = Suc (length (ms_records s))" for x
    using arg_cong [OF map_fst_update [of tk x "ms_records s"], of length] by (simp add: map_of_eq_None_iff)
  show ?thesis
  proof (cases "map_of (ms_records s) tk")
    case None
    then show ?thesis
      using assms v len [OF None]
      by (auto simp: ms_create_timeline_with_limit_def timeline_entry_def fun_eq_iff create_entry_def Let_def
          publish_route_update_def invalidate_sorted_timeline_keys_def update_conv'
          split: if_splits sum.splits)
  next
    case (Some x)
    then show ?thesis using assms by (auto simp: ms_create_timeline_with_limit_def timeline_entry_def)
  qed
qed

theorem create_with_limit_witness:
  "\<exists>s'. ms_create_timeline_with_limit ''b'' (sample_timeline ''b'' Active) 1 sample_store = (s', Inl (TimelineLimitReached 1))
     \<and> s' = sample_store"
proof -
  have "ms_create_timeline_with_limit ''b'' (sample_timeline ''b'' Active) 1 sample_store
      = (sample_store, Inl (TimelineLimitReached 1))"
    by (simp add: ms_create_timeline_with_limit_def sample_store_def memory_store_new_def)
  from create_with_limit [OF this] this show ?thesis by blast
qed

text \<open>
  C19: the batch write of generator records skips the schema check of the single write: it stores a
  record of an unsupported schema version, after which the record can no longer be loaded, while the
  single conditional write refuses the same record and leaves the store as it was.
\<close>
theorem generator_batch_skips_schema_check:
  assumes "generator_entry s gid = Some (old, rv)" "gr_schema_version r \<noteq> CURRENT_METADATA_SCHEMA_VERSION"
  shows "\<exists>s' e. ms_compare_exchange_generators
        [\<lparr> gb_generator_id = gid, gb_previous_revision = rv, gb_record = r \<rparr>] s = (s', Inr [rv + 1])
      \<and> ms_load_generator s' gid = Inl e
      \<and> ms_compare_exchange_generator gid rv r s = (s, Inl e)"
  using assms
  by (simp add: ms_compare_exchange_generators_def generator_entry_def ms_load_generator_def
      validate_generator_schema_def ms_compare_exchange_generator_def update_conv' Let_def)

theorem generator_batch_skips_schema_check_witness:
  "\<exists>s' e. ms_compare_exchange_generators
      [\<lparr> gb_generator_id = 3, gb_previous_revision = 1, gb_record = sample_generator 2 3 \<rparr>] sample_store
      = (s', Inr [2]) \<and> ms_load_generator s' 3 = Inl e"
  using generator_batch_skips_schema_check [of sample_store 3 "sample_generator 1 3" 1 "sample_generator 2 3"]
  by (auto simp: generator_entry_def sample_store_def memory_store_new_def sample_generator_def
      CURRENT_METADATA_SCHEMA_VERSION_def)

end
