(* ===== verification/Store_Requests.thy ===== *)
theory Store_Requests
  imports Store_Contract
begin

text \<open>
  The request records of the in-memory metadata store (\<open>metadata/memory.rs\<close>): what pruning removes, and
  the life cycle of one record under create, conditional update and conditional delete.
\<close>

subsection \<open>Pruning\<close>

abbreviation expired_request :: "u64 \<Rightarrow> request_record \<Rightarrow> bool" where
  "expired_request older r \<equiv> rr_state r = Completed \<and> rr_updated_at_ms r < older"

abbreviation request_keys :: "memory_store \<Rightarrow> string list" where
  "request_keys s \<equiv> map fst (ms_request_records s)"

text \<open>What one state keeps of another when \<open>d\<close> expired records were removed between them.\<close>

definition pruned_by :: "u64 \<Rightarrow> memory_store \<Rightarrow> memory_store \<Rightarrow> nat \<Rightarrow> bool" where
  "pruned_by older s s' d \<longleftrightarrow>
     distinct (request_keys s')
     \<and> map_of (ms_request_records s') \<subseteq>\<^sub>m map_of (ms_request_records s)
     \<and> length (ms_request_records s) = length (ms_request_records s') + d
     \<and> (\<forall>k r rv. map_of (ms_request_records s) k = Some (r, rv) \<longrightarrow> \<not> expired_request older r
          \<longrightarrow> map_of (ms_request_records s') k = Some (r, rv))"

lemma pruned_by_refl:
  assumes "ms_request_records s' = ms_request_records s" "distinct (request_keys s)"
  shows "pruned_by older s s' 0"
  using assms by (simp add: pruned_by_def)

lemma pruned_by_trans:
  assumes "pruned_by older s s1 d" "pruned_by older s1 s2 d'"
  shows "pruned_by older s s2 (d + d')"
  using assms unfolding pruned_by_def by (auto intro: map_le_trans)

lemma length_delete:
  assumes "distinct (map fst xs)" "map_of xs k = Some v"
  shows "length xs = Suc (length (AList.delete k xs))"
  using assms
proof (induction xs)
  case (Cons x xs)
  show ?case
  proof (cases "fst x = k")
    case True
    with Cons.prems have "k \<notin> fst ` set xs" by auto
    then have "AList.delete k xs = xs" by (rule delete_id)
    with True show ?thesis by simp
  qed (use Cons in \<open>cases x, auto\<close>)
qed simp

lemma pruned_by_delete:
  assumes "distinct (request_keys s)" "map_of (ms_request_records s) k = Some (r, rv)"
    and "expired_request older r"
    and "ms_request_records s' = AList.delete k (ms_request_records s)"
  shows "pruned_by older s s' 1"
  using assms length_delete [OF assms(1,2)]
  by (auto simp: pruned_by_def delete_conv' map_le_def distinct_delete simp del: map_of_eq_Some_iff)

lemma pruned_by_distinct: "pruned_by older s s' d \<Longrightarrow> distinct (request_keys s')"
  by (simp add: pruned_by_def)

lemma prune_index_candidates_pruned:
  assumes "prune_index_candidates older limit cs n s = (s', n')" "distinct (request_keys s)" "n \<le> limit"
  shows "\<exists>d. n' = n + d \<and> n' \<le> limit \<and> pruned_by older s s' d"
  using assms
proof (induction older limit cs n s rule: prune_index_candidates.induct)
  case (1 older limit n s)
  then show ?case by (auto intro: pruned_by_refl)
next
  case (2 older limit ik k cs n s)
  show ?case
  proof (cases "limit \<le> n")
    case True
    with 2 show ?thesis by (auto intro: pruned_by_refl)
  next
    case False
    have same: "pruned_by older (remove_index_key ik s) s' d \<longleftrightarrow> pruned_by older s s' d" for d
      by (simp add: pruned_by_def remove_index_key_def)
    have dk: "distinct (request_keys (remove_index_key ik s))" using "2.prems" by (simp add: remove_index_key_def)
    show ?thesis
    proof (cases "map_of (ms_request_records s) k")
      case None
      with 2(1) [OF False None] "2.prems" False dk same show ?thesis by simp
    next
      case (Some v)
      obtain r rv where v: "v = (r, rv)" by fastforce
      show ?thesis
      proof (cases "expired_request older r")
        case True
        let ?s = "remove_index_key ik (s \<lparr> ms_request_records := AList.delete k (ms_request_records s) \<rparr>)"
        have p: "pruned_by older s ?s 1"
          using pruned_by_delete [OF "2.prems"(2) Some [unfolded v] True] by (simp add: remove_index_key_def)
        have "prune_index_candidates older limit cs (n + 1) ?s = (s', n')"
          using "2.prems"(1) False Some v True by (auto simp: not_le [symmetric])
        from 2(3) [OF False Some v [symmetric] _ this pruned_by_distinct [OF p]] True False
        obtain d where "n' = n + 1 + d" "n' \<le> limit" "pruned_by older ?s s' d" by (auto simp: not_le)
        with pruned_by_trans [OF p] show ?thesis by (intro exI [of _ "1 + d"]) simp
      next
        case False': False
        with 2(2) [OF False Some v [symmetric]] "2.prems" False dk same Some v show ?thesis by (auto simp: not_less)
      qed
    qed
  qed
qed

lemma prune_legacy_candidates_all:
  assumes "distinct cs" "set cs \<subseteq> set (request_keys s)" "distinct (request_keys s)" "n + length cs \<le> limit"
  shows "\<exists>s'. prune_legacy_candidates limit cs n s = (s', n + length cs)
    \<and> ms_request_records s' = filter (\<lambda>x. fst x \<notin> set cs) (ms_request_records s)"
  using assms
proof (induction cs arbitrary: s n)
  case (Cons c cs)
  have c: "map_of (ms_request_records s) c \<noteq> None" using Cons.prems(2) by (simp add: map_of_eq_None_iff)
  let ?s = "s \<lparr> ms_request_records := AList.delete c (ms_request_records s),
    ms_request_cleanup_index := filter (\<lambda>(k, v). v \<noteq> c) (ms_request_cleanup_index s) \<rparr>"
  have keys: "set (request_keys ?s) = set (request_keys s) - {c}"
    by (simp add: delete_keys del: set_map)
  have "\<exists>s'. prune_legacy_candidates limit cs (n + 1) ?s = (s', n + 1 + length cs)
      \<and> ms_request_records s' = filter (\<lambda>x. fst x \<notin> set cs) (ms_request_records ?s)"
    using Cons.prems keys by (intro Cons.IH) (auto simp: distinct_delete)
  then obtain s' where s': "prune_legacy_candidates limit cs (n + 1) ?s = (s', n + 1 + length cs)"
    "ms_request_records s' = filter (\<lambda>x. fst x \<notin> set cs) (ms_request_records ?s)" by blast
  have "prune_legacy_candidates limit (c # cs) n s = (s', n + length (c # cs))"
  proof (cases "limit \<le> n + 1")
    case True
    with Cons.prems(4) have "cs = []" by (simp flip: length_0_conv)
    with s' c True show ?thesis by simp
  next
    case False
    with s' c show ?thesis by simp
  qed
  moreover have "filter (\<lambda>x. fst x \<notin> set cs) (ms_request_records ?s)
      = filter (\<lambda>x. fst x \<notin> set (c # cs)) (ms_request_records s)"
    by (simp add: AList.delete_eq case_prod_beta) (rule filter_cong, auto)
  ultimately show ?case using s' by simp
qed simp

lemma map_of_filter_keys:
  "map_of (filter (\<lambda>x. fst x \<notin> S) xs) k = (if k \<in> S then None else map_of xs k)"
  by (induction xs) auto

lemma pruned_by_filter:
  assumes "distinct (request_keys s)" "distinct cs" "set cs \<subseteq> set (request_keys s)"
    and "\<And>k r rv. k \<in> set cs \<Longrightarrow> map_of (ms_request_records s) k = Some (r, rv) \<Longrightarrow> expired_request older r"
    and "ms_request_records s' = filter (\<lambda>x. fst x \<notin> set cs) (ms_request_records s)"
  shows "pruned_by older s s' (length cs)"
proof -
  have m: "map_of (ms_request_records s') k = (if k \<in> set cs then None else map_of (ms_request_records s) k)" for k
    unfolding assms(5) by (rule map_of_filter_keys)
  have keys: "request_keys s' = filter (\<lambda>k. k \<notin> set cs) (request_keys s)"
    by (simp add: assms(5) filter_map comp_def)
  have "length (filter (\<lambda>k. k \<in> set cs) (request_keys s)) = card (set cs)"
    using assms(1,3) by (subst distinct_card [symmetric]) (auto intro: arg_cong [where f = card])
  then have len: "length (request_keys s) = length (request_keys s') + length cs"
    using sum_length_filter_compl [of "\<lambda>k. k \<in> set cs" "request_keys s"] assms(2)
    by (simp only: keys distinct_card)
  have "distinct (request_keys s')" using assms(1) unfolding keys by (rule distinct_filter)
  with m assms(1,4) len [unfolded length_map] show ?thesis
    unfolding pruned_by_def by (auto simp: map_le_def simp del: map_of_eq_Some_iff split: if_splits)
qed

lemma prune_legacy_step:
  assumes "distinct (request_keys s)" "n < limit"
    and "prune_legacy_candidates limit (take (limit - n) (map fst (filter (\<lambda>(k, r, _).
        expired_request older r) (ms_request_records s)))) n s = (s', n')"
  shows "\<exists>d. n' = n + d \<and> n' \<le> limit \<and> pruned_by older s s' d
    \<and> (n' < limit \<longrightarrow> (\<forall>(k, r, rv) \<in> set (ms_request_records s'). \<not> expired_request older r))"
proof -
  let ?ex = "filter (\<lambda>(k, r, _). expired_request older r) (ms_request_records s)"
  let ?cs = "take (limit - n) (map fst ?ex)"
  have dex: "distinct (map fst ?ex)" using assms(1) by (rule distinct_map_filter)
  then have d: "distinct ?cs" by (rule distinct_take)
  have sub: "set ?cs \<subseteq> set (map fst ?ex)" by (rule set_take_subset)
  also have "\<dots> \<subseteq> set (request_keys s)" by auto
  finally have sub': "set ?cs \<subseteq> set (request_keys s)" .
  have "length ?cs \<le> limit - n" by simp
  then have "n + length ?cs \<le> limit" using assms(2) by linarith
  then obtain s2 where "prune_legacy_candidates limit ?cs n s = (s2, n + length ?cs)"
    "ms_request_records s2 = filter (\<lambda>x. fst x \<notin> set ?cs) (ms_request_records s)"
    using prune_legacy_candidates_all [OF d sub' assms(1), of n limit] by blast
  with assms(3) have r: "n' = n + length ?cs"
    "ms_request_records s' = filter (\<lambda>x. fst x \<notin> set ?cs) (ms_request_records s)" by simp_all
  have "expired_request older r" if "k \<in> set ?cs" "map_of (ms_request_records s) k = Some (r, rv)" for k r rv
  proof -
    from that(1) sub obtain v where "(k, v) \<in> set ?ex" by auto
    then have v: "(k, v) \<in> set (ms_request_records s)" "expired_request older (fst v)" by auto
    from v(1) assms(1) have "map_of (ms_request_records s) k = Some v" by simp
    with that(2) v(2) show ?thesis by (simp del: map_of_eq_Some_iff)
  qed
  then have p: "pruned_by older s s' (length ?cs)" by (rule pruned_by_filter [OF assms(1) d sub' _ r(2)])
  have left: "\<not> expired_request older r" if "n' < limit" "(k, r, rv) \<in> set (ms_request_records s')" for k r rv
  proof
    assume e: "expired_request older r"
    from that(1) r(1) assms(2) have "?cs = map fst ?ex" by simp
    moreover from that(2) r(2) have k: "(k, r, rv) \<in> set (ms_request_records s)" "k \<notin> set ?cs" by auto
    moreover from k(1) e have "k \<in> set (map fst ?ex)" by force
    ultimately show False by simp
  qed
  show ?thesis
  proof (intro exI [of _ "length ?cs"] conjI impI)
    show "n' \<le> limit" using \<open>n + length ?cs \<le> limit\<close> r(1) by linarith
    show "\<forall>(k, r, rv) \<in> set (ms_request_records s'). \<not> expired_request older r" if "n' < limit"
      using left [OF that] by blast
  qed (fact r(1) p)+
qed

text \<open>
  C15: pruning removes completed records that are old enough and nothing else: no record in progress and
  none younger than the cutoff is touched, the number returned is the number of records removed and
  stays within the limit, and a result below the limit means no such record is left, whatever the
  cleanup index holds.
\<close>
theorem prune_removes_exactly_expired:
  assumes "distinct (request_keys s)" "ms_prune_completed_request_records older limit s = (s', n)"
  shows "n \<le> limit \<and> length (ms_request_records s) = length (ms_request_records s') + n
    \<and> map_of (ms_request_records s') \<subseteq>\<^sub>m map_of (ms_request_records s)
    \<and> (\<forall>k r rv. map_of (ms_request_records s) k = Some (r, rv) \<longrightarrow> \<not> expired_request older r
          \<longrightarrow> map_of (ms_request_records s') k = Some (r, rv))
    \<and> (n < limit \<longrightarrow> (\<forall>(k, r, rv) \<in> set (ms_request_records s'). \<not> expired_request older r))"
proof (cases "limit = 0")
  case True
  with assms show ?thesis by (simp add: ms_prune_completed_request_records_def)
next
  case False
  let ?cs = "sort_key fst (filter (\<lambda>(k, v). str_starts_with k (request_cleanup_index_prefix [])
      \<and> k < request_cleanup_index_cutoff [] older) (ms_request_cleanup_index s))"
  obtain s1 n1 where i: "prune_index_candidates older limit ?cs 0 s = (s1, n1)" by fastforce
  from prune_index_candidates_pruned [OF this assms(1)]
  have p: "n1 \<le> limit" "pruned_by older s s1 n1" by auto
  have "\<exists>d. n = n1 + d \<and> n \<le> limit \<and> pruned_by older s1 s' d
    \<and> (n < limit \<longrightarrow> (\<forall>(k, r, rv) \<in> set (ms_request_records s'). \<not> expired_request older r))"
  proof (cases "limit \<le> n1")
    case True
    with assms(2) False i p show ?thesis
      by (intro exI [of _ 0]) (auto simp: ms_prune_completed_request_records_def pruned_by_refl pruned_by_distinct)
  next
    case le: False
    with assms(2) False i prune_legacy_step [OF pruned_by_distinct [OF p(2)], of n1 limit]
    show ?thesis by (simp add: ms_prune_completed_request_records_def Let_def)
  qed
  then obtain d where "n = n1 + d" "n \<le> limit" "pruned_by older s1 s' d"
    "n < limit \<longrightarrow> (\<forall>(k, r, rv) \<in> set (ms_request_records s'). \<not> expired_request older r)" by blast
  with pruned_by_trans [OF p(2)] show ?thesis by (auto simp: pruned_by_def)
qed

definition sample_request :: "request_record_state \<Rightarrow> u64 \<Rightarrow> request_record" where
  "sample_request st t = \<lparr> rr_schema_version = 1,
     rr_fingerprint = \<lparr> fp_timeline_key = ''t'', fp_count = 1 \<rparr>, rr_state = st, rr_response = None, rr_updated_at_ms = t \<rparr>"

definition sample_requests :: memory_store where
  "sample_requests = memory_store_new \<lparr> ms_request_records :=
     [(''x'', sample_request Completed 5, 1), (''y'', sample_request Pending 5, 1),
      (''z'', sample_request Completed 10, 1)] \<rparr>"

theorem prune_removes_exactly_expired_witness:
  "distinct (request_keys sample_requests)
   \<and> (\<exists>s'. ms_prune_completed_request_records 10 4 sample_requests = (s', 1)
        \<and> map_of (ms_request_records s') ''y'' = Some (sample_request Pending 5, 1)
        \<and> length (ms_request_records s') = 2)"
proof -
  have d: "distinct (request_keys sample_requests)" by (simp add: sample_requests_def)
  have "\<exists>s'. ms_prune_completed_request_records 10 4 sample_requests = (s', 1)"
    by (simp add: ms_prune_completed_request_records_def sample_requests_def sample_request_def
        memory_store_new_def Let_def)
  then obtain s' where s': "ms_prune_completed_request_records 10 4 sample_requests = (s', 1)" by blast
  have "map_of (ms_request_records sample_requests) ''y'' = Some (sample_request Pending 5, 1)"
    "length (ms_request_records sample_requests) = 3" "rr_state (sample_request Pending 5) = Pending"
    by (simp_all add: sample_requests_def sample_request_def)
  with prune_removes_exactly_expired [OF d s'] s' d show ?thesis by auto
qed

subsection \<open>Life cycle of one record\<close>

text \<open>
  The record a caller sees for a request: the one under the current key, or else the one under the
  legacy key when that key is unambiguous, its revision marked by the flag.
\<close>

definition request_view :: "memory_store \<Rightarrow> string \<times> string \<Rightarrow> (request_record \<times> u64) option" where
  "request_view s = (\<lambda>(tk, rid).
     case map_of (ms_request_records s) (request_key [] tk rid) of
       Some v \<Rightarrow> Some v
     | None \<Rightarrow>
         if legacy_request_key_is_unambiguous tk rid
         then map_option (\<lambda>(r, rv). (r, rv OR LEGACY_REQUEST_REVISION_FLAG))
                (map_of (ms_request_records s) (legacy_request_key [] tk rid))
         else None)"

definition requests_wf :: "memory_store \<Rightarrow> bool" where
  "requests_wf s \<longleftrightarrow>
     (\<forall>k r rv. map_of (ms_request_records s) k = Some (r, rv) \<longrightarrow>
        rr_schema_version r = CURRENT_METADATA_SCHEMA_VERSION \<and> rv AND LEGACY_REQUEST_REVISION_FLAG = 0)
     \<and> (\<forall>tk rid. legacy_request_key_is_unambiguous tk rid \<longrightarrow>
          map_of (ms_request_records s) (request_key [] tk rid) \<noteq> None \<longrightarrow>
          map_of (ms_request_records s) (legacy_request_key [] tk rid) = None)"

lemma flag_nonzero: "LEGACY_REQUEST_REVISION_FLAG \<noteq> 0"
  by (simp add: LEGACY_REQUEST_REVISION_FLAG_def)

lemma flag_bit: "bit LEGACY_REQUEST_REVISION_FLAG n \<longleftrightarrow> n = 63"
  unfolding LEGACY_REQUEST_REVISION_FLAG_def by (subst bit_push_bit_iff) (auto simp: bit_1_iff)

lemma plain_revision:
  fixes rv :: u64
  assumes "rv AND LEGACY_REQUEST_REVISION_FLAG = 0"
  shows "rv AND NOT LEGACY_REQUEST_REVISION_FLAG = rv"
    "(rv OR LEGACY_REQUEST_REVISION_FLAG) AND NOT LEGACY_REQUEST_REVISION_FLAG = rv"
    "(rv OR LEGACY_REQUEST_REVISION_FLAG) AND LEGACY_REQUEST_REVISION_FLAG \<noteq> 0"
    "(rv OR LEGACY_REQUEST_REVISION_FLAG) \<noteq> rv"
proof -
  show "rv AND NOT LEGACY_REQUEST_REVISION_FLAG = rv"
    "(rv OR LEGACY_REQUEST_REVISION_FLAG) AND NOT LEGACY_REQUEST_REVISION_FLAG = rv"
    using assms by (auto simp: bit_eq_iff bit_simps)
  show c: "(rv OR LEGACY_REQUEST_REVISION_FLAG) AND LEGACY_REQUEST_REVISION_FLAG \<noteq> 0"
    using flag_nonzero by (simp add: and.commute)
  show "(rv OR LEGACY_REQUEST_REVISION_FLAG) \<noteq> rv" using c assms by metis
qed

lemma split_revision:
  fixes e :: u64
  assumes "e AND NOT LEGACY_REQUEST_REVISION_FLAG = rv"
  shows "e AND LEGACY_REQUEST_REVISION_FLAG = 0 \<Longrightarrow> e = rv"
    "e AND LEGACY_REQUEST_REVISION_FLAG \<noteq> 0 \<Longrightarrow> e = rv OR LEGACY_REQUEST_REVISION_FLAG"
proof -
  assume "e AND LEGACY_REQUEST_REVISION_FLAG = 0"
  with plain_revision(1) assms show "e = rv" by metis
next
  assume a: "e AND LEGACY_REQUEST_REVISION_FLAG \<noteq> 0"
  have "bit e 63"
  proof (rule ccontr)
    assume "\<not> bit e 63"
    then have "e AND LEGACY_REQUEST_REVISION_FLAG = 0"
      by (intro bit_word_eqI) (auto simp: flag_bit bit_simps)
    with a show False ..
  qed
  with assms show "e = rv OR LEGACY_REQUEST_REVISION_FLAG"
    by (intro bit_word_eqI) (auto simp: flag_bit bit_simps)
qed

lemma request_keys_apart:
  "request_key [] tk rid = request_key [] tk' rid' \<longleftrightarrow> tk = tk' \<and> rid = rid'"
  "request_key [] tk rid \<noteq> legacy_request_key [] tk' rid'"
  "legacy_request_key [] tk' rid' \<noteq> request_key [] tk rid"
  "legacy_request_key_is_unambiguous tk rid \<Longrightarrow> legacy_request_key_is_unambiguous tk' rid' \<Longrightarrow>
     legacy_request_key [] tk rid = legacy_request_key [] tk' rid' \<longleftrightarrow> tk = tk' \<and> rid = rid'"
  by (auto simp: request_key_def legacy_request_key_def components_inj namespace_def
      legacy_request_key_is_unambiguous_def str_contains_def slash_split)

lemma request_view_current:
  assumes "map_of (ms_request_records s) (request_key [] tk rid) = Some v"
  shows "request_view s (tk, rid) = Some v"
  using assms by (simp add: request_view_def)

lemma load_request_view:
  assumes "requests_wf s"
  shows "ms_load_request_record s tk rid = Inr (request_view s (tk, rid))"
  using assms
  by (auto simp: ms_load_request_record_def request_view_def requests_wf_def validate_request_schema_def
      split: option.splits)

lemma cleanup_index_records [simp]:
  "ms_request_records (insert_request_cleanup_index tk rid r s) = ms_request_records s"
  "ms_request_records (remove_request_cleanup_index tk rid r s) = ms_request_records s"
  "ms_request_records (remove_legacy_request_cleanup_index tk rid r s) = ms_request_records s"
  by (simp_all add: insert_request_cleanup_index_def remove_request_cleanup_index_def
      remove_legacy_request_cleanup_index_def)

text \<open>How the view changes when the record under a current key is written or removed.\<close>

lemma request_view_update:
  assumes "map_of (ms_request_records s') = (map_of (ms_request_records s))(request_key [] tk rid \<mapsto> v)"
  shows "request_view s' = (request_view s)((tk, rid) \<mapsto> v)"
  unfolding request_view_def assms(1) by (rule ext) (auto simp: request_keys_apart split: prod.splits option.splits)

lemma request_view_delete:
  assumes "map_of (ms_request_records s') = (map_of (ms_request_records s))(request_key [] tk rid := None)"
    and "requests_wf s" "map_of (ms_request_records s) (request_key [] tk rid) \<noteq> None"
  shows "request_view s' = (request_view s)((tk, rid) := None)"
  unfolding request_view_def assms(1) using assms(2,3)
  by (intro ext) (auto simp: requests_wf_def request_keys_apart split: prod.splits option.splits)

lemma request_view_delete_legacy:
  assumes "map_of (ms_request_records s') = (map_of (ms_request_records s))(legacy_request_key [] tk rid := None)"
    and "legacy_request_key_is_unambiguous tk rid"
    and "map_of (ms_request_records s) (request_key [] tk rid) = None"
  shows "request_view s' = (request_view s)((tk, rid) := None)"
  unfolding request_view_def assms(1) using assms(2,3)
  by (intro ext) (auto simp: request_keys_apart split: prod.splits option.splits)

lemma create_request_view:
  assumes "requests_wf s"
  shows "request_view s (tk, rid) = None \<Longrightarrow> rr_schema_version r = CURRENT_METADATA_SCHEMA_VERSION \<Longrightarrow>
      \<exists>s'. ms_create_request_record tk rid r s = (s', Inr 1)
        \<and> request_view s' = (request_view s)((tk, rid) \<mapsto> (r, 1)) \<and> requests_wf s'"
    and "request_view s (tk, rid) \<noteq> None \<Longrightarrow> \<exists>e. ms_create_request_record tk rid r s = (s, Inl e)"
proof -
  assume n: "request_view s (tk, rid) = None" and v: "rr_schema_version r = CURRENT_METADATA_SCHEMA_VERSION"
  have st: "stamp_request r = r" using v by (simp add: stamp_request_def)
  have no: "map_of (ms_request_records s) (request_key [] tk rid) = None"
    "legacy_request_key_is_unambiguous tk rid \<longrightarrow> map_of (ms_request_records s) (legacy_request_key [] tk rid) = None"
    using n by (auto simp: request_view_def split: option.splits if_splits)
  let ?s = "insert_request_cleanup_index tk rid r (s \<lparr> ms_request_records :=
    AList.update (request_key [] tk rid) (r, 1) (ms_request_records s) \<rparr>)"
  have e: "ms_create_request_record tk rid r s = (?s, Inr 1)"
    unfolding ms_create_request_record_def using no v st
    by (auto simp: validate_request_schema_def create_entry_def Let_def)
  have m: "map_of (ms_request_records ?s) = (map_of (ms_request_records s))(request_key [] tk rid \<mapsto> (r, 1))"
    by (simp add: update_conv')
  have "1 AND LEGACY_REQUEST_REVISION_FLAG = 0" by (simp add: LEGACY_REQUEST_REVISION_FLAG_def)
  with assms no v have "requests_wf ?s" unfolding requests_wf_def m by (auto simp: request_keys_apart)
  with e request_view_update [OF m]
  show "\<exists>s'. ms_create_request_record tk rid r s = (s', Inr 1)
      \<and> request_view s' = (request_view s)((tk, rid) \<mapsto> (r, 1)) \<and> requests_wf s'" by blast
next
  assume "request_view s (tk, rid) \<noteq> None"
  then show "\<exists>e. ms_create_request_record tk rid r s = (s, Inl e)"
    by (auto simp: request_view_def ms_create_request_record_def validate_request_schema_def create_entry_def
        Let_def split: option.splits if_splits)
qed

text \<open>The record a matching revision selects: under the current key, or under the legacy key.\<close>

lemma request_view_cases:
  assumes "requests_wf s" "request_view s (tk, rid) = Some (old, rv)"
  obtains (current) "map_of (ms_request_records s) (request_key [] tk rid) = Some (old, rv)"
      "rv AND LEGACY_REQUEST_REVISION_FLAG = 0"
  | (legacy) rv0 where "map_of (ms_request_records s) (request_key [] tk rid) = None"
      "legacy_request_key_is_unambiguous tk rid"
      "map_of (ms_request_records s) (legacy_request_key [] tk rid) = Some (old, rv0)"
      "rv0 AND LEGACY_REQUEST_REVISION_FLAG = 0" "rv = rv0 OR LEGACY_REQUEST_REVISION_FLAG"
  using assms by (auto simp: request_view_def requests_wf_def split: option.splits if_splits)

lemma cas_request_view:
  assumes wf: "requests_wf s" and view: "request_view s (tk, rid) = Some (old, rv)"
    and v: "rr_schema_version r = CURRENT_METADATA_SCHEMA_VERSION"
    and room: "((rv AND NOT LEGACY_REQUEST_REVISION_FLAG) + 1) AND LEGACY_REQUEST_REVISION_FLAG = 0"
  shows "\<exists>s'. ms_compare_exchange_request_record tk rid rv r s = (s', Inr ((rv AND NOT LEGACY_REQUEST_REVISION_FLAG) + 1))
      \<and> request_view s' = (request_view s)((tk, rid) \<mapsto> (r, (rv AND NOT LEGACY_REQUEST_REVISION_FLAG) + 1))
      \<and> requests_wf s'"
proof -
  have st: "stamp_request r = r" using v by (simp add: stamp_request_def)
  let ?m = "map_of (ms_request_records s)" and ?k = "request_key [] tk rid" and ?l = "legacy_request_key [] tk rid"
  obtain s' where e: "ms_compare_exchange_request_record tk rid rv r s
      = (s', Inr ((rv AND NOT LEGACY_REQUEST_REVISION_FLAG) + 1))"
    and m: "map_of (ms_request_records s') = ?m(?k \<mapsto> (r, (rv AND NOT LEGACY_REQUEST_REVISION_FLAG) + 1))
      \<or> legacy_request_key_is_unambiguous tk rid \<and> ?m ?k = None \<and>
        map_of (ms_request_records s') = ?m(?l := None, ?k \<mapsto> (r, (rv AND NOT LEGACY_REQUEST_REVISION_FLAG) + 1))"
    and l: "legacy_request_key_is_unambiguous tk rid \<longrightarrow> map_of (ms_request_records s') ?l = None"
    using wf view
  proof (cases rule: request_view_cases)
    case current
    with wf have "legacy_request_key_is_unambiguous tk rid \<longrightarrow> ?m ?l = None" by (auto simp: requests_wf_def)
    with current that v show thesis
      by (simp add: ms_compare_exchange_request_record_def validate_request_schema_def st plain_revision flag_nonzero
          update_conv' Let_def request_keys_apart)
  next
    case (legacy rv0)
    with that v show thesis
      by (simp add: ms_compare_exchange_request_record_def validate_request_schema_def st plain_revision flag_nonzero
          update_conv' delete_conv' Let_def request_keys_apart)
  qed
  have wf': "requests_wf s'"
    using m wf v room l unfolding requests_wf_def by (auto simp: request_keys_apart split: if_splits)
  have "request_view s' = (request_view s)((tk, rid) \<mapsto> (r, (rv AND NOT LEGACY_REQUEST_REVISION_FLAG) + 1))"
    using m
  proof
    assume "map_of (ms_request_records s') = ?m(?k \<mapsto> (r, (rv AND NOT LEGACY_REQUEST_REVISION_FLAG) + 1))"
    then show ?thesis by (rule request_view_update)
  next
    assume a: "legacy_request_key_is_unambiguous tk rid \<and> ?m ?k = None \<and>
      map_of (ms_request_records s') = ?m(?l := None, ?k \<mapsto> (r, (rv AND NOT LEGACY_REQUEST_REVISION_FLAG) + 1))"
    let ?s = "s \<lparr> ms_request_records := AList.delete ?l (ms_request_records s) \<rparr>"
    have "request_view ?s = (request_view s)((tk, rid) := None)"
      using a by (intro request_view_delete_legacy) (simp_all add: delete_conv')
    moreover have "request_view s' = (request_view ?s)((tk, rid) \<mapsto> (r, (rv AND NOT LEGACY_REQUEST_REVISION_FLAG) + 1))"
      using a by (intro request_view_update) (simp add: delete_conv')
    ultimately show ?thesis by simp
  qed
  with e wf' show ?thesis by blast
qed

lemma stale_request_write:
  assumes wf: "requests_wf s" and view: "request_view s (tk, rid) = Some (old, rv)" and ne: "e \<noteq> rv"
  shows "\<exists>err. ms_compare_exchange_request_record tk rid e r s = (s, Inl err)"
proof (cases "validate_request_schema r")
  case (Inl err)
  then show ?thesis by (simp add: ms_compare_exchange_request_record_def)
next
  case (Inr u)
  from wf view show ?thesis
  proof (cases rule: request_view_cases)
    case current
    with ne split_revision(1) [of e rv] Inr show ?thesis
      by (auto simp: ms_compare_exchange_request_record_def Let_def split: option.splits)
  next
    case (legacy rv0)
    with ne split_revision(2) [of e rv0] Inr show ?thesis
      by (auto simp: ms_compare_exchange_request_record_def Let_def)
  qed
qed

lemma requests_wf_delete:
  assumes "requests_wf s" "map_of (ms_request_records s') = (map_of (ms_request_records s))(k := None)"
  shows "requests_wf s'"
  using assms unfolding requests_wf_def by (simp split: if_splits)

lemma delete_request_view:
  assumes wf: "requests_wf s" and view: "request_view s (tk, rid) = Some (old, rv)"
  shows "\<exists>s'. ms_compare_delete_request_record tk rid rv s = (s', Inr ())
      \<and> request_view s' = (request_view s)((tk, rid) := None) \<and> requests_wf s'"
  using wf view
proof (cases rule: request_view_cases)
  case current
  let ?s = "remove_request_cleanup_index tk rid old
    (s \<lparr> ms_request_records := AList.delete (request_key [] tk rid) (ms_request_records s) \<rparr>)"
  have "request_view ?s = (request_view s)((tk, rid) := None)"
    using current wf by (intro request_view_delete) (simp_all add: delete_conv')
  moreover have "requests_wf ?s" using wf by (rule requests_wf_delete) (simp add: delete_conv')
  ultimately show ?thesis
    using current by (simp add: ms_compare_delete_request_record_def plain_revision flag_nonzero Let_def)
next
  case (legacy rv0)
  let ?s = "remove_legacy_request_cleanup_index tk rid old
    (s \<lparr> ms_request_records := AList.delete (legacy_request_key [] tk rid) (ms_request_records s) \<rparr>)"
  have "request_view ?s = (request_view s)((tk, rid) := None)"
    using legacy by (intro request_view_delete_legacy) (simp_all add: delete_conv')
  moreover have "requests_wf ?s" using wf by (rule requests_wf_delete) (simp add: delete_conv')
  ultimately show ?thesis
    using legacy by (simp add: ms_compare_delete_request_record_def plain_revision flag_nonzero Let_def)
qed

lemma refused_request_write:
  assumes "requests_wf s" "map_option snd (request_view s (tk, rid)) \<noteq> Some e"
    and "e AND LEGACY_REQUEST_REVISION_FLAG = 0 \<or> legacy_request_key_is_unambiguous tk rid"
  shows "\<exists>err \<in> {CasFailed, request_not_found tk rid}. ms_compare_delete_request_record tk rid e s = (s, Inl err)"
    and "rr_schema_version r = CURRENT_METADATA_SCHEMA_VERSION \<Longrightarrow>
      \<exists>err \<in> {CasFailed, request_not_found tk rid}. ms_compare_exchange_request_record tk rid e r s = (s, Inl err)"
proof -
  let ?legacy = "e AND LEGACY_REQUEST_REVISION_FLAG \<noteq> 0"
  let ?key = "if ?legacy then legacy_request_key [] tk rid else request_key [] tk rid"
  have at: "rv \<noteq> e AND NOT LEGACY_REQUEST_REVISION_FLAG" if "map_of (ms_request_records s) ?key = Some (old, rv)" for old rv
  proof
    assume e: "rv = e AND NOT LEGACY_REQUEST_REVISION_FLAG"
    have "rv AND LEGACY_REQUEST_REVISION_FLAG = 0" using assms(1) that unfolding requests_wf_def by blast
    with split_revision [of e rv] e that assms
    show False by (auto simp: request_view_def requests_wf_def split: if_splits option.splits)
  qed
  then show "\<exists>err \<in> {CasFailed, request_not_found tk rid}. ms_compare_delete_request_record tk rid e s = (s, Inl err)"
    by (auto simp: ms_compare_delete_request_record_def Let_def split: option.split)
  show "\<exists>err \<in> {CasFailed, request_not_found tk rid}. ms_compare_exchange_request_record tk rid e r s = (s, Inl err)"
    if "rr_schema_version r = CURRENT_METADATA_SCHEMA_VERSION"
    using at that by (auto simp: ms_compare_exchange_request_record_def validate_request_schema_def Let_def split: option.split)
qed

text \<open>
  C20: the request records behave like one table indexed by timeline and client request id, whichever of
  the two key formats a record is stored under: load returns the record of the table, create adds a
  record exactly when there is none, a conditional write with the revision that was loaded replaces
  it (moving a legacy record to its new key), and a conditional delete with that revision removes it; no
  operation touches another request. Whatever is refused leaves the store as it was: a create over an
  existing record, and a conditional write or delete of a missing record or with any other revision, as
  long as the revision is one a load of this request could return (a revision with the legacy mark goes
  with a key the old format writes unambiguously).
\<close>
theorem request_record_lifecycle:
  assumes "requests_wf s"
  shows "ms_load_request_record s tk rid = Inr (request_view s (tk, rid))
    \<and> (request_view s (tk, rid) = None \<longrightarrow> rr_schema_version r = CURRENT_METADATA_SCHEMA_VERSION \<longrightarrow>
         (\<exists>s'. ms_create_request_record tk rid r s = (s', Inr 1)
           \<and> request_view s' = (request_view s)((tk, rid) \<mapsto> (r, 1)) \<and> requests_wf s'))
    \<and> (request_view s (tk, rid) \<noteq> None \<longrightarrow> (\<exists>e. ms_create_request_record tk rid r s = (s, Inl e)))
    \<and> (\<forall>old rv. request_view s (tk, rid) = Some (old, rv) \<longrightarrow>
         rr_schema_version r = CURRENT_METADATA_SCHEMA_VERSION \<longrightarrow>
         ((rv AND NOT LEGACY_REQUEST_REVISION_FLAG) + 1) AND LEGACY_REQUEST_REVISION_FLAG = 0 \<longrightarrow>
         (\<exists>s'. ms_compare_exchange_request_record tk rid rv r s
              = (s', Inr ((rv AND NOT LEGACY_REQUEST_REVISION_FLAG) + 1))
           \<and> request_view s' = (request_view s)((tk, rid) \<mapsto> (r, (rv AND NOT LEGACY_REQUEST_REVISION_FLAG) + 1))
           \<and> requests_wf s'))
    \<and> (\<forall>old rv e. request_view s (tk, rid) = Some (old, rv) \<longrightarrow> e \<noteq> rv \<longrightarrow>
         (\<exists>err. ms_compare_exchange_request_record tk rid e r s = (s, Inl err)))
    \<and> (\<forall>old rv. request_view s (tk, rid) = Some (old, rv) \<longrightarrow>
         (\<exists>s'. ms_compare_delete_request_record tk rid rv s = (s', Inr ())
           \<and> request_view s' = (request_view s)((tk, rid) := None) \<and> requests_wf s'))
    \<and> (\<forall>e. map_option snd (request_view s (tk, rid)) \<noteq> Some e \<longrightarrow>
         e AND LEGACY_REQUEST_REVISION_FLAG = 0 \<or> legacy_request_key_is_unambiguous tk rid \<longrightarrow>
         (\<exists>err \<in> {CasFailed, request_not_found tk rid}. ms_compare_delete_request_record tk rid e s = (s, Inl err))
         \<and> (rr_schema_version r = CURRENT_METADATA_SCHEMA_VERSION \<longrightarrow>
             (\<exists>err \<in> {CasFailed, request_not_found tk rid}.
                ms_compare_exchange_request_record tk rid e r s = (s, Inl err))))"
proof (intro conjI allI impI)
  show "ms_load_request_record s tk rid = Inr (request_view s (tk, rid))"
    by (rule load_request_view [OF assms])
qed (fact create_request_view [OF assms] | (rule cas_request_view [OF assms]; assumption)
  | (rule stale_request_write [OF assms]; assumption) | (rule delete_request_view [OF assms]; assumption)
  | (rule refused_request_write [OF assms]; assumption))+

theorem request_record_lifecycle_witness:
  "requests_wf memory_store_new
   \<and> (\<exists>s'. ms_create_request_record ''t'' ''r'' (sample_request Pending 5) memory_store_new = (s', Inr 1)
        \<and> request_view s' (''t'', ''r'') = Some (sample_request Pending 5, 1) \<and> requests_wf s')"
proof -
  have wf: "requests_wf memory_store_new" by (simp add: requests_wf_def memory_store_new_def)
  have n: "request_view memory_store_new (''t'', ''r'') = None" by (simp add: request_view_def memory_store_new_def)
  have v: "rr_schema_version (sample_request Pending 5) = CURRENT_METADATA_SCHEMA_VERSION"
    by (simp add: sample_request_def CURRENT_METADATA_SCHEMA_VERSION_def)
  from request_record_lifecycle [OF wf, of "''t''" "''r''" "sample_request Pending 5"] n v
  have "\<exists>s'. ms_create_request_record ''t'' ''r'' (sample_request Pending 5) memory_store_new = (s', Inr 1)
      \<and> request_view s' = (request_view memory_store_new)((''t'', ''r'') \<mapsto> (sample_request Pending 5, 1)) \<and> requests_wf s'"
    by blast
  with wf show ?thesis by auto
qed

end
