(* ===== verification/Clock.thy ===== *)
theory Clock
  imports Timestamp
begin

text \<open>
  Time sources and the time rules of the lease protocol: \<open>clock.rs\<close>, \<open>lease_policy.rs\<close> and the
  Unix-epoch helper of \<open>recovery.rs\<close>. The operating system is an input: a reading is the wall
  clock in milliseconds since the Unix epoch (negative before it) together with the milliseconds
  the monotonic clock says have passed since the clock was created. Metrics and log lines that the
  functions emit do not influence their results and are not modelled.
\<close>

subsection \<open>Definitions\<close>

record clock_reading =
  cr_wall_ms :: int
  cr_elapsed_ms :: int

definition unix_ms_or_zero :: "int \<Rightarrow> u64" where
  \<comment> \<open>\<open>duration_since_unix_epoch_or_zero(now).as_millis() as u64\<close>\<close>
  "unix_ms_or_zero wall_ms = (if wall_ms < 0 then 0 else word_of_int wall_ms)"

definition relative_ms_from_unix_ms_for_layout :: "timestamp_layout \<Rightarrow> u64 \<Rightarrow> u64" where
  "relative_ms_from_unix_ms_for_layout l unix_ms =
     (case checked_physical_ms_from_unix_ms l unix_ms of
        Inr relative_ms \<Rightarrow> relative_ms
      | Inl BeforeCustomEpoch \<Rightarrow> 0
      | Inl BeyondCapacityEnvelope \<Rightarrow> max_physical_ms l + 1)"

definition relative_ms_from_unix_ms :: "u64 \<Rightarrow> u64" where
  "relative_ms_from_unix_ms unix_ms =
     relative_ms_from_unix_ms_for_layout DEFAULT_TIMESTAMP_LAYOUT unix_ms"

definition clamp_monotonic_ms :: "u64 \<Rightarrow> u64 \<Rightarrow> u64" where
  "clamp_monotonic_ms previous_ms observed_ms = max previous_ms observed_ms"

definition MAX_PHYSICAL_MS :: u64 where
  "MAX_PHYSICAL_MS = push_bit (unat PHYSICAL_BITS) 1 - 1"

definition monotonic_relative_ms :: "u64 \<Rightarrow> u64 \<Rightarrow> u64" where
  "monotonic_relative_ms base_relative_ms elapsed_ms =
     min (saturating_add base_relative_ms elapsed_ms) (MAX_PHYSICAL_MS + 1)"

record system_clock =
  \<comment> \<open>the process-wide statics \<open>SYSTEM_CLOCK_BASE\<close> and \<open>SYSTEM_CLOCK_LAST_NOW_MS\<close>\<close>
  sc_base_relative_ms :: u64
  sc_last_now_ms :: u64

definition system_clock_base :: "int \<Rightarrow> system_clock" where
  \<comment> \<open>the lazily initialised base, with the wall clock at first use\<close>
  "system_clock_base wall_ms =
     \<lparr> sc_base_relative_ms = relative_ms_from_unix_ms (unix_ms_or_zero wall_ms),
       sc_last_now_ms = 0 \<rparr>"

definition system_clock_now_ms :: "clock_reading \<Rightarrow> system_clock \<Rightarrow> u64 \<times> system_clock" where
  "system_clock_now_ms r c =
     (let unix_ms = unix_ms_or_zero (cr_wall_ms r);
          observed_ms = relative_ms_from_unix_ms unix_ms;
          monotonic_ms = monotonic_relative_ms (sc_base_relative_ms c) (word_of_int (cr_elapsed_ms r));
          candidate_ms = max observed_ms monotonic_ms;
          previous_ms = sc_last_now_ms c;
          c' = c \<lparr> sc_last_now_ms := max previous_ms candidate_ms \<rparr>
      in (clamp_monotonic_ms previous_ms candidate_ms, c'))"

record layout_clock =
  lc_layout :: timestamp_layout
  lc_base_relative_ms :: u64
  lc_last_now_ms :: u64

definition layout_clock_new ::
    "timestamp_layout \<Rightarrow> int \<Rightarrow> layout_validation_error + layout_clock" where
  "layout_clock_new l wall_ms =
     and_then (layout_validate l) (\<lambda>_.
       Inr \<lparr> lc_layout = l,
             lc_base_relative_ms =
               relative_ms_from_unix_ms_for_layout l (unix_ms_or_zero wall_ms),
             lc_last_now_ms = 0 \<rparr>)"

definition layout_clock_now_ms :: "clock_reading \<Rightarrow> layout_clock \<Rightarrow> u64 \<times> layout_clock" where
  "layout_clock_now_ms r c =
     (let unix_ms = unix_ms_or_zero (cr_wall_ms r);
          observed_ms = relative_ms_from_unix_ms_for_layout (lc_layout c) unix_ms;
          monotonic_ms = min (saturating_add (lc_base_relative_ms c) (word_of_int (cr_elapsed_ms r)))
                             (max_physical_ms (lc_layout c) + 1);
          candidate_ms = max observed_ms monotonic_ms;
          previous_ms = lc_last_now_ms c;
          c' = c \<lparr> lc_last_now_ms := max previous_ms candidate_ms \<rparr>
      in (clamp_monotonic_ms previous_ms candidate_ms, c'))"

definition manual_clock_set :: "u64 \<Rightarrow> u64 \<Rightarrow> u64" where
  \<comment> \<open>the state of a manual clock is the value behind its mutex\<close>
  "manual_clock_set now_ms _ = now_ms"

definition manual_clock_advance :: "u64 \<Rightarrow> u64 \<Rightarrow> u64" where
  "manual_clock_advance delta_ms now_ms = now_ms + delta_ms"

definition lease_expired_with_safety_gap :: "u64 \<Rightarrow> u64 \<Rightarrow> u64 \<Rightarrow> bool" where
  "lease_expired_with_safety_gap lease_expire_at_ms now_ms safety_gap_ms =
     (saturating_add lease_expire_at_ms safety_gap_ms \<le> now_ms)"

fun clock_run :: "('r \<Rightarrow> 's \<Rightarrow> u64 \<times> 's) \<Rightarrow> 's \<Rightarrow> 'r list \<Rightarrow> u64 list" where
  \<comment> \<open>the values a sequence of calls returns\<close>
  "clock_run now c [] = []"
| "clock_run now c (r # rs) = (case now r c of (t, c') \<Rightarrow> t # clock_run now c' rs)"

subsection \<open>The interface of a clock\<close>

text \<open>
  What the lease protocol relies on: a clock never goes back behind what it has shown, and
  it never leaves the range its layout can encode by more than the one reserved value that
  makes encoding fail.
\<close>

locale monotone_clock =
  fixes now :: "'r \<Rightarrow> 's \<Rightarrow> u64 \<times> 's"
    and shown :: "'s \<Rightarrow> u64"
    and candidate :: "'r \<Rightarrow> 's \<Rightarrow> u64"
    and horizon :: "'s \<Rightarrow> u64"
    and wf :: "'s \<Rightarrow> bool"
  assumes shown_now: "now r c = (t, c') \<Longrightarrow> shown c' = t"
    and exact_now: "now r c = (t, c') \<Longrightarrow> t = max (shown c) (candidate r c)"
    and candidate_now: "now r c = (t, c') \<Longrightarrow> candidate r' c' = candidate r' c"
    and horizon_now: "now r c = (t, c') \<Longrightarrow> horizon c' = horizon c"
    and wf_now: "now r c = (t, c') \<Longrightarrow> wf c \<Longrightarrow> wf c'"
    and bounded: "now r c = (t, c') \<Longrightarrow> wf c \<Longrightarrow> t \<le> horizon c"
begin

lemma shown_le: "now r c = (t, c') \<Longrightarrow> shown c \<le> t"
  by (drule exact_now) simp

lemma run_above_candidate: "i < length rs \<Longrightarrow> candidate (rs ! i) c \<le> clock_run now c rs ! i"
proof (induction rs arbitrary: c i)
  case (Cons r rs)
  obtain u c' where n: "now r c = (u, c')" by fastforce
  show ?case
  proof (cases i)
    case 0
    then show ?thesis using exact_now [OF n] by (simp add: n)
  next
    case (Suc j)
    with Cons.IH [of j c'] Cons.prems candidate_now [OF n] show ?thesis by (simp add: n)
  qed
qed simp

lemma run_below:
  "shown c \<le> b \<Longrightarrow> \<forall>r \<in> set rs. candidate r c \<le> b \<Longrightarrow> t \<in> set (clock_run now c rs) \<Longrightarrow> t \<le> b"
proof (induction rs arbitrary: c)
  case (Cons r rs)
  obtain u c' where n: "now r c = (u, c')" by fastforce
  have u: "u \<le> b" using exact_now [OF n] Cons.prems by simp
  have "t \<le> b" if "t \<in> set (clock_run now c' rs)"
    using Cons.IH [of c'] Cons.prems that u shown_now [OF n] candidate_now [OF n] by simp
  with Cons.prems(3) u show ?case by (auto simp: n)
qed simp

lemma run_above_shown: "t \<in> set (clock_run now c rs) \<Longrightarrow> shown c \<le> t"
proof (induction rs arbitrary: c)
  case (Cons r rs)
  obtain u c' where n: "now r c = (u, c')" by fastforce
  with Cons show ?case using shown_le [OF n] shown_now [OF n] by (auto intro: order_trans)
qed simp

lemma run_sorted: "sorted (clock_run now c rs)"
proof (induction rs arbitrary: c)
  case (Cons r rs)
  obtain u c' where n: "now r c = (u, c')" by fastforce
  have "\<forall>t \<in> set (clock_run now c' rs). u \<le> t"
    using run_above_shown [of _ c' rs] shown_now [OF n] by auto
  with Cons show ?case by (simp add: n)
qed simp

lemma run_bounded: "wf c \<Longrightarrow> t \<in> set (clock_run now c rs) \<Longrightarrow> t \<le> horizon c"
proof (induction rs arbitrary: c)
  case (Cons r rs)
  obtain u c' where n: "now r c = (u, c')" by fastforce
  have "u \<le> horizon c" by (rule bounded [OF n Cons.prems(1)])
  moreover have "t \<in> set (clock_run now c' rs) \<Longrightarrow> t \<le> horizon c"
    using Cons.IH [OF wf_now [OF n Cons.prems(1)]] horizon_now [OF n] by simp
  ultimately show ?case using Cons.prems(2) by (auto simp: n)
qed simp

end

subsection \<open>The clocks of the source implement it\<close>

definition layout_clock_wf :: "layout_clock \<Rightarrow> bool" where
  "layout_clock_wf c \<longleftrightarrow> layout_valid (lc_layout c)
     \<and> lc_last_now_ms c \<le> max_physical_ms (lc_layout c) + 1"

definition system_clock_wf :: "system_clock \<Rightarrow> bool" where
  "system_clock_wf c \<longleftrightarrow> sc_last_now_ms c \<le> MAX_PHYSICAL_MS + 1"

lemma unat_first_unencodable:
  assumes "layout_valid l" shows "unat (max_physical_ms l + 1) = 2 ^ phys_w l"
proof -
  have "(2 :: nat) ^ phys_w l \<le> 2 ^ 63"
    using layout_valid_phys [OF assms] by (intro power_increasing) simp_all
  then have "unat (max_physical_ms l) + unat (1 :: u64) < 2 ^ LENGTH(64)"
    by (simp add: unat_max_physical_ms [OF assms])
  then show ?thesis by (simp add: unat_add_small unat_max_physical_ms [OF assms])
qed

lemma relative_ms_le_horizon:
  assumes "layout_valid l"
  shows "relative_ms_from_unix_ms_for_layout l u \<le> max_physical_ms l + 1"
proof (cases "checked_physical_ms_from_unix_ms l u")
  case (Inr p)
  then have "u - lay_epoch_unix_ms l = p" "lay_epoch_unix_ms l \<le> u" "u \<le> max_unix_ms l"
    by (auto simp: checked_physical_ms_from_unix_ms_def split: if_splits)
  then have "unat p \<le> 2 ^ phys_w l - 1"
    by (auto simp: word_le_nat_alt unat_sub unat_max_unix_ms [OF assms])
  with Inr show ?thesis
    by (simp add: relative_ms_from_unix_ms_for_layout_def word_le_nat_alt
        unat_first_unencodable [OF assms])
qed (auto simp: relative_ms_from_unix_ms_for_layout_def split: tso_unix_ms_boundary.splits)

lemma MAX_PHYSICAL_MS_default: "MAX_PHYSICAL_MS = max_physical_ms DEFAULT_TIMESTAMP_LAYOUT"
  by (simp add: MAX_PHYSICAL_MS_def max_physical_ms_def shl_def default_layout_defs)

definition layout_candidate :: "clock_reading \<Rightarrow> layout_clock \<Rightarrow> u64" where
  \<comment> \<open>the later of what the wall clock shows and what the monotonic clock says\<close>
  "layout_candidate r c =
     max (relative_ms_from_unix_ms_for_layout (lc_layout c) (unix_ms_or_zero (cr_wall_ms r)))
         (min (saturating_add (lc_base_relative_ms c) (word_of_int (cr_elapsed_ms r)))
              (max_physical_ms (lc_layout c) + 1))"

definition system_as_layout :: "system_clock \<Rightarrow> layout_clock" where
  "system_as_layout c = \<lparr> lc_layout = DEFAULT_TIMESTAMP_LAYOUT, lc_base_relative_ms = sc_base_relative_ms c,
     lc_last_now_ms = sc_last_now_ms c \<rparr>"

lemma system_clock_simulation:
  "layout_clock_now_ms r (system_as_layout c)
     = (fst (system_clock_now_ms r c), system_as_layout (snd (system_clock_now_ms r c)))"
  by (simp add: layout_clock_now_ms_def system_clock_now_ms_def system_as_layout_def Let_def
      relative_ms_from_unix_ms_def monotonic_relative_ms_def MAX_PHYSICAL_MS_default)

lemma system_clock_run: "clock_run system_clock_now_ms c rs = clock_run layout_clock_now_ms (system_as_layout c) rs"
  by (induction rs arbitrary: c) (simp_all add: system_clock_simulation split: prod.split)

interpretation lc: monotone_clock layout_clock_now_ms lc_last_now_ms layout_candidate
  "\<lambda>c. max_physical_ms (lc_layout c) + 1" layout_clock_wf
  by unfold_locales
    (auto simp: layout_clock_now_ms_def layout_candidate_def Let_def clamp_monotonic_ms_def layout_clock_wf_def
      relative_ms_le_horizon le_max_iff_disj)

interpretation sc: monotone_clock system_clock_now_ms sc_last_now_ms
  "\<lambda>r c. layout_candidate r (system_as_layout c)" "\<lambda>c. MAX_PHYSICAL_MS + 1" system_clock_wf
  by unfold_locales
    (auto simp: system_clock_now_ms_def layout_candidate_def system_as_layout_def Let_def clamp_monotonic_ms_def
      system_clock_wf_def relative_ms_from_unix_ms_def monotonic_relative_ms_def MAX_PHYSICAL_MS_default
      relative_ms_le_horizon [OF default_layout_valid] le_max_iff_disj)

lemma relative_ms_encodable:
  assumes "layout_valid l" "u \<le> max_unix_ms l"
  shows "relative_ms_from_unix_ms_for_layout l u \<le> max_physical_ms l"
proof (cases "checked_physical_ms_from_unix_ms l u")
  case (Inr p)
  then have "u - lay_epoch_unix_ms l = p" "lay_epoch_unix_ms l \<le> u"
    by (auto simp: checked_physical_ms_from_unix_ms_def split: if_splits)
  with assms(2) have "unat p \<le> 2 ^ phys_w l - 1"
    by (auto simp: word_le_nat_alt unat_sub unat_max_unix_ms [OF assms(1)])
  with Inr show ?thesis
    by (simp add: relative_ms_from_unix_ms_for_layout_def word_le_nat_alt unat_max_physical_ms [OF assms(1)])
qed (use assms(2) in \<open>auto simp: relative_ms_from_unix_ms_for_layout_def checked_physical_ms_from_unix_ms_def
  split: if_splits\<close>)

lemma layout_candidate_encodable:
  assumes "layout_valid (lc_layout c)" "unix_ms_or_zero (cr_wall_ms r) \<le> max_unix_ms (lc_layout c)"
    and "unat (lc_base_relative_ms c) + unat (word_of_int (cr_elapsed_ms r) :: u64) \<le> unat (max_physical_ms (lc_layout c))"
  shows "layout_candidate r c \<le> max_physical_ms (lc_layout c)"
proof -
  have "saturating_add (lc_base_relative_ms c) (word_of_int (cr_elapsed_ms r)) \<le> max_physical_ms (lc_layout c)"
    using assms(3) by (simp add: word_le_nat_alt unat_saturating_add)
  with relative_ms_encodable [OF assms(1,2)] show ?thesis by (simp add: layout_candidate_def min_le_iff_disj)
qed

lemma layout_clock_new_wf:
  "layout_clock_new l w = Inr c \<Longrightarrow> layout_clock_wf c \<and> lc_layout c = l \<and> lc_last_now_ms c = 0"
  by (auto simp: layout_clock_new_def layout_clock_wf_def and_then_eq_Inr)

lemma lease_expired_iff:
  "lease_expired_with_safety_gap e now gap \<longleftrightarrow> min (unat e + unat gap) (2 ^ 64 - 1) \<le> unat now"
  by (simp add: lease_expired_with_safety_gap_def word_le_nat_alt unat_saturating_add)

lemma lease_expired_imp_past:
  "lease_expired_with_safety_gap e now gap \<Longrightarrow> e \<le> now"
  using saturating_add_ge [of e gap] by (simp add: lease_expired_with_safety_gap_def)

subsection \<open>Properties of the clocks\<close>

text \<open>
  C14: whatever the wall clock does (jumps, steps back, runs past the layout's capacity), the values a
  layout clock returns never decrease and never fall below what the wall clock shows through the layout.
  While neither the wall clock nor the monotonic clock has passed the capacity of the layout, every value
  is encodable; past it the clock saturates at the first value that is not, one above the largest physical
  part. The process-wide system clock is the layout clock of the default layout: from the same wall clock
  at first use and with the same readings it returns the same values.
\<close>
theorem layout_clock_monotone:
  assumes "layout_clock_new l wall0 = Inr c"
  shows "sorted (clock_run layout_clock_now_ms c rs)
    \<and> (\<forall>i < length rs. relative_ms_from_unix_ms_for_layout l (unix_ms_or_zero (cr_wall_ms (rs ! i)))
          \<le> clock_run layout_clock_now_ms c rs ! i)
    \<and> ((\<forall>r \<in> set rs. unix_ms_or_zero (cr_wall_ms r) \<le> max_unix_ms l
          \<and> unat (lc_base_relative_ms c) + unat (word_of_int (cr_elapsed_ms r) :: u64) \<le> unat (max_physical_ms l))
        \<longrightarrow> (\<forall>t \<in> set (clock_run layout_clock_now_ms c rs). t \<le> max_physical_ms l))
    \<and> (\<forall>t \<in> set (clock_run layout_clock_now_ms c rs). t \<le> max_physical_ms l + 1)
    \<and> (l = DEFAULT_TIMESTAMP_LAYOUT \<longrightarrow>
        clock_run system_clock_now_ms (system_clock_base wall0) rs = clock_run layout_clock_now_ms c rs)"
proof (intro conjI allI ballI impI)
  have wf: "layout_clock_wf c" "lc_layout c = l" "lc_last_now_ms c = 0"
    using layout_clock_new_wf [OF assms] by simp_all
  then have valid: "layout_valid l" by (simp add: layout_clock_wf_def)
  show "sorted (clock_run layout_clock_now_ms c rs)" by (rule lc.run_sorted)
  show "relative_ms_from_unix_ms_for_layout l (unix_ms_or_zero (cr_wall_ms (rs ! i))) \<le> clock_run layout_clock_now_ms c rs ! i"
    if "i < length rs" for i
    using lc.run_above_candidate [OF that, of c] wf(2) by (simp add: layout_candidate_def)
  show "t \<le> max_physical_ms l"
    if "\<forall>r \<in> set rs. unix_ms_or_zero (cr_wall_ms r) \<le> max_unix_ms l
          \<and> unat (lc_base_relative_ms c) + unat (word_of_int (cr_elapsed_ms r) :: u64) \<le> unat (max_physical_ms l)"
      and "t \<in> set (clock_run layout_clock_now_ms c rs)" for t
    using lc.run_below [OF _ _ that(2), of "max_physical_ms l"] that(1) layout_candidate_encodable [of c] wf valid by simp
  show "t \<le> max_physical_ms l + 1" if "t \<in> set (clock_run layout_clock_now_ms c rs)" for t
    using lc.run_bounded [OF wf(1) that] wf(2) by simp
  show "clock_run system_clock_now_ms (system_clock_base wall0) rs = clock_run layout_clock_now_ms c rs"
    if "l = DEFAULT_TIMESTAMP_LAYOUT"
    using assms that
    by (auto simp: system_clock_run system_as_layout_def system_clock_base_def relative_ms_from_unix_ms_def
        layout_clock_new_def and_then_eq_Inr)
qed

theorem layout_clock_monotone_witness:
  "\<exists>c. layout_clock_new DEFAULT_TIMESTAMP_LAYOUT 1767225600100 = Inr c \<and>
     sorted (clock_run layout_clock_now_ms c
       [\<lparr> cr_wall_ms = 1767225600200, cr_elapsed_ms = 1 \<rparr>, \<lparr> cr_wall_ms = - 5, cr_elapsed_ms = 2 \<rparr>])"
proof -
  obtain c where c: "layout_clock_new DEFAULT_TIMESTAMP_LAYOUT 1767225600100 = Inr c"
    by (simp add: layout_clock_new_def default_layout_valid)
  with layout_clock_monotone [OF c] show ?thesis by blast
qed

end
