(* ===== verification/Rust_Text.thy ===== *)
theory Rust_Text
  imports Rust_Strings
begin

text \<open>
  Splitting, trimming and number parsing of the Rust standard library, on strings as lists of UTF-8
  bytes. Every character the program splits or trims at is ASCII, so working on bytes is exact.
\<close>

definition str_strip_prefix :: "string \<Rightarrow> string \<Rightarrow> string option" where
  "str_strip_prefix p s = (if str_starts_with s p then Some (drop (length p) s) else None)"

definition str_ends_with :: "string \<Rightarrow> string \<Rightarrow> bool" where
  "str_ends_with s p = str_starts_with (rev s) (rev p)"

definition str_split_once :: "char \<Rightarrow> string \<Rightarrow> (string \<times> string) option" where
  "str_split_once c s =
     (case dropWhile (\<lambda>d. d \<noteq> c) s of [] \<Rightarrow> None | _ # rest \<Rightarrow> Some (takeWhile (\<lambda>d. d \<noteq> c) s, rest))"

definition str_rsplit_once :: "char \<Rightarrow> string \<Rightarrow> (string \<times> string) option" where
  "str_rsplit_once c s = map_option (\<lambda>(b, a). (rev a, rev b)) (str_split_once c (rev s))"

definition str_trim_matches :: "(char \<Rightarrow> bool) \<Rightarrow> string \<Rightarrow> string" where
  "str_trim_matches P s = rev (dropWhile P (rev (dropWhile P s)))"

fun str_join :: "string \<Rightarrow> string list \<Rightarrow> string" where
  "str_join sep [] = []"
| "str_join sep [x] = x"
| "str_join sep (x # y # xs) = x @ sep @ str_join sep (y # xs)"

fun str_split :: "char \<Rightarrow> string \<Rightarrow> string list" where
  "str_split c [] = [[]]"
| "str_split c (d # s) =
     (if d = c then [] # str_split c s
      else case str_split c s of [] \<Rightarrow> [[d]] | x # xs \<Rightarrow> (d # x) # xs)"

definition ascii_digit :: "char \<Rightarrow> nat option" where
  "ascii_digit c = (let n = of_char c :: nat in if 48 \<le> n \<and> n \<le> 57 then Some (n - 48) else None)"

fun parse_digits :: "nat \<Rightarrow> nat \<Rightarrow> string \<Rightarrow> nat option" where
  "parse_digits bound acc [] = Some acc"
| "parse_digits bound acc (c # cs) =
     (case ascii_digit c of
        None \<Rightarrow> None
      | Some d \<Rightarrow> if acc * 10 + d < bound then parse_digits bound (acc * 10 + d) cs else None)"

definition parse_unsigned :: "nat \<Rightarrow> string \<Rightarrow> nat option" where
  \<comment> \<open>\<open>str::parse\<close> at an unsigned type whose values are below \<open>bound\<close>\<close>
  "parse_unsigned bound s =
     (case s of
        [] \<Rightarrow> None
      | c # cs \<Rightarrow>
          if cs = [] \<and> (c = CHR ''+'' \<or> c = CHR ''-'') then None
          else parse_digits bound 0 (if c = CHR ''+'' then cs else s))"

fun fmt_oct :: "nat \<Rightarrow> string" where
  \<comment> \<open>the format \<open>{:o}\<close>\<close>
  "fmt_oct n = (if n < 8 then [digit_char n] else fmt_oct (n div 8) @ [digit_char (n mod 8)])"

declare fmt_oct.simps [simp del]

subsection \<open>Facts\<close>

lemma str_split_once_Some:
  "str_split_once c s = Some (a, b) \<longleftrightarrow> s = a @ c # b \<and> c \<notin> set a"
proof
  assume "str_split_once c s = Some (a, b)"
  then obtain d where d: "dropWhile (\<lambda>d. d \<noteq> c) s = d # b" "a = takeWhile (\<lambda>d. d \<noteq> c) s"
    by (auto simp: str_split_once_def split: list.splits)
  from d(1) have "d = c" by (metis (mono_tags, lifting) dropWhile_eq_Cons_conv)
  with d show "s = a @ c # b \<and> c \<notin> set a"
    using takeWhile_dropWhile_id [of "\<lambda>d. d \<noteq> c" s] by (metis (mono_tags, lifting) set_takeWhileD)
next
  assume "s = a @ c # b \<and> c \<notin> set a"
  then have "takeWhile (\<lambda>d. d \<noteq> c) s = a" "dropWhile (\<lambda>d. d \<noteq> c) s = c # b"
    by (auto simp: takeWhile_append dropWhile_append)
  then show "str_split_once c s = Some (a, b)" by (simp add: str_split_once_def)
qed

lemma str_rsplit_once_Some:
  "str_rsplit_once c s = Some (a, b) \<longleftrightarrow> s = a @ c # b \<and> c \<notin> set b"
proof -
  have "str_rsplit_once c s = Some (a, b) \<longleftrightarrow> str_split_once c (rev s) = Some (rev b, rev a)"
    by (auto simp: str_rsplit_once_def)
  also have "\<dots> \<longleftrightarrow> rev s = rev (a @ c # b) \<and> c \<notin> set b" by (simp add: str_split_once_Some)
  finally show ?thesis by (simp only: rev_is_rev_conv)
qed

lemma str_join_split: "str_join [c] (str_split c s) = s"
proof (induction s)
  case (Cons d s)
  have "str_split c s \<noteq> []" by (cases s) (simp_all split: list.split)
  then obtain x xs where "str_split c s = x # xs" by (cases "str_split c s") simp_all
  with Cons show ?case by (cases xs) auto
qed simp

lemma parse_digits_bound: "parse_digits bound acc s = Some n \<Longrightarrow> acc < bound \<Longrightarrow> n < bound"
  by (induction bound acc s rule: parse_digits.induct) (auto split: option.splits if_splits)

lemma ascii_digit_digit_char: "d < 10 \<Longrightarrow> ascii_digit (digit_char d) = Some d"
  by (simp add: ascii_digit_def of_char_digit_char Let_def)

lemma parse_digits_fmt_dec: "n < bound \<Longrightarrow> parse_digits bound 0 (fmt_dec n @ s) = parse_digits bound n s"
proof (induction n arbitrary: s rule: fmt_dec.induct)
  case (1 n)
  show ?case
  proof (cases "n < 10")
    case True
    with 1 show ?thesis by (simp add: fmt_dec_small ascii_digit_digit_char)
  next
    case False
    have "n div 10 < bound" using 1 by (meson div_le_dividend le_less_trans)
    with 1 False show ?thesis by (simp add: fmt_dec_large ascii_digit_digit_char)
  qed
qed

lemma parse_unsigned_fmt_dec:
  assumes "n < bound"
  shows "parse_unsigned bound (fmt_dec n) = Some n"
proof -
  obtain c cs where s: "fmt_dec n = c # cs" using fmt_dec_nonempty by (cases "fmt_dec n") auto
  then obtain d where "d < 10" "c = digit_char d" using fmt_dec_digits [of c n] by auto
  then have "(of_char c :: nat) = 48 + d" by (simp add: of_char_digit_char)
  then have "c \<noteq> CHR ''+''" "c \<noteq> CHR ''-''" by auto
  with s show ?thesis using parse_digits_fmt_dec [OF assms, of "[]"] by (simp add: parse_unsigned_def)
qed

end
