(* ===== verification/Authz.thy ===== *)
theory Authz
  imports Rust_Text Types
begin

text \<open>
  Authorization of mTLS peers (\<open>authz.rs\<close>): the allowlist of certificate fingerprints of a service and
  the check of a request against it. The SHA-256 digest comes from a package and is a parameter.
\<close>

type_synonym fingerprint = "u8 list"

datatype authz_status = Unauthenticated string | PermissionDenied string

record peer_cert_authorizer =
  az_service_name :: string
  az_allowed_leaf_fingerprints :: "fingerprint set"

definition SHA256_FINGERPRINT_LEN :: nat where
  "SHA256_FINGERPRINT_LEN = 32"

definition decode_hex_nibble :: "char \<Rightarrow> string + u8" where
  "decode_hex_nibble c =
     (let n = of_char c :: nat in
      if 48 \<le> n \<and> n \<le> 57 then Inr (of_nat (n - 48))
      else if 97 \<le> n \<and> n \<le> 102 then Inr (of_nat (n - 97 + 10))
      else if 65 \<le> n \<and> n \<le> 70 then Inr (of_nat (n - 65 + 10))
      else Inl ''expected hexadecimal SHA-256 fingerprint'')"

fun decode_hex_pairs :: "string \<Rightarrow> string + u8 list" where
  "decode_hex_pairs (a # b # cs) =
     and_then (decode_hex_nibble a) (\<lambda>high. and_then (decode_hex_nibble b) (\<lambda>low.
       and_then (decode_hex_pairs cs) (\<lambda>bytes. Inr ((push_bit 4 high OR low) # bytes))))"
| "decode_hex_pairs _ = Inr []"

definition fingerprint_separator :: "char \<Rightarrow> bool" where
  "fingerprint_separator c \<longleftrightarrow>
     c = CHR '':'' \<or> c = CHR ''-'' \<or> c = CHR '' '' \<or> c = CHR 0x09 \<or> c = CHR 0x0A \<or> c = CHR 0x0D"

definition normalize_sha256_fingerprint :: "string \<Rightarrow> string + fingerprint" where
  "normalize_sha256_fingerprint value =
     (let normalized = filter (\<lambda>c. \<not> fingerprint_separator c) (str_trim value) in
      if length normalized \<noteq> SHA256_FINGERPRINT_LEN * 2
      then Inl (''expected 64 hexadecimal characters, got '' @ fmt_dec (length normalized))
      else decode_hex_pairs normalized)"

fun validate_peer_cert_allowlist_entries :: "string list \<Rightarrow> string + unit" where
  "validate_peer_cert_allowlist_entries [] = Inr ()"
| "validate_peer_cert_allowlist_entries (v # vs) =
     and_then (normalize_sha256_fingerprint v) (\<lambda>_. validate_peer_cert_allowlist_entries vs)"

definition authorizer_disabled :: "string \<Rightarrow> peer_cert_authorizer" where
  "authorizer_disabled name = \<lparr> az_service_name = name, az_allowed_leaf_fingerprints = {} \<rparr>"

fun collect_fingerprints :: "string list \<Rightarrow> string + fingerprint set" where
  "collect_fingerprints [] = Inr {}"
| "collect_fingerprints (v # vs) =
     and_then (normalize_sha256_fingerprint v) (\<lambda>f.
       and_then (collect_fingerprints vs) (\<lambda>fs. Inr (insert f fs)))"

definition authorizer_from_allowlist :: "string \<Rightarrow> string list \<Rightarrow> string + peer_cert_authorizer" where
  "authorizer_from_allowlist name allowlist =
     and_then (validate_peer_cert_allowlist_entries allowlist) (\<lambda>_.
       and_then (collect_fingerprints allowlist) (\<lambda>fs.
         Inr \<lparr> az_service_name = name, az_allowed_leaf_fingerprints = fs \<rparr>))"

definition authorizer_is_enabled :: "peer_cert_authorizer \<Rightarrow> bool" where
  "authorizer_is_enabled a \<longleftrightarrow> az_allowed_leaf_fingerprints a \<noteq> {}"

definition authorize ::
    "(u8 list \<Rightarrow> fingerprint) \<Rightarrow> peer_cert_authorizer \<Rightarrow> u8 list list option \<Rightarrow> authz_status + unit" where
  \<comment> \<open>\<open>peer_certs\<close> of the request: none without TLS, else the chain, leaf first\<close>
  "authorize sha256 a peer_certs =
     (if \<not> authorizer_is_enabled a then Inr ()
      else case peer_certs of
          None \<Rightarrow> Inl (Unauthenticated (''mTLS peer certificate required for '' @ az_service_name a))
        | Some [] \<Rightarrow> Inl (Unauthenticated (''mTLS peer certificate required for '' @ az_service_name a))
        | Some (leaf # _) \<Rightarrow>
            if sha256 leaf \<in> az_allowed_leaf_fingerprints a then Inr ()
            else Inl (PermissionDenied
              (''mTLS peer certificate is not authorized for '' @ az_service_name a)))"

subsection \<open>Facts\<close>

lemma validate_entries_Inr:
  "validate_peer_cert_allowlist_entries vs = Inr () \<longleftrightarrow> (\<forall>v \<in> set vs. \<exists>f. normalize_sha256_fingerprint v = Inr f)"
  by (induction vs) (auto simp: and_then_def split: sum.splits)

lemma collect_fingerprints_Inr:
  "collect_fingerprints vs = Inr fs \<Longrightarrow> fs = {f. \<exists>v \<in> set vs. normalize_sha256_fingerprint v = Inr f}"
  by (induction vs arbitrary: fs) (auto simp: and_then_def split: sum.splits)

lemma collect_fingerprints_total:
  "validate_peer_cert_allowlist_entries vs = Inr () \<Longrightarrow> \<exists>fs. collect_fingerprints vs = Inr fs"
  by (induction vs) (auto simp: and_then_def split: sum.splits)

lemma decode_hex_nibble_lower: "decode_hex_nibble (ascii_lower c) = decode_hex_nibble c"
  by (auto simp: decode_hex_nibble_def ascii_lower_def Let_def)

lemma decode_hex_pairs_lower: "decode_hex_pairs (map ascii_lower s) = decode_hex_pairs s"
  by (induction s rule: decode_hex_pairs.induct) (simp_all add: decode_hex_nibble_lower)

lemma decode_hex_pairs_length: "decode_hex_pairs s = Inr bs \<Longrightarrow> length bs = length s div 2"
  by (induction s arbitrary: bs rule: decode_hex_pairs.induct) (auto simp: and_then_def split: sum.splits)

text \<open>
  With a non-empty allowlist a request passes exactly when its leaf certificate has a listed
  fingerprint; a request without certificates is never let through, certificates other than the leaf
  never count, and with an empty allowlist every request passes. Allowlist entries may be written
  with any case and separators, and always stand for 32 bytes.
\<close>
theorem authorize_exact:
  assumes "authorizer_from_allowlist name allowlist = Inr a"
  shows "(authorize sha256 a certs = Inr () \<longleftrightarrow>
       allowlist = [] \<or> (\<exists>leaf chain v. certs = Some (leaf # chain) \<and> v \<in> set allowlist
          \<and> normalize_sha256_fingerprint v = Inr (sha256 leaf)))
    \<and> (\<forall>f \<in> az_allowed_leaf_fingerprints a. length f = SHA256_FINGERPRINT_LEN)
    \<and> az_service_name a = name"
proof -
  from assms have v: "validate_peer_cert_allowlist_entries allowlist = Inr ()"
    and c: "collect_fingerprints allowlist = Inr (az_allowed_leaf_fingerprints a)" and n: "az_service_name a = name"
    by (auto simp: authorizer_from_allowlist_def result_simps)
  note fs = collect_fingerprints_Inr [OF c]
  have len: "normalize_sha256_fingerprint v = Inr f \<Longrightarrow> length f = SHA256_FINGERPRINT_LEN" for v f
    by (auto simp: normalize_sha256_fingerprint_def Let_def SHA256_FINGERPRINT_LEN_def
        dest!: decode_hex_pairs_length split: if_splits)
  have "az_allowed_leaf_fingerprints a = {} \<longleftrightarrow> allowlist = []"
    using v unfolding fs validate_entries_Inr by (cases allowlist) auto
  then have "authorizer_is_enabled a \<longleftrightarrow> allowlist \<noteq> []" by (simp add: authorizer_is_enabled_def)
  then show ?thesis using len n by (auto simp: authorize_def fs split: option.splits list.splits)
qed

theorem authorize_exact_witness:
  "\<exists>a. authorizer_from_allowlist ''control''
        [''00112233445566778899AABBCCDDEEFF00112233445566778899aabbccddeeff''] = Inr a
     \<and> authorize (\<lambda>bs. bs) a (Some [[1]]) \<noteq> Inr ()"
proof -
  let ?e = "''00112233445566778899AABBCCDDEEFF00112233445566778899aabbccddeeff''"
  have t: "str_trim ?e = ?e" by (rule str_trim_visible) (simp_all add: visible_ascii_def)
  have "normalize_sha256_fingerprint ?e = Inr [0x00,0x11,0x22,0x33,0x44,0x55,0x66,0x77,0x88,0x99,0xaa,
    0xbb,0xcc,0xdd,0xee,0xff,0x00,0x11,0x22,0x33,0x44,0x55,0x66,0x77,0x88,0x99,0xaa,0xbb,0xcc,0xdd,0xee,0xff]"
    by (simp add: normalize_sha256_fingerprint_def t SHA256_FINGERPRINT_LEN_def fingerprint_separator_def
        decode_hex_nibble_def)
  moreover from this obtain a where a: "authorizer_from_allowlist ''control'' [?e] = Inr a"
    by (simp add: authorizer_from_allowlist_def)
  ultimately show ?thesis using authorize_exact [OF a, of "\<lambda>bs. bs" "Some [[1]]"] by auto
qed

end
