(* ===== verification/Config.thy ===== *)
theory Config
  imports Timestamp Endpoint
begin

text \<open>
  The configuration of a worker (\<open>config.rs\<close>): the record with its defaults and the values derived
  from it. The checks a configuration has to pass before a worker starts are in the theory
  \<open>Config_Validation\<close>.
\<close>

subsection \<open>Constants\<close>

definition DEFAULT_WORKER_ID :: string where
  "DEFAULT_WORKER_ID = ''default-worker''"

definition DEFAULT_ADVERTISE_ENDPOINT :: string where
  "DEFAULT_ADVERTISE_ENDPOINT = ''default-endpoint:50051''"

definition DEFAULT_OWNERSHIP_PLAN_ID :: string where
  "DEFAULT_OWNERSHIP_PLAN_ID = ''default''"

definition DEFAULT_BIND_ADDR :: string where
  "DEFAULT_BIND_ADDR = ''[::1]:50051''"

definition DEFAULT_METRICS_BIND_ADDR :: string where
  "DEFAULT_METRICS_BIND_ADDR = ''127.0.0.1:9898''"

definition DEFAULT_METADATA_KIND :: string where
  "DEFAULT_METADATA_KIND = ''memory''"

definition DEFAULT_MAX_TIMELINE_PROXY_LANES :: nat where
  "DEFAULT_MAX_TIMELINE_PROXY_LANES = 8192"

definition DEFAULT_MAX_TIMELINE_RUNTIME_ENTRIES :: nat where
  "DEFAULT_MAX_TIMELINE_RUNTIME_ENTRIES = 16384"

definition DEFAULT_MAX_CONCURRENT_TIMELINE_LOADS :: nat where
  "DEFAULT_MAX_CONCURRENT_TIMELINE_LOADS = 64"

definition DEFAULT_MAX_TIMELINE_RECORDS :: nat where
  "DEFAULT_MAX_TIMELINE_RECORDS = 100000"

definition DEFAULT_MAX_BATCH_PER_REQUEST :: u32 where
  "DEFAULT_MAX_BATCH_PER_REQUEST = 4096"

definition PRODUCTION_MAX_BATCH_PER_REQUEST :: u32 where
  "PRODUCTION_MAX_BATCH_PER_REQUEST = 4096"

definition PRODUCTION_MAX_TIMELINE_PROXY_LANES :: nat where
  "PRODUCTION_MAX_TIMELINE_PROXY_LANES = 8192"

definition PRODUCTION_MAX_TIMELINE_RUNTIME_ENTRIES :: nat where
  "PRODUCTION_MAX_TIMELINE_RUNTIME_ENTRIES = 16384"

definition DEFAULT_REQUEST_RECORD_PENDING_TIMEOUT_MS :: u64 where
  "DEFAULT_REQUEST_RECORD_PENDING_TIMEOUT_MS = 300000"

definition DEFAULT_REQUEST_RECORD_RETENTION_MS :: u64 where
  "DEFAULT_REQUEST_RECORD_RETENTION_MS = 3600000"

definition DEFAULT_AUTO_FAILOVER_INTERVAL_MS :: u64 where
  "DEFAULT_AUTO_FAILOVER_INTERVAL_MS = 1000"

definition DEFAULT_AUTO_FAILOVER_BATCH_SIZE :: nat where
  "DEFAULT_AUTO_FAILOVER_BATCH_SIZE = 16"

definition DEFAULT_MAX_CLOCK_SKEW_MS :: u64 where
  "DEFAULT_MAX_CLOCK_SKEW_MS = 500"

definition DEFAULT_GRPC_MAX_CONNECTIONS :: nat where
  "DEFAULT_GRPC_MAX_CONNECTIONS = 1024"

subsection \<open>The record\<close>

datatype tso_security_mode = Required | DevInsecure

record tso_config =
  cfg_timestamp_layout :: timestamp_layout
  cfg_shared_generators :: u32
  cfg_warm_generators :: u32
  cfg_max_batch_per_request :: u32
  cfg_max_future_borrow_ms :: u64
  cfg_default_resource_tier :: resource_tier
  cfg_lease_ttl_ms :: u64
  cfg_generator_lease_ttl_ms :: u64
  cfg_generator_maintenance_interval_ms :: u64
  cfg_generator_ownership_modulo :: u32
  cfg_generator_ownership_remainder :: u32
  cfg_generator_ownership_remainders :: "u32 list"
  cfg_ownership_plan_id :: string
  cfg_worker_id :: string
  cfg_instance_id :: string
  cfg_advertise_endpoint :: string
  cfg_bind_addr :: string
  cfg_health_bind_addr :: "string option"
  cfg_metrics_bind_addr :: string
  cfg_metadata_kind :: string
  cfg_etcd_endpoints :: "string list"
  cfg_production_profile :: bool
  cfg_security_mode :: "tso_security_mode option"
  cfg_grpc_tls_cert_file :: "string option"
  cfg_grpc_tls_key_file :: "string option"
  cfg_grpc_client_ca_file :: "string option"
  cfg_grpc_control_cert_allowlist :: "string list"
  cfg_grpc_route_cert_allowlist :: "string list"
  cfg_grpc_timestamp_cert_allowlist :: "string list"
  cfg_grpc_status_cert_allowlist :: "string list"
  cfg_grpc_request_timeout_ms :: "u64 option"
  cfg_grpc_max_request_bytes :: "nat option"
  cfg_grpc_max_concurrent_requests :: "nat option"
  cfg_grpc_max_connections :: nat
  cfg_metrics_tls_cert_file :: "string option"
  cfg_metrics_tls_key_file :: "string option"
  cfg_metrics_client_ca_file :: "string option"
  cfg_etcd_ca_file :: "string option"
  cfg_etcd_cert_file :: "string option"
  cfg_etcd_key_file :: "string option"
  cfg_etcd_timeout_ms :: "u64 option"
  cfg_pre_borrow_ms :: u64
  cfg_max_clock_rewind_ms :: u64
  cfg_max_clock_skew_ms :: u64
  cfg_recovery_catchup_budget_ms :: u64
  cfg_shared_jump_ahead_threshold_ms :: u64
  cfg_safety_gap_ms :: u64
  cfg_max_timeline_proxy_lanes :: nat
  cfg_max_timeline_runtime_entries :: nat
  cfg_max_concurrent_timeline_loads :: nat
  cfg_max_timeline_records :: nat
  cfg_request_record_pending_timeout_ms :: u64
  cfg_request_record_retention_ms :: u64
  cfg_auto_failover_enabled :: bool
  cfg_auto_failover_interval_ms :: u64
  cfg_auto_failover_batch_size :: nat

definition tso_config_default :: tso_config where
  "tso_config_default =
     \<lparr> cfg_timestamp_layout = DEFAULT_TIMESTAMP_LAYOUT,
       cfg_shared_generators = 128,
       cfg_warm_generators = 128,
       cfg_max_batch_per_request = DEFAULT_MAX_BATCH_PER_REQUEST,
       cfg_max_future_borrow_ms = 10,
       cfg_default_resource_tier = Shared,
       cfg_lease_ttl_ms = 3000,
       cfg_generator_lease_ttl_ms = 0,
       cfg_generator_maintenance_interval_ms = 200,
       cfg_generator_ownership_modulo = 1,
       cfg_generator_ownership_remainder = 0,
       cfg_generator_ownership_remainders = [],
       cfg_ownership_plan_id = DEFAULT_OWNERSHIP_PLAN_ID,
       cfg_worker_id = DEFAULT_WORKER_ID,
       cfg_instance_id = [],
       cfg_advertise_endpoint = DEFAULT_ADVERTISE_ENDPOINT,
       cfg_bind_addr = DEFAULT_BIND_ADDR,
       cfg_health_bind_addr = None,
       cfg_metrics_bind_addr = DEFAULT_METRICS_BIND_ADDR,
       cfg_metadata_kind = DEFAULT_METADATA_KIND,
       cfg_etcd_endpoints = [],
       cfg_production_profile = False,
       cfg_security_mode = None,
       cfg_grpc_tls_cert_file = None,
       cfg_grpc_tls_key_file = None,
       cfg_grpc_client_ca_file = None,
       cfg_grpc_control_cert_allowlist = [],
       cfg_grpc_route_cert_allowlist = [],
       cfg_grpc_timestamp_cert_allowlist = [],
       cfg_grpc_status_cert_allowlist = [],
       cfg_grpc_request_timeout_ms = None,
       cfg_grpc_max_request_bytes = None,
       cfg_grpc_max_concurrent_requests = None,
       cfg_grpc_max_connections = DEFAULT_GRPC_MAX_CONNECTIONS,
       cfg_metrics_tls_cert_file = None,
       cfg_metrics_tls_key_file = None,
       cfg_metrics_client_ca_file = None,
       cfg_etcd_ca_file = None,
       cfg_etcd_cert_file = None,
       cfg_etcd_key_file = None,
       cfg_etcd_timeout_ms = None,
       cfg_pre_borrow_ms = 100,
       cfg_max_clock_rewind_ms = 30000,
       cfg_max_clock_skew_ms = DEFAULT_MAX_CLOCK_SKEW_MS,
       cfg_recovery_catchup_budget_ms = 5000,
       cfg_shared_jump_ahead_threshold_ms = 5000,
       cfg_safety_gap_ms = 0,
       cfg_max_timeline_proxy_lanes = DEFAULT_MAX_TIMELINE_PROXY_LANES,
       cfg_max_timeline_runtime_entries = DEFAULT_MAX_TIMELINE_RUNTIME_ENTRIES,
       cfg_max_concurrent_timeline_loads = DEFAULT_MAX_CONCURRENT_TIMELINE_LOADS,
       cfg_max_timeline_records = DEFAULT_MAX_TIMELINE_RECORDS,
       cfg_request_record_pending_timeout_ms = DEFAULT_REQUEST_RECORD_PENDING_TIMEOUT_MS,
       cfg_request_record_retention_ms = DEFAULT_REQUEST_RECORD_RETENTION_MS,
       cfg_auto_failover_enabled = False,
       cfg_auto_failover_interval_ms = DEFAULT_AUTO_FAILOVER_INTERVAL_MS,
       cfg_auto_failover_batch_size = DEFAULT_AUTO_FAILOVER_BATCH_SIZE \<rparr>"

subsection \<open>Derived values\<close>

definition security_mode_to_string :: "tso_security_mode \<Rightarrow> string" where
  "security_mode_to_string m = (case m of Required \<Rightarrow> ''required'' | DevInsecure \<Rightarrow> ''dev-insecure'')"

definition security_mode_from_str :: "string \<Rightarrow> string + tso_security_mode" where
  "security_mode_from_str value =
     (let v = to_ascii_lowercase (str_trim value) in
      if v = ''required'' then Inr Required
      else if v = ''dev-insecure'' then Inr DevInsecure
      else Inl (''CHRONOS_SECURITY_MODE must be one of: required, dev-insecure (got '' @ v @ '')''))"

definition with_security_mode :: "tso_security_mode \<Rightarrow> tso_config \<Rightarrow> tso_config" where
  "with_security_mode m c = c \<lparr> cfg_security_mode := Some m \<rparr>"

definition apply_profile :: "string \<Rightarrow> tso_config \<Rightarrow> string + tso_config" where
  "apply_profile profile c =
     (let p = to_ascii_lowercase profile in
      if p = ''prod'' \<or> p = ''production'' then
        Inr (c \<lparr> cfg_production_profile := True,
                 cfg_max_batch_per_request := PRODUCTION_MAX_BATCH_PER_REQUEST,
                 cfg_max_timeline_proxy_lanes := PRODUCTION_MAX_TIMELINE_PROXY_LANES,
                 cfg_max_timeline_runtime_entries := PRODUCTION_MAX_TIMELINE_RUNTIME_ENTRIES,
                 cfg_safety_gap_ms :=
                   max (max (cfg_safety_gap_ms c) DEFAULT_MAX_CLOCK_SKEW_MS) (cfg_max_clock_skew_ms c) \<rparr>)
      else Inl (''unknown CHRONOS_PROFILE: '' @ p))"

definition effective_instance_id :: "tso_config \<Rightarrow> string" where
  "effective_instance_id c =
     (if str_trim (cfg_instance_id c) = [] then cfg_advertise_endpoint c else cfg_instance_id c)"

definition effective_generator_lease_ttl_ms :: "tso_config \<Rightarrow> u64" where
  "effective_generator_lease_ttl_ms c =
     (if cfg_generator_lease_ttl_ms c = 0 then cfg_lease_ttl_ms c else cfg_generator_lease_ttl_ms c)"

definition effective_generator_maintenance_cadence :: "tso_config \<Rightarrow> u64 \<times> string" where
  "effective_generator_maintenance_cadence c =
     (let configured = cfg_generator_maintenance_interval_ms c;
          horizon_cap = max (cfg_pre_borrow_ms c div 2) 1;
          lease_ttl_cap = max (effective_generator_lease_ttl_ms c div 2) 1;
          effective = min (min configured horizon_cap) lease_ttl_cap
      in (effective,
          if effective = configured then ''configured''
          else if effective = horizon_cap \<and> effective = lease_ttl_cap
            then ''issued_horizon_and_lease_ttl_cap''
          else if effective = horizon_cap then ''issued_horizon_cap''
          else ''lease_ttl_cap''))"

definition effective_generator_ownership_remainders :: "tso_config \<Rightarrow> u32 list" where
  "effective_generator_ownership_remainders c =
     (if cfg_generator_ownership_remainders c = [] then [cfg_generator_ownership_remainder c]
      else cfg_generator_ownership_remainders c)"

lemma effective_remainders_nonempty: "effective_generator_ownership_remainders c \<noteq> []"
  by (simp add: effective_generator_ownership_remainders_def)

lemma security_mode_roundtrip: "security_mode_from_str (security_mode_to_string m) = Inr m"
proof -
  have "str_trim ''required'' = ''required''" "str_trim ''dev-insecure'' = ''dev-insecure''"
    by (rule str_trim_visible; simp add: visible_ascii_def)+
  then show ?thesis
    by (cases m) (simp_all add: security_mode_from_str_def security_mode_to_string_def
        to_ascii_lowercase_def ascii_lower_def)
qed

end
