(* ===== verification/Config_Validation.thy ===== *)
theory Config_Validation
  imports Config Authz
begin

text \<open>
  The checks of \<open>config.rs\<close>: the addresses a worker binds and advertises, the TLS bundles, the security
  mode that applies, and the whole check a configuration passes before a worker starts. Reading files
  is left to the operating system, so the results of \<open>File::open\<close> and \<open>symlink_metadata\<close>
  are a parameter.
\<close>

subsection \<open>Errors and parameters\<close>

datatype config_error =
    EmptyWorkerId
  | EmptyAdvertiseEndpoint
  | InvalidAdvertiseEndpointFormat
  | TooManyTierGenerators u32
  | GeneratorOwnershipMisconfigured u32 u32
  | ZeroMaxBatchPerRequest
  | ZeroLeaseTtl
  | ZeroGeneratorMaintenanceInterval
  | GeneratorMaintenanceIntervalTooLarge u64 u64
  | GeneratorLeaseTtlTooSmall u64 u64
  | ZeroMaxTimelineProxyLanes
  | ZeroMaxTimelineRuntimeEntries
  | ZeroMaxConcurrentTimelineLoads
  | ZeroMaxTimelineRecords
  | ZeroGrpcMaxConnections
  | MissingDefaultTierCapacity resource_tier
  | InvalidTimestampLayout string
  | Security string

type_synonym 'a config_result = "config_error + 'a"

record file_metadata =
  fm_is_symlink :: bool
  fm_is_file :: bool
  fm_mode :: u32

record file_system =
  fs_open :: "string \<Rightarrow> string + unit"
  fs_symlink_metadata :: "string \<Rightarrow> string + file_metadata"

record server_tls_paths =
  stp_cert_file :: string
  stp_key_file :: string
  stp_client_ca_file :: string

record client_tls_paths =
  ctp_ca_file :: string
  ctp_cert_file :: string
  ctp_key_file :: string

type_synonym tls_fields = "(string \<times> string option) list"

subsection \<open>Addresses\<close>

datatype ip_addr = IpV4 "nat list" | IpV6 "nat list"

definition parse_ip_addr :: "string \<Rightarrow> ip_addr option" where
  "parse_ip_addr s =
     (case (case read_ipv4_addr s of
              Some (a, rest) \<Rightarrow> Some (IpV4 a, rest)
            | None \<Rightarrow> map_option (\<lambda>(a, rest). (IpV6 a, rest)) (read_ipv6_addr s)) of
        Some (a, []) \<Rightarrow> Some a
      | _ \<Rightarrow> None)"

fun ip_is_loopback :: "ip_addr \<Rightarrow> bool" where
  "ip_is_loopback (IpV4 a) = (a ! 0 = 127)"
| "ip_is_loopback (IpV6 a) = (a = [0, 0, 0, 0, 0, 0, 0, 1])"

fun ip_is_unspecified :: "ip_addr \<Rightarrow> bool" where
  "ip_is_unspecified (IpV4 a) = (a = [0, 0, 0, 0])"
| "ip_is_unspecified (IpV6 a) = (a = [0, 0, 0, 0, 0, 0, 0, 0])"

fun socket_ip :: "socket_addr \<Rightarrow> ip_addr" where
  "socket_ip (SocketV4 a _) = IpV4 a"
| "socket_ip (SocketV6 a _ _) = IpV6 a"

definition parse_port :: "string \<Rightarrow> nat option" where
  "parse_port s = parse_unsigned 65536 s"

definition parse_advertise_endpoint_host :: "string \<Rightarrow> string config_result" where
  "parse_advertise_endpoint_host endpoint =
     (let trimmed = str_trim endpoint in
      case str_strip_prefix ''['' trimmed of
        Some stripped \<Rightarrow>
          (case str_split_once (CHR '']'') stripped of
             None \<Rightarrow> Inl InvalidAdvertiseEndpointFormat
           | Some (host, remainder) \<Rightarrow>
               if host = [] then Inl InvalidAdvertiseEndpointFormat
               else case str_strip_prefix '':'' remainder of
                   None \<Rightarrow> Inl InvalidAdvertiseEndpointFormat
                 | Some port \<Rightarrow>
                     if parse_port port = None then Inl InvalidAdvertiseEndpointFormat else Inr host)
      | None \<Rightarrow>
          (case str_rsplit_once (CHR '':'') trimmed of
             None \<Rightarrow> Inl InvalidAdvertiseEndpointFormat
           | Some (host, port) \<Rightarrow>
               if host = [] \<or> parse_port port = None then Inl InvalidAdvertiseEndpointFormat
               else Inr host))"

definition is_bracket :: "char \<Rightarrow> bool" where
  "is_bracket c \<longleftrightarrow> c = CHR ''['' \<or> c = CHR '']''"

definition advertise_endpoint_rejected_for_authoritative_metadata :: "string \<Rightarrow> bool" where
  "advertise_endpoint_rejected_for_authoritative_metadata endpoint =
     (case parse_advertise_endpoint_host endpoint of
        Inl _ \<Rightarrow> True
      | Inr h \<Rightarrow>
          let host = str_trim h in
          if host = [] then True
          else
            let normalized = to_ascii_lowercase (str_trim_matches is_bracket host) in
            if normalized = ''localhost'' \<or> str_ends_with normalized ''.localhost'' then True
            else case parse_ip_addr normalized of
                Some ip \<Rightarrow> ip_is_unspecified ip \<or> ip_is_loopback ip
              | None \<Rightarrow> False)"

definition config_parse_socket_addr :: "string \<Rightarrow> string \<Rightarrow> socket_addr config_result" where
  "config_parse_socket_addr addr field_name =
     (case parse_socket_addr (str_trim addr) of
        Some a \<Rightarrow> Inr a
      | None \<Rightarrow> Inl (Security (field_name
          @ '' must be a valid socket address: invalid socket address syntax'')))"

definition socket_addr_is_loopback :: "string \<Rightarrow> string \<Rightarrow> bool config_result" where
  "socket_addr_is_loopback addr field_name =
     and_then (config_parse_socket_addr addr field_name) (\<lambda>a. Inr (ip_is_loopback (socket_ip a)))"

definition endpoint_host_is_local :: "string \<Rightarrow> bool config_result" where
  "endpoint_host_is_local endpoint =
     and_then (parse_advertise_endpoint_host endpoint) (\<lambda>host.
       let normalized = to_ascii_lowercase (str_trim_matches is_bracket (str_trim host)) in
       if normalized = ''localhost'' \<or> str_ends_with normalized ''.localhost'' then Inr True
       else case parse_ip_addr normalized of
           Some ip \<Rightarrow> Inr (ip_is_loopback ip)
         | None \<Rightarrow> Inr False)"

definition endpoint_is_local :: "string \<Rightarrow> bool" where
  "endpoint_is_local endpoint = (case endpoint_host_is_local endpoint of Inr b \<Rightarrow> b | Inl _ \<Rightarrow> False)"

definition validate_single_etcd_endpoint_contract :: "string \<Rightarrow> bool \<Rightarrow> unit config_result" where
  "validate_single_etcd_endpoint_contract endpoint tls_enabled =
     (let trimmed = str_trim endpoint in
      if trimmed = [] then Inl (Security ''CHRONOS_ETCD_ENDPOINTS must not contain empty endpoints'')
      else
        let (scheme, authority) =
          (case str_strip_prefix ''http://'' trimmed of
             Some rest \<Rightarrow> (''http'', rest)
           | None \<Rightarrow>
               (case str_strip_prefix ''https://'' trimmed of
                  Some rest \<Rightarrow> (''https'', rest)
                | None \<Rightarrow> ([], trimmed)))
        in if str_contains authority (CHR ''/'') \<or> str_contains authority (CHR ''?'')
              \<or> str_contains authority (CHR ''#'')
           then Inl (Security (''CHRONOS_ETCD_ENDPOINTS entries must not contain a path, query, or fragment: ''
                  @ trimmed))
           else if result_ok (parse_advertise_endpoint_host authority) = None
           then Inl (Security (''CHRONOS_ETCD_ENDPOINTS entries must use host:port, http://host:port, or https://host:port: ''
                  @ trimmed))
           else if tls_enabled \<and> scheme = ''http''
           then Inl (Security (''CHRONOS_ETCD_ENDPOINTS entries must use https:// or bare host:port when etcd TLS is configured: ''
                  @ trimmed))
           else Inr ())"

subsection \<open>Checks in sequence\<close>

text \<open>A run of checks, each with its early return: the first error is the result.\<close>

fun checks :: "('e + unit) list \<Rightarrow> 'e + unit" where
  "checks [] = Inr ()"
| "checks (r # rs) = (case r of Inl e \<Rightarrow> Inl e | Inr _ \<Rightarrow> checks rs)"

definition reject_if :: "bool \<Rightarrow> 'e \<Rightarrow> 'e + unit" where
  "reject_if b e = (if b then Inl e else Inr ())"

lemma checks_Inr: "checks rs = Inr () \<longleftrightarrow> (\<forall>r \<in> set rs. r = Inr ())"
  by (induction rs) (auto split: sum.splits)

lemma checks_append: "checks (xs @ ys) = (case checks xs of Inl e \<Rightarrow> Inl e | Inr _ \<Rightarrow> checks ys)"
  by (induction xs) (auto split: sum.splits)

declare checks.simps [simp del]

lemma reject_if_Inr [simp]: "reject_if b e = Inr () \<longleftrightarrow> \<not> b"
  by (simp add: reject_if_def)

lemma reject_if_simps [simp]: "reject_if True e = Inl e" "reject_if False e = Inr ()"
  by (simp_all add: reject_if_def)

definition positive_error :: "string \<Rightarrow> config_error" where
  "positive_error field_name = Security (field_name @ '' must be greater than 0'')"

definition validate_positive_optional_u64 :: "string \<Rightarrow> u64 option \<Rightarrow> unit config_result" where
  "validate_positive_optional_u64 field_name v = reject_if (v = Some 0) (positive_error field_name)"

definition validate_positive_optional_usize :: "string \<Rightarrow> nat option \<Rightarrow> unit config_result" where
  "validate_positive_optional_usize field_name v = reject_if (v = Some 0) (positive_error field_name)"

definition validate_positive_u64_value :: "string \<Rightarrow> u64 \<Rightarrow> unit config_result" where
  "validate_positive_u64_value field_name v = reject_if (v = 0) (positive_error field_name)"

definition validate_positive_usize_value :: "string \<Rightarrow> nat \<Rightarrow> unit config_result" where
  "validate_positive_usize_value field_name v = reject_if (v = 0) (positive_error field_name)"

definition explicit_positive_error :: "string \<Rightarrow> config_error" where
  "explicit_positive_error field_name =
     Security (field_name @ '' must be explicitly set to a value greater than 0'')"

definition require_positive_u64 :: "string \<Rightarrow> u64 option \<Rightarrow> unit config_result" where
  "require_positive_u64 field_name v =
     (case v of
        Some n \<Rightarrow> if 0 < n then Inr () else Inl (explicit_positive_error field_name)
      | None \<Rightarrow> Inl (explicit_positive_error field_name))"

definition require_positive_usize :: "string \<Rightarrow> nat option \<Rightarrow> unit config_result" where
  "require_positive_usize field_name v =
     (case v of
        Some n \<Rightarrow> if 0 < n then Inr () else Inl (explicit_positive_error field_name)
      | None \<Rightarrow> Inl (explicit_positive_error field_name))"

subsection \<open>TLS bundles and files\<close>

definition incomplete_tls_bundle_error :: "string \<Rightarrow> string list \<Rightarrow> config_error" where
  "incomplete_tls_bundle_error bundle_name flds =
     Security (bundle_name @ '' requires a complete bundle: '' @ str_join '', '' flds)"

definition validate_tls_bundle :: "string \<Rightarrow> tls_fields \<Rightarrow> bool \<Rightarrow> unit config_result" where
  "validate_tls_bundle bundle_name flds required =
     (let present = length (filter (\<lambda>(_, v). v \<noteq> None) flds) in
      if present = 0 \<and> \<not> required then Inr ()
      else if present \<noteq> length flds
      then Inl (Security (bundle_name @ '' requires a complete bundle: '' @ str_join '', '' (map fst flds)))
      else Inr ())"

definition server_tls_paths_from_options ::
    "string \<Rightarrow> string list \<Rightarrow> string option \<times> string option \<times> string option
     \<Rightarrow> server_tls_paths option config_result" where
  "server_tls_paths_from_options bundle_name flds values =
     (case values of
        (None, None, None) \<Rightarrow> Inr None
      | (Some cert, Some key, Some ca) \<Rightarrow>
          Inr (Some \<lparr> stp_cert_file = cert, stp_key_file = key, stp_client_ca_file = ca \<rparr>)
      | _ \<Rightarrow> Inl (incomplete_tls_bundle_error bundle_name flds))"

definition client_tls_paths_from_options ::
    "string \<Rightarrow> string list \<Rightarrow> string option \<times> string option \<times> string option
     \<Rightarrow> client_tls_paths option config_result" where
  "client_tls_paths_from_options bundle_name flds values =
     (case values of
        (None, None, None) \<Rightarrow> Inr None
      | (Some ca, Some cert, Some key) \<Rightarrow>
          Inr (Some \<lparr> ctp_ca_file = ca, ctp_cert_file = cert, ctp_key_file = key \<rparr>)
      | _ \<Rightarrow> Inl (incomplete_tls_bundle_error bundle_name flds))"

definition grpc_tls_paths :: "tso_config \<Rightarrow> server_tls_paths option config_result" where
  "grpc_tls_paths c =
     server_tls_paths_from_options ''gRPC TLS''
       [''CHRONOS_GRPC_TLS_CERT_FILE'', ''CHRONOS_GRPC_TLS_KEY_FILE'', ''CHRONOS_GRPC_CLIENT_CA_FILE'']
       (cfg_grpc_tls_cert_file c, cfg_grpc_tls_key_file c, cfg_grpc_client_ca_file c)"

definition metrics_tls_paths :: "tso_config \<Rightarrow> server_tls_paths option config_result" where
  "metrics_tls_paths c =
     server_tls_paths_from_options ''metrics TLS''
       [''CHRONOS_METRICS_TLS_CERT_FILE'', ''CHRONOS_METRICS_TLS_KEY_FILE'', ''CHRONOS_METRICS_CLIENT_CA_FILE'']
       (cfg_metrics_tls_cert_file c, cfg_metrics_tls_key_file c, cfg_metrics_client_ca_file c)"

definition etcd_tls_paths :: "tso_config \<Rightarrow> client_tls_paths option config_result" where
  "etcd_tls_paths c =
     client_tls_paths_from_options ''etcd TLS''
       [''CHRONOS_ETCD_CA_FILE'', ''CHRONOS_ETCD_CERT_FILE'', ''CHRONOS_ETCD_KEY_FILE'']
       (cfg_etcd_ca_file c, cfg_etcd_cert_file c, cfg_etcd_key_file c)"

definition etcd_tls_configured :: "tso_config \<Rightarrow> bool" where
  "etcd_tls_configured c \<longleftrightarrow>
     cfg_etcd_ca_file c \<noteq> None \<or> cfg_etcd_cert_file c \<noteq> None \<or> cfg_etcd_key_file c \<noteq> None"

definition validate_readable_files :: "file_system \<Rightarrow> tls_fields \<Rightarrow> unit config_result" where
  "validate_readable_files fs flds =
     checks (map (\<lambda>(field_name, v).
       case v of
         None \<Rightarrow> Inr ()
       | Some path \<Rightarrow>
           (case fs_open fs path of
              Inr _ \<Rightarrow> Inr ()
            | Inl err \<Rightarrow> Inl (Security (field_name @ '' could not read '' @ path @ '': '' @ err)))) flds)"

definition validate_private_key_file :: "file_system \<Rightarrow> string \<Rightarrow> string \<Rightarrow> unit config_result" where
  "validate_private_key_file fs field_name path =
     (case fs_symlink_metadata fs path of
        Inl err \<Rightarrow> Inl (Security (field_name @ '' could not stat '' @ path @ '': '' @ err))
      | Inr m \<Rightarrow>
          let mode = fm_mode m AND 0x1FF in
          checks [
            reject_if (fm_is_symlink m) (Security (field_name @ '' must not be a symlink: '' @ path)),
            reject_if (\<not> fm_is_file m)
              (Security (field_name @ '' must reference a regular file: '' @ path)),
            reject_if (mode AND 0x3F \<noteq> 0)
              (Security (field_name @ '' must not be group/other accessible: '' @ path @ '' has mode ''
                 @ fmt_oct (unat mode)))])"

definition validate_private_key_files :: "file_system \<Rightarrow> tls_fields \<Rightarrow> unit config_result" where
  "validate_private_key_files fs flds =
     checks (map (\<lambda>(field_name, v).
       case v of None \<Rightarrow> Inr () | Some path \<Rightarrow> validate_private_key_file fs field_name path) flds)"

subsection \<open>Allowlists and exposure\<close>

definition validate_sha256_fingerprint_allowlist :: "string \<Rightarrow> string list \<Rightarrow> unit config_result" where
  "validate_sha256_fingerprint_allowlist env_key allowlist =
     (case validate_peer_cert_allowlist_entries allowlist of
        Inr _ \<Rightarrow> Inr ()
      | Inl err \<Rightarrow> Inl (Security (env_key @ '' contains an invalid fingerprint: '' @ err)))"

definition require_non_empty_allowlist :: "string \<Rightarrow> string list \<Rightarrow> unit config_result" where
  "require_non_empty_allowlist env_key allowlist =
     reject_if (allowlist = [])
       (Security (env_key @ '' must contain at least one SHA-256 client certificate fingerprint when gRPC mTLS is enabled''))"

definition grpc_remote_exposed :: "tso_config \<Rightarrow> bool config_result" where
  "grpc_remote_exposed c =
     and_then (socket_addr_is_loopback (cfg_bind_addr c) ''CHRONOS_BIND_ADDR'') (\<lambda>loopback.
       if \<not> loopback then Inr True
       else and_then (endpoint_host_is_local (cfg_advertise_endpoint c)) (\<lambda>local. Inr (\<not> local)))"

definition metrics_remote_exposed :: "tso_config \<Rightarrow> bool config_result" where
  "metrics_remote_exposed c =
     and_then (socket_addr_is_loopback (cfg_metrics_bind_addr c) ''CHRONOS_METRICS_BIND_ADDR'')
       (\<lambda>loopback. Inr (\<not> loopback))"

definition etcd_remote_exposed :: "tso_config \<Rightarrow> bool" where
  "etcd_remote_exposed c \<longleftrightarrow>
     to_ascii_lowercase (str_trim (cfg_metadata_kind c)) = ''etcd''
     \<and> list_ex (\<lambda>endpoint. endpoint \<noteq> [] \<and> \<not> endpoint_is_local endpoint)
         (map str_trim (cfg_etcd_endpoints c))"

definition has_nonlocal_topology_signal :: "tso_config \<Rightarrow> bool config_result" where
  "has_nonlocal_topology_signal c =
     and_then (grpc_remote_exposed c) (\<lambda>grpc.
       if grpc then Inr True
       else and_then (metrics_remote_exposed c) (\<lambda>metrics.
         if metrics then Inr True else Inr (etcd_remote_exposed c)))"

definition resolve_effective_security_mode :: "tso_config \<Rightarrow> tso_security_mode config_result" where
  "resolve_effective_security_mode c =
     and_then (has_nonlocal_topology_signal c) (\<lambda>has_nonlocal_topology.
       case cfg_security_mode c of
         Some DevInsecure \<Rightarrow>
           if cfg_production_profile c
           then Inl (Security ''CHRONOS_SECURITY_MODE=dev-insecure is not allowed with CHRONOS_PROFILE=production'')
           else if has_nonlocal_topology
           then Inl (Security ''CHRONOS_SECURITY_MODE=dev-insecure is only allowed for loopback/local-only topology'')
           else Inr DevInsecure
       | Some Required \<Rightarrow> Inr Required
       | None \<Rightarrow>
           if cfg_production_profile c \<or> has_nonlocal_topology then Inr Required
           else Inl (Security ''CHRONOS_SECURITY_MODE must be explicitly set to dev-insecure for local-only startup''))"

definition validate_etcd_endpoint_contract :: "tso_config \<Rightarrow> unit config_result" where
  "validate_etcd_endpoint_contract c =
     checks (map (\<lambda>e. validate_single_etcd_endpoint_contract e (etcd_tls_configured c)) (cfg_etcd_endpoints c))"

definition validate_authoritative_metadata_runtime_contract_for_etcd :: "tso_config \<Rightarrow> unit config_result" where
  "validate_authoritative_metadata_runtime_contract_for_etcd c =
     checks [
       reject_if (cfg_worker_id c = DEFAULT_WORKER_ID)
         (Security ''CHRONOS_WORKER_ID must be explicitly set when metadata=etcd''),
       reject_if (cfg_advertise_endpoint c = DEFAULT_ADVERTISE_ENDPOINT)
         (Security ''CHRONOS_ADVERTISE_ENDPOINT must be explicitly set when metadata=etcd''),
       reject_if (\<not> (cfg_security_mode c = Some DevInsecure \<and> \<not> cfg_production_profile c)
           \<and> advertise_endpoint_rejected_for_authoritative_metadata (cfg_advertise_endpoint c))
         (Security ''CHRONOS_ADVERTISE_ENDPOINT must not use localhost, .localhost, a loopback IP, or a wildcard address when metadata=etcd''),
       reject_if (cfg_safety_gap_ms c = 0)
         (Security ''CHRONOS_SAFETY_GAP_MS must be greater than 0 when metadata=etcd''),
       reject_if (cfg_max_clock_skew_ms c = 0)
         (Security ''CHRONOS_MAX_CLOCK_SKEW_MS must be greater than 0 when metadata=etcd''),
       reject_if (cfg_safety_gap_ms c < cfg_max_clock_skew_ms c)
         (Security (''CHRONOS_SAFETY_GAP_MS ('' @ fmt_dec (unat (cfg_safety_gap_ms c))
            @ '') must be greater than or equal to the certified CHRONOS_MAX_CLOCK_SKEW_MS (''
            @ fmt_dec (unat (cfg_max_clock_skew_ms c)) @ '') when metadata=etcd'')),
       reject_if (1 < cfg_generator_ownership_modulo c
           \<and> eq_ignore_ascii_case (str_trim (cfg_ownership_plan_id c)) DEFAULT_OWNERSHIP_PLAN_ID)
         (Security ''CHRONOS_OWNERSHIP_PLAN_ID must be explicitly set when metadata=etcd and generator ownership is partitioned'')]"

definition validate_authoritative_metadata_runtime_contract :: "tso_config \<Rightarrow> unit config_result" where
  "validate_authoritative_metadata_runtime_contract c =
     (if \<not> eq_ignore_ascii_case (str_trim (cfg_metadata_kind c)) ''etcd'' then Inr ()
      else validate_authoritative_metadata_runtime_contract_for_etcd c)"

definition validate_authoritative_metadata_store_contract ::
    "string list \<Rightarrow> string \<Rightarrow> tso_config \<Rightarrow> unit config_result" where
  "validate_authoritative_metadata_store_contract endpoints prefix c =
     checks [
       reject_if (endpoints = [])
         (Security ''CHRONOS_ETCD_ENDPOINTS must not be empty when metadata=etcd''),
       validate_etcd_endpoint_contract (c \<lparr> cfg_etcd_endpoints := endpoints \<rparr>),
       (let p = str_trim prefix in
        reject_if (p = [] \<or> \<not> str_starts_with p ''/'')
          (Security ''CHRONOS_ETCD_PREFIX must be a non-empty absolute key prefix when metadata=etcd''))]"

definition validate_health_bind_addr :: "tso_config \<Rightarrow> unit config_result" where
  "validate_health_bind_addr c =
     (case cfg_health_bind_addr c of
        None \<Rightarrow> Inr ()
      | Some health_bind_addr \<Rightarrow>
          and_then (config_parse_socket_addr health_bind_addr ''CHRONOS_HEALTH_BIND_ADDR'') (\<lambda>health_addr.
          and_then (config_parse_socket_addr (cfg_bind_addr c) ''CHRONOS_BIND_ADDR'') (\<lambda>grpc_addr.
          and_then (config_parse_socket_addr (cfg_metrics_bind_addr c) ''CHRONOS_METRICS_BIND_ADDR'')
            (\<lambda>metrics_addr.
               checks [
                 reject_if (health_addr = grpc_addr)
                   (Security ''CHRONOS_HEALTH_BIND_ADDR must not reuse CHRONOS_BIND_ADDR''),
                 reject_if (health_addr = metrics_addr)
                   (Security ''CHRONOS_HEALTH_BIND_ADDR must not reuse CHRONOS_METRICS_BIND_ADDR'')]))))"

subsection \<open>The whole check\<close>

definition grpc_tls_fields :: "tso_config \<Rightarrow> tls_fields" where
  "grpc_tls_fields c =
     [(''CHRONOS_GRPC_TLS_CERT_FILE'', cfg_grpc_tls_cert_file c),
      (''CHRONOS_GRPC_TLS_KEY_FILE'', cfg_grpc_tls_key_file c),
      (''CHRONOS_GRPC_CLIENT_CA_FILE'', cfg_grpc_client_ca_file c)]"

definition metrics_tls_fields :: "tso_config \<Rightarrow> tls_fields" where
  "metrics_tls_fields c =
     [(''CHRONOS_METRICS_TLS_CERT_FILE'', cfg_metrics_tls_cert_file c),
      (''CHRONOS_METRICS_TLS_KEY_FILE'', cfg_metrics_tls_key_file c),
      (''CHRONOS_METRICS_CLIENT_CA_FILE'', cfg_metrics_client_ca_file c)]"

definition etcd_tls_fields :: "tso_config \<Rightarrow> tls_fields" where
  "etcd_tls_fields c =
     [(''CHRONOS_ETCD_CA_FILE'', cfg_etcd_ca_file c),
      (''CHRONOS_ETCD_CERT_FILE'', cfg_etcd_cert_file c),
      (''CHRONOS_ETCD_KEY_FILE'', cfg_etcd_key_file c)]"

definition validate_configured_security :: "file_system \<Rightarrow> tso_config \<Rightarrow> unit config_result" where
  \<comment> \<open>the checks that apply in every security mode\<close>
  "validate_configured_security fs c =
     checks [
       validate_tls_bundle ''gRPC TLS'' (grpc_tls_fields c) False,
       validate_tls_bundle ''metrics TLS'' (metrics_tls_fields c) False,
       validate_tls_bundle ''etcd TLS'' (etcd_tls_fields c) False,
       validate_readable_files fs (grpc_tls_fields c @ metrics_tls_fields c @ etcd_tls_fields c),
       validate_private_key_files fs
         [(''CHRONOS_GRPC_TLS_KEY_FILE'', cfg_grpc_tls_key_file c),
          (''CHRONOS_METRICS_TLS_KEY_FILE'', cfg_metrics_tls_key_file c),
          (''CHRONOS_ETCD_KEY_FILE'', cfg_etcd_key_file c)],
       validate_positive_optional_u64 ''CHRONOS_GRPC_REQUEST_TIMEOUT_MS'' (cfg_grpc_request_timeout_ms c),
       validate_sha256_fingerprint_allowlist ''CHRONOS_GRPC_CONTROL_CERT_ALLOWLIST''
         (cfg_grpc_control_cert_allowlist c),
       validate_sha256_fingerprint_allowlist ''CHRONOS_GRPC_ROUTE_CERT_ALLOWLIST''
         (cfg_grpc_route_cert_allowlist c),
       validate_sha256_fingerprint_allowlist ''CHRONOS_GRPC_TIMESTAMP_CERT_ALLOWLIST''
         (cfg_grpc_timestamp_cert_allowlist c),
       validate_sha256_fingerprint_allowlist ''CHRONOS_GRPC_STATUS_CERT_ALLOWLIST''
         (cfg_grpc_status_cert_allowlist c),
       validate_positive_optional_usize ''CHRONOS_GRPC_MAX_REQUEST_BYTES'' (cfg_grpc_max_request_bytes c),
       validate_positive_optional_usize ''CHRONOS_GRPC_MAX_CONCURRENT_REQUESTS''
         (cfg_grpc_max_concurrent_requests c),
       validate_positive_optional_u64 ''CHRONOS_ETCD_TIMEOUT_MS'' (cfg_etcd_timeout_ms c),
       and_then (grpc_tls_paths c) (\<lambda>paths.
         if paths = None then Inr ()
         else checks [
           require_non_empty_allowlist ''CHRONOS_GRPC_CONTROL_CERT_ALLOWLIST''
             (cfg_grpc_control_cert_allowlist c),
           require_non_empty_allowlist ''CHRONOS_GRPC_ROUTE_CERT_ALLOWLIST''
             (cfg_grpc_route_cert_allowlist c),
           require_non_empty_allowlist ''CHRONOS_GRPC_TIMESTAMP_CERT_ALLOWLIST''
             (cfg_grpc_timestamp_cert_allowlist c),
           require_non_empty_allowlist ''CHRONOS_GRPC_STATUS_CERT_ALLOWLIST''
             (cfg_grpc_status_cert_allowlist c)])]"

definition validate_security_requirements ::
    "file_system \<Rightarrow> tso_security_mode \<Rightarrow> tso_config \<Rightarrow> unit config_result" where
  "validate_security_requirements fs mode c =
     and_then (validate_configured_security fs c) (\<lambda>_.
       if mode \<noteq> Required then Inr ()
       else checks [
         and_then (grpc_remote_exposed c) (\<lambda>exposed.
           if \<not> exposed then Inr ()
           else checks [
             validate_tls_bundle ''gRPC TLS'' (grpc_tls_fields c) True,
             require_positive_u64 ''CHRONOS_GRPC_REQUEST_TIMEOUT_MS'' (cfg_grpc_request_timeout_ms c),
             require_positive_usize ''CHRONOS_GRPC_MAX_REQUEST_BYTES'' (cfg_grpc_max_request_bytes c),
             require_positive_usize ''CHRONOS_GRPC_MAX_CONCURRENT_REQUESTS''
               (cfg_grpc_max_concurrent_requests c)]),
         and_then (metrics_remote_exposed c) (\<lambda>exposed.
           if \<not> exposed then Inr ()
           else validate_tls_bundle ''metrics TLS'' (metrics_tls_fields c) True),
         (if \<not> etcd_remote_exposed c then Inr ()
          else checks [
            validate_tls_bundle ''etcd TLS'' (etcd_tls_fields c) True,
            require_positive_u64 ''CHRONOS_ETCD_TIMEOUT_MS'' (cfg_etcd_timeout_ms c)])])"

fun check_remainders :: "u32 \<Rightarrow> u32 list \<Rightarrow> u32 list \<Rightarrow> unit config_result" where
  \<comment> \<open>the remainders left, and those seen so far\<close>
  "check_remainders modul [] seen = Inr ()"
| "check_remainders modul (remainder # rest) seen =
     (if modul \<le> remainder then Inl (GeneratorOwnershipMisconfigured modul remainder)
      else if remainder \<in> set seen
      then Inl (Security (''generator ownership remainder '' @ fmt_dec (unat remainder)
             @ '' is configured more than once''))
      else check_remainders modul rest (remainder # seen))"

definition validate_tier_generators :: "tso_config \<Rightarrow> unit config_result" where
  "validate_tier_generators c =
     (let max_gens = max_generators (cfg_timestamp_layout c) in
      case checked_add (cfg_shared_generators c) (cfg_warm_generators c) of
        None \<Rightarrow> Inl (TooManyTierGenerators max_gens)
      | Some t \<Rightarrow> reject_if (max_gens < t) (TooManyTierGenerators max_gens))"

definition validate_default_tier :: "tso_config \<Rightarrow> unit config_result" where
  "validate_default_tier c =
     (case cfg_default_resource_tier c of
        Shared \<Rightarrow> reject_if (cfg_shared_generators c = 0) (MissingDefaultTierCapacity Shared)
      | Warm \<Rightarrow> reject_if (cfg_warm_generators c = 0) (MissingDefaultTierCapacity Warm)
      | Dedicated \<Rightarrow> Inr ())"

definition validate_layout_for_startup :: "tso_config \<Rightarrow> unit config_result" where
  "validate_layout_for_startup c =
     (case layout_validate (cfg_timestamp_layout c) of
        Inr _ \<Rightarrow> Inr ()
      | Inl e \<Rightarrow> Inl (InvalidTimestampLayout (layout_error_to_string e)))"

definition validate_for_startup :: "file_system \<Rightarrow> tso_config \<Rightarrow> unit config_result" where
  "validate_for_startup fs c =
     checks [
       validate_layout_for_startup c,
       reject_if (str_trim (cfg_worker_id c) = []) EmptyWorkerId,
       reject_if (str_trim (cfg_advertise_endpoint c) = []) EmptyAdvertiseEndpoint,
       and_then (parse_advertise_endpoint_host (cfg_advertise_endpoint c)) (\<lambda>_. Inr ()),
       validate_health_bind_addr c,
       validate_tier_generators c,
       reject_if (cfg_generator_ownership_modulo c = 0)
         (GeneratorOwnershipMisconfigured (cfg_generator_ownership_modulo c)
            (cfg_generator_ownership_remainder c)),
       check_remainders (cfg_generator_ownership_modulo c) (effective_generator_ownership_remainders c) [],
       reject_if (str_trim (cfg_ownership_plan_id c) = []) (Security ''ownership_plan_id must not be blank''),
       reject_if (cfg_max_batch_per_request c = 0) ZeroMaxBatchPerRequest,
       reject_if (cfg_lease_ttl_ms c = 0) ZeroLeaseTtl,
       reject_if (cfg_generator_maintenance_interval_ms c = 0) ZeroGeneratorMaintenanceInterval,
       reject_if (cfg_lease_ttl_ms c \<le> cfg_generator_maintenance_interval_ms c)
         (GeneratorMaintenanceIntervalTooLarge (cfg_generator_maintenance_interval_ms c) (cfg_lease_ttl_ms c)),
       reject_if (cfg_generator_lease_ttl_ms c \<noteq> 0
           \<and> cfg_generator_lease_ttl_ms c \<le> cfg_generator_maintenance_interval_ms c)
         (GeneratorLeaseTtlTooSmall (cfg_generator_maintenance_interval_ms c) (cfg_generator_lease_ttl_ms c)),
       reject_if (cfg_max_timeline_proxy_lanes c = 0) ZeroMaxTimelineProxyLanes,
       reject_if (cfg_max_timeline_runtime_entries c = 0) ZeroMaxTimelineRuntimeEntries,
       reject_if (cfg_max_concurrent_timeline_loads c = 0) ZeroMaxConcurrentTimelineLoads,
       reject_if (cfg_max_timeline_records c = 0) ZeroMaxTimelineRecords,
       reject_if (cfg_grpc_max_connections c = 0) ZeroGrpcMaxConnections,
       validate_positive_u64_value ''CHRONOS_REQUEST_RECORD_PENDING_TIMEOUT_MS''
         (cfg_request_record_pending_timeout_ms c),
       validate_positive_u64_value ''CHRONOS_REQUEST_RECORD_RETENTION_MS'' (cfg_request_record_retention_ms c),
       validate_positive_u64_value ''CHRONOS_AUTO_FAILOVER_INTERVAL_MS'' (cfg_auto_failover_interval_ms c),
       validate_positive_usize_value ''CHRONOS_AUTO_FAILOVER_BATCH_SIZE'' (cfg_auto_failover_batch_size c),
       reject_if (cfg_request_record_retention_ms c < cfg_request_record_pending_timeout_ms c)
         (Security ''CHRONOS_REQUEST_RECORD_RETENTION_MS must be greater than or equal to CHRONOS_REQUEST_RECORD_PENDING_TIMEOUT_MS''),
       validate_default_tier c,
       and_then (resolve_effective_security_mode c) (\<lambda>mode. validate_security_requirements fs mode c)]"

subsection \<open>Facts\<close>

lemmas check_rules = checks_Inr list.set ball_simps reject_if_Inr result_simps

lemma check_remainders_Inr:
  "check_remainders m rs seen = Inr () \<longleftrightarrow>
     (\<forall>r \<in> set rs. r < m) \<and> distinct rs \<and> set rs \<inter> set seen = {}"
  by (induction m rs seen rule: check_remainders.induct) (auto simp: not_le)

lemma startup_parts:
  assumes "validate_for_startup fs c = Inr ()"
  shows "layout_valid (cfg_timestamp_layout c)"
    and "validate_tier_generators c = Inr ()"
    and "check_remainders (cfg_generator_ownership_modulo c) (effective_generator_ownership_remainders c) [] = Inr ()"
    and "cfg_generator_ownership_modulo c \<noteq> 0"
    and "cfg_lease_ttl_ms c \<noteq> 0" "cfg_generator_maintenance_interval_ms c \<noteq> 0"
    and "\<not> cfg_lease_ttl_ms c \<le> cfg_generator_maintenance_interval_ms c"
    and "\<not> (cfg_generator_lease_ttl_ms c \<noteq> 0 \<and> cfg_generator_lease_ttl_ms c \<le> cfg_generator_maintenance_interval_ms c)"
    and "\<not> cfg_request_record_retention_ms c < cfg_request_record_pending_timeout_ms c"
    and "validate_default_tier c = Inr ()"
    and "\<exists>mode. resolve_effective_security_mode c = Inr mode \<and> validate_security_requirements fs mode c = Inr ()"
proof -
  have "\<forall>r \<in> set [validate_layout_for_startup c, validate_tier_generators c,
      check_remainders (cfg_generator_ownership_modulo c) (effective_generator_ownership_remainders c) [],
      validate_default_tier c,
      and_then (resolve_effective_security_mode c) (\<lambda>mode. validate_security_requirements fs mode c)]. r = Inr ()"
    using assms unfolding validate_for_startup_def check_rules by simp
  then show "layout_valid (cfg_timestamp_layout c)" "validate_tier_generators c = Inr ()"
    "check_remainders (cfg_generator_ownership_modulo c) (effective_generator_ownership_remainders c) [] = Inr ()"
    "validate_default_tier c = Inr ()"
    "\<exists>mode. resolve_effective_security_mode c = Inr mode \<and> validate_security_requirements fs mode c = Inr ()"
    by (auto simp: validate_layout_for_startup_def result_simps split: sum.splits)
  show "cfg_generator_ownership_modulo c \<noteq> 0" "cfg_lease_ttl_ms c \<noteq> 0"
    "cfg_generator_maintenance_interval_ms c \<noteq> 0"
    "\<not> cfg_lease_ttl_ms c \<le> cfg_generator_maintenance_interval_ms c"
    "\<not> (cfg_generator_lease_ttl_ms c \<noteq> 0 \<and> cfg_generator_lease_ttl_ms c \<le> cfg_generator_maintenance_interval_ms c)"
    "\<not> cfg_request_record_retention_ms c < cfg_request_record_pending_timeout_ms c"
    using assms unfolding validate_for_startup_def check_rules by simp_all
qed

lemma complete_bundle:
  assumes "validate_tls_bundle name flds True = Inr ()"
  shows "\<forall>(n, v) \<in> set flds. v \<noteq> None"
proof -
  have "length (filter (\<lambda>(_, v). v \<noteq> None) flds) = length flds"
    using assms by (simp add: validate_tls_bundle_def Let_def split: if_splits)
  then show ?thesis by (metis (mono_tags, lifting) filter_id_conv length_filter_less less_irrefl)
qed

lemma private_key_file_ok:
  assumes "validate_private_key_files fs flds = Inr ()" "Some path \<in> snd ` set flds"
  shows "\<exists>m. fs_symlink_metadata fs path = Inr m \<and> \<not> fm_is_symlink m \<and> fm_is_file m
    \<and> fm_mode m AND 0x3F = 0"
proof -
  from assms(2) obtain n where "(n, Some path) \<in> set flds" by (metis imageE prod.collapse)
  with assms(1) have "validate_private_key_file fs n path = Inr ()"
    unfolding validate_private_key_files_def checks_Inr by fastforce
  moreover have "(m AND 0x1FF) AND 0x3F = m AND (0x3F :: u32)" for m by (simp add: and.assoc)
  ultimately show ?thesis
    by (auto simp: validate_private_key_file_def check_rules Let_def split: sum.splits)
qed

lemma resolved_mode_exposed:
  assumes "resolve_effective_security_mode c = Inr mode"
    and "grpc_remote_exposed c = Inr True \<or> metrics_remote_exposed c = Inr True \<or> etcd_remote_exposed c
      \<or> cfg_production_profile c"
  shows "mode = Required"
  using assms
  by (auto simp: resolve_effective_security_mode_def has_nonlocal_topology_signal_def and_then_def
      split: sum.splits if_splits option.splits tso_security_mode.splits)

lemma u64_half_less: "(a :: u64) \<noteq> 0 \<Longrightarrow> a \<noteq> 1 \<Longrightarrow> max (a div 2) 1 < a"
proof -
  assume "a \<noteq> 0" "a \<noteq> 1"
  then have "1 < unat a" by (metis One_nat_def less_one linorder_neqE_nat unat_0 unat_1 word_unat_eq_iff)
  then show ?thesis by (simp add: word_less_nat_alt unat_div max_def)
qed

subsection \<open>Properties\<close>

text \<open>
  C21: a configuration that passes the startup check is coherent: its layout is valid, the shared and
  warm pools fit into the generators of the layout, the ownership remainders are distinct and below
  the modulus, the default tier has generators, finished requests are kept at least as long as
  pending ones, and the interval of the maintenance loop is positive, within the configured one and
  shorter than a generator lease, so a lease is looked at before it expires.
\<close>
theorem startup_config_coherent:
  assumes "validate_for_startup fs c = Inr ()"
  shows "layout_valid (cfg_timestamp_layout c)
    \<and> unat (cfg_shared_generators c) + unat (cfg_warm_generators c) \<le> unat (max_generators (cfg_timestamp_layout c))
    \<and> (\<forall>r \<in> set (effective_generator_ownership_remainders c). r < cfg_generator_ownership_modulo c)
    \<and> distinct (effective_generator_ownership_remainders c)
    \<and> (cfg_default_resource_tier c = Shared \<longrightarrow> cfg_shared_generators c \<noteq> 0)
    \<and> (cfg_default_resource_tier c = Warm \<longrightarrow> cfg_warm_generators c \<noteq> 0)
    \<and> cfg_request_record_pending_timeout_ms c \<le> cfg_request_record_retention_ms c
    \<and> 1 \<le> fst (effective_generator_maintenance_cadence c)
    \<and> fst (effective_generator_maintenance_cadence c) \<le> cfg_generator_maintenance_interval_ms c
    \<and> fst (effective_generator_maintenance_cadence c) < effective_generator_lease_ttl_ms c"
proof -
  note p = startup_parts [OF assms]
  have tier: "unat (cfg_shared_generators c) + unat (cfg_warm_generators c) \<le> unat (max_generators (cfg_timestamp_layout c))"
    using p(2) by (auto simp: validate_tier_generators_def Let_def not_less word_le_nat_alt checked_add_SomeD
        dest!: checked_add_SomeD split: option.splits)
  let ?ttl = "effective_generator_lease_ttl_ms c" and ?i = "cfg_generator_maintenance_interval_ms c"
  have ttl: "?i < ?ttl" using p(7,8) by (auto simp: effective_generator_lease_ttl_ms_def not_le)
  with p(6) have "?ttl \<noteq> 0" "?ttl \<noteq> 1" by (auto simp: word_less_nat_alt unat_eq_zero)
  then have half: "max (?ttl div 2) 1 < ?ttl" by (rule u64_half_less)
  have one: "1 \<le> ?i" using p(6) by (simp add: word_le_nat_alt unat_gt_0 Suc_le_eq)
  have cad: "fst (effective_generator_maintenance_cadence c)
      = min (min ?i (max (cfg_pre_borrow_ms c div 2) 1)) (max (?ttl div 2) 1)"
    by (simp add: effective_generator_maintenance_cadence_def Let_def)
  have "1 \<le> fst (effective_generator_maintenance_cadence c)" "fst (effective_generator_maintenance_cadence c) \<le> ?i"
    "fst (effective_generator_maintenance_cadence c) < ?ttl"
    unfolding cad using one half by (simp_all add: min_less_iff_disj min.coboundedI1)
  moreover have "cfg_default_resource_tier c = Shared \<longrightarrow> cfg_shared_generators c \<noteq> 0"
    "cfg_default_resource_tier c = Warm \<longrightarrow> cfg_warm_generators c \<noteq> 0"
    using p(10) by (auto simp: validate_default_tier_def)
  ultimately show ?thesis using p(1,3,9) tier by (simp add: check_remainders_Inr not_less)
qed

text \<open>
  C22: a worker that can be reached from another machine never starts without mutual TLS: when the
  startup check passes, an exposed gRPC port has its complete TLS bundle, four non-empty allowlists,
  a request timeout and a concurrency limit, exposed metrics and a remote etcd have their bundles, the
  production profile excludes the insecure mode, and no private key file is a link or open to other
  users.
\<close>
theorem exposed_worker_requires_tls:
  assumes "validate_for_startup fs c = Inr ()"
  shows "(grpc_remote_exposed c = Inr True \<longrightarrow>
        (\<exists>paths. grpc_tls_paths c = Inr (Some paths))
        \<and> cfg_grpc_control_cert_allowlist c \<noteq> [] \<and> cfg_grpc_route_cert_allowlist c \<noteq> []
        \<and> cfg_grpc_timestamp_cert_allowlist c \<noteq> [] \<and> cfg_grpc_status_cert_allowlist c \<noteq> []
        \<and> (\<exists>t > 0. cfg_grpc_request_timeout_ms c = Some t)
        \<and> (\<exists>n > 0. cfg_grpc_max_concurrent_requests c = Some n))
    \<and> (metrics_remote_exposed c = Inr True \<longrightarrow> (\<exists>paths. metrics_tls_paths c = Inr (Some paths)))
    \<and> (etcd_remote_exposed c \<longrightarrow> (\<exists>paths. etcd_tls_paths c = Inr (Some paths)))
    \<and> (cfg_production_profile c \<longrightarrow> cfg_security_mode c \<noteq> Some DevInsecure)
    \<and> (\<forall>path. Some path \<in> {cfg_grpc_tls_key_file c, cfg_metrics_tls_key_file c, cfg_etcd_key_file c} \<longrightarrow>
        (\<exists>m. fs_symlink_metadata fs path = Inr m \<and> \<not> fm_is_symlink m \<and> fm_is_file m \<and> fm_mode m AND 0x3F = 0))"
proof -
  obtain mode where m: "resolve_effective_security_mode c = Inr mode" "validate_security_requirements fs mode c = Inr ()"
    using startup_parts(11) [OF assms] by blast
  have conf: "validate_configured_security fs c = Inr ()"
    using m(2) by (auto simp: validate_security_requirements_def and_then_eq_Inr)
  have keys: "\<exists>m. fs_symlink_metadata fs path = Inr m \<and> \<not> fm_is_symlink m \<and> fm_is_file m \<and> fm_mode m AND 0x3F = 0"
    if "Some path \<in> {cfg_grpc_tls_key_file c, cfg_metrics_tls_key_file c, cfg_etcd_key_file c}" for path
  proof -
    let ?ks = "[(''CHRONOS_GRPC_TLS_KEY_FILE'', cfg_grpc_tls_key_file c),
        (''CHRONOS_METRICS_TLS_KEY_FILE'', cfg_metrics_tls_key_file c), (''CHRONOS_ETCD_KEY_FILE'', cfg_etcd_key_file c)]"
    have ks: "validate_private_key_files fs ?ks = Inr ()"
      using conf unfolding validate_configured_security_def check_rules by simp
    have "Some path \<in> snd ` set ?ks" using that by (simp only: list.set image_insert image_empty snd_conv)
    with ks show ?thesis by (rule private_key_file_ok)
  qed
  have req: "checks [validate_tls_bundle ''gRPC TLS'' (grpc_tls_fields c) True,
      require_positive_u64 ''CHRONOS_GRPC_REQUEST_TIMEOUT_MS'' (cfg_grpc_request_timeout_ms c),
      require_positive_usize ''CHRONOS_GRPC_MAX_REQUEST_BYTES'' (cfg_grpc_max_request_bytes c),
      require_positive_usize ''CHRONOS_GRPC_MAX_CONCURRENT_REQUESTS'' (cfg_grpc_max_concurrent_requests c)] = Inr ()"
    if "grpc_remote_exposed c = Inr True"
    using m that resolved_mode_exposed [OF m(1)]
    by (simp add: validate_security_requirements_def and_then_eq_Inr checks_Inr)
  have mreq: "validate_tls_bundle ''metrics TLS'' (metrics_tls_fields c) True = Inr ()"
    if "metrics_remote_exposed c = Inr True"
    using m that resolved_mode_exposed [OF m(1)]
    by (simp add: validate_security_requirements_def and_then_eq_Inr checks_Inr)
  have ereq: "validate_tls_bundle ''etcd TLS'' (etcd_tls_fields c) True = Inr ()" if "etcd_remote_exposed c"
    using m that resolved_mode_exposed [OF m(1)]
    by (simp add: validate_security_requirements_def and_then_eq_Inr checks_Inr)
  have paths: "\<exists>paths. grpc_tls_paths c = Inr (Some paths)" if "grpc_remote_exposed c = Inr True"
    using req [OF that] complete_bundle [of "''gRPC TLS''" "grpc_tls_fields c"]
    by (auto simp: checks_Inr grpc_tls_fields_def grpc_tls_paths_def server_tls_paths_from_options_def)
  have allow: "cfg_grpc_control_cert_allowlist c \<noteq> [] \<and> cfg_grpc_route_cert_allowlist c \<noteq> []
      \<and> cfg_grpc_timestamp_cert_allowlist c \<noteq> [] \<and> cfg_grpc_status_cert_allowlist c \<noteq> []"
    if "grpc_remote_exposed c = Inr True"
  proof -
    from paths [OF that] obtain paths where "grpc_tls_paths c = Inr (Some paths)" by blast
    with conf show ?thesis
      by (simp add: validate_configured_security_def checks_Inr require_non_empty_allowlist_def)
  qed
  have limits: "(\<exists>t > 0. cfg_grpc_request_timeout_ms c = Some t) \<and> (\<exists>n > 0. cfg_grpc_max_concurrent_requests c = Some n)"
    if "grpc_remote_exposed c = Inr True"
    using req [OF that]
    by (auto simp: checks_Inr require_positive_u64_def require_positive_usize_def split: option.splits if_splits)
  have "\<exists>paths. metrics_tls_paths c = Inr (Some paths)" if "metrics_remote_exposed c = Inr True"
    using complete_bundle [OF mreq [OF that]]
    by (auto simp: metrics_tls_fields_def metrics_tls_paths_def server_tls_paths_from_options_def)
  moreover have "\<exists>paths. etcd_tls_paths c = Inr (Some paths)" if "etcd_remote_exposed c"
    using complete_bundle [OF ereq [OF that]]
    by (auto simp: etcd_tls_fields_def etcd_tls_paths_def client_tls_paths_from_options_def)
  moreover have "cfg_security_mode c \<noteq> Some DevInsecure" if "cfg_production_profile c"
    using m(1) that by (auto simp: resolve_effective_security_mode_def and_then_def split: sum.splits)
  ultimately show ?thesis using paths allow limits keys by blast
qed

subsection \<open>A configuration that starts\<close>

definition sample_fingerprint :: string where
  "sample_fingerprint = ''00112233445566778899AABBCCDDEEFF00112233445566778899aabbccddeeff''"

definition sample_config :: tso_config where
  \<comment> \<open>the defaults, reachable from other machines, with mutual TLS\<close>
  "sample_config = tso_config_default
     \<lparr> cfg_grpc_tls_cert_file := Some ''cert'', cfg_grpc_tls_key_file := Some ''key'',
       cfg_grpc_client_ca_file := Some ''ca'',
       cfg_grpc_control_cert_allowlist := [sample_fingerprint],
       cfg_grpc_route_cert_allowlist := [sample_fingerprint],
       cfg_grpc_timestamp_cert_allowlist := [sample_fingerprint],
       cfg_grpc_status_cert_allowlist := [sample_fingerprint],
       cfg_grpc_request_timeout_ms := Some 1000, cfg_grpc_max_request_bytes := Some 4096,
       cfg_grpc_max_concurrent_requests := Some 64 \<rparr>"

definition sample_fs :: file_system where
  "sample_fs = \<lparr> fs_open = (\<lambda>_. Inr ()),
     fs_symlink_metadata = (\<lambda>_. Inr \<lparr> fm_is_symlink = False, fm_is_file = True, fm_mode = 0x180 \<rparr>) \<rparr>"


lemma visible_trim:
  "str_trim ''default-endpoint:50051'' = ''default-endpoint:50051''"
  "str_trim ''default-endpoint'' = ''default-endpoint''"
  "str_trim ''default-worker'' = ''default-worker''"
  "str_trim ''default'' = ''default''" "str_trim ''memory'' = ''memory''"
  "str_trim ''[::1]:50051'' = ''[::1]:50051''" "str_trim ''127.0.0.1:9898'' = ''127.0.0.1:9898''"
  by (rule str_trim_visible; simp add: visible_ascii_def)+

lemmas group_numerals =
  read_ipv4_groups.simps(2) [of "pred_numeral k" for k, folded numeral_eq_Suc]
  read_groups.simps(2) [of "pred_numeral k" for k, folded numeral_eq_Suc]

lemmas address_eval = parse_socket_addr_def read_socket_addr_v4_def read_socket_addr_v6_def
  read_ipv4_addr_def read_ipv6_addr_def read_port_def read_scope_id_def read_given_char_def
  read_number_def digits_value_def to_digit_def read_separator_def group_numerals

lemma sample_addresses:
  "parse_advertise_endpoint_host DEFAULT_ADVERTISE_ENDPOINT = Inr ''default-endpoint''"
  "parse_socket_addr DEFAULT_METRICS_BIND_ADDR = Some (SocketV4 [127, 0, 0, 1] 9898)"
  by (simp add: parse_advertise_endpoint_host_def DEFAULT_ADVERTISE_ENDPOINT_def visible_trim
      str_strip_prefix_def str_starts_with_def str_rsplit_once_def str_split_once_def parse_port_def
      parse_unsigned_def ascii_digit_def)
    (simp add: DEFAULT_METRICS_BIND_ADDR_def address_eval)

lemma sample_bind_addr:
  "parse_socket_addr DEFAULT_BIND_ADDR = Some (SocketV6 [0, 0, 0, 0, 0, 0, 0, 1] 50051 0)"
  by (simp add: DEFAULT_BIND_ADDR_def address_eval) (simp add: numeral_eq_Suc)

lemma sample_fingerprint_ok: "\<exists>f. normalize_sha256_fingerprint sample_fingerprint = Inr f"
proof -
  have "str_trim sample_fingerprint = sample_fingerprint"
    unfolding sample_fingerprint_def by (rule str_trim_visible) (simp_all add: visible_ascii_def)
  then show ?thesis
    by (simp add: normalize_sha256_fingerprint_def sample_fingerprint_def SHA256_FINGERPRINT_LEN_def
        fingerprint_separator_def decode_hex_nibble_def)
qed

lemma sample_config_core:
  "cfg_timestamp_layout sample_config = DEFAULT_TIMESTAMP_LAYOUT"
  "cfg_worker_id sample_config = DEFAULT_WORKER_ID"
  "cfg_advertise_endpoint sample_config = DEFAULT_ADVERTISE_ENDPOINT"
  "cfg_health_bind_addr sample_config = None"
  "cfg_shared_generators sample_config = 128" "cfg_warm_generators sample_config = 128"
  "cfg_generator_ownership_modulo sample_config = 1" "cfg_generator_ownership_remainder sample_config = 0"
  "cfg_generator_ownership_remainders sample_config = []"
  "cfg_ownership_plan_id sample_config = DEFAULT_OWNERSHIP_PLAN_ID"
  "cfg_max_batch_per_request sample_config = 4096" "cfg_lease_ttl_ms sample_config = 3000"
  "cfg_generator_maintenance_interval_ms sample_config = 200" "cfg_generator_lease_ttl_ms sample_config = 0"
  "cfg_default_resource_tier sample_config = Shared"
  "cfg_max_timeline_proxy_lanes sample_config \<noteq> 0" "cfg_max_timeline_runtime_entries sample_config \<noteq> 0"
  "cfg_max_concurrent_timeline_loads sample_config \<noteq> 0" "cfg_max_timeline_records sample_config \<noteq> 0"
  "cfg_grpc_max_connections sample_config \<noteq> 0"
  "cfg_request_record_pending_timeout_ms sample_config = 300000"
  "cfg_request_record_retention_ms sample_config = 3600000"
  "cfg_auto_failover_interval_ms sample_config = 1000" "cfg_auto_failover_batch_size sample_config = 16"
  by (simp_all add: sample_config_def tso_config_default_def DEFAULT_MAX_BATCH_PER_REQUEST_def
      DEFAULT_MAX_TIMELINE_PROXY_LANES_def DEFAULT_MAX_TIMELINE_RUNTIME_ENTRIES_def
      DEFAULT_MAX_CONCURRENT_TIMELINE_LOADS_def DEFAULT_MAX_TIMELINE_RECORDS_def
      DEFAULT_GRPC_MAX_CONNECTIONS_def DEFAULT_REQUEST_RECORD_PENDING_TIMEOUT_MS_def
      DEFAULT_REQUEST_RECORD_RETENTION_MS_def DEFAULT_AUTO_FAILOVER_INTERVAL_MS_def
      DEFAULT_AUTO_FAILOVER_BATCH_SIZE_def)

lemma sample_config_security:
  "cfg_bind_addr sample_config = DEFAULT_BIND_ADDR" "cfg_metrics_bind_addr sample_config = DEFAULT_METRICS_BIND_ADDR"
  "cfg_security_mode sample_config = None" "cfg_production_profile sample_config = False"
  "cfg_metadata_kind sample_config = ''memory''" "cfg_etcd_endpoints sample_config = []"
  "grpc_tls_fields sample_config = [(''CHRONOS_GRPC_TLS_CERT_FILE'', Some ''cert''),
     (''CHRONOS_GRPC_TLS_KEY_FILE'', Some ''key''), (''CHRONOS_GRPC_CLIENT_CA_FILE'', Some ''ca'')]"
  "metrics_tls_fields sample_config = [(''CHRONOS_METRICS_TLS_CERT_FILE'', None),
     (''CHRONOS_METRICS_TLS_KEY_FILE'', None), (''CHRONOS_METRICS_CLIENT_CA_FILE'', None)]"
  "etcd_tls_fields sample_config = [(''CHRONOS_ETCD_CA_FILE'', None), (''CHRONOS_ETCD_CERT_FILE'', None),
     (''CHRONOS_ETCD_KEY_FILE'', None)]"
  "cfg_grpc_tls_cert_file sample_config = Some ''cert''" "cfg_grpc_tls_key_file sample_config = Some ''key''"
  "cfg_grpc_client_ca_file sample_config = Some ''ca''"
  "cfg_metrics_tls_key_file sample_config = None" "cfg_etcd_key_file sample_config = None"
  "cfg_grpc_control_cert_allowlist sample_config = [sample_fingerprint]"
  "cfg_grpc_route_cert_allowlist sample_config = [sample_fingerprint]"
  "cfg_grpc_timestamp_cert_allowlist sample_config = [sample_fingerprint]"
  "cfg_grpc_status_cert_allowlist sample_config = [sample_fingerprint]"
  "cfg_grpc_request_timeout_ms sample_config = Some 1000" "cfg_grpc_max_request_bytes sample_config = Some 4096"
  "cfg_grpc_max_concurrent_requests sample_config = Some 64" "cfg_etcd_timeout_ms sample_config = None"
  by (simp_all add: sample_config_def tso_config_default_def grpc_tls_fields_def metrics_tls_fields_def
      etcd_tls_fields_def DEFAULT_METADATA_KIND_def)

lemma sample_exposed:
  "grpc_remote_exposed sample_config = Inr True" "metrics_remote_exposed sample_config = Inr False"
  "etcd_remote_exposed sample_config = False" "resolve_effective_security_mode sample_config = Inr Required"
proof -
  have local: "endpoint_host_is_local DEFAULT_ADVERTISE_ENDPOINT = Inr False"
    by (simp add: endpoint_host_is_local_def sample_addresses visible_trim str_trim_matches_def is_bracket_def
        to_ascii_lowercase_def ascii_lower_def str_ends_with_def str_starts_with_def parse_ip_addr_def address_eval)
  have b: "socket_addr_is_loopback DEFAULT_BIND_ADDR f = Inr True"
    "socket_addr_is_loopback DEFAULT_METRICS_BIND_ADDR f = Inr True" for f
    using sample_addresses(2) sample_bind_addr
    by (simp_all add: socket_addr_is_loopback_def config_parse_socket_addr_def DEFAULT_BIND_ADDR_def
        DEFAULT_METRICS_BIND_ADDR_def visible_trim)
  show e: "grpc_remote_exposed sample_config = Inr True" "metrics_remote_exposed sample_config = Inr False"
    "etcd_remote_exposed sample_config = False"
    by (simp_all add: grpc_remote_exposed_def metrics_remote_exposed_def etcd_remote_exposed_def
        sample_config_core sample_config_security local b)
  then show "resolve_effective_security_mode sample_config = Inr Required"
    by (simp add: resolve_effective_security_mode_def has_nonlocal_topology_signal_def sample_config_security)
qed

lemma sample_security_ok: "validate_security_requirements sample_fs Required sample_config = Inr ()"
proof -
  have fp: "validate_sha256_fingerprint_allowlist k [sample_fingerprint] = Inr ()" for k
    using sample_fingerprint_ok by (auto simp: validate_sha256_fingerprint_allowlist_def)
  have paths: "grpc_tls_paths sample_config
      = Inr (Some \<lparr> stp_cert_file = ''cert'', stp_key_file = ''key'', stp_client_ca_file = ''ca'' \<rparr>)"
    by (simp add: grpc_tls_paths_def server_tls_paths_from_options_def sample_config_security)
  have key: "validate_private_key_file sample_fs n p = Inr ()" for n p
    by (simp add: validate_private_key_file_def sample_fs_def checks_Inr Let_def)
  have o: "fs_open sample_fs p = Inr ()" for p by (simp add: sample_fs_def)
  have "validate_configured_security sample_fs sample_config = Inr ()"
    unfolding validate_configured_security_def checks_Inr
    by (simp add: sample_config_security fp paths key validate_tls_bundle_def validate_readable_files_def
        o validate_private_key_files_def checks_Inr validate_positive_optional_u64_def
        validate_positive_optional_usize_def require_non_empty_allowlist_def)
  then show ?thesis
    by (simp add: validate_security_requirements_def sample_exposed checks_Inr sample_config_security
        validate_tls_bundle_def require_positive_u64_def require_positive_usize_def)
qed

lemma sample_starts: "validate_for_startup sample_fs sample_config = Inr ()"
proof -
  have t: "str_trim DEFAULT_WORKER_ID \<noteq> []" "str_trim DEFAULT_ADVERTISE_ENDPOINT \<noteq> []"
    "str_trim DEFAULT_OWNERSHIP_PLAN_ID \<noteq> []"
    by (simp_all add: DEFAULT_WORKER_ID_def DEFAULT_ADVERTISE_ENDPOINT_def DEFAULT_OWNERSHIP_PLAN_ID_def visible_trim)
  have "validate_layout_for_startup sample_config = Inr ()"
    using default_layout_valid by (simp add: validate_layout_for_startup_def sample_config_core)
  moreover have "validate_tier_generators sample_config = Inr ()"
    by (simp add: validate_tier_generators_def sample_config_core default_layout_lit max_generators_def
        checked_add_def Let_def shl_def)
  ultimately show ?thesis
    unfolding validate_for_startup_def checks_Inr
    by (simp add: sample_config_core t sample_addresses validate_health_bind_addr_def
        effective_generator_ownership_remainders_def validate_positive_u64_value_def
        validate_positive_usize_value_def validate_default_tier_def sample_exposed sample_security_ok)
qed

theorem startup_config_coherent_witness:
  "validate_for_startup sample_fs sample_config = Inr ()
   \<and> fst (effective_generator_maintenance_cadence sample_config) < effective_generator_lease_ttl_ms sample_config"
  using startup_config_coherent [OF sample_starts] sample_starts by simp

theorem exposed_worker_requires_tls_witness:
  "validate_for_startup sample_fs sample_config = Inr () \<and> grpc_remote_exposed sample_config = Inr True
   \<and> (\<exists>paths. grpc_tls_paths sample_config = Inr (Some paths))"
  using exposed_worker_requires_tls [OF sample_starts] sample_starts sample_exposed by simp

end
