(* ===== verification/Planning.thy ===== *)
theory Planning
  imports Metadata
begin

text \<open>
  Placement and recovery decisions (\<open>planning.rs\<close>): the tier of a generator id, the choice of an owned
  generator for a timeline, and the floors a timeline or a generator recovers from. The hash of a
  timeline key is that of \<open>DefaultHasher\<close>, whose algorithm the standard library leaves open; it is a
  parameter.
\<close>

subsection \<open>Definitions\<close>

record transfer_plan =
  tp_resource_tier :: resource_tier
  tp_owner_endpoint :: string
  tp_generator_id :: "u32 option"
  tp_reason :: transfer_reason

definition resource_tier_for_generator_id :: "u32 \<Rightarrow> u32 \<Rightarrow> u32 \<Rightarrow> u32 \<Rightarrow> resource_tier tso_result" where
  "resource_tier_for_generator_id generator_id shared_generators warm_generators max_gens =
     (if max_gens \<le> generator_id then Inl (GeneratorIdOutOfRange generator_id)
      else
        let dedicated_start = shared_generators + warm_generators in
        if generator_id < shared_generators then Inr Shared
        else if generator_id < dedicated_start then Inr Warm
        else Inr Dedicated)"

definition u32_range :: "u32 \<Rightarrow> u32 \<Rightarrow> u32 list" where
  \<comment> \<open>the ids of \<open>lo..hi\<close>\<close>
  "u32_range lo hi = map of_nat [unat lo ..< unat hi]"

definition pick_owned_generator_by_hash ::
    "(string \<Rightarrow> u64) \<Rightarrow> string \<Rightarrow> u32 \<Rightarrow> u32 \<Rightarrow> (u32 \<Rightarrow> bool) \<Rightarrow> u32 tso_result" where
  "pick_owned_generator_by_hash hash tk start width owns_generator_id =
     (if width = 0 then Inl GeneratorPoolExhausted
      else
        let end_id = saturating_add start width;
            owned = filter owns_generator_id (u32_range start end_id)
        in if owned = [] then Inl GeneratorPoolExhausted
           else Inr (owned ! (unat (hash tk) mod length owned)))"

definition should_release_claimed_dedicated_generator :: "bool \<Rightarrow> resource_tier \<Rightarrow> u32 \<Rightarrow> u32 \<Rightarrow> bool" where
  "should_release_claimed_dedicated_generator claimed previous_tier previous_id claimed_id \<longleftrightarrow>
     claimed \<and> (previous_tier \<noteq> Dedicated \<or> previous_id \<noteq> claimed_id)"

definition should_release_previous_dedicated_generator_after_route_change ::
    "resource_tier \<Rightarrow> u32 \<Rightarrow> resource_tier \<Rightarrow> u32 \<Rightarrow> bool" where
  "should_release_previous_dedicated_generator_after_route_change previous_tier previous_id target_tier new_id \<longleftrightarrow>
     previous_tier = Dedicated \<and> (target_tier \<noteq> Dedicated \<or> previous_id \<noteq> new_id)"

definition safe_floor_for_transfer_reason :: "transfer_reason \<Rightarrow> u64 option \<Rightarrow> u64 option \<Rightarrow> u64 option" where
  "safe_floor_for_transfer_reason reason last_graceful_issued previous_generator_floor_tso =
     (if reason = Failover then previous_generator_floor_tso
      else opt_max last_graceful_issued previous_generator_floor_tso)"

definition generator_recovery_floor_tso :: "generator_record \<Rightarrow> u64 option" where
  "generator_recovery_floor_tso r = opt_max (gr_last_issued_tso r) (gr_issued_upper_bound r)"

definition recovered_timeline_floor_tso :: "timeline_record \<Rightarrow> u64 option" where
  "recovered_timeline_floor_tso r = opt_max (tl_last_graceful_issued r) (tl_recovery_floor_tso r)"

subsection \<open>Facts\<close>

lemma opt_max_bounds:
  "a = Some x \<Longrightarrow> \<exists>f. opt_max a b = Some f \<and> x \<le> f"
  "b = Some y \<Longrightarrow> \<exists>f. opt_max a b = Some f \<and> y \<le> f"
  by (cases b; simp) (cases a; simp)

lemma opt_max_one_of: "opt_max a b = Some f \<Longrightarrow> a = Some f \<or> b = Some f"
  by (cases a; cases b) (auto simp: max_def split: if_splits)

lemma set_u32_range: "set (u32_range lo hi) = {g. lo \<le> g \<and> g < hi}"
proof -
  have "g \<in> set (u32_range lo hi)" if "lo \<le> g" "g < hi" for g
    using that by (auto simp: u32_range_def word_le_nat_alt word_less_nat_alt intro!: image_eqI [of _ _ "unat g"])
  moreover have "lo \<le> g \<and> g < hi" if g: "g \<in> set (u32_range lo hi)" for g
  proof -
    from g obtain n where n: "g = of_nat n" "unat lo \<le> n" "n < unat hi" by (auto simp: u32_range_def)
    have "unat hi < 2 ^ LENGTH(32)" by (rule unsigned_less)
    with n have "unat g = n" by (simp only: n(1)) (rule unat_of_nat_small, linarith)
    with n show ?thesis by (simp add: word_le_nat_alt word_less_nat_alt)
  qed
  ultimately show ?thesis by blast
qed

text \<open>
  The generator picked for a timeline lies in the pool, is owned by the worker, depends on nothing
  but the key and the owned ids, and one is picked whenever the worker owns any generator of the
  pool; the tiers split the ids of the layout into the shared, the warm and the dedicated pool.
\<close>
theorem generator_pools:
  assumes "unat start + unat width < 2 ^ 32"
  shows "(\<forall>g. pick_owned_generator_by_hash hash tk start width owns = Inr g \<longrightarrow>
            start \<le> g \<and> unat g < unat start + unat width \<and> owns g)
    \<and> ((\<exists>g. start \<le> g \<and> unat g < unat start + unat width \<and> owns g) \<longleftrightarrow>
         (\<exists>g. pick_owned_generator_by_hash hash tk start width owns = Inr g))
    \<and> (unat shared + unat warm < 2 ^ 32 \<longrightarrow> g < max_gens \<longrightarrow>
         resource_tier_for_generator_id g shared warm max_gens =
           Inr (if unat g < unat shared then Shared
                else if unat g < unat shared + unat warm then Warm else Dedicated))"
proof -
  have e: "unat (saturating_add start width) = unat start + unat width"
    using assms by (simp add: saturating_add_def unat_add_small)
  let ?owned = "filter owns (u32_range start (saturating_add start width))"
  have mem: "g \<in> set ?owned \<longleftrightarrow> start \<le> g \<and> unat g < unat start + unat width \<and> owns g" for g
    by (auto simp: set_u32_range word_less_nat_alt e)
  have some: "?owned \<noteq> [] \<longleftrightarrow> (\<exists>g. g \<in> set ?owned)" by (metis ex_in_conv set_empty)
  have w: "width = 0 \<Longrightarrow> ?owned = []" using e by (simp add: u32_range_def)
  have "pick_owned_generator_by_hash hash tk start width owns = Inr g \<Longrightarrow> g \<in> set ?owned" for g
    by (auto simp: pick_owned_generator_by_hash_def Let_def simp del: set_filter split: if_splits intro!: nth_mem)
  moreover have "?owned \<noteq> [] \<longleftrightarrow> (\<exists>g. pick_owned_generator_by_hash hash tk start width owns = Inr g)"
    using w by (auto simp: pick_owned_generator_by_hash_def Let_def)
  moreover have "unat shared + unat warm < 2 ^ 32 \<Longrightarrow> g < max_gens \<Longrightarrow>
      resource_tier_for_generator_id g shared warm max_gens =
        Inr (if unat g < unat shared then Shared
             else if unat g < unat shared + unat warm then Warm else Dedicated)"
    by (simp add: resource_tier_for_generator_id_def word_less_nat_alt word_le_nat_alt unat_add_small Let_def)
  ultimately show ?thesis using mem some by (intro conjI impI allI) blast+
qed

theorem generator_pools_witness:
  "\<exists>g. pick_owned_generator_by_hash (\<lambda>_. 5) ''t'' 2 4 (\<lambda>g. g = 3) = Inr g \<and> g = 3"
proof -
  have "unat (2 :: u32) + unat (4 :: u32) < 2 ^ 32" by simp
  note * = generator_pools [OF this, of "\<lambda>_. 5" "''t''" "\<lambda>g. g = 3"]
  have "\<exists>g :: u32. 2 \<le> g \<and> unat g < unat (2 :: u32) + unat (4 :: u32) \<and> g = 3"
    by (intro exI [of _ 3]) (simp add: word_le_nat_alt)
  with * show ?thesis by blast
qed

end
