(* ===== verification/Drift.thy ===== *)
theory Drift
  imports Types "HOL-Library.AList"
begin

text \<open>
  Detection of ownership drift (\<open>service/worker_readiness.rs\<close>): another instance that keeps renewing
  the lease of a generator under this worker's endpoint. Each operation has a section under the lock,
  which decides, and a call of the sink after the lock is released; both halves are definitions of
  their own, so that operations can interleave between them.
\<close>

subsection \<open>Definitions\<close>

record ownership_drift_evidence =
  de_generator_id :: u32
  de_contending_instance_id :: string
  de_lease_expire_at_ms :: u64
  de_observed_at_ms :: u64

record ownership_drift_entry =
  dr_contending_instance_id :: string
  dr_last_lease_expire_at_ms :: u64
  dr_active :: bool
  dr_next_retry_after_ms :: u64

datatype sink_action = Started ownership_drift_evidence | Cleared

type_synonym drift_entries = "(u32 \<times> ownership_drift_entry) list"

record ownership_drift_tracker =
  dt_entries :: drift_entries
  dt_sink :: "sink_action list option"  \<comment> \<open>the calls the sink received, once it is set\<close>

definition drift_new :: ownership_drift_tracker where
  "drift_new = \<lparr> dt_entries = [], dt_sink = None \<rparr>"

definition set_sink :: "ownership_drift_tracker \<Rightarrow> ownership_drift_tracker" where
  "set_sink t = (case dt_sink t of None \<Rightarrow> t \<lparr> dt_sink := Some [] \<rparr> | Some _ \<Rightarrow> t)"

definition dispatch_sink_action :: "sink_action option \<Rightarrow> ownership_drift_tracker \<Rightarrow> ownership_drift_tracker" where
  "dispatch_sink_action action t =
     (case action of
        None \<Rightarrow> t
      | Some a \<Rightarrow> (case dt_sink t of None \<Rightarrow> t | Some calls \<Rightarrow> t \<lparr> dt_sink := Some (calls @ [a]) \<rparr>))"

definition observe_section ::
    "u32 \<Rightarrow> string \<Rightarrow> u64 \<Rightarrow> u64 \<Rightarrow> drift_entries \<Rightarrow> drift_entries \<times> sink_action option" where
  "observe_section gid contending lease_expire_at_ms observed_at_ms entries =
     (let entry = (case map_of entries gid of
            Some e \<Rightarrow> e
          | None \<Rightarrow> \<lparr> dr_contending_instance_id = contending, dr_last_lease_expire_at_ms = lease_expire_at_ms,
                      dr_active = False, dr_next_retry_after_ms = observed_at_ms \<rparr>);
          renewed = (dr_contending_instance_id entry = contending
                     \<and> dr_last_lease_expire_at_ms entry < lease_expire_at_ms);
          entry' = entry \<lparr> dr_contending_instance_id := contending,
                           dr_last_lease_expire_at_ms := lease_expire_at_ms \<rparr>
      in if renewed \<and> \<not> dr_active entry'
         then (AList.update gid (entry' \<lparr> dr_active := True \<rparr>) entries,
               Some (Started \<lparr> de_generator_id = gid, de_contending_instance_id = contending,
                               de_lease_expire_at_ms = lease_expire_at_ms, de_observed_at_ms = observed_at_ms \<rparr>))
         else (AList.update gid entry' entries, None))"

definition clear_section :: "u32 \<Rightarrow> drift_entries \<Rightarrow> drift_entries \<times> sink_action option" where
  "clear_section gid entries =
     (let removed = map_of entries gid;
          entries' = AList.delete gid entries;
          should_clear = ((case removed of Some e \<Rightarrow> dr_active e | None \<Rightarrow> False)
                          \<and> list_all (\<lambda>(_, e). \<not> dr_active e) entries')
      in (entries', if should_clear then Some Cleared else None))"

definition observe_contended_local_generator ::
    "u32 \<Rightarrow> string \<Rightarrow> u64 \<Rightarrow> u64 \<Rightarrow> ownership_drift_tracker \<Rightarrow> ownership_drift_tracker" where
  "observe_contended_local_generator gid contending lease_expire_at_ms observed_at_ms t =
     (let (entries, action) = observe_section gid contending lease_expire_at_ms observed_at_ms (dt_entries t)
      in dispatch_sink_action action (t \<lparr> dt_entries := entries \<rparr>))"

definition clear_generator :: "u32 \<Rightarrow> ownership_drift_tracker \<Rightarrow> ownership_drift_tracker" where
  "clear_generator gid t =
     (let (entries, action) = clear_section gid (dt_entries t)
      in dispatch_sink_action action (t \<lparr> dt_entries := entries \<rparr>))"

fun next_retry_entry :: "u64 \<Rightarrow> u64 \<Rightarrow> drift_entries \<Rightarrow> drift_entries \<times> u32 option" where
  "next_retry_entry now_ms retry_interval_ms [] = ([], None)"
| "next_retry_entry now_ms retry_interval_ms ((gid, e) # es) =
     (if dr_active e \<and> dr_next_retry_after_ms e \<le> now_ms
      then ((gid, e \<lparr> dr_next_retry_after_ms := saturating_add now_ms (max retry_interval_ms 1) \<rparr>) # es, Some gid)
      else let (es', r) = next_retry_entry now_ms retry_interval_ms es in ((gid, e) # es', r))"

definition next_generator_to_retry ::
    "u64 \<Rightarrow> u64 \<Rightarrow> ownership_drift_tracker \<Rightarrow> ownership_drift_tracker \<times> u32 option" where
  "next_generator_to_retry now_ms retry_interval_ms t =
     (let (es, r) = next_retry_entry now_ms retry_interval_ms (dt_entries t)
      in (t \<lparr> dt_entries := es \<rparr>, r))"

subsection \<open>The sink sees what the entries say\<close>

definition any_active :: "drift_entries \<Rightarrow> bool" where
  "any_active es \<longleftrightarrow> (\<exists>gid e. map_of es gid = Some e \<and> dr_active e)"

definition sink_says_drift :: "sink_action list \<Rightarrow> bool" where
  "sink_says_drift calls \<longleftrightarrow> calls \<noteq> [] \<and> last calls \<noteq> Cleared"

datatype drift_op = Observe u32 string u64 u64 | Clear u32 | Retry u64 u64

fun drift_step :: "drift_op \<Rightarrow> ownership_drift_tracker \<Rightarrow> ownership_drift_tracker" where
  "drift_step (Observe gid i lease obs) t = observe_contended_local_generator gid i lease obs t"
| "drift_step (Clear gid) t = clear_generator gid t"
| "drift_step (Retry now interval) t = fst (next_generator_to_retry now interval t)"

definition drift_wf :: "ownership_drift_tracker \<Rightarrow> bool" where
  "drift_wf t \<longleftrightarrow> distinct (map fst (dt_entries t))
     \<and> (\<exists>calls. dt_sink t = Some calls \<and> (sink_says_drift calls \<longleftrightarrow> any_active (dt_entries t)))"

definition others_active :: "u32 \<Rightarrow> drift_entries \<Rightarrow> bool" where
  "others_active gid es \<longleftrightarrow> (\<exists>g e. g \<noteq> gid \<and> map_of es g = Some e \<and> dr_active e)"

lemma any_active_update:
  "any_active (AList.update gid e es) \<longleftrightarrow> dr_active e \<or> others_active gid es"
  by (auto simp: any_active_def others_active_def update_conv')

lemma any_active_delete:
  "any_active (AList.delete gid es) \<longleftrightarrow> others_active gid es"
  by (auto simp: any_active_def others_active_def delete_conv' split: if_splits)

lemma any_active_list:
  assumes "distinct (map fst es)"
  shows "any_active es \<longleftrightarrow> \<not> list_all (\<lambda>(_, e). \<not> dr_active e) es"
  using assms by (auto simp: any_active_def list_all_iff)

lemma any_active_split:
  "any_active es \<longleftrightarrow> (\<exists>e. map_of es gid = Some e \<and> dr_active e)
     \<or> others_active gid es"
  by (auto simp: any_active_def others_active_def)

lemma observe_section_keeps:
  assumes "observe_section gid i lease obs es = (es', action)" "distinct (map fst es)"
  shows "distinct (map fst es')" "action \<noteq> Some Cleared"
    "action = None \<Longrightarrow> any_active es' \<longleftrightarrow> any_active es" "action \<noteq> None \<Longrightarrow> any_active es'"
  using assms
  by (auto simp: observe_section_def Let_def distinct_update any_active_update any_active_split [of es gid]
      simp del: map_of_eq_Some_iff split: if_splits option.splits)

lemma clear_section_keeps:
  assumes "clear_section gid es = (es', action)" "distinct (map fst es)"
  shows "distinct (map fst es')" "action \<in> {None, Some Cleared}"
    "action = None \<Longrightarrow> any_active es' \<longleftrightarrow> any_active es" "action = Some Cleared \<Longrightarrow> \<not> any_active es'"
proof -
  have es': "es' = AList.delete gid es" and
    a: "action = (if (case map_of es gid of Some e \<Rightarrow> dr_active e | None \<Rightarrow> False)
      \<and> list_all (\<lambda>(_, e). \<not> dr_active e) es' then Some Cleared else None)"
    using assms(1) by (auto simp: clear_section_def Let_def)
  show d: "distinct (map fst es')" using assms(2) by (simp add: es' distinct_delete)
  show "action \<in> {None, Some Cleared}" by (simp add: a)
  note l = any_active_list [OF d]
  show "action = Some Cleared \<Longrightarrow> \<not> any_active es'" using a l by (auto split: if_splits)
  show "any_active es' \<longleftrightarrow> any_active es" if "action = None"
  proof -
    from a that l have "(case map_of es gid of Some e \<Rightarrow> dr_active e | None \<Rightarrow> False) \<Longrightarrow> any_active es'"
      by (auto split: if_splits)
    then show ?thesis unfolding any_active_split [of es gid] es' any_active_delete
      by (auto simp: any_active_delete simp del: map_of_eq_Some_iff split: option.splits)
  qed
qed

lemma next_retry_entry_keys: "map fst (fst (next_retry_entry now i es)) = map fst es"
  by (induction now i es rule: next_retry_entry.induct) (auto split: prod.splits)

lemma next_retry_entry_active:
  "map_of (fst (next_retry_entry now i es)) gid = Some e \<Longrightarrow> \<exists>e'. map_of es gid = Some e' \<and> dr_active e' = dr_active e"
  "map_of es gid = Some e' \<Longrightarrow> \<exists>e. map_of (fst (next_retry_entry now i es)) gid = Some e \<and> dr_active e' = dr_active e"
  by (induction now i es rule: next_retry_entry.induct) (auto split: prod.splits if_splits)

lemma next_retry_entry_any: "any_active (fst (next_retry_entry now i es)) \<longleftrightarrow> any_active es"
  unfolding any_active_def using next_retry_entry_active by metis

lemma drift_step_wf:
  assumes "drift_wf t"
  shows "drift_wf (drift_step d t)"
proof -
  obtain calls where t: "distinct (map fst (dt_entries t))" "dt_sink t = Some calls"
    "sink_says_drift calls \<longleftrightarrow> any_active (dt_entries t)" using assms by (auto simp: drift_wf_def)
  show ?thesis
  proof (cases d)
    case (Observe gid i lease obs)
    obtain es' a where o: "observe_section gid i lease obs (dt_entries t) = (es', a)" by fastforce
    note k = observe_section_keeps [OF o t(1)]
    show ?thesis using t k
      by (cases a) (auto simp: Observe observe_contended_local_generator_def o dispatch_sink_action_def drift_wf_def
          sink_says_drift_def)
  next
    case (Clear gid)
    obtain es' a where o: "clear_section gid (dt_entries t) = (es', a)" by fastforce
    note k = clear_section_keeps [OF o t(1)]
    show ?thesis using t k
      by (cases a) (auto simp: Clear clear_generator_def o dispatch_sink_action_def drift_wf_def sink_says_drift_def)
  next
    case (Retry now i)
    then show ?thesis using t
      by (simp add: next_generator_to_retry_def drift_wf_def next_retry_entry_keys next_retry_entry_any
          split: prod.splits)
        (metis fst_conv next_retry_entry_any next_retry_entry_keys)
  qed
qed

text \<open>
  As long as the operations of the tracker run one after the other, the last call the readiness sink
  received tells the truth: it was \<open>started\<close> exactly when some generator is in drift, after any
  sequence of operations.
\<close>
theorem drift_sink_truthful:
  "\<exists>calls. dt_sink (fold drift_step ops (set_sink drift_new)) = Some calls
     \<and> (sink_says_drift calls \<longleftrightarrow> any_active (dt_entries (fold drift_step ops (set_sink drift_new))))"
proof -
  have "drift_wf t \<Longrightarrow> drift_wf (fold drift_step ops t)" for t
    by (induction ops arbitrary: t) (simp_all add: drift_step_wf)
  moreover have "drift_wf (set_sink drift_new)"
    by (simp add: drift_wf_def set_sink_def drift_new_def sink_says_drift_def any_active_def)
  ultimately show ?thesis unfolding drift_wf_def by blast
qed

text \<open>
  C23: with concurrent callers this fails, because the sink is called after the lock is released: one
  caller clears the last generator in drift, a second caller starts drift on another generator and
  tells the sink, and the first caller tells the sink only then. The sink ends on \<open>cleared\<close> while a
  generator is in drift.
\<close>
theorem drift_sink_race:
  assumes "map_of (dt_entries t) a = Some e" "dr_active e" "\<not> others_active a (dt_entries t)"
    and "distinct (map fst (dt_entries t))" "dt_sink t = Some calls" "a \<noteq> b"
    and "map_of (dt_entries t) b = Some f" "dr_contending_instance_id f = i" "dr_last_lease_expire_at_ms f < lease"
  shows "\<exists>es1 act1 es2 act2 calls'.
      clear_section a (dt_entries t) = (es1, act1)
    \<and> observe_section b i lease obs es1 = (es2, act2)
    \<and> dt_sink (dispatch_sink_action act1 (dispatch_sink_action act2 (t \<lparr> dt_entries := es2 \<rparr>))) = Some calls'
    \<and> \<not> sink_says_drift calls' \<and> any_active es2"
proof -
  let ?es1 = "AList.delete a (dt_entries t)"
  have d: "distinct (map fst ?es1)" using assms(4) by (rule distinct_delete)
  have "\<not> any_active ?es1" using assms(3) by (simp add: any_active_delete)
  then have c: "clear_section a (dt_entries t) = (?es1, Some Cleared)"
    using assms(1,2) any_active_list [OF d] by (simp add: clear_section_def Let_def del: map_of_eq_Some_iff)
  have b: "map_of ?es1 b = Some f" using assms(6,7) by (simp add: delete_conv' del: map_of_eq_Some_iff)
  have nf: "\<not> dr_active f"
    using assms(3,6,7) by (auto simp: others_active_def simp del: map_of_eq_Some_iff)
  obtain es2 ev where o: "observe_section b i lease obs ?es1 = (es2, Some (Started ev))"
    using b nf assms(8,9) by (simp add: observe_section_def Let_def del: map_of_eq_Some_iff)
  moreover have "any_active es2" using observe_section_keeps(4) [OF o d] by simp
  ultimately show ?thesis using c assms(5) by (simp add: dispatch_sink_action_def sink_says_drift_def)
qed

theorem drift_sink_race_witness:
  "\<exists>es1 act1 es2 act2 calls'.
      clear_section 7 [(7, \<lparr> dr_contending_instance_id = ''b'', dr_last_lease_expire_at_ms = 1, dr_active = True,
          dr_next_retry_after_ms = 0 \<rparr>),
        (8, \<lparr> dr_contending_instance_id = ''c'', dr_last_lease_expire_at_ms = 1, dr_active = False,
          dr_next_retry_after_ms = 0 \<rparr>)] = (es1, act1)
    \<and> observe_section 8 ''c'' 2 0 es1 = (es2, act2)
    \<and> dt_sink (dispatch_sink_action act1 (dispatch_sink_action act2 \<lparr> dt_entries = es2, dt_sink = Some [] \<rparr>)) = Some calls'
    \<and> \<not> sink_says_drift calls' \<and> any_active es2"
  using drift_sink_race [of "\<lparr> dt_entries = [(7, \<lparr> dr_contending_instance_id = ''b'',
        dr_last_lease_expire_at_ms = 1, dr_active = True, dr_next_retry_after_ms = 0 \<rparr>),
      (8, \<lparr> dr_contending_instance_id = ''c'', dr_last_lease_expire_at_ms = 1, dr_active = False,
        dr_next_retry_after_ms = 0 \<rparr>)], dt_sink = Some [] \<rparr>" 7 _ "[]" 8 _ "''c''" 2 0]
  by (simp add: others_active_def)

end
