(* ===== verification/Status.thy ===== *)
theory Status
  imports Metadata Clock Config
begin

text \<open>
  What a worker reports (\<open>status.rs\<close>): its own readiness, and the status of a timeline with its
  readiness for failover.
\<close>

subsection \<open>Definitions\<close>

datatype worker_readiness_state = Ready | Degraded

datatype worker_readiness_reason = ReasonServing | IdentityLeaseLost | ShuttingDown | OwnershipDrift

record worker_status_identity =
  wi_worker_id :: string
  wi_instance_id :: string
  wi_advertise_endpoint :: string

definition identity_from_health_info :: "health_info \<Rightarrow> worker_status_identity" where
  "identity_from_health_info h =
     \<lparr> wi_worker_id = hi_worker_id h, wi_instance_id = hi_instance_id h,
       wi_advertise_endpoint = hi_advertise_endpoint h \<rparr>"

record worker_status_snapshot =
  ws_identity :: worker_status_identity
  ws_readiness_state :: worker_readiness_state
  ws_readiness_reason :: worker_readiness_reason
  ws_identity_lease_healthy :: bool

definition status_serving :: "worker_status_identity \<Rightarrow> worker_status_snapshot" where
  "status_serving i =
     \<lparr> ws_identity = i, ws_readiness_state = Ready, ws_readiness_reason = ReasonServing,
       ws_identity_lease_healthy = True \<rparr>"

definition mark_shutting_down :: "worker_status_snapshot \<Rightarrow> worker_status_snapshot" where
  "mark_shutting_down s =
     (let s1 = s \<lparr> ws_readiness_state := Degraded \<rparr> in
      if ws_readiness_reason s1 \<noteq> IdentityLeaseLost then s1 \<lparr> ws_readiness_reason := ShuttingDown \<rparr> else s1)"

definition mark_identity_lease_lost :: "worker_status_snapshot \<Rightarrow> worker_status_snapshot" where
  "mark_identity_lease_lost s =
     s \<lparr> ws_readiness_state := Degraded, ws_readiness_reason := IdentityLeaseLost,
         ws_identity_lease_healthy := False \<rparr>"

definition mark_ownership_drift :: "worker_status_snapshot \<Rightarrow> worker_status_snapshot" where
  "mark_ownership_drift s =
     (if ws_readiness_reason s = IdentityLeaseLost \<or> ws_readiness_reason s = ShuttingDown then s
      else s \<lparr> ws_readiness_state := Degraded, ws_readiness_reason := OwnershipDrift \<rparr>)"

definition clear_ownership_drift :: "worker_status_snapshot \<Rightarrow> worker_status_snapshot" where
  "clear_ownership_drift s =
     (if ws_readiness_reason s = OwnershipDrift
      then s \<lparr> ws_readiness_state := Ready, ws_readiness_reason := ReasonServing \<rparr> else s)"

datatype timeline_failover_readiness =
  NotApplicable | Eligible | WaitingForLeaseExpiry | BlockedMissingRecoveryFloor

record timeline_status_snapshot =
  ts_route :: timeline_route
  ts_state :: timeline_lifecycle_state
  ts_recovery_floor_tso :: "u64 option"
  ts_issued_upper_bound :: "u64 option"
  ts_last_graceful_issued :: "u64 option"
  ts_lease_expire_at_ms :: "u64 option"
  ts_owner_instance_id :: "string option"
  ts_updated_at_ms :: u64
  ts_failover_readiness :: timeline_failover_readiness

definition matched_generator_record :: "timeline_record \<Rightarrow> generator_record option \<Rightarrow> generator_record option" where
  "matched_generator_record t g =
     (case g of
        None \<Rightarrow> None
      | Some r \<Rightarrow>
          if gr_generator_id r = rt_generator_id (tl_route t)
             \<and> endpoints_match (gr_owner_worker_endpoint r) (rt_owner_worker_endpoint (tl_route t))
          then Some r else None)"

definition derive_failover_readiness ::
    "u64 \<Rightarrow> u64 \<Rightarrow> u64 option \<Rightarrow> u64 option \<Rightarrow> timeline_failover_readiness" where
  "derive_failover_readiness safety_gap_ms now_ms recovery_floor_tso lease_expire_at_ms =
     (case lease_expire_at_ms of
        None \<Rightarrow> NotApplicable
      | Some expire \<Rightarrow>
          (case (lease_expired_with_safety_gap expire now_ms safety_gap_ms, recovery_floor_tso) of
             (True, Some _) \<Rightarrow> Eligible
           | (True, None) \<Rightarrow> BlockedMissingRecoveryFloor
           | (False, Some _) \<Rightarrow> WaitingForLeaseExpiry
           | (False, None) \<Rightarrow> NotApplicable))"

definition build_timeline_status_snapshot ::
    "tso_config \<Rightarrow> u64 \<Rightarrow> timeline_record \<Rightarrow> generator_record option \<Rightarrow> timeline_status_snapshot" where
  "build_timeline_status_snapshot c now_ms t g =
     (let matched = matched_generator_record t g;
          lease = (case matched of None \<Rightarrow> None | Some r \<Rightarrow> gr_lease_expire_at_ms r)
      in \<lparr> ts_route = tl_route t,
           ts_state = tl_state t,
           ts_recovery_floor_tso = tl_recovery_floor_tso t,
           ts_issued_upper_bound = tl_issued_upper_bound t,
           ts_last_graceful_issued = tl_last_graceful_issued t,
           ts_lease_expire_at_ms = lease,
           ts_owner_instance_id =
             (case matched of
                None \<Rightarrow> None
              | Some r \<Rightarrow> if gr_owner_instance_id r \<noteq> [] then Some (gr_owner_instance_id r) else None),
           ts_updated_at_ms =
             (case matched of None \<Rightarrow> tl_updated_at_ms t | Some r \<Rightarrow> max (tl_updated_at_ms t) (gr_updated_at_ms r)),
           ts_failover_readiness =
             derive_failover_readiness (cfg_safety_gap_ms c) now_ms (tl_recovery_floor_tso t) lease \<rparr>)"

subsection \<open>Readiness as a state machine\<close>

datatype readiness_event = EvShutdown | EvIdentityLost | EvDrift | EvDriftCleared

fun readiness_step :: "readiness_event \<Rightarrow> worker_status_snapshot \<Rightarrow> worker_status_snapshot" where
  "readiness_step EvShutdown s = mark_shutting_down s"
| "readiness_step EvIdentityLost s = mark_identity_lease_lost s"
| "readiness_step EvDrift s = mark_ownership_drift s"
| "readiness_step EvDriftCleared s = clear_ownership_drift s"

definition readiness_coherent :: "worker_status_snapshot \<Rightarrow> bool" where
  "readiness_coherent s \<longleftrightarrow>
     (ws_readiness_state s = Ready \<longleftrightarrow> ws_readiness_reason s = ReasonServing)
     \<and> (ws_identity_lease_healthy s \<longleftrightarrow> ws_readiness_reason s \<noteq> IdentityLeaseLost)"

lemmas readiness_defs = mark_shutting_down_def mark_identity_lease_lost_def mark_ownership_drift_def
  clear_ownership_drift_def readiness_coherent_def Let_def

lemma readiness_step_coherent: "readiness_coherent s \<Longrightarrow> readiness_coherent (readiness_step e s)"
  by (cases e) (auto simp: readiness_defs)

lemma readiness_step_final:
  "ws_readiness_reason s = IdentityLeaseLost \<Longrightarrow> ws_readiness_reason (readiness_step e s) = IdentityLeaseLost"
  "ws_readiness_reason s \<in> {ShuttingDown, IdentityLeaseLost} \<Longrightarrow>
     ws_readiness_reason (readiness_step e s) \<in> {ShuttingDown, IdentityLeaseLost}"
  by (cases e; auto simp: readiness_defs)+

text \<open>
  C24: over any sequence of events the reported readiness is coherent (ready exactly when the reason is
  serving, lease unhealthy exactly when it was lost), a worker that lost its identity lease or is
  shutting down never becomes ready again, and a lost identity lease is never masked by a later event.
\<close>
theorem readiness_final:
  "readiness_coherent (fold readiness_step es (status_serving i))
   \<and> (EvIdentityLost \<in> set es \<longleftrightarrow>
        ws_readiness_reason (fold readiness_step es (status_serving i)) = IdentityLeaseLost)
   \<and> (EvShutdown \<in> set es \<longrightarrow>
        ws_readiness_reason (fold readiness_step es (status_serving i)) \<in> {ShuttingDown, IdentityLeaseLost}
        \<and> ws_readiness_state (fold readiness_step es (status_serving i)) = Degraded)"
proof (induction es rule: rev_induct)
  case Nil
  show ?case by (simp add: status_serving_def readiness_coherent_def)
next
  case (snoc e es)
  let ?s = "fold readiness_step es (status_serving i)"
  from snoc have c: "readiness_coherent (readiness_step e ?s)" by (simp add: readiness_step_coherent)
  have l: "ws_readiness_reason (readiness_step e ?s) = IdentityLeaseLost \<longleftrightarrow>
      e = EvIdentityLost \<or> ws_readiness_reason ?s = IdentityLeaseLost"
    by (cases e) (auto simp: readiness_defs)
  have r: "ws_readiness_reason (readiness_step e ?s) \<in> {ShuttingDown, IdentityLeaseLost}"
    if "e = EvShutdown \<or> EvShutdown \<in> set es"
    using that snoc readiness_step_final(2) [of ?s e] by (auto simp: readiness_defs)
  have "ws_readiness_state (readiness_step e ?s) = Degraded"
    if "ws_readiness_reason (readiness_step e ?s) \<in> {ShuttingDown, IdentityLeaseLost}"
    using that c by (cases "ws_readiness_state (readiness_step e ?s)") (auto simp: readiness_coherent_def)
  with c l r snoc show ?case by (simp only: fold_append fold_simps comp_apply set_append) auto
qed

theorem readiness_final_witness:
  "ws_readiness_state (fold readiness_step [EvDrift, EvShutdown, EvDriftCleared]
     (status_serving \<lparr> wi_worker_id = ''w'', wi_instance_id = ''i'', wi_advertise_endpoint = ''e'' \<rparr>)) = Degraded"
  using readiness_final [of "[EvDrift, EvShutdown, EvDriftCleared]"] by simp

end
