(* ===== verification/Renewal.thy ===== *)
theory Renewal
  imports Generator Planning
begin

text \<open>
  What a lease refresh writes (\<open>service/lease/renewal.rs\<close>): whether the lease and the issuing horizon
  (the persisted upper bound) are extended, and to which values.
\<close>

subsection \<open>Definitions\<close>

datatype lease_refresh_reason = Maintenance | ExplicitRenewal | HorizonRequired

definition forces_lease_renewal :: "lease_refresh_reason \<Rightarrow> bool" where
  "forces_lease_renewal r \<longleftrightarrow> r = ExplicitRenewal"

definition forces_upper_bound :: "lease_refresh_reason \<Rightarrow> bool" where
  "forces_upper_bound r \<longleftrightarrow> r = ExplicitRenewal \<or> r = HorizonRequired"

record lease_refresh_plan =
  rp_candidate_last :: "u64 option"
  rp_previous_lease_expire_at_ms :: u64
  rp_previous_issued_upper_bound :: "u64 option"
  rp_next_upper_bound_base_ms :: u64
  rp_should_renew_lease :: bool
  rp_should_extend_upper_bound :: bool

record lease_refresh_timing =
  rtm_ttl_ms :: u64
  rtm_pre_borrow_ms :: u64

definition merge_max :: "u64 option \<Rightarrow> u64 option \<Rightarrow> u64 option" where
  "merge_max lhs rhs = opt_max lhs rhs"

definition build_with_layout ::
    "timestamp_layout \<Rightarrow> u64 \<Rightarrow> u64 option \<Rightarrow> u64 option \<Rightarrow> u64 option \<Rightarrow> u64 \<Rightarrow> lease_refresh_timing
     \<Rightarrow> lease_refresh_plan" where
  "build_with_layout l lease_expire_at_ms last_persisted_tso issued_upper_bound local_last_issued_tso
     now_ms timing =
     (let candidate_last = merge_max last_persisted_tso local_last_issued_tso;
          current_upper_bound = merge_max issued_upper_bound candidate_last
      in \<lparr> rp_candidate_last = candidate_last,
           rp_previous_lease_expire_at_ms = lease_expire_at_ms,
           rp_previous_issued_upper_bound = issued_upper_bound,
           rp_next_upper_bound_base_ms =
             (case current_upper_bound of
                Some ub \<Rightarrow> max now_ms (dt_physical_ms (decode l ub))
              | None \<Rightarrow> now_ms),
           rp_should_renew_lease = (lease_expire_at_ms \<le> saturating_add now_ms (rtm_ttl_ms timing div 2)),
           rp_should_extend_upper_bound =
             (case current_upper_bound of
                Some ub \<Rightarrow> dt_physical_ms (decode l ub) \<le> saturating_add now_ms (rtm_pre_borrow_ms timing div 2)
              | None \<Rightarrow> True) \<rparr>)"

definition needs_write :: "lease_refresh_plan \<Rightarrow> lease_refresh_reason \<Rightarrow> bool" where
  "needs_write p r \<longleftrightarrow>
     forces_lease_renewal r \<or> forces_upper_bound r \<or> rp_should_renew_lease p \<or> rp_should_extend_upper_bound p"

definition should_extend_upper_bound :: "lease_refresh_plan \<Rightarrow> lease_refresh_reason \<Rightarrow> bool" where
  "should_extend_upper_bound p r \<longleftrightarrow> forces_upper_bound r \<or> rp_should_extend_upper_bound p"

definition record_lease_expire_at_ms :: "lease_refresh_plan \<Rightarrow> u64 \<Rightarrow> lease_refresh_reason \<Rightarrow> u64" where
  "record_lease_expire_at_ms p refreshed r =
     (if forces_lease_renewal r \<or> rp_should_renew_lease p then refreshed else rp_previous_lease_expire_at_ms p)"

definition record_issued_upper_bound ::
    "lease_refresh_plan \<Rightarrow> u64 option \<Rightarrow> lease_refresh_reason \<Rightarrow> u64 option" where
  "record_issued_upper_bound p next_upper_bound r =
     (if should_extend_upper_bound p r then merge_max (rp_previous_issued_upper_bound p) next_upper_bound
      else rp_previous_issued_upper_bound p)"

lemmas plan_defs = build_with_layout_def needs_write_def should_extend_upper_bound_def
  record_lease_expire_at_ms_def record_issued_upper_bound_def merge_max_def
  forces_lease_renewal_def forces_upper_bound_def Let_def

text \<open>A refresh never lowers the persisted horizon, whatever the reason and the new bound.\<close>

lemma record_issued_upper_bound_ge: "opt_le (rp_previous_issued_upper_bound p) (record_issued_upper_bound p n r)"
  by (simp add: record_issued_upper_bound_def merge_max_def)

lemma record_issued_upper_bound_previous [simp]:
  "rp_previous_issued_upper_bound (build_with_layout l e lp ub ll now t) = ub"
  by (simp add: build_with_layout_def Let_def)

lemma candidate_last_ge:
  "opt_le lp (rp_candidate_last (build_with_layout l e lp ub ll now t))"
  "opt_le ll (rp_candidate_last (build_with_layout l e lp ub ll now t))"
  by (simp_all add: plan_defs)

end
