(* ===== verification/Cache.thy ===== *)
theory Cache
  imports Types "HOL-Library.AList" "HOL-Library.List_Lexorder" "HOL-Library.Char_ord"
    "HOL-Library.Product_Lexorder"
begin

text \<open>
  The bounded cache of timeline states (\<open>runtime/cache_eviction.rs\<close>). A timeline state is shared, so the
  cache holds its address; whether an address is held elsewhere (\<open>Arc::strong_count\<close> above one) is a
  parameter. A binary heap of reversed triples is a list kept in ascending order: popping takes the
  first element. Every operation is one step, so a check that the code repeats after taking the capacity
  lock is written once. Metrics are left out.
\<close>

subsection \<open>Definitions\<close>

definition EVICTION_CANDIDATE_BATCH_LIMIT :: nat where
  "EVICTION_CANDIDATE_BATCH_LIMIT = 128"

definition ACCESS_TICK_SAMPLE_MASK :: u64 where
  "ACCESS_TICK_SAMPLE_MASK = 0x0f"

record cache_entry =
  ce_timeline :: nat  \<comment> \<open>address of the shared timeline state\<close>
  ce_last_access_tick :: u64
  ce_access_samples :: u64

type_synonym candidate = "u64 \<times> u64 \<times> string"

record capacity_state =
  cap_generations :: "(string \<times> u64) list"
  cap_candidates :: "candidate list"

record timeline_cache =
  tc_timelines :: "(string \<times> cache_entry) list"
  tc_max_entries :: nat
  tc_access_counter :: u64
  tc_generation_counter :: u64
  tc_entry_count :: nat
  tc_capacity :: capacity_state

definition timeline_cache_new :: "nat \<Rightarrow> timeline_cache" where
  "timeline_cache_new max_entries =
     \<lparr> tc_timelines = [], tc_max_entries = max_entries, tc_access_counter = 1, tc_generation_counter = 1,
       tc_entry_count = 0, tc_capacity = \<lparr> cap_generations = [], cap_candidates = [] \<rparr> \<rparr>"

definition next_access_tick :: "timeline_cache \<Rightarrow> u64 \<times> timeline_cache" where
  "next_access_tick c = (tc_access_counter c, c \<lparr> tc_access_counter := tc_access_counter c + 1 \<rparr>)"

definition touch_entry :: "string \<Rightarrow> bool \<Rightarrow> timeline_cache \<Rightarrow> timeline_cache" where
  "touch_entry k force c =
     (case map_of (tc_timelines c) k of
        None \<Rightarrow> c
      | Some e \<Rightarrow>
          let e1 = (if force then e else e \<lparr> ce_access_samples := ce_access_samples e + 1 \<rparr>);
              c1 = c \<lparr> tc_timelines := AList.update k e1 (tc_timelines c) \<rparr>
          in if \<not> force \<and> ce_access_samples e AND ACCESS_TICK_SAMPLE_MASK \<noteq> 0 then c1
             else let (tick, c2) = next_access_tick c1
                  in c2 \<lparr> tc_timelines := AList.update k (e1 \<lparr> ce_last_access_tick := tick \<rparr>) (tc_timelines c2) \<rparr>)"

definition timeline_handle :: "string \<Rightarrow> timeline_cache \<Rightarrow> timeline_cache \<times> nat option" where
  "timeline_handle k c =
     (case map_of (tc_timelines c) k of
        Some e \<Rightarrow> (touch_entry k False c, Some (ce_timeline e))
      | None \<Rightarrow> (c, None))"

definition ensure_eviction_generation :: "string \<Rightarrow> timeline_cache \<Rightarrow> u64 \<times> timeline_cache" where
  "ensure_eviction_generation k c =
     (case map_of (cap_generations (tc_capacity c)) k of
        Some g \<Rightarrow> (g, c)
      | None \<Rightarrow>
          (tc_generation_counter c,
           c \<lparr> tc_generation_counter := tc_generation_counter c + 1,
               tc_capacity := (tc_capacity c) \<lparr> cap_generations :=
                 AList.update k (tc_generation_counter c) (cap_generations (tc_capacity c)) \<rparr> \<rparr>))"

definition push_candidate :: "candidate \<Rightarrow> timeline_cache \<Rightarrow> timeline_cache" where
  "push_candidate x c =
     c \<lparr> tc_capacity := (tc_capacity c) \<lparr> cap_candidates := insort x (cap_candidates (tc_capacity c)) \<rparr> \<rparr>"

definition record_eviction_candidate :: "string \<Rightarrow> u64 \<Rightarrow> timeline_cache \<Rightarrow> timeline_cache" where
  "record_eviction_candidate k access_tick c =
     (let (gen, c1) = ensure_eviction_generation k c in push_candidate (access_tick, gen, k) c1)"

definition remove_eviction_generation :: "string \<Rightarrow> timeline_cache \<Rightarrow> timeline_cache" where
  "remove_eviction_generation k c =
     c \<lparr> tc_capacity := (tc_capacity c) \<lparr> cap_generations := AList.delete k (cap_generations (tc_capacity c)) \<rparr> \<rparr>"

definition candidate_is_current :: "timeline_cache \<Rightarrow> candidate \<Rightarrow> bool" where
  "candidate_is_current c x = (case x of (_, gen, k) \<Rightarrow> map_of (cap_generations (tc_capacity c)) k = Some gen)"

definition maybe_compact_eviction_candidates :: "timeline_cache \<Rightarrow> timeline_cache" where
  "maybe_compact_eviction_candidates c =
     (let heap_len = length (cap_candidates (tc_capacity c));
          live_entries = tc_entry_count c;
          keep = (if live_entries = 0 then heap_len = 0 else heap_len \<le> max (live_entries * 4 + 8) 16)
      in if keep then c
         else c \<lparr> tc_capacity := (tc_capacity c) \<lparr> cap_candidates :=
                filter (candidate_is_current c) (cap_candidates (tc_capacity c)) \<rparr> \<rparr>)"

definition extend_candidates :: "candidate list \<Rightarrow> timeline_cache \<Rightarrow> timeline_cache" where
  "extend_candidates xs c = fold push_candidate xs c"

fun try_evict_idle_entry_batch ::
    "(nat \<Rightarrow> bool) \<Rightarrow> nat \<Rightarrow> candidate list \<Rightarrow> timeline_cache \<Rightarrow> (timeline_cache \<times> candidate list) \<times> bool" where
  \<comment> \<open>\<open>idle\<close> tells of an address no one else holds; the list is the deferred candidates\<close>
  "try_evict_idle_entry_batch idle 0 deferred c = ((c, deferred), False)"
| "try_evict_idle_entry_batch idle (Suc n) deferred c =
     (case cap_candidates (tc_capacity c) of
        [] \<Rightarrow> ((c, deferred), False)
      | (tick, gen, k) # rest \<Rightarrow>
          let c1 = c \<lparr> tc_capacity := (tc_capacity c) \<lparr> cap_candidates := rest \<rparr> \<rparr> in
          if map_of (cap_generations (tc_capacity c1)) k \<noteq> Some gen
          then try_evict_idle_entry_batch idle n deferred c1
          else case map_of (tc_timelines c1) k of
              None \<Rightarrow> try_evict_idle_entry_batch idle n deferred c1
            | Some e \<Rightarrow>
                if ce_last_access_tick e \<noteq> tick \<or> \<not> idle (ce_timeline e)
                then try_evict_idle_entry_batch idle n (deferred @ [(ce_last_access_tick e, gen, k)]) c1
                else
                  let c2 = remove_eviction_generation k (c1 \<lparr> tc_timelines := AList.delete k (tc_timelines c1) \<rparr>);
                      c3 = extend_candidates deferred c2
                  in ((c3 \<lparr> tc_entry_count := tc_entry_count c3 - 1 \<rparr>, []), True))"

definition evict_one_idle_entry :: "(nat \<Rightarrow> bool) \<Rightarrow> timeline_cache \<Rightarrow> timeline_cache \<times> bool" where
  "evict_one_idle_entry idle c =
     (let c1 = maybe_compact_eviction_candidates c;
          attempts = max (length (cap_candidates (tc_capacity c1))) EVICTION_CANDIDATE_BATCH_LIMIT;
          initial_len = min (length (cap_candidates (tc_capacity c1))) attempts;
          ((c2, deferred), evicted) = try_evict_idle_entry_batch idle initial_len [] c1
      in (extend_candidates deferred c2, evicted))"

definition insert_entry :: "string \<Rightarrow> nat \<Rightarrow> timeline_cache \<Rightarrow> timeline_cache" where
  \<comment> \<open>the vacant entry of both insertions\<close>
  "insert_entry k tl_addr c =
     (let (tick, c1) = next_access_tick c;
          c2 = c1 \<lparr> tc_timelines := AList.update k
                      \<lparr> ce_timeline = tl_addr, ce_last_access_tick = tick, ce_access_samples = 1 \<rparr> (tc_timelines c1),
                    tc_entry_count := tc_entry_count c1 + 1 \<rparr>
      in record_eviction_candidate k tick c2)"

definition make_room :: "(nat \<Rightarrow> bool) \<Rightarrow> timeline_cache \<Rightarrow> timeline_cache \<times> bool" where
  "make_room idle c = (if tc_max_entries c \<le> tc_entry_count c then evict_one_idle_entry idle c else (c, True))"

definition timeline_handle_or_insert_with ::
    "(nat \<Rightarrow> bool) \<Rightarrow> string \<Rightarrow> nat \<Rightarrow> timeline_cache \<Rightarrow> timeline_cache \<times> nat tso_result" where
  \<comment> \<open>the address given is the one \<open>build\<close> would allocate\<close>
  "timeline_handle_or_insert_with idle k built c =
     (case map_of (tc_timelines c) k of
        Some e \<Rightarrow> (touch_entry k False c, Inr (ce_timeline e))
      | None \<Rightarrow>
          let (c1, room) = make_room idle c in
          if \<not> room then (c1, Inl (TimelineRuntimeCacheSaturated k (tc_max_entries c1)))
          else (insert_entry k built c1, Inr built))"

definition replace_entry :: "string \<Rightarrow> nat \<Rightarrow> timeline_cache \<Rightarrow> timeline_cache" where
  "replace_entry k tl_addr c =
     (let (tick, c1) = next_access_tick c
      in c1 \<lparr> tc_timelines := AList.update k
                \<lparr> ce_timeline = tl_addr, ce_last_access_tick = tick, ce_access_samples = 1 \<rparr> (tc_timelines c1) \<rparr>)"

definition insert_timeline ::
    "(nat \<Rightarrow> bool) \<Rightarrow> string \<Rightarrow> nat \<Rightarrow> timeline_cache \<Rightarrow> timeline_cache \<times> unit tso_result" where
  "insert_timeline idle k tl_addr c =
     (case map_of (tc_timelines c) k of
        Some _ \<Rightarrow> (replace_entry k tl_addr c, Inr ())
      | None \<Rightarrow>
          let (c1, room) = make_room idle c in
          if \<not> room then (c1, Inl (TimelineRuntimeCacheSaturated k (tc_max_entries c1)))
          else (insert_entry k tl_addr c1, Inr ()))"

definition remove_timeline :: "string \<Rightarrow> timeline_cache \<Rightarrow> timeline_cache" where
  "remove_timeline k c =
     (case map_of (tc_timelines c) k of
        None \<Rightarrow> c
      | Some _ \<Rightarrow>
          let c1 = remove_eviction_generation k (c \<lparr> tc_timelines := AList.delete k (tc_timelines c) \<rparr>);
              c2 = maybe_compact_eviction_candidates c1
          in c2 \<lparr> tc_entry_count := tc_entry_count c2 - 1 \<rparr>)"

definition cache_clear :: "timeline_cache \<Rightarrow> timeline_cache" where
  "cache_clear c =
     c \<lparr> tc_timelines := [], tc_capacity := \<lparr> cap_generations = [], cap_candidates = [] \<rparr>, tc_entry_count := 0 \<rparr>"

subsection \<open>One eviction pass\<close>

definition blocked :: "(nat \<Rightarrow> bool) \<Rightarrow> timeline_cache \<Rightarrow> candidate \<Rightarrow> bool" where
  "blocked idle c x = (case x of (tick, gen, k) \<Rightarrow>
     map_of (cap_generations (tc_capacity c)) k \<noteq> Some gen
     \<or> (case map_of (tc_timelines c) k of
          None \<Rightarrow> True
        | Some e \<Rightarrow> ce_last_access_tick e \<noteq> tick \<or> \<not> idle (ce_timeline e)))"

fun requeue :: "timeline_cache \<Rightarrow> candidate list \<Rightarrow> candidate list" where
  "requeue c [] = []"
| "requeue c ((tick, gen, k) # xs) =
     (if map_of (cap_generations (tc_capacity c)) k = Some gen
      then (case map_of (tc_timelines c) k of None \<Rightarrow> [] | Some e \<Rightarrow> [(ce_last_access_tick e, gen, k)])
      else []) @ requeue c xs"

abbreviation candidates :: "timeline_cache \<Rightarrow> candidate list" where
  "candidates c \<equiv> cap_candidates (tc_capacity c)"

abbreviation generations :: "timeline_cache \<Rightarrow> (string \<times> u64) list" where
  "generations c \<equiv> cap_generations (tc_capacity c)"

definition with_candidates :: "candidate list \<Rightarrow> timeline_cache \<Rightarrow> timeline_cache" where
  "with_candidates xs c = c \<lparr> tc_capacity := (tc_capacity c) \<lparr> cap_candidates := xs \<rparr> \<rparr>"

definition evicted :: "string \<Rightarrow> candidate list \<Rightarrow> candidate list \<Rightarrow> timeline_cache \<Rightarrow> timeline_cache" where
  "evicted k post deferred c =
     (let c2 = remove_eviction_generation k
            (with_candidates post c \<lparr> tc_timelines := AList.delete k (tc_timelines c) \<rparr>);
          c3 = extend_candidates deferred c2
      in c3 \<lparr> tc_entry_count := tc_entry_count c3 - 1 \<rparr>)"

lemma with_candidates_fields [simp]:
  "candidates (with_candidates xs c) = xs" "generations (with_candidates xs c) = generations c"
  "tc_timelines (with_candidates xs c) = tc_timelines c" "tc_entry_count (with_candidates xs c) = tc_entry_count c"
  "tc_max_entries (with_candidates xs c) = tc_max_entries c"
  "with_candidates ys (with_candidates xs c) = with_candidates ys c"
  by (simp_all add: with_candidates_def)

lemma with_candidates_id: "candidates c = xs \<Longrightarrow> with_candidates xs c = c"
  by (simp add: with_candidates_def)

lemma blocked_with [simp]: "blocked idle (with_candidates xs c) = blocked idle c"
  by (simp add: blocked_def fun_eq_iff)

lemma requeue_with [simp]: "requeue (with_candidates xs c) = requeue c"
proof (rule ext)
  fix ys show "requeue (with_candidates xs c) ys = requeue c ys"
    by (induction c ys rule: requeue.induct) (simp_all split: option.split)
qed

lemma requeue_Cons: "requeue c (x # xs) = requeue c [x] @ requeue c xs"
  by (cases x) simp

lemma batch_step:
  assumes "candidates c = x # rest"
  shows "try_evict_idle_entry_batch idle (Suc n) deferred c =
    (if blocked idle c x then try_evict_idle_entry_batch idle n (deferred @ requeue c [x]) (with_candidates rest c)
     else ((evicted (snd (snd x)) rest deferred c, []), True))"
  using assms
  by (cases x) (auto simp: blocked_def evicted_def with_candidates_def Let_def split: option.splits)

lemma batch_all_blocked:
  "length (candidates c) = n \<Longrightarrow> list_all (blocked idle c) (candidates c) \<Longrightarrow>
   try_evict_idle_entry_batch idle n deferred c = ((with_candidates [] c, deferred @ requeue c (candidates c)), False)"
proof (induction n arbitrary: deferred c)
  case 0
  then show ?case by (simp add: with_candidates_id)
next
  case (Suc n)
  obtain x rest where x: "candidates c = x # rest" using Suc.prems(1) by (cases "candidates c") auto
  have "try_evict_idle_entry_batch idle (Suc n) deferred c
      = try_evict_idle_entry_batch idle n (deferred @ requeue c [x]) (with_candidates rest c)"
    using Suc.prems x by (simp add: batch_step del: try_evict_idle_entry_batch.simps)
  also have "\<dots> = ((with_candidates [] c, (deferred @ requeue c [x]) @ requeue c rest), False)"
    using Suc.prems x by (subst Suc.IH) simp_all
  finally show ?case by (simp add: x requeue_Cons [of c x rest])
qed

lemma batch_first_idle:
  "candidates c = pre @ x # post \<Longrightarrow> list_all (blocked idle c) pre \<Longrightarrow> \<not> blocked idle c x \<Longrightarrow> length pre < n \<Longrightarrow>
   try_evict_idle_entry_batch idle n deferred c = ((evicted (snd (snd x)) post (deferred @ requeue c pre) c, []), True)"
proof (induction pre arbitrary: deferred c n)
  case Nil
  then obtain m where "n = Suc m" by (cases n) auto
  with Nil show ?case by (simp add: batch_step del: try_evict_idle_entry_batch.simps)
next
  case (Cons p pre)
  then obtain m where m: "n = Suc m" by (cases n) auto
  have "try_evict_idle_entry_batch idle n deferred c
      = try_evict_idle_entry_batch idle m (deferred @ requeue c [p]) (with_candidates (pre @ x # post) c)"
    using Cons.prems m by (simp add: batch_step del: try_evict_idle_entry_batch.simps)
  also have "\<dots> = ((evicted (snd (snd x)) post ((deferred @ requeue c [p]) @ requeue c pre)
      (with_candidates (pre @ x # post) c), []), True)"
    using Cons.prems m by (subst Cons.IH) simp_all
  finally show ?case by (simp add: requeue_Cons [of c p pre] evicted_def)
qed

subsection \<open>Invariant\<close>

definition cache_wf :: "timeline_cache \<Rightarrow> bool" where
  "cache_wf c \<longleftrightarrow>
     distinct (map fst (tc_timelines c)) \<and> distinct (map fst (generations c))
     \<and> fst ` set (generations c) = fst ` set (tc_timelines c)
     \<and> tc_entry_count c = length (tc_timelines c) \<and> tc_entry_count c \<le> tc_max_entries c
     \<and> (\<forall>k g. map_of (generations c) k = Some g \<longrightarrow> (\<exists>tick. (tick, g, k) \<in> set (candidates c)))"

definition candidates_fresh :: "timeline_cache \<Rightarrow> bool" where
  \<comment> \<open>every candidate of a live entry carries the tick of its last access\<close>
  "candidates_fresh c \<longleftrightarrow>
     (\<forall>(tick, g, k) \<in> set (candidates c). \<forall>e. map_of (generations c) k = Some g \<longrightarrow>
        map_of (tc_timelines c) k = Some e \<longrightarrow> ce_last_access_tick e = tick)"

lemma push_candidate_fields [simp]:
  "tc_timelines (push_candidate x c) = tc_timelines c" "generations (push_candidate x c) = generations c"
  "tc_entry_count (push_candidate x c) = tc_entry_count c" "tc_max_entries (push_candidate x c) = tc_max_entries c"
  "set (candidates (push_candidate x c)) = insert x (set (candidates c))"
  by (simp_all add: push_candidate_def set_insort_key)

lemma extend_candidates_fields [simp]:
  "tc_timelines (extend_candidates xs c) = tc_timelines c" "generations (extend_candidates xs c) = generations c"
  "tc_entry_count (extend_candidates xs c) = tc_entry_count c"
  "tc_max_entries (extend_candidates xs c) = tc_max_entries c"
  "set (candidates (extend_candidates xs c)) = set xs \<union> set (candidates c)"
  unfolding extend_candidates_def by (induction xs arbitrary: c) auto

lemma compact_fields [simp]:
  "tc_timelines (maybe_compact_eviction_candidates c) = tc_timelines c"
  "generations (maybe_compact_eviction_candidates c) = generations c"
  "tc_entry_count (maybe_compact_eviction_candidates c) = tc_entry_count c"
  "tc_max_entries (maybe_compact_eviction_candidates c) = tc_max_entries c"
  by (simp_all add: maybe_compact_eviction_candidates_def Let_def)

lemma compact_candidates:
  "set (candidates (maybe_compact_eviction_candidates c)) \<subseteq> set (candidates c)"
  "(t, g, k) \<in> set (candidates c) \<Longrightarrow> map_of (generations c) k = Some g \<Longrightarrow>
     (t, g, k) \<in> set (candidates (maybe_compact_eviction_candidates c))"
  by (auto simp: maybe_compact_eviction_candidates_def candidate_is_current_def Let_def)

lemma compact_wf: "cache_wf c \<Longrightarrow> cache_wf (maybe_compact_eviction_candidates c)"
  unfolding cache_wf_def using compact_candidates(2) [of _ _ _ c] by (simp del: map_of_eq_Some_iff) blast

lemma evicted_fields [simp]:
  "tc_timelines (evicted k post ds c) = AList.delete k (tc_timelines c)"
  "generations (evicted k post ds c) = AList.delete k (generations c)"
  "tc_entry_count (evicted k post ds c) = tc_entry_count c - 1"
  "tc_max_entries (evicted k post ds c) = tc_max_entries c"
  "set (candidates (evicted k post ds c)) = set ds \<union> set post"
  by (simp_all add: evicted_def remove_eviction_generation_def with_candidates_def Let_def)

lemma in_requeue:
  "(t', g, k) \<in> set (requeue c xs) \<longleftrightarrow> map_of (generations c) k = Some g
     \<and> (\<exists>e. map_of (tc_timelines c) k = Some e \<and> t' = ce_last_access_tick e) \<and> (\<exists>t. (t, g, k) \<in> set xs)"
proof (induction xs)
  case (Cons x xs)
  obtain t1 g1 k1 where x: "x = (t1, g1, k1)" by (cases x)
  have hd: "(t', g, k) \<in> set (requeue c [x]) \<longleftrightarrow> g = g1 \<and> k = k1 \<and> map_of (generations c) k = Some g
      \<and> (\<exists>e. map_of (tc_timelines c) k = Some e \<and> t' = ce_last_access_tick e)"
    by (cases "map_of (generations c) k1 = Some g1"; cases "map_of (tc_timelines c) k1") (auto simp: x)
  have ex: "(\<exists>t. (t, g, k) \<in> set (x # xs)) \<longleftrightarrow> g = g1 \<and> k = k1 \<or> (\<exists>t. (t, g, k) \<in> set xs)"
    by (auto simp: x)
  have "(t', g, k) \<in> set (requeue c (x # xs)) \<longleftrightarrow>
      (t', g, k) \<in> set (requeue c [x]) \<or> (t', g, k) \<in> set (requeue c xs)"
    by (subst requeue_Cons) (rule Un_iff [of _ "set _" "set _", folded set_append])
  then show ?case unfolding hd ex Cons.IH by blast
qed simp

lemma live_entry:
  assumes "cache_wf c" "map_of (generations c) k = Some g"
  obtains e where "map_of (tc_timelines c) k = Some e"
  using assms by (metis cache_wf_def map_of_eq_None_iff not_None_eq)

lemma live_generation:
  assumes "cache_wf c" "map_of (tc_timelines c) k = Some e"
  obtains g where "map_of (generations c) k = Some g"
  using assms by (metis cache_wf_def map_of_eq_None_iff not_None_eq)

lemma requeue_keeps:
  assumes "cache_wf c" "map_of (generations c) k = Some g" "(t, g, k) \<in> set xs"
  shows "\<exists>t. (t, g, k) \<in> set (requeue c xs)"
  using live_entry [OF assms(1,2)] assms(2,3) unfolding in_requeue by blast

lemma fst_set_delete: "fst ` set (AList.delete k xs) = fst ` set xs - {k}"
  using delete_keys [of k xs] by (metis list.set_map set_removeAll)

lemma length_delete_key:
  "distinct (map fst xs) \<Longrightarrow> map_of xs k = Some v \<Longrightarrow> length (AList.delete k xs) = length xs - 1"
proof (induction xs)
  case (Cons x xs)
  show ?case
  proof (cases "fst x = k")
    case True
    with Cons.prems have "AList.delete k xs = xs" by (intro delete_id) auto
    with True show ?thesis by simp
  next
    case False
    with Cons.prems have "map_of xs k = Some v" by (cases x) auto
    then have "xs \<noteq> []" by auto
    with Cons False show ?thesis by (cases x, cases xs) auto
  qed
qed simp

subsection \<open>Operations keep the invariant\<close>

lemma evict_pass:
  assumes "evict_one_idle_entry idle c = (c', b)"
  defines "c1 \<equiv> maybe_compact_eviction_candidates c"
  obtains (none) "\<not> b" "list_all (blocked idle c1) (candidates c1)"
      "c' = extend_candidates (requeue c1 (candidates c1)) (with_candidates [] c1)"
  | (one) pre x post where "b" "candidates c1 = pre @ x # post" "\<not> blocked idle c1 x"
      "c' = evicted (snd (snd x)) post (requeue c1 pre) c1"
proof (cases "list_all (blocked idle c1) (candidates c1)")
  case True
  then show thesis using assms none by (simp add: evict_one_idle_entry_def Let_def batch_all_blocked)
next
  case False
  then obtain pre x post where s: "candidates c1 = pre @ x # post" "\<not> blocked idle c1 x" "list_all (blocked idle c1) pre"
    using split_list_first_prop [of "candidates c1" "\<lambda>x. \<not> blocked idle c1 x"] by (auto simp: list_all_iff)
  then have "try_evict_idle_entry_batch idle (length (candidates c1)) [] c1
      = ((evicted (snd (snd x)) post ([] @ requeue c1 pre) c1, []), True)"
    by (intro batch_first_idle) simp_all
  with assms s show thesis
    by (intro one [of pre x post]) (auto simp: evict_one_idle_entry_def Let_def extend_candidates_def)
qed

lemma live_candidate:
  "cache_wf c \<Longrightarrow> map_of (generations c) k = Some g \<Longrightarrow> \<exists>t. (t, g, k) \<in> set (candidates c)"
  unfolding cache_wf_def by blast

lemma evict_none:
  assumes wf: "cache_wf c" and all: "list_all (blocked idle c) (candidates c)"
    and c': "c' = extend_candidates (requeue c (candidates c)) (with_candidates [] c)"
  shows "cache_wf c'" "candidates_fresh c'" "tc_timelines c' = tc_timelines c" "tc_entry_count c' = tc_entry_count c"
    and "candidates_fresh c \<Longrightarrow> map_of (tc_timelines c) k = Some v \<Longrightarrow> \<not> idle (ce_timeline v)"
proof -
  have f: "tc_timelines c' = tc_timelines c" "generations c' = generations c"
    "tc_entry_count c' = tc_entry_count c" "tc_max_entries c' = tc_max_entries c"
    "set (candidates c') = set (requeue c (candidates c))"
    by (simp_all add: c')
  show "cache_wf c'"
    using wf live_candidate [OF wf] requeue_keeps [OF wf, of _ _ _ "candidates c"] unfolding cache_wf_def f by metis
  show "candidates_fresh c'"
    unfolding candidates_fresh_def f by (auto simp: in_requeue simp del: map_of_eq_Some_iff)
  show "tc_timelines c' = tc_timelines c" "tc_entry_count c' = tc_entry_count c" by (fact f)+
  show "\<not> idle (ce_timeline v)" if fr: "candidates_fresh c" and v: "map_of (tc_timelines c) k = Some v"
  proof -
    obtain g where g: "map_of (generations c) k = Some g" using live_generation [OF wf v] by blast
    then obtain t where t: "(t, g, k) \<in> set (candidates c)" using live_candidate [OF wf] by blast
    then have "blocked idle c (t, g, k)" using all by (simp add: list_all_iff)
    moreover have "ce_last_access_tick v = t" using fr t g v unfolding candidates_fresh_def by blast
    ultimately show ?thesis using g v by (simp add: blocked_def del: map_of_eq_Some_iff)
  qed
qed

lemma evict_one:
  assumes wf: "cache_wf c" and x: "candidates c = pre @ (t, g, k) # post" "\<not> blocked idle c (t, g, k)"
    and c': "c' = evicted k post (requeue c pre) c"
  shows "cache_wf c'"
    "\<exists>e. map_of (tc_timelines c) k = Some e \<and> idle (ce_timeline e)
       \<and> tc_timelines c' = AList.delete k (tc_timelines c) \<and> tc_entry_count c' + 1 = tc_entry_count c"
proof -
  obtain w where w: "map_of (generations c) k = Some g" "map_of (tc_timelines c) k = Some w" "idle (ce_timeline w)"
    using x(2) by (auto simp: blocked_def simp del: map_of_eq_Some_iff split: option.splits)
  have f: "tc_timelines c' = AList.delete k (tc_timelines c)" "generations c' = AList.delete k (generations c)"
    "tc_entry_count c' = tc_entry_count c - 1" "tc_max_entries c' = tc_max_entries c"
    "set (candidates c') = set (requeue c pre) \<union> set post"
    by (simp_all add: c')
  have dist: "distinct (map fst (tc_timelines c))" "distinct (map fst (generations c))"
    "tc_entry_count c = length (tc_timelines c)" "fst ` set (generations c) = fst ` set (tc_timelines c)"
    "tc_entry_count c \<le> tc_max_entries c"
    using wf by (simp_all add: cache_wf_def)
  have len: "length (AList.delete k (tc_timelines c)) = length (tc_timelines c) - 1"
    using dist(1) w(2) by (rule length_delete_key)
  have pos: "0 < length (tc_timelines c)" using w(2) by (cases "tc_timelines c") auto
  have "\<exists>t. (t, g', k') \<in> set (requeue c pre) \<union> set post"
    if "map_of (AList.delete k (generations c)) k' = Some g'" for k' g'
  proof -
    have k: "k' \<noteq> k" "map_of (generations c) k' = Some g'"
      using that by (auto simp: delete_conv' simp del: map_of_eq_Some_iff split: if_splits)
    then obtain t' where "(t', g', k') \<in> set (candidates c)" using live_candidate [OF wf] by blast
    then have "(t', g', k') \<in> set pre \<or> (t', g', k') \<in> set post" using x(1) k by auto
    then show ?thesis using requeue_keeps [OF wf k(2), of t' pre] by auto
  qed
  then show "cache_wf c'"
    unfolding cache_wf_def f using dist len
    by (intro conjI allI impI distinct_delete) (simp_all add: fst_set_delete del: map_of_eq_Some_iff)
  show "\<exists>e. map_of (tc_timelines c) k = Some e \<and> idle (ce_timeline e)
       \<and> tc_timelines c' = AList.delete k (tc_timelines c) \<and> tc_entry_count c' + 1 = tc_entry_count c"
    using w f dist pos by (intro exI [of _ w]) (simp del: map_of_eq_Some_iff)
qed

lemma compact_fresh: "candidates_fresh c \<Longrightarrow> candidates_fresh (maybe_compact_eviction_candidates c)"
  unfolding candidates_fresh_def compact_fields using compact_candidates(1) by fast

lemma evict_wf:
  assumes wf: "cache_wf c" and e: "evict_one_idle_entry idle c = (c', b)"
  shows "cache_wf c'" "tc_max_entries c' = tc_max_entries c"
    and "b \<Longrightarrow> \<exists>k e. map_of (tc_timelines c) k = Some e \<and> idle (ce_timeline e)
          \<and> tc_timelines c' = AList.delete k (tc_timelines c) \<and> tc_entry_count c' + 1 = tc_entry_count c"
    and "\<not> b \<Longrightarrow> tc_timelines c' = tc_timelines c \<and> tc_entry_count c' = tc_entry_count c \<and> candidates_fresh c'"
    and "\<not> b \<Longrightarrow> candidates_fresh c \<Longrightarrow> map_of (tc_timelines c) k = Some v \<Longrightarrow> \<not> idle (ce_timeline v)"
proof -
  note wf1 = compact_wf [OF wf]
  from e have "cache_wf c' \<and> tc_max_entries c' = tc_max_entries c
    \<and> (b \<longrightarrow> (\<exists>k e. map_of (tc_timelines c) k = Some e \<and> idle (ce_timeline e)
          \<and> tc_timelines c' = AList.delete k (tc_timelines c) \<and> tc_entry_count c' + 1 = tc_entry_count c))
    \<and> (\<not> b \<longrightarrow> tc_timelines c' = tc_timelines c \<and> tc_entry_count c' = tc_entry_count c \<and> candidates_fresh c')
    \<and> (\<not> b \<longrightarrow> candidates_fresh c \<longrightarrow> map_of (tc_timelines c) k = Some v \<longrightarrow> \<not> idle (ce_timeline v))"
  proof (cases rule: evict_pass)
    case none
    note n = evict_none [OF wf1 none(2,3), unfolded compact_fields]
    have "tc_max_entries c' = tc_max_entries c" by (simp add: none(3))
    then show ?thesis using none(1) n compact_fresh by blast
  next
    case (one pre x post)
    obtain t g k' where x: "x = (t, g, k')" by (cases x)
    note o = evict_one [OF wf1 one(2,3) [unfolded x] one(4) [unfolded x snd_conv], unfolded compact_fields]
    have "tc_max_entries c' = tc_max_entries c" by (simp add: one(4))
    then show ?thesis using one(1) o by blast
  qed
  then show "cache_wf c'" "tc_max_entries c' = tc_max_entries c"
    "b \<Longrightarrow> \<exists>k e. map_of (tc_timelines c) k = Some e \<and> idle (ce_timeline e)
          \<and> tc_timelines c' = AList.delete k (tc_timelines c) \<and> tc_entry_count c' + 1 = tc_entry_count c"
    "\<not> b \<Longrightarrow> tc_timelines c' = tc_timelines c \<and> tc_entry_count c' = tc_entry_count c \<and> candidates_fresh c'"
    "\<not> b \<Longrightarrow> candidates_fresh c \<Longrightarrow> map_of (tc_timelines c) k = Some v \<Longrightarrow> \<not> idle (ce_timeline v)"
    by blast+
qed

lemma wf_counters [simp]:
  "cache_wf (c \<lparr> tc_access_counter := n \<rparr>) = cache_wf c"
  "cache_wf (c \<lparr> tc_access_counter := n, tc_timelines := ts \<rparr>) = cache_wf (c \<lparr> tc_timelines := ts \<rparr>)"
  by (simp_all add: cache_wf_def)

lemma keys_update_present: "map_of xs k = Some e0 \<Longrightarrow> map fst (AList.update k e xs) = map fst xs"
  by (simp add: update_keys) (metis map_of_SomeD fst_conv image_eqI)

lemma keys_update_absent: "map_of xs k = None \<Longrightarrow> map fst (AList.update k e xs) = map fst xs @ [k]"
  by (simp add: update_keys map_of_eq_None_iff)

lemma update_entry_wf:
  assumes "cache_wf c" "map_of (tc_timelines c) k = Some e0"
  shows "cache_wf (c \<lparr> tc_timelines := AList.update k e (tc_timelines c) \<rparr>)"
proof -
  have keys: "map fst (AList.update k e (tc_timelines c)) = map fst (tc_timelines c)"
    using assms(2) by (rule keys_update_present)
  moreover have "length (AList.update k e (tc_timelines c)) = length (tc_timelines c)"
    "fst ` set (AList.update k e (tc_timelines c)) = fst ` set (tc_timelines c)"
    using arg_cong [OF keys, of length] arg_cong [OF keys, of set] by simp_all
  ultimately show ?thesis using assms(1) unfolding cache_wf_def by (simp del: map_of_eq_Some_iff)
qed

lemma touch_entry_wf:
  assumes wf: "cache_wf c" shows "cache_wf (touch_entry k force c)"
proof (cases "map_of (tc_timelines c) k")
  case (Some e)
  have "cache_wf (c \<lparr> tc_timelines := AList.update k x (tc_timelines c) \<rparr>)" for x
    using wf Some by (rule update_entry_wf)
  then show ?thesis
    using Some by (simp add: touch_entry_def Let_def next_access_tick_def)
next
  case None then show ?thesis using wf by (simp add: touch_entry_def)
qed

lemma replace_entry_wf: "cache_wf c \<Longrightarrow> map_of (tc_timelines c) k = Some e \<Longrightarrow> cache_wf (replace_entry k a c)"
  using update_entry_wf [of c k e] by (simp add: replace_entry_def next_access_tick_def)

lemma insert_entry_fields:
  assumes "map_of (generations c) k = None"
  shows "tc_timelines (insert_entry k a c) = AList.update k
           \<lparr> ce_timeline = a, ce_last_access_tick = tc_access_counter c, ce_access_samples = 1 \<rparr> (tc_timelines c)"
    "generations (insert_entry k a c) = AList.update k (tc_generation_counter c) (generations c)"
    "tc_entry_count (insert_entry k a c) = tc_entry_count c + 1" "tc_max_entries (insert_entry k a c) = tc_max_entries c"
    "set (candidates (insert_entry k a c))
       = insert (tc_access_counter c, tc_generation_counter c, k) (set (candidates c))"
  using assms
  by (simp_all add: insert_entry_def next_access_tick_def record_eviction_candidate_def ensure_eviction_generation_def
      Let_def case_prod_beta)

lemma dead_generation: "cache_wf c \<Longrightarrow> map_of (tc_timelines c) k = None \<Longrightarrow> map_of (generations c) k = None"
  by (simp add: cache_wf_def map_of_eq_None_iff)

lemma insert_entry_wf:
  assumes wf: "cache_wf c" and new: "map_of (tc_timelines c) k = None" and room: "tc_entry_count c < tc_max_entries c"
  shows "cache_wf (insert_entry k a c)"
proof -
  note f = insert_entry_fields [OF dead_generation [OF wf new], of a]
  note keys = keys_update_absent [OF new] keys_update_absent [OF dead_generation [OF wf new]]
  have dist: "distinct (map fst (tc_timelines c))" "distinct (map fst (generations c))"
    "tc_entry_count c = length (tc_timelines c)" "fst ` set (generations c) = fst ` set (tc_timelines c)"
    using wf by (simp_all add: cache_wf_def)
  have len: "length (AList.update k e (tc_timelines c)) = length (tc_timelines c) + 1" for e
    using arg_cong [OF keys(1), of length] by simp
  have sets: "fst ` set (AList.update k e (tc_timelines c)) = fst ` set (tc_timelines c) \<union> {k}"
    "fst ` set (AList.update k g (generations c)) = fst ` set (generations c) \<union> {k}" for e g
    using arg_cong [OF keys(1), of set] arg_cong [OF keys(2), of set] by simp_all
  have "\<exists>t. (t, g, k') \<in> insert (tc_access_counter c, tc_generation_counter c, k) (set (candidates c))"
    if "map_of (AList.update k (tc_generation_counter c) (generations c)) k' = Some g" for k' g
    using that live_candidate [OF wf, of k' g]
    by (cases "k' = k") (auto simp: update_conv' simp del: map_of_eq_Some_iff)
  then show ?thesis
    unfolding cache_wf_def f using dist len sets room
    by (intro conjI allI impI distinct_update) (simp_all del: map_of_eq_Some_iff)
qed

lemma remove_timeline_wf:
  assumes wf: "cache_wf c"
  shows "cache_wf (remove_timeline k c)" "tc_timelines (remove_timeline k c) = AList.delete k (tc_timelines c)"
    "tc_max_entries (remove_timeline k c) = tc_max_entries c"
proof -
  have dist: "distinct (map fst (tc_timelines c))" "distinct (map fst (generations c))"
    "tc_entry_count c = length (tc_timelines c)" "fst ` set (generations c) = fst ` set (tc_timelines c)"
    "tc_entry_count c \<le> tc_max_entries c"
    using wf by (simp_all add: cache_wf_def)
  let ?c1 = "remove_eviction_generation k (c \<lparr> tc_timelines := AList.delete k (tc_timelines c) \<rparr>)"
  have c1: "generations ?c1 = AList.delete k (generations c)" "candidates ?c1 = candidates c"
    "tc_timelines ?c1 = AList.delete k (tc_timelines c)" "tc_entry_count ?c1 = tc_entry_count c"
    "tc_max_entries ?c1 = tc_max_entries c"
    by (simp_all add: remove_eviction_generation_def)
  let ?c2 = "maybe_compact_eviction_candidates ?c1"
  have gone: "\<exists>t. (t, g, k') \<in> set (candidates ?c2)" if "map_of (AList.delete k (generations c)) k' = Some g" for k' g
  proof -
    have "map_of (generations c) k' = Some g"
      using that by (auto simp: delete_conv' simp del: map_of_eq_Some_iff split: if_splits)
    with live_candidate [OF wf] obtain t where "(t, g, k') \<in> set (candidates c)" by blast
    with that compact_candidates(2) [of t g k' ?c1] show ?thesis unfolding c1 by blast
  qed
  have "cache_wf (remove_timeline k c) \<and> tc_timelines (remove_timeline k c) = AList.delete k (tc_timelines c)
      \<and> tc_max_entries (remove_timeline k c) = tc_max_entries c"
  proof (cases "map_of (tc_timelines c) k")
    case None
    then have "AList.delete k (tc_timelines c) = tc_timelines c"
      by (intro delete_id) (simp add: map_of_eq_None_iff)
    with None wf show ?thesis by (simp add: remove_timeline_def)
  next
    case (Some e)
    have r: "remove_timeline k c = ?c2 \<lparr> tc_entry_count := tc_entry_count ?c2 - 1 \<rparr>"
      using Some by (simp add: remove_timeline_def Let_def)
    have len: "length (AList.delete k (tc_timelines c)) = length (tc_timelines c) - 1"
      using dist(1) Some by (rule length_delete_key)
    have "cache_wf (?c2 \<lparr> tc_entry_count := tc_entry_count ?c2 - 1 \<rparr>)"
      unfolding cache_wf_def using gone dist len
      by (intro conjI allI impI) (simp_all add: c1 fst_set_delete distinct_delete del: map_of_eq_Some_iff)
    then show ?thesis unfolding r by (simp add: c1)
  qed
  then show "cache_wf (remove_timeline k c)" "tc_timelines (remove_timeline k c) = AList.delete k (tc_timelines c)"
    "tc_max_entries (remove_timeline k c) = tc_max_entries c" by blast+
qed

subsection \<open>Insertion\<close>

definition made_room :: "(nat \<Rightarrow> bool) \<Rightarrow> timeline_cache \<Rightarrow> timeline_cache \<Rightarrow> bool" where
  \<comment> \<open>nothing was dropped below capacity, and one idle entry of a full cache\<close>
  "made_room idle c c' \<longleftrightarrow>
     (if tc_entry_count c < tc_max_entries c then tc_timelines c' = tc_timelines c
      else \<exists>k e. map_of (tc_timelines c) k = Some e \<and> idle (ce_timeline e)
             \<and> tc_timelines c' = AList.delete k (tc_timelines c))"

lemma make_room_ok:
  assumes wf: "cache_wf c" and m: "make_room idle c = (c', True)"
  shows "cache_wf c'" "tc_entry_count c' < tc_max_entries c'" "tc_max_entries c' = tc_max_entries c" "made_room idle c c'"
proof -
  have le: "tc_entry_count c \<le> tc_max_entries c" using wf by (simp add: cache_wf_def)
  have "cache_wf c' \<and> tc_entry_count c' < tc_max_entries c' \<and> tc_max_entries c' = tc_max_entries c \<and> made_room idle c c'"
  proof (cases "tc_max_entries c \<le> tc_entry_count c")
    case True
    with m have "evict_one_idle_entry idle c = (c', True)" by (simp add: make_room_def)
    note e = evict_wf(1,2) [OF wf this] evict_wf(3) [OF wf this TrueI]
    then obtain k x where x: "map_of (tc_timelines c) k = Some x" "idle (ce_timeline x)"
      "tc_timelines c' = AList.delete k (tc_timelines c)" "tc_entry_count c' + 1 = tc_entry_count c" by blast
    have "made_room idle c c'" unfolding made_room_def using True x by auto
    with e(1,2) x(4) le show ?thesis by simp
  next
    case False
    with m wf show ?thesis by (simp add: make_room_def made_room_def)
  qed
  then show "cache_wf c'" "tc_entry_count c' < tc_max_entries c'" "tc_max_entries c' = tc_max_entries c"
    "made_room idle c c'" by blast+
qed

lemma make_room_fails:
  assumes wf: "cache_wf c" and m: "make_room idle c = (c', False)"
  shows "cache_wf c'" "tc_entry_count c = tc_max_entries c" "tc_timelines c' = tc_timelines c"
    "tc_entry_count c' = tc_entry_count c" "tc_max_entries c' = tc_max_entries c" "candidates_fresh c'"
    and "candidates_fresh c \<Longrightarrow> map_of (tc_timelines c) k = Some v \<Longrightarrow> \<not> idle (ce_timeline v)"
proof -
  have le: "tc_entry_count c \<le> tc_max_entries c" using wf by (simp add: cache_wf_def)
  have full: "tc_max_entries c \<le> tc_entry_count c" and e: "evict_one_idle_entry idle c = (c', False)"
    using m by (auto simp: make_room_def split: if_splits)
  have n: "\<not> False" by simp
  show "cache_wf c'" "tc_max_entries c' = tc_max_entries c" by (rule evict_wf(1,2) [OF wf e])+
  show "tc_entry_count c = tc_max_entries c" using le full by simp
  show "tc_timelines c' = tc_timelines c" "tc_entry_count c' = tc_entry_count c" "candidates_fresh c'"
    using evict_wf(4) [OF wf e n] by blast+
  show "\<not> idle (ce_timeline v)" if "candidates_fresh c" "map_of (tc_timelines c) k = Some v"
    using evict_wf(5) [OF wf e n that] .
qed

lemma made_room_absent: "made_room idle c c' \<Longrightarrow> map_of (tc_timelines c) k = None \<Longrightarrow> map_of (tc_timelines c') k = None"
  by (auto simp: made_room_def delete_conv' split: if_splits)

lemma insert_timeline_cases:
  assumes wf: "cache_wf c" and i: "insert_timeline idle k a c = (c', r)"
  obtains (hit) e where "map_of (tc_timelines c) k = Some e" "c' = replace_entry k a c" "r = Inr ()"
  | (stored) c1 where "map_of (tc_timelines c) k = None" "make_room idle c = (c1, True)"
      "c' = insert_entry k a c1" "r = Inr ()"
  | (saturated) "map_of (tc_timelines c) k = None" "make_room idle c = (c', False)"
      "r = Inl (TimelineRuntimeCacheSaturated k (tc_max_entries c))"
proof (cases "map_of (tc_timelines c) k")
  case (Some e)
  with i hit show thesis by (simp add: insert_timeline_def)
next
  case None
  obtain c1 b where m: "make_room idle c = (c1, b)" by (cases "make_room idle c")
  show thesis
  proof (cases b)
    case True
    with i None m stored show thesis by (simp add: insert_timeline_def)
  next
    case False
    moreover from this have "tc_max_entries c1 = tc_max_entries c" using m by (intro make_room_fails(5) [OF wf]) simp
    ultimately show thesis using i None m saturated by (simp add: insert_timeline_def)
  qed
qed

lemma get_or_insert_miss:
  "map_of (tc_timelines c) k = None \<Longrightarrow>
   timeline_handle_or_insert_with idle k a c = (fst (insert_timeline idle k a c),
     case snd (insert_timeline idle k a c) of Inl e \<Rightarrow> Inl e | Inr _ \<Rightarrow> Inr a)"
  by (simp add: timeline_handle_or_insert_with_def insert_timeline_def split: prod.split)

lemma insert_timeline_wf:
  assumes wf: "cache_wf c"
  shows "cache_wf (fst (insert_timeline idle k a c))"
    "tc_max_entries (fst (insert_timeline idle k a c)) = tc_max_entries c"
proof -
  obtain c' r where i: "insert_timeline idle k a c = (c', r)" by (cases "insert_timeline idle k a c")
  from wf i have "cache_wf c' \<and> tc_max_entries c' = tc_max_entries c"
  proof (cases rule: insert_timeline_cases)
    case (hit e)
    then show ?thesis using wf replace_entry_wf by (simp add: replace_entry_def next_access_tick_def)
  next
    case (stored c1)
    note m = make_room_ok [OF wf stored(2)]
    have new: "map_of (tc_timelines c1) k = None" using m(4) stored(1) by (rule made_room_absent)
    show ?thesis unfolding stored(3) insert_entry_fields(4) [OF dead_generation [OF m(1) new]]
      using insert_entry_wf [OF m(1) new m(2)] m(3) by blast
  next
    case saturated
    then show ?thesis using make_room_fails(1,5) [OF wf] by blast
  qed
  with i show "cache_wf (fst (insert_timeline idle k a c))"
    "tc_max_entries (fst (insert_timeline idle k a c)) = tc_max_entries c" by simp_all
qed

lemma touch_entry_max [simp]: "tc_max_entries (touch_entry k force c) = tc_max_entries c"
  by (simp add: touch_entry_def Let_def next_access_tick_def split: option.split)

lemma get_or_insert_wf:
  assumes wf: "cache_wf c"
  shows "cache_wf (fst (timeline_handle_or_insert_with idle k a c))"
    "tc_max_entries (fst (timeline_handle_or_insert_with idle k a c)) = tc_max_entries c"
proof -
  let ?t = "timeline_handle_or_insert_with idle k a c"
  have "cache_wf (fst ?t) \<and> tc_max_entries (fst ?t) = tc_max_entries c"
  proof (cases "map_of (tc_timelines c) k")
    case None
    then show ?thesis by (simp add: get_or_insert_miss insert_timeline_wf [OF wf])
  next
    case (Some e)
    then show ?thesis by (simp add: timeline_handle_or_insert_with_def touch_entry_wf [OF wf])
  qed
  then show "cache_wf (fst ?t)" "tc_max_entries (fst ?t) = tc_max_entries c" by blast+
qed

subsection \<open>Every run of the cache\<close>

datatype cache_op =
    CacheHandle string
  | CacheHandleOrInsert string nat
  | CacheInsert string nat
  | CacheRemove string
  | CacheClear

fun cache_step :: "(nat \<Rightarrow> bool) \<Rightarrow> cache_op \<Rightarrow> timeline_cache \<Rightarrow> timeline_cache" where
  "cache_step idle (CacheHandle k) c = fst (timeline_handle k c)"
| "cache_step idle (CacheHandleOrInsert k a) c = fst (timeline_handle_or_insert_with idle k a c)"
| "cache_step idle (CacheInsert k a) c = fst (insert_timeline idle k a c)"
| "cache_step idle (CacheRemove k) c = remove_timeline k c"
| "cache_step idle CacheClear c = cache_clear c"

fun cache_run :: "((nat \<Rightarrow> bool) \<times> cache_op) list \<Rightarrow> timeline_cache \<Rightarrow> timeline_cache" where
  \<comment> \<open>who holds which address may change between the operations\<close>
  "cache_run [] c = c"
| "cache_run ((idle, x) # xs) c = cache_run xs (cache_step idle x c)"

lemma cache_step_wf:
  assumes "cache_wf c"
  shows "cache_wf (cache_step idle x c) \<and> tc_max_entries (cache_step idle x c) = tc_max_entries c"
proof (cases x)
  case (CacheHandle k)
  with assms show ?thesis by (simp add: timeline_handle_def touch_entry_wf split: option.split)
next
  case (CacheClear)
  then show ?thesis by (simp add: cache_clear_def cache_wf_def)
qed (use assms in \<open>simp_all add: insert_timeline_wf get_or_insert_wf remove_timeline_wf\<close>)

lemma cache_run_wf: "cache_wf c \<Longrightarrow> cache_wf (cache_run xs c) \<and> tc_max_entries (cache_run xs c) = tc_max_entries c"
  by (induction xs c rule: cache_run.induct) (simp_all add: cache_step_wf)

lemma new_wf: "cache_wf (timeline_cache_new n)"
  by (simp add: cache_wf_def timeline_cache_new_def)

lemma run_new_wf:
  "cache_wf (cache_run xs (timeline_cache_new n))" "tc_max_entries (cache_run xs (timeline_cache_new n)) = n"
  using cache_run_wf [OF new_wf] by (simp_all add: timeline_cache_new_def)

subsection \<open>Properties\<close>

text \<open>
  C25: after any sequence of cache operations, whoever holds the cached states meanwhile, the entry counter
  is the number of cached timelines and at most the configured maximum, no key is cached twice, and every
  cached timeline can still be found by an eviction pass: the heap has a candidate of its current generation.
\<close>
theorem cache_bounded:
  fixes ops n
  defines "c \<equiv> cache_run ops (timeline_cache_new n)"
  shows "tc_entry_count c = length (tc_timelines c) \<and> tc_entry_count c \<le> n \<and> distinct (map fst (tc_timelines c))
    \<and> (\<forall>k e. map_of (tc_timelines c) k = Some e \<longrightarrow>
         (\<exists>tick g. map_of (generations c) k = Some g \<and> (tick, g, k) \<in> set (candidates c)))"
proof -
  have wf: "cache_wf c" "tc_max_entries c = n" unfolding c_def by (fact run_new_wf)+
  have "\<exists>tick g. map_of (generations c) k = Some g \<and> (tick, g, k) \<in> set (candidates c)"
    if e: "map_of (tc_timelines c) k = Some e" for k e
  proof -
    obtain g where "map_of (generations c) k = Some g" using live_generation [OF wf(1) e] by blast
    with live_candidate [OF wf(1)] show ?thesis by blast
  qed
  with wf show ?thesis unfolding cache_wf_def by blast
qed

theorem cache_bounded_witness:
  "\<exists>tick g. map_of (generations (cache_run [(\<lambda>_. True, CacheInsert ''a'' 7)] (timeline_cache_new 1))) ''a'' = Some g
     \<and> (tick, g, ''a'') \<in> set (candidates (cache_run [(\<lambda>_. True, CacheInsert ''a'' 7)] (timeline_cache_new 1)))"
proof -
  have "map_of (tc_timelines (cache_run [(\<lambda>_. True, CacheInsert ''a'' 7)] (timeline_cache_new 1))) ''a''
      = Some \<lparr> ce_timeline = 7, ce_last_access_tick = 1, ce_access_samples = 1 \<rparr>" by code_simp
  then show ?thesis using cache_bounded [of "[(\<lambda>_. True, CacheInsert ''a'' 7)]" 1] by blast
qed

text \<open>
  C26: what an insertion does to any cache the operations can produce. A known key is overwritten and every other
  entry stays. A new key is stored unless the insertion is refused; below capacity no entry is lost and in a full
  cache exactly one is, which nobody else holds. A refusal names the key and the limit, happens only in a full
  cache and loses no entry, and the pass it ends refreshes every candidate: a later insertion into the cache it
  leaves is refused only if every entry is then held elsewhere.
\<close>
theorem insertion_evicts_one_idle:
  fixes ops n idle k a
  defines "c \<equiv> cache_run ops (timeline_cache_new n)"
  assumes i: "insert_timeline idle k a c = (c', r)"
  shows "(r = Inr () \<and> (\<exists>e. map_of (tc_timelines c') k = Some e \<and> ce_timeline e = a)
       \<and> (\<exists>gone. (\<forall>k'. k' \<noteq> k \<longrightarrow> k' \<notin> gone \<longrightarrow> map_of (tc_timelines c') k' = map_of (tc_timelines c) k')
            \<and> (gone = {} \<or> map_of (tc_timelines c) k = None \<and> tc_entry_count c = n
                 \<and> (\<exists>v x. gone = {v} \<and> map_of (tc_timelines c) v = Some x \<and> idle (ce_timeline x)))))
     \<or> (r = Inl (TimelineRuntimeCacheSaturated k n) \<and> tc_entry_count c = n \<and> tc_timelines c' = tc_timelines c
       \<and> (\<forall>idle' k' a' c''. insert_timeline idle' k' a' c' = (c'', Inl (TimelineRuntimeCacheSaturated k' n)) \<longrightarrow>
            (\<forall>v x. map_of (tc_timelines c) v = Some x \<longrightarrow> \<not> idle' (ce_timeline x))))"
proof -
  have wf: "cache_wf c" and n: "tc_max_entries c = n" unfolding c_def by (fact run_new_wf)+
  from wf i show ?thesis
  proof (cases rule: insert_timeline_cases)
    case (hit e)
    have "\<forall>k'. k' \<noteq> k \<longrightarrow> map_of (tc_timelines c') k' = map_of (tc_timelines c) k'"
      "\<exists>e. map_of (tc_timelines c') k = Some e \<and> ce_timeline e = a"
      by (simp_all add: hit(2) replace_entry_def next_access_tick_def update_conv' del: map_of_eq_Some_iff)
    with hit(3) show ?thesis by blast
  next
    case (stored c1)
    note m = make_room_ok [OF wf stored(2)]
    have new: "map_of (tc_timelines c1) k = None" using m(4) stored(1) by (rule made_room_absent)
    note f = insert_entry_fields(1) [OF dead_generation [OF m(1) new], of a]
    have e: "\<exists>e. map_of (tc_timelines c') k = Some e \<and> ce_timeline e = a"
      and same: "k' \<noteq> k \<Longrightarrow> map_of (tc_timelines c') k' = map_of (tc_timelines c1) k'" for k'
      by (simp_all add: stored(3) f update_conv' del: map_of_eq_Some_iff)
    show ?thesis
    proof (cases "tc_entry_count c < n")
      case True
      then have "tc_timelines c1 = tc_timelines c" using m(4) n by (simp add: made_room_def)
      with e same stored(4) show ?thesis by metis
    next
      case False
      then have "tc_entry_count c = n" using wf n by (simp add: cache_wf_def)
      moreover obtain v x where v: "map_of (tc_timelines c) v = Some x" "idle (ce_timeline x)"
        "tc_timelines c1 = AList.delete v (tc_timelines c)" using m(4) n False by (auto simp: made_room_def)
      moreover have "\<forall>k'. k' \<noteq> k \<longrightarrow> k' \<notin> {v} \<longrightarrow> map_of (tc_timelines c') k' = map_of (tc_timelines c) k'"
        using same v(3) by (simp add: delete_conv')
      ultimately show ?thesis using e stored(1,4) by blast
    qed
  next
    case saturated
    note m = make_room_fails [OF wf saturated(2)]
    have refused: "\<not> idle' (ce_timeline x)"
      if s: "insert_timeline idle' k' a' c' = (c'', Inl (TimelineRuntimeCacheSaturated k' n))"
        and x: "map_of (tc_timelines c) v = Some x" for idle' k' a' c'' v x
      using m(1) s
    proof (cases rule: insert_timeline_cases)
      case saturated
      from make_room_fails(7) [OF m(1) this(2) m(6)] x show ?thesis unfolding m(3) .
    qed simp_all
    have "r = Inl (TimelineRuntimeCacheSaturated k n)" "tc_entry_count c = n" using saturated(3) m(2) n by simp_all
    then show ?thesis using m(3) by (intro disjI2 conjI allI impI) (assumption+, rule refused)
  qed
qed

theorem insertion_evicts_one_idle_witness:
  "\<exists>c'. insert_timeline (\<lambda>_. True) ''b'' 8 (cache_run [(\<lambda>_. True, CacheInsert ''a'' 7)] (timeline_cache_new 1)) = (c', Inr ())
     \<and> (\<exists>e. map_of (tc_timelines c') ''b'' = Some e \<and> ce_timeline e = 8)"
proof -
  let ?c = "cache_run [(\<lambda>_. True, CacheInsert ''a'' 7)] (timeline_cache_new 1)"
  have "snd (insert_timeline (\<lambda>_. True) ''b'' 8 ?c) = Inr ()" by code_simp
  then obtain c' where i: "insert_timeline (\<lambda>_. True) ''b'' 8 ?c = (c', Inr ())"
    by (cases "insert_timeline (\<lambda>_. True) ''b'' 8 ?c") simp
  from insertion_evicts_one_idle [OF this] have "\<exists>e. map_of (tc_timelines c') ''b'' = Some e \<and> ce_timeline e = 8"
    by (elim disjE) simp_all
  with i show ?thesis by blast
qed

lemma sampled_below_16: "i < 15 \<Longrightarrow> (1 + of_nat i :: u64) AND ACCESS_TICK_SAMPLE_MASK \<noteq> 0"
proof -
  assume "i < 15"
  then have "i \<in> set [0..<15]" by simp
  also have "[0..<15::nat] = [0, 1, 2, 3, 4, 5, 6, 7, 8, 9, 10, 11, 12, 13, 14]" by (simp add: upt_rec)
  finally show ?thesis unfolding list.set by (elim insertE emptyE) (simp_all add: ACCESS_TICK_SAMPLE_MASK_def)
qed

lemma handle_unsampled:
  "map_of (tc_timelines c) k = Some e \<Longrightarrow> ce_access_samples e AND ACCESS_TICK_SAMPLE_MASK \<noteq> 0 \<Longrightarrow>
   cache_step idle (CacheHandle k) c
     = c \<lparr> tc_timelines := AList.update k (e \<lparr> ce_access_samples := ce_access_samples e + 1 \<rparr>) (tc_timelines c) \<rparr>"
  by (simp add: timeline_handle_def touch_entry_def Let_def)

lemma handle_sampled:
  "map_of (tc_timelines c) k = Some e \<Longrightarrow> ce_access_samples e AND ACCESS_TICK_SAMPLE_MASK = 0 \<Longrightarrow>
   cache_step idle (CacheHandle k) c
     = c \<lparr> tc_access_counter := tc_access_counter c + 1, tc_timelines := AList.update k (e \<lparr> ce_access_samples :=
           ce_access_samples e + 1, ce_last_access_tick := tc_access_counter c \<rparr>) (tc_timelines c) \<rparr>"
  by (simp add: timeline_handle_def touch_entry_def Let_def next_access_tick_def)

lemma cache_run_append: "cache_run (xs @ ys) c = cache_run ys (cache_run xs c)"
  by (induction xs c rule: cache_run.induct) simp_all

lemma handles_unsampled:
  assumes "map_of (tc_timelines c) k = Some e" "ce_access_samples e = 1"
  shows "i \<le> 15 \<Longrightarrow> cache_run (replicate i (idle, CacheHandle k)) c
    = c \<lparr> tc_timelines := AList.update k (e \<lparr> ce_access_samples := 1 + of_nat i \<rparr>) (tc_timelines c) \<rparr>"
proof (induction i)
  case 0
  have "map_of xs k = Some e \<Longrightarrow> AList.update k e xs = xs" for xs
    by (induction xs) (auto split: if_splits)
  then have "AList.update k e (tc_timelines c) = tc_timelines c" using assms(1) .
  moreover have "e \<lparr> ce_access_samples := 1 \<rparr> = e" using assms(2) by simp
  ultimately show ?case by simp
next
  case (Suc i)
  then have s: "(1 + of_nat i :: u64) AND ACCESS_TICK_SAMPLE_MASK \<noteq> 0" by (intro sampled_below_16) simp
  have "cache_run (replicate (Suc i) (idle, CacheHandle k)) c
      = cache_step idle (CacheHandle k) (cache_run (replicate i (idle, CacheHandle k)) c)"
    unfolding replicate_Suc replicate_append_same [symmetric] cache_run_append by simp
  also have "\<dots> = c \<lparr> tc_timelines := AList.update k (e \<lparr> ce_access_samples := 1 + of_nat (Suc i) \<rparr>) (tc_timelines c) \<rparr>"
    using Suc s by (subst handle_unsampled [where e = "e \<lparr> ce_access_samples := 1 + of_nat i \<rparr>"])
      (simp_all add: update_conv' ac_simps)
  finally show ?case .
qed

lemma touch_16:
  assumes "map_of (tc_timelines c) k = Some e" "ce_access_samples e = 1"
  shows "\<exists>e'. cache_run (replicate 16 (idle, CacheHandle k)) c =
     c \<lparr> tc_access_counter := tc_access_counter c + 1, tc_timelines := AList.update k e' (tc_timelines c) \<rparr>
     \<and> ce_timeline e' = ce_timeline e \<and> ce_last_access_tick e' = tc_access_counter c"
proof -
  have r: "replicate 16 x = replicate 15 x @ [x]" for x :: "(nat \<Rightarrow> bool) \<times> cache_op"
    unfolding replicate_append_same replicate_Suc [symmetric] by simp
  have h: "cache_run (replicate 15 (idle, CacheHandle k)) c
      = c \<lparr> tc_timelines := AList.update k (e \<lparr> ce_access_samples := 16 \<rparr>) (tc_timelines c) \<rparr>"
    using handles_unsampled [OF assms, of 15 idle] by simp
  have "(16 :: u64) AND ACCESS_TICK_SAMPLE_MASK = 0" by (simp add: ACCESS_TICK_SAMPLE_MASK_def)
  then have "cache_run (replicate 16 (idle, CacheHandle k)) c =
     c \<lparr> tc_access_counter := tc_access_counter c + 1, tc_timelines := AList.update k
        (e \<lparr> ce_access_samples := 17, ce_last_access_tick := tc_access_counter c \<rparr>) (tc_timelines c) \<rparr>"
    unfolding r cache_run_append h cache_run.simps
    by (subst handle_sampled [where e = "e \<lparr> ce_access_samples := 16 \<rparr>"]) (simp_all add: update_conv')
  then show ?thesis by (intro exI conjI) (assumption, simp_all)
qed

text \<open>
  C27: an eviction pass does not retry a candidate it requeues. The sixteenth read of a cached timeline refreshes its
  access tick, and from then on its queued candidate is out of date: the next insertion of another key into the full
  cache is refused as saturated although nobody holds the entry, and the same insertion tried again succeeds.
\<close>
theorem touched_entry_refuses_insertion:
  fixes idle x y
  assumes "a \<noteq> b"
  defines "c \<equiv> cache_run ((idle, CacheInsert a x) # replicate 16 (idle, CacheHandle a)) (timeline_cache_new 1)"
  shows "\<exists>c'. insert_timeline (\<lambda>_. True) b y c = (c', Inl (TimelineRuntimeCacheSaturated b 1))
    \<and> snd (insert_timeline (\<lambda>_. True) b y c') = Inr ()"
proof -
  define e where "e = \<lparr> ce_timeline = x, ce_last_access_tick = 1, ce_access_samples = 1 \<rparr>"
  define c0 where "c0 = \<lparr> tc_timelines = [(a, e)], tc_max_entries = 1, tc_access_counter = 2, tc_generation_counter = 2,
    tc_entry_count = 1, tc_capacity = \<lparr> cap_generations = [(a, 1)], cap_candidates = [(1, 1, a)] \<rparr> \<rparr>"
  have "cache_step idle (CacheInsert a x) (timeline_cache_new 1) = c0"
    by (simp add: insert_timeline_def make_room_def timeline_cache_new_def insert_entry_def next_access_tick_def
        record_eviction_candidate_def ensure_eviction_generation_def push_candidate_def Let_def c0_def e_def)
  then have "c = cache_run (replicate 16 (idle, CacheHandle a)) c0" by (simp add: c_def)
  moreover have "map_of (tc_timelines c0) a = Some e" "ce_access_samples e = 1" by (simp_all add: c0_def e_def)
  note touch_16 [OF this, of idle]
  ultimately obtain e' where "ce_last_access_tick e' = 2" "c = c0 \<lparr> tc_access_counter := 3, tc_timelines := [(a, e')] \<rparr>"
    by (auto simp: c0_def)
  then show ?thesis using assms(1)
    by (simp add: c0_def insert_timeline_def make_room_def evict_one_idle_entry_def maybe_compact_eviction_candidates_def
        extend_candidates_def push_candidate_def Let_def)
qed

theorem touched_entry_refuses_insertion_witness:
  "\<exists>c'. insert_timeline (\<lambda>_. True) ''b'' 8
      (cache_run ((\<lambda>_. True, CacheInsert ''a'' 7) # replicate 16 (\<lambda>_. True, CacheHandle ''a'')) (timeline_cache_new 1))
      = (c', Inl (TimelineRuntimeCacheSaturated ''b'' 1))"
  using touched_entry_refuses_insertion [of "''a''" "''b''" 8 "\<lambda>_. True" 7] by auto

end
