(* ===== verification/Service.thy ===== *)
theory Service
  imports Complex_Main Memory_Store Store_Contract Config Drift Renewal Cache Endpoint Clock
begin

text \<open>
  The state of a worker (\<open>service/mod.rs\<close>), its synchronous operations, and the shape of its
  asynchronous ones. An asynchronous operation is a function on the world: the service, the metadata
  store and a count of the observations made so far. What the operation cannot control is a parameter:
  what other tasks and other workers did to the service and the store before its next access of the store,
  the reading of the clocks, whether the request has been cancelled, what its neighbours on the same worker
  hold or have in flight. Metrics and tracing are left out.
  The store is the one of \<open>metadata/memory.rs\<close>.
\<close>

subsection \<open>State\<close>

record timeline_state =
  tst_route :: timeline_route
  tst_state :: timeline_lifecycle_state
  tst_last_issued_tso :: "u64 option"
  tst_recovery_floor_tso :: "u64 option"
  tst_last_graceful_issued :: "u64 option"
  tst_timeline_quota_tokens :: "real option"
  tst_timeline_quota_last_refill_ms :: "u64 option"
  tst_revision :: u64

record tso_service =
  sv_config :: tso_config
  sv_instance_id :: string
  sv_generator_runtime :: generator_runtime
  sv_timeline_runtime :: timeline_cache
  sv_timeline_states :: "(nat \<times> timeline_state) list"  \<comment> \<open>the shared states by address\<close>
  sv_metadata_contention :: u64  \<comment> \<open>the jitter state\<close>
  sv_ownership_drift :: ownership_drift_tracker
  sv_shutdown_gate :: bool

definition service_new :: "tso_config \<Rightarrow> string \<Rightarrow> u64 \<Rightarrow> tso_service" where
  \<comment> \<open>with the instance id and the jitter seed\<close>
  "service_new c i seed =
     \<lparr> sv_config = (if cfg_generator_lease_ttl_ms c = 0 then c \<lparr> cfg_generator_lease_ttl_ms := cfg_lease_ttl_ms c \<rparr> else c),
       sv_instance_id = i,
       sv_generator_runtime = runtime_with_layout (max_generators (cfg_timestamp_layout c)) (cfg_timestamp_layout c),
       sv_timeline_runtime = timeline_cache_new (cfg_max_timeline_runtime_entries c),
       sv_timeline_states = [],
       sv_metadata_contention = seed,
       sv_ownership_drift = drift_new,
       sv_shutdown_gate = False \<rparr>"

record world =
  w_service :: tso_service
  w_store :: memory_store
  w_tick :: nat

record surroundings =
  ax_others :: "nat \<Rightarrow> tso_service \<times> memory_store \<Rightarrow> tso_service \<times> memory_store"
  ax_now :: "nat \<Rightarrow> u64"
  ax_cancelled :: "nat \<Rightarrow> bool"
  ax_instant :: "nat \<Rightarrow> nat"
  ax_idle :: "nat \<Rightarrow> nat \<Rightarrow> bool"  \<comment> \<open>nobody holds the timeline state at this address\<close>
  ax_load_timeout :: "nat \<Rightarrow> bool"  \<comment> \<open>the deadline came before the permit for a load\<close>
  ax_joined :: "nat \<Rightarrow> string \<Rightarrow> (timeline_record \<times> u64) option tso_result option"
    \<comment> \<open>the result of a load another task of this worker has in flight\<close>
  ax_joined_route :: "nat \<Rightarrow> string \<Rightarrow> (timeline_route_record \<times> u64) option tso_result option"
  ax_race :: "nat \<Rightarrow> nat \<Rightarrow> u64 \<Rightarrow> u64"  \<comment> \<open>other threads at the counter of a generator\<close>
  ax_flight :: "nat \<Rightarrow> u32 \<Rightarrow> bool"  \<comment> \<open>another task of this worker has the lease of the generator in flight\<close>

type_synonym 'a act = "world \<Rightarrow> world \<times> 'a tso_result"

subsection \<open>Asynchronous operations\<close>

definition ret :: "'a \<Rightarrow> 'a act" where
  "ret x w = (w, Inr x)"

definition throw :: "tso_error \<Rightarrow> 'a act" where
  "throw e w = (w, Inl e)"

definition bnd :: "'a act \<Rightarrow> ('a \<Rightarrow> 'b act) \<Rightarrow> 'b act" where
  "bnd m f w = (case m w of (w', Inl e) \<Rightarrow> (w', Inl e) | (w', Inr x) \<Rightarrow> f x w')"

definition result_of :: "'a act \<Rightarrow> 'a tso_result act" where
  \<comment> \<open>the outcome as a value, for code that matches on it\<close>
  "result_of m w = (case m w of (w', r) \<Rightarrow> (w', Inr r))"

definition done_with :: "'a tso_result \<Rightarrow> 'a act" where
  "done_with r w = (w, r)"

definition get_service :: "tso_service act" where
  "get_service w = (w, Inr (w_service w))"

definition on_service :: "(tso_service \<Rightarrow> tso_service \<times> 'a tso_result) \<Rightarrow> 'a act" where
  "on_service f w = (case f (w_service w) of (sv, r) \<Rightarrow> (w \<lparr> w_service := sv \<rparr>, r))"

definition tick :: "world \<Rightarrow> world" where
  "tick w = w \<lparr> w_tick := Suc (w_tick w) \<rparr>"

definition clock_now_ms :: "surroundings \<Rightarrow> u64 act" where
  "clock_now_ms ax w = (tick w, Inr (ax_now ax (w_tick w)))"

definition instant_now :: "surroundings \<Rightarrow> nat act" where
  "instant_now ax w = (tick w, Inr (ax_instant ax (w_tick w)))"

definition check_request_cancellation :: "surroundings \<Rightarrow> unit act" where
  "check_request_cancellation ax w =
     (tick w, if ax_cancelled ax (w_tick w) then Inl RequestCancelled else Inr ())"

definition pause :: "surroundings \<Rightarrow> unit act" where
  \<comment> \<open>an await: the others run\<close>
  "pause ax w =
     (let (sv, st) = ax_others ax (w_tick w) (w_service w, w_store w)
      in (tick w \<lparr> w_service := sv, w_store := st \<rparr>, Inr ()))"

definition on_store :: "surroundings \<Rightarrow> (memory_store \<Rightarrow> memory_store \<times> 'a tso_result) \<Rightarrow> 'a act" where
  "on_store ax f = bnd (pause ax) (\<lambda>_ w. case f (w_store w) of (st, r) \<Rightarrow> (w \<lparr> w_store := st \<rparr>, r))"

definition load_generator :: "surroundings \<Rightarrow> u32 \<Rightarrow> (generator_record \<times> u64) option act" where
  "load_generator ax gid = on_store ax (\<lambda>s. (s, ms_load_generator s gid))"

definition create_generator :: "surroundings \<Rightarrow> u32 \<Rightarrow> generator_record \<Rightarrow> u64 act" where
  "create_generator ax gid r = on_store ax (ms_create_generator gid r)"

definition compare_exchange_generator :: "surroundings \<Rightarrow> u32 \<Rightarrow> u64 \<Rightarrow> generator_record \<Rightarrow> u64 act" where
  "compare_exchange_generator ax gid rv r = on_store ax (ms_compare_exchange_generator gid rv r)"

definition load_generators :: "surroundings \<Rightarrow> u32 list \<Rightarrow> (u32 \<times> generator_record option) list act" where
  "load_generators ax gids = on_store ax (\<lambda>s. (s, ms_load_generators s gids []))"

definition load_timeline :: "surroundings \<Rightarrow> string \<Rightarrow> (timeline_record \<times> u64) option act" where
  "load_timeline ax tk = on_store ax (\<lambda>s. (s, ms_load_timeline s tk))"

definition load_timeline_route :: "surroundings \<Rightarrow> string \<Rightarrow> (timeline_route_record \<times> u64) option act" where
  "load_timeline_route ax tk = on_store ax (\<lambda>s. (s, ms_load_timeline_route s tk))"

definition create_timeline_with_limit :: "surroundings \<Rightarrow> string \<Rightarrow> timeline_record \<Rightarrow> nat \<Rightarrow> u64 act" where
  "create_timeline_with_limit ax tk r limit = on_store ax (ms_create_timeline_with_limit tk r limit)"

definition compare_exchange_timeline :: "surroundings \<Rightarrow> string \<Rightarrow> u64 \<Rightarrow> timeline_record \<Rightarrow> u64 act" where
  "compare_exchange_timeline ax tk rv r = on_store ax (ms_compare_exchange_timeline tk rv r)"

definition compare_exchange_generators :: "surroundings \<Rightarrow> generator_batch_op list \<Rightarrow> u64 list act" where
  "compare_exchange_generators ax ops = on_store ax (ms_compare_exchange_generators ops)"

lemma bnd_ret [simp]: "bnd (ret x) f = f x"
  by (simp add: bnd_def ret_def fun_eq_iff)

lemma bnd_throw [simp]: "bnd (throw e) f = throw e"
  by (simp add: bnd_def throw_def fun_eq_iff)

lemma bnd_assoc: "bnd (bnd m f) g = bnd m (\<lambda>x. bnd (f x) g)"
  by (auto simp: bnd_def fun_eq_iff split: prod.split sum.split)

subsection \<open>Contention\<close>

definition retry_budget :: "tso_config \<Rightarrow> u64" where
  "retry_budget c =
     (case cfg_grpc_request_timeout_ms c of
        Some t \<Rightarrow> t
      | None \<Rightarrow> (case cfg_etcd_timeout_ms c of Some t \<Rightarrow> t | None \<Rightarrow> 1000))"

definition metadata_contention_jitter_ms :: "u64 \<Rightarrow> u64 \<Rightarrow> u64 \<times> u64" where
  \<comment> \<open>the new jitter state and the delay\<close>
  "metadata_contention_jitter_ms max_ms state =
     (if max_ms = 0 then (state, 0)
      else let next = state * 6364136223846793005 + 1 in (next, next mod (max_ms + 1)))"

definition metadata_contention_backoff_delay :: "u32 \<Rightarrow> u64 \<Rightarrow> u64 \<times> u64" where
  "metadata_contention_backoff_delay retries state =
     (if retries \<le> 2 then (state, 0)
      else metadata_contention_jitter_ms (push_bit (unat (min (retries - 3) 4)) 1) state)"

definition backoff_after_contention :: "surroundings \<Rightarrow> u32 \<Rightarrow> nat \<Rightarrow> unit act" where
  "backoff_after_contention ax retries deadline =
     bnd (instant_now ax) (\<lambda>t.
       if deadline \<le> t then throw CasFailed
       else
         bnd (if retries \<le> 2 then pause ax
              else bnd (instant_now ax) (\<lambda>t.
                     if deadline - t = 0 then throw CasFailed
                     else bnd (on_service (\<lambda>sv.
                            let (state, delay) = metadata_contention_backoff_delay retries (sv_metadata_contention sv)
                            in (sv \<lparr> sv_metadata_contention := state \<rparr>, Inr (min (unat delay) (deadline - t)))))
                          (\<lambda>delay. if delay \<noteq> 0 then pause ax else ret ())))
           (\<lambda>_. bnd (instant_now ax) (\<lambda>t. if deadline \<le> t then throw CasFailed else ret ())))"

subsection \<open>Synchronous operations\<close>

definition owns_generator_id :: "tso_service \<Rightarrow> u32 \<Rightarrow> bool" where
  "owns_generator_id sv gid =
     list_ex (\<lambda>r. r = gid mod cfg_generator_ownership_modulo (sv_config sv))
       (effective_generator_ownership_remainders (sv_config sv))"

definition is_local_endpoint :: "tso_service \<Rightarrow> string \<Rightarrow> bool" where
  "is_local_endpoint sv endpoint = endpoints_match endpoint (cfg_advertise_endpoint (sv_config sv))"

definition is_local_generator_owner :: "tso_service \<Rightarrow> generator_record \<Rightarrow> bool" where
  "is_local_generator_owner sv r \<longleftrightarrow>
     is_local_endpoint sv (gr_owner_worker_endpoint r) \<and> gr_owner_instance_id r = sv_instance_id sv"

definition clear_timeline_cache :: "string \<Rightarrow> tso_service \<Rightarrow> tso_service" where
  "clear_timeline_cache k sv = sv \<lparr> sv_timeline_runtime := remove_timeline k (sv_timeline_runtime sv) \<rparr>"

definition reject_new_work_if_shutting_down :: "tso_service \<Rightarrow> unit tso_result" where
  "reject_new_work_if_shutting_down sv = (if sv_shutdown_gate sv then Inl ServiceShuttingDown else Inr ())"

definition request_local_shutdown_gate :: "tso_service \<Rightarrow> tso_service" where
  "request_local_shutdown_gate sv = sv \<lparr> sv_shutdown_gate := True \<rparr>"

definition observe_ownership_drift :: "u32 \<Rightarrow> string \<Rightarrow> u64 \<Rightarrow> u64 \<Rightarrow> tso_service \<Rightarrow> tso_service" where
  "observe_ownership_drift gid contending lease_expire_at_ms observed_at_ms sv =
     sv \<lparr> sv_ownership_drift := observe_contended_local_generator gid contending lease_expire_at_ms observed_at_ms
            (sv_ownership_drift sv) \<rparr>"

definition clear_ownership_drift_of :: "u32 \<Rightarrow> tso_service \<Rightarrow> tso_service" where
  "clear_ownership_drift_of gid sv = sv \<lparr> sv_ownership_drift := clear_generator gid (sv_ownership_drift sv) \<rparr>"

definition next_generator_with_ownership_drift :: "u64 \<Rightarrow> tso_service \<Rightarrow> tso_service \<times> u32 option" where
  "next_generator_with_ownership_drift now_ms sv =
     (let (t, r) = next_generator_to_retry now_ms (cfg_generator_maintenance_interval_ms (sv_config sv))
            (sv_ownership_drift sv)
      in (sv \<lparr> sv_ownership_drift := t \<rparr>, r))"

definition ensure_generator_id_range :: "tso_service \<Rightarrow> u32 \<Rightarrow> unit tso_result" where
  "ensure_generator_id_range sv gid =
     (if max_generators (cfg_timestamp_layout (sv_config sv)) \<le> gid then Inl (GeneratorIdOutOfRange gid) else Inr ())"

definition lookup_generator :: "tso_service \<Rightarrow> u32 \<Rightarrow> generator tso_result" where
  "lookup_generator sv gid =
     and_then (ensure_generator_id_range sv gid) (\<lambda>_. generator_at (sv_generator_runtime sv) gid)"

definition on_runtime :: "(generator_runtime \<Rightarrow> generator_runtime) \<Rightarrow> tso_service \<Rightarrow> tso_service" where
  "on_runtime f sv = sv \<lparr> sv_generator_runtime := f (sv_generator_runtime sv) \<rparr>"

definition claimed_by :: "tso_service \<Rightarrow> string \<Rightarrow> u32 option" where
  "claimed_by sv tk = claimed_generator_for_timeline (sv_generator_runtime sv) tk"

fun claim_first_free :: "string \<Rightarrow> u32 list \<Rightarrow> tso_service \<Rightarrow> tso_service \<times> (u32 \<times> bool) tso_result" where
  \<comment> \<open>the loop over the dedicated ids\<close>
  "claim_first_free tk [] sv = (sv, Inl GeneratorPoolExhausted)"
| "claim_first_free tk (gid # gids) sv =
     (if \<not> owns_generator_id sv gid then claim_first_free tk gids sv
      else let (rs, r) = claim_dedicated gid tk (sv_generator_runtime sv);
               sv' = sv \<lparr> sv_generator_runtime := rs \<rparr>
           in case r of
                Inr claimed \<Rightarrow> (sv', Inr (gid, claimed))
              | Inl e \<Rightarrow> if e = GeneratorPoolExhausted then claim_first_free tk gids sv' else (sv', Inl e))"

definition service_claim_dedicated :: "string \<Rightarrow> tso_service \<Rightarrow> tso_service \<times> (u32 \<times> bool) tso_result" where
  "service_claim_dedicated tk sv =
     (let c = sv_config sv; dedicated_start = cfg_shared_generators c + cfg_warm_generators c in
      case claimed_by sv tk of
        Some gid \<Rightarrow> (sv, Inr (gid, False))
      | None \<Rightarrow> claim_first_free tk (u32_range dedicated_start (max_generators (cfg_timestamp_layout c))) sv)"

definition claim_specific_dedicated :: "u32 \<Rightarrow> string \<Rightarrow> tso_service \<Rightarrow> tso_service \<times> bool tso_result" where
  "claim_specific_dedicated gid tk sv =
     (if gid < cfg_shared_generators (sv_config sv) + cfg_warm_generators (sv_config sv)
      then (sv, Inl (GeneratorIdOutOfRange gid))
      else let (rs, r) = claim_dedicated gid tk (sv_generator_runtime sv)
           in (sv \<lparr> sv_generator_runtime := rs \<rparr>, r))"

definition service_release_dedicated :: "u32 \<Rightarrow> string \<Rightarrow> tso_service \<Rightarrow> tso_service" where
  "service_release_dedicated gid tk sv = on_runtime (release_dedicated gid tk) sv"

definition service_clear_dedicated_claims :: "tso_service \<Rightarrow> tso_service" where
  "service_clear_dedicated_claims sv = on_runtime clear_dedicated_claims sv"

definition pick_generator_id ::
    "(string \<Rightarrow> u64) \<Rightarrow> string \<Rightarrow> resource_tier \<Rightarrow> tso_service \<Rightarrow> tso_service \<times> u32 tso_result" where
  "pick_generator_id hash tk tier sv =
     (let c = sv_config sv in
      case tier of
        Shared \<Rightarrow> (sv, pick_owned_generator_by_hash hash tk 0 (cfg_shared_generators c) (owns_generator_id sv))
      | Warm \<Rightarrow> (sv, pick_owned_generator_by_hash hash tk (cfg_shared_generators c) (cfg_warm_generators c)
                      (owns_generator_id sv))
      | Dedicated \<Rightarrow>
          (case service_claim_dedicated tk sv of (sv', r) \<Rightarrow> (sv', and_then r (\<lambda>(gid, _). Inr gid))))"

subsection \<open>Leases held by this worker\<close>

definition timeline_is_ready :: "timeline_lifecycle_state \<Rightarrow> bool" where
  "timeline_is_ready s \<longleftrightarrow> serving_readiness s = Serving"

definition is_generator_lease_valid :: "tso_service \<Rightarrow> u32 \<Rightarrow> u64 \<Rightarrow> bool tso_result" where
  "is_generator_lease_valid sv gid now_ms =
     lease_valid_for_owner (sv_generator_runtime sv) gid (sv_instance_id sv) now_ms"

definition valid_generator_lease_upper_bound :: "tso_service \<Rightarrow> u32 \<Rightarrow> u64 \<Rightarrow> u64 option tso_result" where
  "valid_generator_lease_upper_bound sv gid now_ms =
     valid_lease_upper_bound_for_owner (sv_generator_runtime sv) gid (sv_instance_id sv) now_ms"

definition cached_local_generator_record :: "tso_service \<Rightarrow> u32 \<Rightarrow> u64 \<Rightarrow> generator_record option" where
  "cached_local_generator_record sv gid now_ms =
     (case lease_state (sv_generator_runtime sv) gid of
        None \<Rightarrow> None
      | Some l \<Rightarrow>
          if ls_owner_instance_id l \<noteq> sv_instance_id sv \<or> ls_lease_expire_at_ms l \<le> now_ms then None
          else Some \<lparr> gr_schema_version = CURRENT_METADATA_SCHEMA_VERSION, gr_generator_id = gid,
                 gr_owner_worker_endpoint = cfg_advertise_endpoint (sv_config sv),
                 gr_owner_instance_id = ls_owner_instance_id l, gr_generator_lease_token = ls_generator_lease_token l,
                 gr_lease_expire_at_ms = Some (ls_lease_expire_at_ms l), gr_last_issued_tso = ls_last_persisted_tso l,
                 gr_issued_upper_bound = ls_issued_upper_bound l, gr_updated_at_ms = now_ms \<rparr>)"

definition compute_generator_upper_bound :: "tso_service \<Rightarrow> u32 \<Rightarrow> u64 \<Rightarrow> u64 option" where
  "compute_generator_upper_bound sv gid base_ms =
     (let c = sv_config sv in
      result_ok (encode (cfg_timestamp_layout c) (base_ms + cfg_pre_borrow_ms c) gid
        (sequence_capacity (cfg_timestamp_layout c) - 1)))"

subsection \<open>A new worker\<close>

lemma fresh_generator_at:
  assumes "gid < n"
  shows "generator_at (runtime_with_layout n l) gid = Inr (generator_with_layout gid l)"
  using assms by (simp add: generator_at_def runtime_with_layout_def word_less_nat_alt)

lemma service_new_fields [simp]:
  "cfg_timestamp_layout (sv_config (service_new c i seed)) = cfg_timestamp_layout c"
  "sv_generator_runtime (service_new c i seed)
     = runtime_with_layout (max_generators (cfg_timestamp_layout c)) (cfg_timestamp_layout c)"
  "sv_instance_id (service_new c i seed) = i"
  by (simp_all add: service_new_def)

end
