(* ===== verification/Lease.thy ===== *)
theory Lease
  imports Service
begin

text \<open>
  The life of a generator lease (\<open>service/lease.rs\<close>): adopting, creating or taking over the persisted
  record, refreshing it, and asking for the upper bound an allocation may use. What an operation decides
  between two accesses of the store is a definition of its own, used both by the operation and by the
  relation of many workers in \<open>Fencing\<close>. Retry loops and the wait for a flight have fuel; \<open>None\<close> is returned when it runs out.
\<close>

subsection \<open>Decisions\<close>

definition lease_state_of :: "u64 \<Rightarrow> generator_record \<Rightarrow> u64 \<Rightarrow> u64 option \<Rightarrow> generator_lease_state" where
  "lease_state_of revision r expire_at_ms last_persisted =
     \<lparr> ls_revision = revision, ls_owner_instance_id = gr_owner_instance_id r,
       ls_generator_lease_token = gr_generator_lease_token r, ls_lease_expire_at_ms = expire_at_ms,
       ls_last_persisted_tso = last_persisted, ls_issued_upper_bound = gr_issued_upper_bound r \<rparr>"

definition runtime_lease_state_from_record :: "u64 \<Rightarrow> generator_record \<Rightarrow> generator_lease_state tso_result" where
  "runtime_lease_state_from_record revision r =
     and_then (ok_or (GeneratorLeaseExpired (gr_generator_id r)) (gr_lease_expire_at_ms r)) (\<lambda>expire_at_ms.
       Inr (lease_state_of revision r expire_at_ms (gr_last_issued_tso r)))"

definition init_generator :: "u32 \<Rightarrow> u64 option \<Rightarrow> tso_service \<Rightarrow> tso_service \<times> unit tso_result" where
  \<comment> \<open>\<open>self.lookup_generator(id)?.init_after_floor(floor)?\<close> when there is a floor\<close>
  "init_generator gid floor_tso sv =
     (case floor_tso of
        None \<Rightarrow> (sv, Inr ())
      | Some f \<Rightarrow>
          (case lookup_generator sv gid of
             Inl e \<Rightarrow> (sv, Inl e)
           | Inr g \<Rightarrow> (case init_after_floor f g of (g', r) \<Rightarrow> (on_runtime (set_generator gid g') sv, r))))"

definition hold_lease :: "u32 \<Rightarrow> generator_lease_state \<Rightarrow> tso_service \<Rightarrow> tso_service \<times> unit tso_result" where
  \<comment> \<open>\<open>mark_generator_ready_for_lease\<close>, \<open>upsert_lease\<close> and the end of an observed drift\<close>
  "hold_lease gid l sv =
     (case mark_generator_ready_for_lease gid (ls_generator_lease_token l) (sv_generator_runtime sv) of
        Inl e \<Rightarrow> (sv, Inl e)
      | Inr rs \<Rightarrow> (clear_ownership_drift_of gid (sv \<lparr> sv_generator_runtime := upsert_lease gid l rs \<rparr>), Inr ()))"

definition install_lease ::
    "u32 \<Rightarrow> u64 option \<Rightarrow> generator_lease_state \<Rightarrow> tso_service \<Rightarrow> tso_service \<times> unit tso_result" where
  "install_lease gid floor_tso l sv =
     (case init_generator gid floor_tso sv of
        (sv1, Inl e) \<Rightarrow> (sv1, Inl e)
      | (sv1, Inr _) \<Rightarrow> hold_lease gid l sv1)"

definition new_generator_record :: "tso_service \<Rightarrow> u32 \<Rightarrow> u64 \<Rightarrow> generator_record" where
  "new_generator_record sv gid now_ms =
     \<lparr> gr_schema_version = 1, gr_generator_id = gid,
       gr_owner_worker_endpoint = cfg_advertise_endpoint (sv_config sv), gr_owner_instance_id = sv_instance_id sv,
       gr_generator_lease_token = 1,
       gr_lease_expire_at_ms = Some (now_ms + cfg_generator_lease_ttl_ms (sv_config sv)),
       gr_last_issued_tso = None, gr_issued_upper_bound = compute_generator_upper_bound sv gid now_ms,
       gr_updated_at_ms = now_ms \<rparr>"

definition takeover_record :: "tso_service \<Rightarrow> u32 \<Rightarrow> u64 \<Rightarrow> generator_record \<Rightarrow> generator_record tso_result" where
  "takeover_record sv gid now_ms r =
     and_then
       (case generator_recovery_floor_tso r of
          Some f \<Rightarrow>
            and_then (next_cursor_after_with_layout (cfg_timestamp_layout (sv_config sv)) f gid) (\<lambda>floor_cursor.
              Inr (r \<lparr> gr_last_issued_tso := Some f,
                       gr_issued_upper_bound :=
                         compute_generator_upper_bound sv gid (max now_ms (cu_physical_ms floor_cursor)) \<rparr>))
        | None \<Rightarrow> Inr (r \<lparr> gr_issued_upper_bound := compute_generator_upper_bound sv gid now_ms \<rparr>))
       (\<lambda>r. Inr (r \<lparr> gr_owner_worker_endpoint := cfg_advertise_endpoint (sv_config sv),
                     gr_owner_instance_id := sv_instance_id sv,
                     gr_generator_lease_token := max (saturating_add (gr_generator_lease_token r) 1) 1,
                     gr_lease_expire_at_ms := Some (now_ms + cfg_generator_lease_ttl_ms (sv_config sv)),
                     gr_updated_at_ms := now_ms \<rparr>))"

definition takeover_ready :: "tso_service \<Rightarrow> generator_record \<Rightarrow> u64 \<Rightarrow> bool" where
  "takeover_ready sv r now_ms =
     (case gr_lease_expire_at_ms r of
        None \<Rightarrow> False
      | Some e \<Rightarrow> lease_expired_with_safety_gap e now_ms (cfg_safety_gap_ms (sv_config sv)))"

definition note_foreign_owner :: "u32 \<Rightarrow> generator_record \<Rightarrow> u64 \<Rightarrow> tso_service \<Rightarrow> tso_service" where
  "note_foreign_owner gid r now_ms sv =
     (case gr_lease_expire_at_ms r of
        None \<Rightarrow> clear_ownership_drift_of gid sv
      | Some e \<Rightarrow>
          if now_ms < e \<and> is_local_endpoint sv (gr_owner_worker_endpoint r)
          then observe_ownership_drift gid (gr_owner_instance_id r) e now_ms sv
          else clear_ownership_drift_of gid sv)"

definition ensure_on_record ::
    "u32 \<Rightarrow> generator_record \<Rightarrow> u64 \<Rightarrow> u64 \<Rightarrow> tso_service \<Rightarrow> tso_service \<times> (unit tso_result + generator_record)" where
  \<comment> \<open>what follows a successful load: a final result, or a record to write\<close>
  "ensure_on_record gid r revision now_ms sv =
     (let local_owner = is_local_generator_owner sv r; ready = takeover_ready sv r now_ms in
      if local_owner \<and> \<not> ready then
        (case gr_lease_expire_at_ms r of
           None \<Rightarrow> (clear_ownership_drift_of gid sv, Inl (Inl (GeneratorLeaseExpired gid)))
         | Some e \<Rightarrow>
             if now_ms < e then
               (case install_lease gid (generator_recovery_floor_tso r)
                       (lease_state_of revision r e (generator_recovery_floor_tso r)) sv of
                  (sv', res) \<Rightarrow> (sv', Inl res))
             else (clear_ownership_drift_of gid sv, Inl (Inl (GeneratorLeaseExpired gid))))
      else
        let sv1 = (if local_owner then sv else note_foreign_owner gid r now_ms sv) in
        if ready then
          (case takeover_record sv1 gid now_ms r of
             Inl e \<Rightarrow> (sv1, Inl (Inl e))
           | Inr r' \<Rightarrow> (sv1, Inr r'))
        else (sv1, Inl (Inl (NotGeneratorOwner gid (gr_owner_worker_endpoint r)))))"

definition after_takeover :: "u32 \<Rightarrow> generator_record \<Rightarrow> u64 \<Rightarrow> tso_service \<Rightarrow> tso_service \<times> unit tso_result" where
  \<comment> \<open>with the record as written and its new revision\<close>
  "after_takeover gid r revision sv =
     install_lease gid (generator_recovery_floor_tso r)
       (lease_state_of revision r (case gr_lease_expire_at_ms r of Some e \<Rightarrow> e | None \<Rightarrow> 0) (gr_last_issued_tso r)) sv"

definition after_creation :: "u32 \<Rightarrow> generator_record \<Rightarrow> u64 \<Rightarrow> tso_service \<Rightarrow> tso_service \<times> unit tso_result" where
  "after_creation gid r revision sv =
     hold_lease gid
       (lease_state_of revision r (case gr_lease_expire_at_ms r of Some e \<Rightarrow> e | None \<Rightarrow> 0) None) sv"

definition refresh_record ::
    "tso_service \<Rightarrow> u32 \<Rightarrow> generator_lease_state \<Rightarrow> u64 \<Rightarrow> lease_refresh_reason \<Rightarrow> generator_record option tso_result" where
  \<comment> \<open>the record a refresh of this lease writes, if it writes one\<close>
  "refresh_record sv gid l now_ms reason =
     (let c = sv_config sv; ttl = cfg_generator_lease_ttl_ms c in
      and_then (and_then (lookup_generator sv gid) current_last_issued_tso) (\<lambda>local_last.
        let plan = build_with_layout (cfg_timestamp_layout c) (ls_lease_expire_at_ms l) (ls_last_persisted_tso l)
                     (ls_issued_upper_bound l) local_last now_ms
                     \<lparr> rtm_ttl_ms = ttl, rtm_pre_borrow_ms = cfg_pre_borrow_ms c \<rparr>;
            next_upper_bound = (if should_extend_upper_bound plan reason
              then compute_generator_upper_bound sv gid (rp_next_upper_bound_base_ms plan) else None)
        in if \<not> needs_write plan reason then Inr None
           else Inr (Some \<lparr> gr_schema_version = 1, gr_generator_id = gid,
               gr_owner_worker_endpoint = cfg_advertise_endpoint c, gr_owner_instance_id = ls_owner_instance_id l,
               gr_generator_lease_token = ls_generator_lease_token l,
               gr_lease_expire_at_ms = Some (record_lease_expire_at_ms plan (now_ms + ttl) reason),
               gr_last_issued_tso = rp_candidate_last plan,
               gr_issued_upper_bound = record_issued_upper_bound plan next_upper_bound reason,
               gr_updated_at_ms = now_ms \<rparr>)))"

definition after_refresh :: "u32 \<Rightarrow> generator_record \<Rightarrow> u64 \<Rightarrow> tso_service \<Rightarrow> tso_service \<times> unit tso_result" where
  "after_refresh gid r revision sv =
     (case runtime_lease_state_from_record revision r of
        Inl e \<Rightarrow> (sv, Inl e)
      | Inr l \<Rightarrow> hold_lease gid l sv)"

definition drop_lease :: "u32 \<Rightarrow> tso_service \<Rightarrow> tso_service \<times> unit tso_result" where
  "drop_lease gid sv =
     (case remove_lease gid (sv_generator_runtime sv) of
        Inl e \<Rightarrow> (sv, Inl e)
      | Inr rs \<Rightarrow> (sv \<lparr> sv_generator_runtime := rs \<rparr>, Inr ()))"

subsection \<open>Ensuring a lease\<close>

definition flight_taken :: "surroundings \<Rightarrow> u32 \<Rightarrow> bool act" where
  "flight_taken ax gid w = (tick w, Inr (ax_flight ax (w_tick w) gid))"

fun acquire_generator_lease_singleflight :: "surroundings \<Rightarrow> u32 \<Rightarrow> nat \<Rightarrow> unit option act" where
  \<comment> \<open>a turn: cancelled, the flight is free and ours, or wait until its holder is done and look again\<close>
  "acquire_generator_lease_singleflight ax gid 0 = ret None"
| "acquire_generator_lease_singleflight ax gid (Suc n) =
     bnd (check_request_cancellation ax) (\<lambda>_.
     bnd (flight_taken ax gid) (\<lambda>taken.
     bnd (pause ax) (\<lambda>_.
     if taken then acquire_generator_lease_singleflight ax gid n else ret (Some ()))))"

definition with_flight :: "surroundings \<Rightarrow> nat \<Rightarrow> u32 \<Rightarrow> 'a option act \<Rightarrow> 'a option act" where
  \<comment> \<open>the rest of an operation, once it has the flight\<close>
  "with_flight ax fuel gid m =
     bnd (acquire_generator_lease_singleflight ax gid fuel) (\<lambda>held. case held of None \<Rightarrow> ret None | Some _ \<Rightarrow> m)"

fun ensure_loop :: "surroundings \<Rightarrow> u32 \<Rightarrow> nat \<Rightarrow> u32 \<Rightarrow> nat \<Rightarrow> unit option act" where
  "ensure_loop ax gid deadline retries 0 = ret None"
| "ensure_loop ax gid deadline retries (Suc fuel) =
     (let again = bnd (backoff_after_contention ax (saturating_add retries 1) deadline) (\<lambda>_.
            bnd (check_request_cancellation ax) (\<lambda>_.
              ensure_loop ax gid deadline (saturating_add retries 1) fuel)) in
      bnd (check_request_cancellation ax) (\<lambda>_.
      bnd (load_generator ax gid) (\<lambda>loaded. case loaded of
        Some (r, revision) \<Rightarrow>
          bnd (clock_now_ms ax) (\<lambda>now_ms.
          bnd (on_service (\<lambda>sv. case ensure_on_record gid r revision now_ms sv of (sv', d) \<Rightarrow> (sv', Inr d))) (\<lambda>d.
          case d of
            Inl res \<Rightarrow> bnd (done_with res) (\<lambda>_. ret (Some ()))
          | Inr r' \<Rightarrow>
              bnd (result_of (compare_exchange_generator ax gid revision r')) (\<lambda>res. case res of
                Inr new_rev \<Rightarrow> bnd (on_service (after_takeover gid r' new_rev)) (\<lambda>_. ret (Some ()))
              | Inl e \<Rightarrow> if e = CasFailed then again else throw e)))
      | None \<Rightarrow>
          bnd (clock_now_ms ax) (\<lambda>now_ms.
          bnd get_service (\<lambda>sv.
          let r' = new_generator_record sv gid now_ms in
          bnd (result_of (create_generator ax gid r')) (\<lambda>res. case res of
            Inr revision \<Rightarrow> bnd (on_service (after_creation gid r' revision)) (\<lambda>_. ret (Some ()))
          | Inl e \<Rightarrow> if e = MetadataAlreadyExists then again else throw e))))))"

definition ensure_generator_lease_after_singleflight :: "surroundings \<Rightarrow> nat \<Rightarrow> u32 \<Rightarrow> unit option act" where
  "ensure_generator_lease_after_singleflight ax fuel gid =
     bnd get_service (\<lambda>sv.
     bnd (done_with (ensure_generator_id_range sv gid)) (\<lambda>_.
     if \<not> owns_generator_id sv gid
     then throw (GeneratorNotOwnedByThisWorker gid (cfg_generator_ownership_modulo (sv_config sv))
                   (cfg_generator_ownership_remainder (sv_config sv)))
     else
       bnd (clock_now_ms ax) (\<lambda>now_ms.
       bnd (done_with (is_generator_lease_valid sv gid now_ms)) (\<lambda>valid.
       if valid then ret (Some ())
       else bnd (instant_now ax) (\<lambda>t.
              ensure_loop ax gid (t + unat (retry_budget (sv_config sv))) 0 fuel)))))"

definition ensure_generator_lease_with_cancellation :: "surroundings \<Rightarrow> nat \<Rightarrow> u32 \<Rightarrow> unit option act" where
  "ensure_generator_lease_with_cancellation ax fuel gid =
     with_flight ax fuel gid (
     bnd (check_request_cancellation ax) (\<lambda>_.
     bnd (clock_now_ms ax) (\<lambda>now_ms.
     bnd get_service (\<lambda>sv.
     bnd (done_with (is_generator_lease_valid sv gid now_ms)) (\<lambda>valid.
     if valid then ret (Some ()) else ensure_generator_lease_after_singleflight ax fuel gid)))))"

definition valid_bound_now :: "surroundings \<Rightarrow> u32 \<Rightarrow> u64 option act" where
  "valid_bound_now ax gid =
     bnd (clock_now_ms ax) (\<lambda>now_ms.
     bnd get_service (\<lambda>sv. done_with (valid_generator_lease_upper_bound sv gid now_ms)))"

definition refuse_expired ::
    "string \<Rightarrow> u32 \<Rightarrow> generator_record \<Rightarrow> u64 \<Rightarrow> tso_service \<Rightarrow> tso_service \<times> unit tso_result" where
  \<comment> \<open>the checks of the loaded record before an allocation relies on it\<close>
  "refuse_expired tk gid r now_ms sv =
     (case gr_lease_expire_at_ms r of
        None \<Rightarrow> (clear_ownership_drift_of gid sv, Inl (LeaseExpired tk))
      | Some e \<Rightarrow>
          if \<not> is_local_generator_owner sv r \<or> e \<le> now_ms then
            (if is_local_endpoint sv (gr_owner_worker_endpoint r) \<and> now_ms < e
             then observe_ownership_drift gid (gr_owner_instance_id r) e now_ms sv
             else clear_ownership_drift_of gid sv, Inl (LeaseExpired tk))
          else (sv, Inr ()))"

definition ensure_generator_lease_for_allocation ::
    "surroundings \<Rightarrow> nat \<Rightarrow> string \<Rightarrow> u32 \<Rightarrow> u64 option option act" where
  "ensure_generator_lease_for_allocation ax fuel tk gid =
     bnd (valid_bound_now ax gid) (\<lambda>bound. case bound of
       Some ub \<Rightarrow> ret (Some (Some ub))
     | None \<Rightarrow>
         bnd (check_request_cancellation ax) (\<lambda>_.
         with_flight ax fuel gid (
         bnd (check_request_cancellation ax) (\<lambda>_.
         bnd (valid_bound_now ax gid) (\<lambda>bound. case bound of
           Some ub \<Rightarrow> ret (Some (Some ub))
         | None \<Rightarrow>
             bnd (load_generator ax gid) (\<lambda>loaded. case loaded of
               None \<Rightarrow> throw (LeaseExpired tk)
             | Some (r, revision) \<Rightarrow>
                 bnd (clock_now_ms ax) (\<lambda>now_ms.
                 bnd (on_service (refuse_expired tk gid r now_ms)) (\<lambda>_.
                 bnd (ensure_generator_lease_after_singleflight ax fuel gid) (\<lambda>ensured. case ensured of
                   None \<Rightarrow> ret None
                 | Some _ \<Rightarrow> bnd (valid_bound_now ax gid) (\<lambda>bound. ret (Some bound)))))))))))"

subsection \<open>Refreshing a lease\<close>

definition refresh_generator_lease_after_singleflight ::
    "surroundings \<Rightarrow> nat \<Rightarrow> u32 \<Rightarrow> u64 \<Rightarrow> lease_refresh_reason \<Rightarrow> unit option act" where
  "refresh_generator_lease_after_singleflight ax fuel gid now_ms reason =
     bnd get_service (\<lambda>sv. case lease_state (sv_generator_runtime sv) gid of
       None \<Rightarrow> ret (Some ())
     | Some l \<Rightarrow>
         bnd (check_request_cancellation ax) (\<lambda>_.
         if ls_lease_expire_at_ms l \<le> now_ms then throw (GeneratorLeaseExpired gid)
         else
           bnd (done_with (refresh_record sv gid l now_ms reason)) (\<lambda>written. case written of
             None \<Rightarrow> ret (Some ())
           | Some r \<Rightarrow>
               bnd (result_of (compare_exchange_generator ax gid (ls_revision l) r)) (\<lambda>res. case res of
                 Inr new_rev \<Rightarrow> bnd (on_service (after_refresh gid r new_rev)) (\<lambda>_. ret (Some ()))
               | Inl e \<Rightarrow>
                   if e = CasFailed then
                     bnd (on_service (drop_lease gid)) (\<lambda>_.
                     bnd (result_of (ensure_generator_lease_after_singleflight ax fuel gid)) (\<lambda>res.
                     bnd (on_service (\<lambda>sv.
                       (case res of
                          Inl _ \<Rightarrow>
                            if lease_state (sv_generator_runtime sv) gid = None then on_runtime (upsert_lease gid l) sv
                            else sv
                        | Inr _ \<Rightarrow> sv, res)))
                       ret))
                   else throw e))))"

definition refresh_generator_lease_inner ::
    "surroundings \<Rightarrow> nat \<Rightarrow> u32 \<Rightarrow> lease_refresh_reason \<Rightarrow> unit option act" where
  "refresh_generator_lease_inner ax fuel gid reason =
     with_flight ax fuel gid (
     bnd (check_request_cancellation ax) (\<lambda>_.
     bnd (clock_now_ms ax) (\<lambda>now_ms.
       refresh_generator_lease_after_singleflight ax fuel gid now_ms reason)))"

definition refresh_generator_lease :: "surroundings \<Rightarrow> nat \<Rightarrow> u32 \<Rightarrow> unit option act" where
  "refresh_generator_lease ax fuel gid = refresh_generator_lease_inner ax fuel gid Maintenance"

definition refresh_generator_lease_if_unchanged ::
    "surroundings \<Rightarrow> nat \<Rightarrow> u32 \<Rightarrow> u64 option \<Rightarrow> unit option act" where
  "refresh_generator_lease_if_unchanged ax fuel gid observed_upper_bound =
     with_flight ax fuel gid (
     bnd (check_request_cancellation ax) (\<lambda>_.
     bnd (clock_now_ms ax) (\<lambda>now_ms.
     bnd get_service (\<lambda>sv. case lease_state (sv_generator_runtime sv) gid of
       None \<Rightarrow> ensure_generator_lease_after_singleflight ax fuel gid
     | Some l \<Rightarrow>
         if now_ms < ls_lease_expire_at_ms l \<and> ls_issued_upper_bound l \<noteq> observed_upper_bound then ret (Some ())
         else refresh_generator_lease_after_singleflight ax fuel gid now_ms HorizonRequired))))"

fun collect_refresh_operations :: "surroundings \<Rightarrow> u32 list \<Rightarrow> generator_batch_op list act" where
  "collect_refresh_operations ax [] = ret []"
| "collect_refresh_operations ax (gid # gids) =
     bnd (clock_now_ms ax) (\<lambda>now_ms.
     bnd get_service (\<lambda>sv.
     bnd (collect_refresh_operations ax gids) (\<lambda>ops.
       ret (case lease_state (sv_generator_runtime sv) gid of
              None \<Rightarrow> ops
            | Some l \<Rightarrow>
                if ls_lease_expire_at_ms l \<le> now_ms then ops
                else (case refresh_record sv gid l now_ms Maintenance of
                        Inl _ \<Rightarrow> ops
                      | Inr None \<Rightarrow> ops
                      | Inr (Some r) \<Rightarrow>
                          \<lparr> gb_generator_id = gid, gb_previous_revision = ls_revision l, gb_record = r \<rparr> # ops)))))"

fun hold_refreshed :: "(generator_batch_op \<times> u64) list \<Rightarrow> tso_service \<Rightarrow> tso_service \<times> unit tso_result" where
  "hold_refreshed [] sv = (sv, Inr ())"
| "hold_refreshed ((op, revision) # rest) sv =
     (case runtime_lease_state_from_record revision (gb_record op) of
        Inl _ \<Rightarrow> hold_refreshed rest sv
      | Inr l \<Rightarrow>
          (case hold_lease (gb_generator_id op) l sv of
             (sv', Inl e) \<Rightarrow> (sv', Inl e)
           | (sv', Inr _) \<Rightarrow> hold_refreshed rest sv'))"

fun flush_batches :: "surroundings \<Rightarrow> nat \<Rightarrow> nat \<Rightarrow> generator_batch_op list list \<Rightarrow> unit option act" where
  \<comment> \<open>the queue of batches, with the fuel of the refreshes and its own\<close>
  "flush_batches ax fuel n [] = ret (Some ())"
| "flush_batches ax fuel 0 (ops # pending) = ret None"
| "flush_batches ax fuel (Suc n) (ops # pending) =
     bnd (result_of (compare_exchange_generators ax ops)) (\<lambda>res. case res of
       Inr revisions \<Rightarrow>
         if length revisions \<noteq> length ops then flush_batches ax fuel n pending
         else bnd (on_service (hold_refreshed (zip ops revisions))) (\<lambda>_. flush_batches ax fuel n pending)
     | Inl e \<Rightarrow>
         if e = CasFailed \<and> 1 < length ops then
           flush_batches ax fuel n (take (length ops div 2) ops # drop (length ops div 2) ops # pending)
         else if e = CasFailed then
           bnd (result_of (refresh_generator_lease ax fuel (gb_generator_id (ops ! 0)))) (\<lambda>res.
             case res of Inr None \<Rightarrow> ret None | _ \<Rightarrow> flush_batches ax fuel n pending)
         else flush_batches ax fuel n pending)"

definition refresh_generator_leases_batch :: "surroundings \<Rightarrow> nat \<Rightarrow> nat \<Rightarrow> u32 list \<Rightarrow> unit option act" where
  "refresh_generator_leases_batch ax fuel n gids =
     (if gids = [] then ret (Some ())
      else bnd (collect_refresh_operations ax gids) (\<lambda>ops.
        if ops = [] then ret (Some ()) else flush_batches ax fuel n [ops]))"

subsection \<open>Asking for an upper bound\<close>

lemmas act_defs = bnd_def ret_def throw_def done_with_def get_service_def on_service_def clock_now_ms_def instant_now_def
  check_request_cancellation_def pause_def on_store_def tick_def result_of_def

definition alone :: "surroundings \<Rightarrow> bool" where
  \<comment> \<open>nobody else acts and the request is not cancelled\<close>
  "alone ax \<longleftrightarrow> ax_others ax = (\<lambda>_ x. x) \<and> ax_cancelled ax = (\<lambda>_. False) \<and> ax_flight ax = (\<lambda>_ _. False)"

lemma no_lease_no_bound:
  "lease_state (sv_generator_runtime sv) gid = None \<Longrightarrow> valid_generator_lease_upper_bound sv gid now_ms = Inr None"
  "lease_state (sv_generator_runtime sv) gid = None \<Longrightarrow> is_generator_lease_valid sv gid now_ms = Inr False"
  by (simp_all add: valid_generator_lease_upper_bound_def valid_lease_upper_bound_for_owner_def is_generator_lease_valid_def
      lease_valid_for_owner_def)

lemma ensure_adopts:
  assumes "alone ax" "ensure_generator_id_range sv gid = Inr ()" "owns_generator_id sv gid"
    and "lease_state (sv_generator_runtime sv) gid = None"
    and "ms_load_generator st gid = Inr (Some (r, rv))" "is_local_generator_owner sv r"
    and "gr_lease_expire_at_ms r = Some e" "ax_now ax (i + 4) < e"
    and "install_lease gid (generator_recovery_floor_tso r) (lease_state_of rv r e (generator_recovery_floor_tso r)) sv
      = (sv', Inr ())"
  shows "ensure_generator_lease_after_singleflight ax (Suc n) gid \<lparr> w_service = sv, w_store = st, w_tick = i \<rparr>
    = (\<lparr> w_service = sv', w_store = st, w_tick = i + 5 \<rparr>, Inr (Some ()))"
proof -
  have "\<not> takeover_ready sv r (ax_now ax (i + 4))"
    using assms(7,8) lease_expired_imp_past by (fastforce simp: takeover_ready_def)
  then have "ensure_on_record gid r rv (ax_now ax (i + 4)) sv = (sv', Inl (Inr ()))"
    using assms by (simp add: ensure_on_record_def)
  then show ?thesis
    using assms(1-6) by (simp add: ensure_generator_lease_after_singleflight_def act_defs no_lease_no_bound alone_def
        load_generator_def Let_def numeral_eq_Suc)
qed

lemma expired_after_adoption:
  assumes "alone ax" "ensure_generator_id_range sv gid = Inr ()" "owns_generator_id sv gid"
    and "lease_state (sv_generator_runtime sv) gid = None"
    and "ms_load_generator st gid = Inr (Some (r, rv))" "is_local_generator_owner sv r"
    and "gr_lease_expire_at_ms r = Some e" "ax_now ax (i + 8) < e" "ax_now ax (i + 13) < e" "e \<le> ax_now ax (i + 14)"
    and "install_lease gid (generator_recovery_floor_tso r) (lease_state_of rv r e (generator_recovery_floor_tso r)) sv
      = (sv', Inr ())"
    and "lease_state (sv_generator_runtime sv') gid = Some (lease_state_of rv r e (generator_recovery_floor_tso r))"
  shows "ensure_generator_lease_for_allocation ax (Suc n) tk gid \<lparr> w_service = sv, w_store = st, w_tick = i \<rparr>
    = (\<lparr> w_service = sv', w_store = st, w_tick = i + 15 \<rparr>, Inr (Some None))"
proof -
  have r: "refuse_expired tk gid r (ax_now ax (i + 8)) sv = (sv, Inr ())" using assms by (simp add: refuse_expired_def)
  have "\<not> ax_now ax (i + 14) < e" using assms(10) by (simp add: not_less)
  then have b: "valid_generator_lease_upper_bound sv' gid (ax_now ax (i + 14)) = Inr None"
    using assms(12) by (simp add: valid_generator_lease_upper_bound_def valid_lease_upper_bound_for_owner_def
        lease_matches_owner_and_time_def lease_state_of_def)
  have "ensure_generator_lease_after_singleflight ax (Suc n) gid \<lparr> w_service = sv, w_store = st, w_tick = i + 9 \<rparr>
    = (\<lparr> w_service = sv', w_store = st, w_tick = i + 14 \<rparr>, Inr (Some ()))"
    using ensure_adopts [OF assms(1-7) _ assms(11), where i = "i + 9"] assms(9) by (simp add: add.commute)
  then show ?thesis
    using assms(1,4,5) r b
    by (simp add: ensure_generator_lease_for_allocation_def valid_bound_now_def with_flight_def flight_taken_def
        act_defs no_lease_no_bound alone_def load_generator_def Let_def numeral_eq_Suc)
qed

subsection \<open>The retry loops end\<close>

definition timed :: "'a act \<Rightarrow> bool" where
  \<comment> \<open>the count of observations never goes back\<close>
  "timed m \<longleftrightarrow> (\<forall>w. w_tick w \<le> w_tick (fst (m w)))"

lemma timedD: "timed m \<Longrightarrow> m w = (w', r) \<Longrightarrow> w_tick w \<le> w_tick w'"
  unfolding timed_def by (metis fst_conv)

lemma timed_bnd:
  assumes m: "timed m" and f: "\<And>x. timed (f x)"
  shows "timed (bnd m f)"
  unfolding timed_def
proof
  fix w
  obtain w' r where w': "m w = (w', r)" by fastforce
  note t = timedD [OF m w']
  show "w_tick w \<le> w_tick (fst (bnd m f w))"
  proof (cases r)
    case (Inr x)
    have "w_tick w' \<le> w_tick (fst (f x w'))" using f unfolding timed_def by blast
    with t w' Inr show ?thesis by (simp add: bnd_def)
  qed (use t w' in \<open>simp add: bnd_def\<close>)
qed

lemma timed_result_of: "timed m \<Longrightarrow> timed (result_of m)"
  unfolding timed_def result_of_def by (simp add: case_prod_beta)

lemma timed_simps [simp]:
  "timed (ret x)" "timed (throw e)" "timed (done_with r)" "timed get_service" "timed (on_service h)"
  "timed (clock_now_ms ax)" "timed (instant_now ax)" "timed (check_request_cancellation ax)"
  by (auto simp: timed_def act_defs case_prod_beta)

lemma timed_pause [simp]: "timed (pause ax)"
  unfolding timed_def by (intro allI) (simp add: pause_def tick_def split_beta)

lemma timed_on_store [simp]: "timed (on_store ax f)"
  unfolding on_store_def by (rule timed_bnd [OF timed_pause]) (auto simp: timed_def split: prod.split)

lemma timed_store_ops [simp]:
  "timed (load_generator ax gid)" "timed (create_generator ax gid r)" "timed (compare_exchange_generator ax gid rv r)"
  "timed (compare_exchange_generators ax ops)"
  by (simp_all add: load_generator_def create_generator_def compare_exchange_generator_def compare_exchange_generators_def)

definition never :: "'a option act \<Rightarrow> nat \<Rightarrow> bool" where
  \<comment> \<open>started after \<open>k\<close> observations or more, the action does not run out of fuel\<close>
  "never m k \<longleftrightarrow> (\<forall>w. k \<le> w_tick w \<longrightarrow> snd (m w) \<noteq> Inr None)"

lemma never_bnd:
  assumes "timed m" "\<And>x. never (f x) k"
  shows "never (bnd m f) k"
  unfolding never_def
proof (intro allI impI)
  fix w :: world assume k: "k \<le> w_tick w"
  obtain w' r where m: "m w = (w', r)" by fastforce
  then have "w_tick w \<le> w_tick w'" using assms(1) unfolding timed_def by (metis fst_conv)
  with k assms(2) have "snd (f x w') \<noteq> Inr None" for x unfolding never_def by simp
  with m show "snd (bnd m f w) \<noteq> Inr None" by (cases r) (simp_all add: bnd_def)
qed

lemma never_simps [simp]:
  "never (ret (Some x)) k" "never (throw e) k"
  by (simp_all add: never_def act_defs)

lemma never_option: "never m k \<Longrightarrow> (\<And>y. never (f y) k) \<Longrightarrow> never (case x of None \<Rightarrow> m | Some y \<Rightarrow> f y) k"
  by (cases x) simp_all

lemma never_pair: "(\<And>y z. never (f y z) k) \<Longrightarrow> never (case x of (y, z) \<Rightarrow> f y z) k"
  by (cases x) simp

lemma never_sum: "(\<And>e. never (g e) k) \<Longrightarrow> (\<And>y. never (f y) k) \<Longrightarrow> never (case x of Inl e \<Rightarrow> g e | Inr y \<Rightarrow> f y) k"
  by (cases x) simp_all

lemma never_if: "never m k \<Longrightarrow> never m' k \<Longrightarrow> never (if b then m else m') k"
  by simp

lemma never_tick:
  assumes "\<And>w. k \<le> w_tick w \<Longrightarrow> k < w_tick (fst (m w))" "\<And>x. never (f x) (Suc k)"
  shows "never (bnd m f) k"
  unfolding never_def
proof (intro allI impI)
  fix w :: world assume k: "k \<le> w_tick w"
  obtain w' r where m: "m w = (w', r)" by fastforce
  then have "Suc k \<le> w_tick w'" using assms(1) [OF k] by simp
  with assms(2) have "snd (f x w') \<noteq> Inr None" for x unfolding never_def by simp
  with m show "snd (bnd m f w) \<noteq> Inr None" by (cases r) (simp_all add: bnd_def)
qed

lemma backoff_past_deadline:
  assumes "\<And>i. N \<le> i \<Longrightarrow> deadline \<le> ax_instant ax i" "N \<le> k"
  shows "never (bnd (backoff_after_contention ax retries deadline) f) k"
  using assms by (auto simp: never_def backoff_after_contention_def act_defs)

lemma timed_backoff [simp]: "timed (backoff_after_contention ax retries deadline)"
  unfolding backoff_after_contention_def by (intro timed_bnd) (auto intro!: timed_bnd)

lemma ensure_loop_never:
  assumes late: "\<And>i. N \<le> i \<Longrightarrow> deadline \<le> ax_instant ax i"
  shows "N < k + fuel \<Longrightarrow> 0 < fuel \<Longrightarrow> never (ensure_loop ax gid deadline retries fuel) k"
proof (induction fuel arbitrary: k retries)
  case (Suc fuel)
  let ?again = "bnd (backoff_after_contention ax (saturating_add retries 1) deadline) (\<lambda>_.
    bnd (check_request_cancellation ax) (\<lambda>_. ensure_loop ax gid deadline (saturating_add retries 1) fuel))"
  have again: "never ?again (Suc k)"
  proof (cases "N \<le> Suc k")
    case True
    then show ?thesis using late by (intro backoff_past_deadline)
  next
    case False
    with Suc.prems have "N < Suc k + fuel" "0 < fuel" by simp_all
    then show ?thesis by (intro never_bnd Suc.IH) simp_all
  qed
  have r1: "never (case d of Inl res \<Rightarrow> bnd (done_with res) (\<lambda>_. ret (Some ()))
      | Inr r' \<Rightarrow> bnd (result_of (compare_exchange_generator ax gid rv r')) (\<lambda>res. case res of
          Inr new_rev \<Rightarrow> bnd (on_service (after_takeover gid r' new_rev)) (\<lambda>_. ret (Some ()))
        | Inl e \<Rightarrow> if e = CasFailed then ?again else throw e)) (Suc k)" for d rv
    using again by (auto intro!: never_bnd timed_result_of split: sum.split)
  have r2: "never (bnd (result_of (create_generator ax gid r')) (\<lambda>res. case res of
        Inr revision \<Rightarrow> bnd (on_service (after_creation gid r' revision)) (\<lambda>_. ret (Some ()))
      | Inl e \<Rightarrow> if e = MetadataAlreadyExists then ?again else throw e)) (Suc k)" for r'
    using again by (auto intro!: never_bnd timed_result_of split: sum.split)
  show ?case unfolding ensure_loop.simps Let_def
  proof (rule never_tick)
    show "k \<le> w_tick w \<Longrightarrow> k < w_tick (fst (check_request_cancellation ax w))" for w
      by (simp add: check_request_cancellation_def tick_def)
  qed (auto intro!: never_bnd r1 r2 split: option.split)
qed simp

definition ticking :: "nat \<Rightarrow> surroundings \<Rightarrow> bool" where
  \<comment> \<open>the monotonic clock moves at least one millisecond every \<open>R\<close> observations\<close>
  "ticking R ax \<longleftrightarrow> mono (ax_instant ax) \<and> (\<forall>i. ax_instant ax i < ax_instant ax (i + R))"

lemma ticking_far:
  assumes "ticking R ax" "i + R * d \<le> j"
  shows "ax_instant ax i + d \<le> ax_instant ax j"
proof -
  have "ax_instant ax i + d \<le> ax_instant ax (i + R * d)"
  proof (induction d)
    case (Suc d)
    have "ax_instant ax (i + R * d) < ax_instant ax (i + R * d + R)"
      using assms(1) by (simp add: ticking_def)
    with Suc show ?case by (simp add: algebra_simps)
  qed simp
  also have "\<dots> \<le> ax_instant ax j" using assms by (simp add: ticking_def mono_def)
  finally show ?thesis .
qed

lemma ticking_pos: "ticking R ax \<Longrightarrow> 0 < R"
  unfolding ticking_def by (cases R) auto

lemma never_instant:
  assumes tk: "ticking R ax" and fuel: "R * 2 ^ 64 \<le> fuel"
  shows "never (bnd (instant_now ax) (\<lambda>t. ensure_loop ax gid (t + unat (b :: u64)) retries fuel)) k"
  unfolding never_def
proof (intro allI impI)
  fix w :: world
  have "unat b < 2 ^ 64" by simp
  with ticking_pos [OF tk] have "R * unat b < R * 2 ^ 64" by simp
  with fuel have f: "R * unat b < fuel" by linarith
  have "never (ensure_loop ax gid (ax_instant ax (w_tick w) + unat b) retries fuel) (Suc (w_tick w))"
    by (rule ensure_loop_never [where N = "w_tick w + R * unat b"]) (use ticking_far [OF tk] f in auto)
  then show "snd (bnd (instant_now ax) (\<lambda>t. ensure_loop ax gid (t + unat b) retries fuel) w) \<noteq> Inr None"
    by (simp add: never_def bnd_def instant_now_def tick_def)
qed

lemma ensure_after_never:
  assumes "ticking R ax" "R * 2 ^ 64 \<le> fuel"
  shows "never (ensure_generator_lease_after_singleflight ax fuel gid) k"
  unfolding ensure_generator_lease_after_singleflight_def
  by (auto intro!: never_bnd never_instant [OF assms])

lemma timed_ensure_loop [simp]: "timed (ensure_loop ax gid deadline retries fuel)"
  by (induction fuel arbitrary: retries)
    (auto simp: Let_def intro!: timed_bnd timed_result_of split: option.split sum.split)

lemma timed_flight_taken [simp]: "timed (flight_taken ax gid)"
  by (simp add: timed_def flight_taken_def tick_def)

lemma timed_flight [simp]: "timed (acquire_generator_lease_singleflight ax gid n)"
  by (induction n) (auto intro!: timed_bnd)

lemma timed_with_flight [intro!]: "timed m \<Longrightarrow> timed (with_flight ax fuel gid m)"
  unfolding with_flight_def by (auto intro!: timed_bnd split: option.split)

definition yielding :: "nat \<Rightarrow> surroundings \<Rightarrow> bool" where
  \<comment> \<open>a task that waits for a flight, looking every third observation, finds it free within \<open>K\<close> looks\<close>
  "yielding K ax \<longleftrightarrow> (\<forall>i gid. \<exists>j < K. \<not> ax_flight ax (i + 3 * j) gid)"

lemma flight_turn:
  "acquire_generator_lease_singleflight ax gid (Suc n) w
   = (if ax_cancelled ax (w_tick w) then (tick w, Inl RequestCancelled)
      else if ax_flight ax (Suc (w_tick w)) gid
      then acquire_generator_lease_singleflight ax gid n (fst (pause ax (tick (tick w))))
      else (fst (pause ax (tick (tick w))), Inr (Some ())))"
  by (simp add: act_defs flight_taken_def split: prod.split)

lemma flight_acquired:
  "\<exists>j < n. \<not> ax_flight ax (Suc (w_tick w) + 3 * j) gid \<Longrightarrow>
   snd (acquire_generator_lease_singleflight ax gid n w) \<noteq> Inr None"
proof (induction n arbitrary: w)
  case (Suc n)
  let ?w = "fst (pause ax (tick (tick w)))"
  have t: "w_tick ?w = w_tick w + 3" by (simp add: pause_def tick_def split: prod.split)
  from Suc.prems obtain j where j: "j < Suc n" "\<not> ax_flight ax (Suc (w_tick w) + 3 * j) gid" by blast
  have "\<exists>j < n. \<not> ax_flight ax (Suc (w_tick ?w) + 3 * j) gid" if "ax_flight ax (Suc (w_tick w)) gid"
    using j that t by (cases j) (auto simp: algebra_simps numeral_eq_Suc)
  with Suc.IH [of ?w] show ?case by (simp only: flight_turn) auto
qed simp

lemma flight_never:
  assumes "yielding K ax" "K \<le> fuel" shows "never (acquire_generator_lease_singleflight ax gid fuel) k"
  unfolding never_def
proof (intro allI impI)
  fix w :: world
  obtain j where "j < K" "\<not> ax_flight ax (Suc (w_tick w) + 3 * j) gid" using assms(1) unfolding yielding_def by blast
  with assms(2) show "snd (acquire_generator_lease_singleflight ax gid fuel w) \<noteq> Inr None"
    by (intro flight_acquired) (auto intro: less_le_trans)
qed

lemma flight_starves:
  \<comment> \<open>the flight is not queued for: a task that always looks while another has it waits forever\<close>
  "\<forall>i. ax_flight ax i gid \<and> \<not> ax_cancelled ax i \<Longrightarrow>
   \<exists>w'. acquire_generator_lease_singleflight ax gid n w = (w', Inr None)"
proof (induction n arbitrary: w)
  case (Suc n)
  then show ?case by (simp only: flight_turn) simp
qed (simp add: act_defs)

lemma timed_ensure_after [simp]: "timed (ensure_generator_lease_after_singleflight ax fuel gid)"
  unfolding ensure_generator_lease_after_singleflight_def by (auto intro!: timed_bnd)

lemma never_result_of:
  assumes "timed m" "never m k" "\<And>res. res \<noteq> Inr None \<Longrightarrow> never (f res) k"
  shows "never (bnd (result_of m) f) k"
  unfolding never_def
proof (intro allI impI)
  fix w :: world assume k: "k \<le> w_tick w"
  obtain w' r where m: "m w = (w', r)" by fastforce
  have "k \<le> w_tick w'" using timedD [OF assms(1) m] k by simp
  moreover have "r \<noteq> Inr None" using assms(2) k m by (auto simp: never_def)
  ultimately show "snd (bnd (result_of m) f w) \<noteq> Inr None"
    using assms(3) [of r] m by (simp add: never_def bnd_def result_of_def)
qed

lemma never_some:
  assumes "timed m" "never m k" "\<And>x. never (f (Some x)) k"
  shows "never (bnd m f) k"
  unfolding never_def
proof (intro allI impI)
  fix w :: world assume k: "k \<le> w_tick w"
  obtain w' r where m: "m w = (w', r)" by fastforce
  have k': "k \<le> w_tick w'" using timedD [OF assms(1) m] k by simp
  have "r \<noteq> Inr None" using assms(2) k m by (auto simp: never_def)
  then consider e where "r = Inl e" | x where "r = Inr (Some x)" by (cases r) auto
  then show "snd (bnd m f w) \<noteq> Inr None"
    using assms(3) k' m by cases (simp_all add: never_def bnd_def)
qed

lemma never_flight:
  assumes "yielding K ax" "K \<le> fuel" "never m k" shows "never (with_flight ax fuel gid m) k"
  unfolding with_flight_def by (rule never_some [OF timed_flight flight_never]) (use assms in simp_all)

lemma timed_valid_bound [simp]: "timed (valid_bound_now ax gid)"
  unfolding valid_bound_now_def by (auto intro!: timed_bnd)

lemma never_on_service: "(\<And>sv. snd (h sv) \<noteq> Inr None) \<Longrightarrow> never (bnd (on_service h) ret) k"
  unfolding never_def
proof (intro allI impI)
  fix w :: world assume h: "\<And>sv. snd (h sv) \<noteq> Inr None"
  obtain sv' r where r: "h (w_service w) = (sv', r)" by fastforce
  with h [of "w_service w"] show "snd (bnd (on_service h) ret w) \<noteq> Inr None"
    by (cases r) (simp_all add: act_defs)
qed

lemma refresh_after_never:
  assumes "ticking R ax" "R * 2 ^ 64 \<le> fuel"
  shows "never (refresh_generator_lease_after_singleflight ax fuel gid now_ms reason) k"
proof -
  have again: "never (bnd (result_of (ensure_generator_lease_after_singleflight ax fuel gid)) (\<lambda>res.
      bnd (on_service (\<lambda>sv. (g res sv, res))) ret)) k" for g
    by (auto intro!: never_result_of never_on_service ensure_after_never [OF assms])
  show ?thesis unfolding refresh_generator_lease_after_singleflight_def
    by (rule again | rule never_bnd never_option never_sum never_if | simp add: timed_result_of)+
qed

lemma timed_refresh_after [simp]: "timed (refresh_generator_lease_after_singleflight ax fuel gid now_ms reason)"
  unfolding refresh_generator_lease_after_singleflight_def
  by (auto intro!: timed_bnd timed_result_of split: option.split sum.split)

lemma timed_refresh [simp]: "timed (refresh_generator_lease ax fuel gid)"
  unfolding refresh_generator_lease_def refresh_generator_lease_inner_def by (auto intro!: timed_bnd)

lemma refresh_never:
  assumes "ticking R ax" "R * 2 ^ 64 \<le> fuel" "yielding K ax" "K \<le> fuel"
  shows "never (refresh_generator_lease ax fuel gid) k"
  unfolding refresh_generator_lease_def refresh_generator_lease_inner_def
  by (auto intro!: never_flight [OF assms(3,4)] never_bnd refresh_after_never [OF assms(1,2)])

lemma never_bnd_post:
  assumes "timed m" "\<And>w x. snd (m w) = Inr x \<Longrightarrow> P x" "\<And>x. P x \<Longrightarrow> never (f x) k"
  shows "never (bnd m f) k"
  unfolding never_def
proof (intro allI impI)
  fix w :: world assume k: "k \<le> w_tick w"
  obtain w' r where m: "m w = (w', r)" by fastforce
  have k': "k \<le> w_tick w'" using timedD [OF assms(1) m] k by simp
  show "snd (bnd m f w) \<noteq> Inr None"
  proof (cases r)
    case (Inr x)
    then have "P x" using assms(2) [of w] m by simp
    then show ?thesis using assms(3) k' m Inr by (simp add: never_def bnd_def)
  qed (use m in \<open>simp add: bnd_def\<close>)
qed

lemma timed_collect [simp]: "timed (collect_refresh_operations ax gids)"
  by (induction gids) (auto intro!: timed_bnd)

lemma collect_length: "snd (collect_refresh_operations ax gids w) = Inr ops \<Longrightarrow> length ops \<le> length gids"
proof (induction gids arbitrary: w ops)
  case (Cons gid gids)
  obtain w' r where c: "collect_refresh_operations ax gids (tick w) = (w', r)" by fastforce
  show ?case
  proof (cases r)
    case (Inr ops')
    then have "length ops' \<le> length gids" using Cons.IH [of "tick w"] c by simp
    then show ?thesis using Cons.prems c Inr
      by (auto simp: act_defs tick_def split: option.splits sum.splits if_splits)
  qed (use Cons.prems c in \<open>simp add: act_defs tick_def\<close>)
qed (simp add: act_defs)

lemma flush_never:
  assumes "ticking R ax" "R * 2 ^ 64 \<le> fuel" "yielding K ax" "K \<le> fuel"
  shows "sum_list (map (\<lambda>ops. 2 * length ops - 1) pending) \<le> n \<Longrightarrow> [] \<notin> set pending
    \<Longrightarrow> never (flush_batches ax fuel n pending) k"
proof (induction n arbitrary: pending)
  case (Suc n)
  show ?case
  proof (cases pending)
    case (Cons ops rest)
    with Suc.prems have ops: "0 < length ops" and n: "2 * length ops - 1 + sum_list (map (\<lambda>ops. 2 * length ops - 1) rest) \<le> Suc n"
      by auto
    have fits: "sum_list (map (\<lambda>ops. 2 * length ops - 1) rest) \<le> n" using ops n by linarith
    have rest: "never (flush_batches ax fuel n rest) k"
      by (rule Suc.IH [OF fits]) (use Suc.prems Cons in simp)
    have split: "never (flush_batches ax fuel n (take (length ops div 2) ops # drop (length ops div 2) ops # rest)) k"
      if two: "1 < length ops"
    proof (rule Suc.IH)
      have "2 * (length ops div 2) - 1 + (2 * (length ops - length ops div 2) - 1) + 1 \<le> 2 * length ops - 1"
        using two by linarith
      moreover have "length (take (length ops div 2) ops) = length ops div 2" by simp
      ultimately show "sum_list (map (\<lambda>ops. 2 * length ops - 1)
          (take (length ops div 2) ops # drop (length ops div 2) ops # rest)) \<le> n"
        using n unfolding list.map sum_list.Cons length_drop by linarith
    qed (use Suc.prems Cons two in auto)
    have refresh: "never (bnd (result_of (refresh_generator_lease ax fuel gid)) (\<lambda>res.
        case res of Inr None \<Rightarrow> ret None | _ \<Rightarrow> flush_batches ax fuel n rest)) k" for gid
      using rest by (intro never_result_of refresh_never [OF assms]) (auto split: sum.split option.split)
    show ?thesis unfolding Cons flush_batches.simps
      using rest split refresh by (auto intro!: never_bnd timed_result_of split: sum.split)
  qed simp
next
  case 0
  show ?case
  proof (cases pending)
    case (Cons ops rest)
    with 0 have "0 < length ops" "2 * length ops - 1 \<le> 0" by auto
    then have False by linarith
    then show ?thesis ..
  qed simp
qed

lemma batch_never:
  assumes "ticking R ax" "R * 2 ^ 64 \<le> fuel" "yielding K ax" "K \<le> fuel" "2 * length gids \<le> n"
  shows "never (refresh_generator_leases_batch ax fuel n gids) k"
proof -
  have "never (if ops = [] then ret (Some ()) else flush_batches ax fuel n [ops]) k" if "length ops \<le> length gids" for ops
    using flush_never [OF assms(1-4), of "[ops]" n k] assms(5) that by simp
  then have "never (bnd (collect_refresh_operations ax gids) (\<lambda>ops.
      if ops = [] then ret (Some ()) else flush_batches ax fuel n [ops])) k"
    by (intro never_bnd_post [where P = "\<lambda>ops. length ops \<le> length gids"]) (auto dest: collect_length)
  then show ?thesis by (simp add: refresh_generator_leases_batch_def)
qed

text \<open>
  C29: the operations on a lease end. If the monotonic clock gains a millisecond every \<open>R\<close> observations, and
  a task that waits for the single flight of a generator finds it free within \<open>K\<close> looks, then, whatever else
  the other tasks and workers do to the service and the store, \<open>R * 2 ^ 64\<close> turns of the retry loop and \<open>K\<close>
  turns of the wait are enough for every operation that may need a lease: ensuring it, asking for the bound
  of an allocation, and refreshing it for maintenance or for a new horizon. The second condition is needed:
  the waiting tasks form no queue, and if one always looks while another holds the flight, it waits without
  end unless its request is cancelled.
\<close>
theorem lease_loops_end:
  assumes "ticking R ax" "R * 2 ^ 64 \<le> fuel" "yielding K ax" "K \<le> fuel"
  shows "snd (ensure_generator_lease_with_cancellation ax fuel gid w) \<noteq> Inr None
    \<and> snd (ensure_generator_lease_for_allocation ax fuel tk gid w) \<noteq> Inr None
    \<and> snd (refresh_generator_lease ax fuel gid w) \<noteq> Inr None
    \<and> snd (refresh_generator_lease_if_unchanged ax fuel gid bound w) \<noteq> Inr None
    \<and> ((\<forall>i. ax_flight bx i gid \<and> \<not> ax_cancelled bx i) \<longrightarrow>
        snd (ensure_generator_lease_with_cancellation bx n gid w) = Inr None)"
proof -
  note never = ensure_after_never [OF assms(1,2)] refresh_after_never [OF assms(1,2)]
  note flight = never_flight [OF assms(3,4)]
  have ensure: "never (ensure_generator_lease_with_cancellation ax fuel gid) 0"
    unfolding ensure_generator_lease_with_cancellation_def by (auto intro!: flight never_bnd never)
  have again: "never (bnd (ensure_generator_lease_after_singleflight ax fuel gid) (\<lambda>ensured. case ensured of
      None \<Rightarrow> ret None | Some _ \<Rightarrow> bnd (valid_bound_now ax gid) (\<lambda>bound. ret (Some bound)))) 0"
    by (rule never_some [OF timed_ensure_after never(1)]) (auto intro!: never_bnd)
  have allocation: "never (ensure_generator_lease_for_allocation ax fuel tk gid) 0"
    unfolding ensure_generator_lease_for_allocation_def
    by (rule again | rule flight never_bnd never_option never_pair | simp)+
  have unchanged: "never (refresh_generator_lease_if_unchanged ax fuel gid bound) 0"
    unfolding refresh_generator_lease_if_unchanged_def
    by (auto intro!: flight never_bnd never split: option.split)
  have "snd (ensure_generator_lease_with_cancellation bx n gid w) = Inr None"
    if "\<forall>i. ax_flight bx i gid \<and> \<not> ax_cancelled bx i"
    using flight_starves [OF that, of n w]
    by (auto simp: ensure_generator_lease_with_cancellation_def with_flight_def bnd_def [of "acquire_generator_lease_singleflight bx gid n"] ret_def)
  then show ?thesis
    using ensure allocation unchanged refresh_never [OF assms, of gid 0] by (simp add: never_def)
qed

definition quiet_surroundings :: surroundings where
  \<comment> \<open>nobody else acts, and the monotonic clock shows the count of the observations\<close>
  "quiet_surroundings = \<lparr> ax_others = (\<lambda>_ x. x), ax_now = (\<lambda>_. 5), ax_cancelled = (\<lambda>_. False), ax_instant = (\<lambda>i. i),
     ax_idle = (\<lambda>_ _. False), ax_load_timeout = (\<lambda>_. False), ax_joined = (\<lambda>_ _. None), ax_joined_route = (\<lambda>_ _. None),
     ax_race = (\<lambda>_ _ v. v), ax_flight = (\<lambda>_ _. False) \<rparr>"

definition quiet_world :: world where
  "quiet_world = \<lparr> w_service = service_new tso_config_default ''worker'' 0, w_store = memory_store_new, w_tick = 0 \<rparr>"

lemma quiet_ticking: "ticking 1 quiet_surroundings"
  by (simp add: ticking_def quiet_surroundings_def mono_def)

lemma quiet_yielding: "yielding 1 quiet_surroundings"
  by (simp add: yielding_def quiet_surroundings_def)

theorem lease_loops_end_witness:
  "snd (ensure_generator_lease_for_allocation quiet_surroundings (2 ^ 64) ''orders'' 7 quiet_world) \<noteq> Inr None"
  using lease_loops_end [OF quiet_ticking _ quiet_yielding, of "2 ^ 64" 7 quiet_world "''orders''"] by simp

text \<open>
  C30: the refresh of a batch ends, under the same two conditions: a monotonic clock that gains a millisecond
  every \<open>R\<close> observations, and flights that a waiting task finds free within \<open>K\<close> looks. A batch that loses a
  compare-and-exchange is split in two, and the halves are tried again; with \<open>n\<close> operations the queue is empty
  after at most \<open>2 * n\<close> turns, and each lease that is refreshed alone ends as its wait and its retry loop do.
\<close>
theorem batch_refresh_ends:
  assumes "ticking R ax" "R * 2 ^ 64 \<le> fuel" "yielding K ax" "K \<le> fuel" "2 * length gids \<le> n"
  shows "snd (refresh_generator_leases_batch ax fuel n gids w) \<noteq> Inr None"
  using batch_never [OF assms, of 0] by (simp add: never_def)

theorem batch_refresh_ends_witness:
  "snd (refresh_generator_leases_batch quiet_surroundings (2 ^ 64) 4 [7, 8] quiet_world) \<noteq> Inr None"
  by (rule batch_refresh_ends [OF quiet_ticking _ quiet_yielding]) simp_all

end
