(* ===== verification/Outcomes.thy ===== *)
theory Outcomes
  imports Lease
begin

text \<open>
  Reasoning about what an asynchronous operation has achieved when it succeeds: a rule for each way of
  composing operations, each keeping what is known about the steps before. The code passes an optional
  cancellation token; without one the request is never cancelled.
\<close>

definition uncancelled :: "surroundings \<Rightarrow> surroundings" where
  \<comment> \<open>of an operation that is given no cancellation token\<close>
  "uncancelled ax = ax \<lparr> ax_cancelled := \<lambda>_. False \<rparr>"

definition ends :: "(world \<Rightarrow> 'a \<Rightarrow> bool) \<Rightarrow> world \<times> 'a tso_result \<Rightarrow> bool" where
  \<comment> \<open>a success has the property\<close>
  "ends Q = (\<lambda>(w, r). case r of Inl _ \<Rightarrow> True | Inr x \<Rightarrow> Q w x)"

lemma ends_Inr: "ends Q (w, Inr x) \<longleftrightarrow> Q w x"
  by (simp add: ends_def)

lemma ends_Inl [simp]: "ends Q (w, Inl e)"
  by (simp add: ends_def)

lemma endsD: "ends Q r \<Longrightarrow> r = (w', Inr x) \<Longrightarrow> Q w' x"
  by (simp add: ends_def)

lemma endsI: "(\<And>w' x. r = (w', Inr x) \<Longrightarrow> Q w' x) \<Longrightarrow> ends Q r"
  by (auto simp: ends_def split: prod.split sum.split)

lemma ends_mono: "ends P r \<Longrightarrow> (\<And>w x. P w x \<Longrightarrow> Q w x) \<Longrightarrow> ends Q r"
  by (auto simp: ends_def split: prod.splits sum.splits)

lemma ends_bnd: "(\<And>w1 x. m w = (w1, Inr x) \<Longrightarrow> ends Q (f x w1)) \<Longrightarrow> ends Q (bnd m f w)"
  by (auto simp: bnd_def split: prod.split sum.split)

lemma ends_bnd_result: "(\<And>w1 r. m w = (w1, r) \<Longrightarrow> ends Q (f r w1)) \<Longrightarrow> ends Q (bnd (result_of m) f w)"
  by (auto simp: bnd_def result_of_def split: prod.split)

lemma ends_bnd_done: "(\<And>x. r = Inr x \<Longrightarrow> ends Q (f x w)) \<Longrightarrow> ends Q (bnd (done_with r) f w)"
  by (auto simp: bnd_def done_with_def split: sum.split)

lemma ends_bnd_service: "ends Q (f (w_service w) w) \<Longrightarrow> ends Q (bnd get_service f w)"
  by (simp add: bnd_def get_service_def)

lemma ends_ret: "Q w x \<Longrightarrow> ends Q (ret x w)"
  by (simp add: ret_def ends_Inr)

lemma ends_throw [simp]: "ends Q (throw e w)"
  by (simp add: throw_def)

lemma ends_done: "(\<And>x. r = Inr x \<Longrightarrow> Q w x) \<Longrightarrow> ends Q (done_with r w)"
  by (auto simp: done_with_def ends_def split: sum.split)

lemma ends_option:
  "(x = None \<Longrightarrow> ends Q (a w)) \<Longrightarrow> (\<And>y. x = Some y \<Longrightarrow> ends Q (b y w))
     \<Longrightarrow> ends Q ((case x of None \<Rightarrow> a | Some y \<Rightarrow> b y) w)"
  by (simp split: option.split)

lemma ends_sum:
  "(\<And>e. x = Inl e \<Longrightarrow> ends Q (a e w)) \<Longrightarrow> (\<And>y. x = Inr y \<Longrightarrow> ends Q (b y w))
     \<Longrightarrow> ends Q ((case x of Inl e \<Rightarrow> a e | Inr y \<Rightarrow> b y) w)"
  by (simp split: sum.split)

lemma ends_prod: "(\<And>y z. x = (y, z) \<Longrightarrow> ends Q (a y z w)) \<Longrightarrow> ends Q ((case x of (y, z) \<Rightarrow> a y z) w)"
  by (simp split: prod.split)

lemma ends_if: "(b \<Longrightarrow> ends Q (m w)) \<Longrightarrow> (\<not> b \<Longrightarrow> ends Q (m' w)) \<Longrightarrow> ends Q ((if b then m else m') w)"
  by simp

lemmas ends_rules = ends_bnd_done ends_bnd_service ends_bnd_result ends_bnd ends_ret ends_throw ends_option
  ends_sum ends_prod ends_if

lemma on_store_eq:
  "on_store ax f w =
     (let w1 = fst (pause ax w) in case f (w_store w1) of (s, r) \<Rightarrow> (w1 \<lparr> w_store := s \<rparr>, r))"
  by (simp add: on_store_def bnd_def pause_def Let_def split: prod.split)

lemma tick_fields [simp]: "w_service (tick w) = w_service w" "w_store (tick w) = w_store w"
  by (simp_all add: tick_def)

lemma quiet_pause: "pause quiet_surroundings w = (tick w, Inr ())"
  by (simp add: pause_def quiet_surroundings_def tick_def)

subsection \<open>What leases and drift leave alone\<close>

lemma generator_at_set:
  "generator_at rs g = Inr gen \<Longrightarrow> generator_at (set_generator g gen' rs) g = Inr gen'"
  by (auto simp: generator_at_def set_generator_def split: if_splits)

lemma runtime_frame [simp]:
  "generator_at (upsert_lease g' l rs) g = generator_at rs g"
  "lease_state (set_generator g' gen rs) g = lease_state rs g"
  "lease_state (upsert_lease g l rs) g = Some l"
  by (simp_all add: generator_at_def upsert_lease_def lease_state_def set_generator_def update_conv')

lemma drift_frame [simp]:
  "sv_generator_runtime (clear_ownership_drift_of g sv) = sv_generator_runtime sv"
  "sv_config (clear_ownership_drift_of g sv) = sv_config sv"
  "sv_generator_runtime (observe_ownership_drift g i e n sv) = sv_generator_runtime sv"
  "sv_config (observe_ownership_drift g i e n sv) = sv_config sv"
  "sv_generator_runtime (note_foreign_owner g r n sv) = sv_generator_runtime sv"
  "sv_config (note_foreign_owner g r n sv) = sv_config sv"
  by (simp_all add: clear_ownership_drift_of_def observe_ownership_drift_def note_foreign_owner_def
      split: option.split)

subsection \<open>A worker that holds a lease\<close>

definition sample_service :: tso_service where
  "sample_service = service_new tso_config_default ''worker'' 0"

definition sample_record :: generator_record where
  "sample_record = new_generator_record sample_service 7 5"

definition sample_held :: tso_service where
  "sample_held = fst (after_creation 7 sample_record 1 sample_service)"

lemma sample_record_fields:
  "gr_schema_version sample_record = 1" "gr_lease_expire_at_ms sample_record = Some 3005"
  "gr_generator_lease_token sample_record = 1" "gr_owner_instance_id sample_record = ''worker''"
  "gr_issued_upper_bound sample_record = Some 1761624063" "gr_last_issued_tso sample_record = None"
  by (simp_all add: sample_record_def new_generator_record_def compute_generator_upper_bound_def sample_service_def
      service_new_def tso_config_default_def alloc_eval)

lemma sample_generator:
  "generator_at (sv_generator_runtime sample_service) 7 = Inr (generator_with_layout 7 DEFAULT_TIMESTAMP_LAYOUT)"
  by (simp add: sample_service_def tso_config_default_def) (rule fresh_generator_at, simp add: alloc_eval)

lemma sample_held_runtime:
  "sv_generator_runtime sample_held = upsert_lease 7 (lease_state_of 1 sample_record 3005 None)
     (set_generator 7 (generator_with_layout 7 DEFAULT_TIMESTAMP_LAYOUT \<lparr> gn_ready_lease_token := 1 \<rparr>)
       (sv_generator_runtime sample_service))"
  "sv_instance_id sample_held = ''worker''" "cfg_timestamp_layout (sv_config sample_held) = DEFAULT_TIMESTAMP_LAYOUT"
  by (simp_all add: sample_held_def after_creation_def hold_lease_def mark_generator_ready_for_lease_def sample_generator
      sample_record_fields lease_state_of_def mark_ready_for_lease_def clear_ownership_drift_of_def)
    (simp_all add: sample_service_def service_new_def tso_config_default_def)

lemma sample_lookup:
  "lookup_generator sample_held 7 = Inr (generator_with_layout 7 DEFAULT_TIMESTAMP_LAYOUT \<lparr> gn_ready_lease_token := 1 \<rparr>)"
  using generator_at_set [OF sample_generator]
  by (simp add: lookup_generator_def ensure_generator_id_range_def sample_held_runtime)
    (simp add: alloc_eval)

lemma sample_bound: "valid_generator_lease_upper_bound sample_held 7 5 = Inr (Some 1761624063)"
  using generator_at_set [OF sample_generator]
  by (simp add: valid_generator_lease_upper_bound_def valid_lease_upper_bound_for_owner_def sample_held_runtime
      sample_record_fields lease_state_of_def lease_matches_owner_and_time_def ready_for_lease_def)

definition sample_args :: allocate_args where
  "sample_args = \<lparr> al_count = 3, al_floor = None, al_now_ms = 5, al_max_future_borrow_ms = 10,
     al_max_clock_rewind_ms = 0, al_issued_upper_bound = Some 1761624063 \<rparr>"

lemma sample_allocate:
  "allocate_after (\<lambda>_ v. v) sample_args (generator_with_layout 7 DEFAULT_TIMESTAMP_LAYOUT \<lparr> gn_ready_lease_token := 1 \<rparr>)
     = (generator_with_layout 7 DEFAULT_TIMESTAMP_LAYOUT \<lparr> gn_ready_lease_token := 1, gn_next_index := 10243 \<rparr>,
        Inr (Allocated [\<lparr> rg_start_tso = 83900416, rg_end_tso = 83900418 \<rparr>]))"
  by (simp add: sample_args_def alloc_eval allocate_loop.simps build_ranges.simps [of _ _ _ 3] build_ranges.simps [of _ _ _ 0])

end
