(* ===== verification/Fencing.thy ===== *)
theory Fencing
  imports Outcomes
begin

text \<open>
  Many workers that share one metadata store and compete for one generator. A state holds the store, the
  worker processes, what their tasks have in hand between two steps, and every timestamp issued so far. A
  step is what a task does between two awaits, built from the definitions of \<open>Lease\<close>, \<open>Generator\<close> and
  \<open>Memory_Store\<close>; what a task has in hand is never forgotten, so a task may also be delayed, repeated or
  abandoned at any point. Clocks are arbitrary: every reading is chosen anew. A process that restarts is
  a new worker, possibly with the instance id of the old one, which may still be running.
\<close>

subsection \<open>States and steps\<close>

datatype task =
    Loaded nat generator_record u64  \<comment> \<open>a worker read the record and its revision\<close>
  | TakingOver nat u64 generator_record  \<comment> \<open>it decided to write a record over that revision\<close>
  | TookOver nat generator_record u64  \<comment> \<open>the write succeeded with a new revision\<close>
  | CreatedRecord nat generator_record u64
  | Refreshing nat generator_lease_state generator_record
  | RefreshedRecord nat generator_record u64
  | AllowedUpTo nat u64  \<comment> \<open>it read the upper bound of its valid lease\<close>

record cluster =
  cl_store :: memory_store
  cl_workers :: "nat \<Rightarrow> tso_service"
  cl_tasks :: "task set"
  cl_issued :: "(nat \<times> nat) list"  \<comment> \<open>worker and timestamp\<close>

abbreviation set_worker :: "nat \<Rightarrow> tso_service \<Rightarrow> cluster \<Rightarrow> cluster" where
  "set_worker w sv s \<equiv> s \<lparr> cl_workers := (cl_workers s)(w := sv) \<rparr>"

abbreviation add_task :: "task \<Rightarrow> cluster \<Rightarrow> cluster" where
  "add_task t s \<equiv> s \<lparr> cl_tasks := insert t (cl_tasks s) \<rparr>"

definition issued_by :: "nat \<Rightarrow> allocate_after_result tso_result \<Rightarrow> (nat \<times> nat) list" where
  "issued_by w r = (case r of Inr (Allocated ranges) \<Rightarrow> map (Pair w) (ranges_tsos ranges) | _ \<Rightarrow> [])"

inductive cluster_step :: "u32 \<Rightarrow> cluster \<Rightarrow> cluster \<Rightarrow> bool" for g where
  load: "ms_load_generator (cl_store s) g = Inr (Some (r, rv)) \<Longrightarrow>
    cluster_step g s (add_task (Loaded w r rv) s)"
| decide: "Loaded w r rv \<in> cl_tasks s \<Longrightarrow> ensure_on_record g r rv now (cl_workers s w) = (sv, Inl res) \<Longrightarrow>
    cluster_step g s (set_worker w sv s)"
| decide_takeover: "Loaded w r rv \<in> cl_tasks s \<Longrightarrow> ensure_on_record g r rv now (cl_workers s w) = (sv, Inr r') \<Longrightarrow>
    cluster_step g s (add_task (TakingOver w rv r') (set_worker w sv s))"
| takeover: "TakingOver w rv r \<in> cl_tasks s \<Longrightarrow>
    ms_compare_exchange_generator g rv r (cl_store s) = (st, Inr rv') \<Longrightarrow> unat rv + 1 < 2 ^ 64 \<Longrightarrow>
    cluster_step g s (add_task (TookOver w r rv') (s \<lparr> cl_store := st \<rparr>))"
| taken: "TookOver w r rv \<in> cl_tasks s \<Longrightarrow> after_takeover g r rv (cl_workers s w) = (sv, res) \<Longrightarrow>
    cluster_step g s (set_worker w sv s)"
| create: "ms_create_generator g (new_generator_record (cl_workers s w) g now) (cl_store s) = (st, Inr rv) \<Longrightarrow>
    cluster_step g s (add_task (CreatedRecord w (new_generator_record (cl_workers s w) g now) rv) (s \<lparr> cl_store := st \<rparr>))"
| created: "CreatedRecord w r rv \<in> cl_tasks s \<Longrightarrow> after_creation g r rv (cl_workers s w) = (sv, res) \<Longrightarrow>
    cluster_step g s (set_worker w sv s)"
| refresh: "lease_state (sv_generator_runtime (cl_workers s w)) g = Some l \<Longrightarrow>
    refresh_record (cl_workers s w) g l now reason = Inr (Some r) \<Longrightarrow>
    cluster_step g s (add_task (Refreshing w l r) s)"
| refresh_write: "Refreshing w l r \<in> cl_tasks s \<Longrightarrow>
    ms_compare_exchange_generator g (ls_revision l) r (cl_store s) = (st, Inr rv) \<Longrightarrow>
    unat (ls_revision l) + 1 < 2 ^ 64 \<Longrightarrow>
    cluster_step g s (add_task (RefreshedRecord w r rv) (s \<lparr> cl_store := st \<rparr>))"
| refresh_batch: "Refreshing w l r \<in> cl_tasks s \<Longrightarrow>
    ms_compare_exchange_generators ops (cl_store s) = (st, Inr revs) \<Longrightarrow> unat (ls_revision l) + 1 < 2 ^ 64 \<Longrightarrow>
    i < length ops \<Longrightarrow> ops ! i = \<lparr> gb_generator_id = g, gb_previous_revision = ls_revision l, gb_record = r \<rparr> \<Longrightarrow>
    cluster_step g s (add_task (RefreshedRecord w r (revs ! i)) (s \<lparr> cl_store := st \<rparr>))"
| refreshed: "RefreshedRecord w r rv \<in> cl_tasks s \<Longrightarrow> after_refresh g r rv (cl_workers s w) = (sv, res) \<Longrightarrow>
    cluster_step g s (set_worker w sv s)"
| drop: "drop_lease g (cl_workers s w) = (sv, res) \<Longrightarrow> cluster_step g s (set_worker w sv s)"
| restore: "Refreshing w l r \<in> cl_tasks s \<Longrightarrow>
    cluster_step g s (set_worker w (on_runtime (upsert_lease g l) (cl_workers s w)) s)"
| bound: "valid_generator_lease_upper_bound (cl_workers s w) g now = Inr (Some ub) \<Longrightarrow>
    cluster_step g s (add_task (AllowedUpTo w ub) s)"
| allocate: "AllowedUpTo w ub \<in> cl_tasks s \<Longrightarrow> lookup_generator (cl_workers s w) g = Inr gen \<Longrightarrow>
    al_issued_upper_bound a = Some ub \<Longrightarrow> al_count a \<noteq> 0 \<Longrightarrow> allocate_after (\<lambda>_ v. v) a gen = (gen', res) \<Longrightarrow>
    cluster_step g s (set_worker w (on_runtime (set_generator g gen') (cl_workers s w)) s
      \<lparr> cl_issued := cl_issued s @ issued_by w res \<rparr>)"
| other_store: "generator_entry st g = generator_entry (cl_store s) g \<Longrightarrow>
    cluster_step g s (s \<lparr> cl_store := st \<rparr>)"
| other_service: "sv_config sv = sv_config (cl_workers s w) \<Longrightarrow>
    lease_state (sv_generator_runtime sv) g = lease_state (sv_generator_runtime (cl_workers s w)) g \<Longrightarrow>
    generator_at (sv_generator_runtime sv) g = generator_at (sv_generator_runtime (cl_workers s w)) g \<Longrightarrow>
    cluster_step g s (set_worker w sv s)"

definition cluster_init :: "memory_store \<Rightarrow> (nat \<Rightarrow> tso_config) \<Rightarrow> (nat \<Rightarrow> string) \<Rightarrow> (nat \<Rightarrow> u64) \<Rightarrow> cluster" where
  "cluster_init st config instance_id seed =
     \<lparr> cl_store = st, cl_workers = (\<lambda>w. service_new (config w) (instance_id w) (seed w)),
       cl_tasks = {}, cl_issued = [] \<rparr>"

subsection \<open>What a record covers\<close>

definition cov :: "u64 option \<Rightarrow> nat set" where
  "cov x = {t. \<exists>f. x = Some f \<and> t \<le> unat f}"

definition rec_cov :: "generator_record \<Rightarrow> nat set" where
  "rec_cov r = cov (generator_recovery_floor_tso r)"

definition entry_cov :: "(generator_record \<times> u64) option \<Rightarrow> nat set" where
  "entry_cov e = (case e of None \<Rightarrow> {} | Some (r, _) \<Rightarrow> rec_cov r)"

lemma cov_mono: "opt_le a b \<Longrightarrow> cov a \<subseteq> cov b"
  by (cases a; cases b) (auto simp: cov_def word_le_nat_alt)

lemma cov_max: "cov (opt_max a b) = cov a \<union> cov b"
  by (cases a; cases b) (auto simp: cov_def max_def word_le_nat_alt)

lemma rec_cov_parts: "rec_cov r = cov (gr_last_issued_tso r) \<union> cov (gr_issued_upper_bound r)"
  by (simp add: rec_cov_def generator_recovery_floor_tso_def cov_max)

lemma stamp_cov [simp]:
  "gr_last_issued_tso (stamp_generator r) = gr_last_issued_tso r"
  "gr_issued_upper_bound (stamp_generator r) = gr_issued_upper_bound r"
  "rec_cov (stamp_generator r) = rec_cov r"
  by (simp_all add: stamp_generator_def rec_cov_parts)

subsection \<open>What a task may rely on\<close>

definition adv :: "(generator_record \<times> u64) option \<Rightarrow> (generator_record \<times> u64) option \<Rightarrow> bool" where
  \<comment> \<open>how the persisted record changes: with each write the revision grows and nothing is uncovered\<close>
  "adv e e' \<longleftrightarrow> e' = e \<or> (\<exists>r' rv'. e' = Some (r', rv')
     \<and> (\<forall>r rv. e = Some (r, rv) \<longrightarrow> unat rv < unat rv' \<and> rec_cov r \<subseteq> rec_cov r'))"

definition known :: "(generator_record \<times> u64) option \<Rightarrow> generator_record \<Rightarrow> u64 \<Rightarrow> bool" where
  "known e r rv \<longleftrightarrow> (\<exists>c cv. e = Some (c, cv) \<and> unat rv \<le> unat cv \<and> rec_cov r \<subseteq> rec_cov c
     \<and> (rv = cv \<longrightarrow> gr_last_issued_tso c = gr_last_issued_tso r \<and> gr_issued_upper_bound c = gr_issued_upper_bound r))"

definition lease_ok :: "nat \<Rightarrow> nat set \<Rightarrow> (generator_record \<times> u64) option \<Rightarrow> generator_lease_state \<Rightarrow> bool" where
  \<comment> \<open>for a worker that issues from position \<open>p\<close> on and was granted the timestamps \<open>G\<close>\<close>
  "lease_ok p G e l \<longleftrightarrow> {t \<in> cov (ls_issued_upper_bound l). p \<le> t} \<subseteq> G
     \<and> (\<exists>c cv. e = Some (c, cv) \<and> unat (ls_revision l) \<le> unat cv
       \<and> (ls_revision l = cv \<longrightarrow> ls_issued_upper_bound l = gr_issued_upper_bound c
            \<and> opt_le (gr_last_issued_tso c) (ls_last_persisted_tso l) \<and> {t \<in> rec_cov c. p \<le> t} \<subseteq> G))"

lemma adv_refl [simp]: "adv e e"
  by (simp add: adv_def)

lemma adv_cov: "adv e e' \<Longrightarrow> entry_cov e \<subseteq> entry_cov e'"
  by (cases e) (auto simp: adv_def entry_cov_def)

lemma known_adv: "known e r rv \<Longrightarrow> adv e e' \<Longrightarrow> known e' r rv"
  unfolding known_def adv_def by fastforce

lemma lease_ok_adv:
  assumes "lease_ok p G e l" "p \<le> p'" "G \<subseteq> G'" "adv e e'"
  shows "lease_ok p' G' e' l"
proof -
  obtain c cv where c: "e = Some (c, cv)" "unat (ls_revision l) \<le> unat cv"
    "ls_revision l = cv \<longrightarrow> ls_issued_upper_bound l = gr_issued_upper_bound c
      \<and> opt_le (gr_last_issued_tso c) (ls_last_persisted_tso l) \<and> {t \<in> rec_cov c. p \<le> t} \<subseteq> G"
    and ub: "{t \<in> cov (ls_issued_upper_bound l). p \<le> t} \<subseteq> G" using assms(1) unfolding lease_ok_def by blast
  from ub have ub': "{t \<in> cov (ls_issued_upper_bound l). p' \<le> t} \<subseteq> G'" using assms(2,3) by fastforce
  show ?thesis
  proof (cases "e' = e")
    case True
    from c(3) have "ls_revision l = cv \<longrightarrow> ls_issued_upper_bound l = gr_issued_upper_bound c
        \<and> opt_le (gr_last_issued_tso c) (ls_last_persisted_tso l) \<and> {t \<in> rec_cov c. p' \<le> t} \<subseteq> G'"
      using assms(2,3) by fastforce
    with True c ub' show ?thesis unfolding lease_ok_def by blast
  next
    case False
    with assms(4) c(1) obtain c' cv' where c': "e' = Some (c', cv')" "unat cv < unat cv'" by (auto simp: adv_def)
    with c(2) have "unat (ls_revision l) \<le> unat cv'" "ls_revision l \<noteq> cv'" by auto
    with c'(1) ub' show ?thesis unfolding lease_ok_def by blast
  qed
qed

subsection \<open>What a step does to a worker\<close>

abbreviation layout_of :: "tso_service \<Rightarrow> timestamp_layout" where
  "layout_of sv \<equiv> cfg_timestamp_layout (sv_config sv)"

definition svc_ok :: "u32 \<Rightarrow> tso_service \<Rightarrow> bool" where
  "svc_ok g sv \<longleftrightarrow> layout_valid (layout_of sv) \<and> g < max_generators (layout_of sv)
     \<and> (\<exists>gen. generator_at (sv_generator_runtime sv) g = Inr gen \<and> gn_id gen = g \<and> gn_layout gen = layout_of sv)"

definition position :: "u32 \<Rightarrow> tso_service \<Rightarrow> nat" where
  \<comment> \<open>the first timestamp the generator can still issue\<close>
  "position g sv = (case generator_at (sv_generator_runtime sv) g of
     Inl _ \<Rightarrow> 0 | Inr gen \<Rightarrow> slot_tso (layout_of sv) g (unat (gn_next_index gen)))"

definition moves :: "u32 \<Rightarrow> tso_service \<Rightarrow> tso_service \<Rightarrow> bool" where
  "moves g sv sv' \<longleftrightarrow> svc_ok g sv' \<and> sv_config sv' = sv_config sv \<and> position g sv \<le> position g sv'"

abbreviation held :: "u32 \<Rightarrow> tso_service \<Rightarrow> generator_lease_state option" where
  "held g sv \<equiv> lease_state (sv_generator_runtime sv) g"

lemma moves_frame:
  "svc_ok g sv \<Longrightarrow> sv_config sv' = sv_config sv \<Longrightarrow>
   generator_at (sv_generator_runtime sv') g = generator_at (sv_generator_runtime sv) g \<Longrightarrow> moves g sv sv'"
  by (auto simp: moves_def svc_ok_def position_def)

lemma moves_trans: "moves g a b \<Longrightarrow> moves g b c \<Longrightarrow> moves g a c"
  by (simp add: moves_def)

lemma svc_ok_width: "svc_ok g sv \<Longrightarrow> unat g < 2 ^ gen_w (layout_of sv)"
  by (auto simp: svc_ok_def word_less_nat_alt unat_max_generators)

lemma svc_ok_lookup:
  assumes "svc_ok g sv"
  obtains gen where "lookup_generator sv g = Inr gen" "generator_at (sv_generator_runtime sv) g = Inr gen"
    "gn_id gen = g" "gn_layout gen = layout_of sv"
  using assms by (auto simp: svc_ok_def lookup_generator_def ensure_generator_id_range_def not_le)

lemma moves_generator:
  assumes "svc_ok g sv" "generator_at (sv_generator_runtime sv) g = Inr gen"
    and "gn_id gen' = gn_id gen" "gn_layout gen' = gn_layout gen" "gn_next_index gen \<le> gn_next_index gen'"
  shows "moves g sv (on_runtime (set_generator g gen') sv)"
proof -
  have at: "generator_at (set_generator g gen' (sv_generator_runtime sv)) g = Inr gen'"
    using assms(2) by (rule generator_at_set)
  moreover have "svc_ok g (on_runtime (set_generator g gen') sv)"
    using assms(1-4) at by (auto simp: svc_ok_def on_runtime_def)
  ultimately show ?thesis
    using assms(2,5) svc_ok_width [OF assms(1)]
    by (simp add: moves_def position_def on_runtime_def slot_tso_le word_le_nat_alt)
qed

lemma hold_lease_effect:
  assumes "svc_ok g sv" "hold_lease g l sv = (sv', r)"
  shows "moves g sv sv'" "held g sv' = Some l"
proof -
  obtain gen where gen: "generator_at (sv_generator_runtime sv) g = Inr gen" "gn_id gen = g" "gn_layout gen = layout_of sv"
    using svc_ok_lookup [OF assms(1)] by blast
  let ?gen' = "mark_ready_for_lease (ls_generator_lease_token l) gen"
  have sv': "sv' = clear_ownership_drift_of g (sv \<lparr> sv_generator_runtime :=
      upsert_lease g l (set_generator g ?gen' (sv_generator_runtime sv)) \<rparr>)"
    using assms(2) gen(1) by (simp add: hold_lease_def mark_generator_ready_for_lease_def)
  then show "held g sv' = Some l" by simp
  have "moves g sv (on_runtime (set_generator g ?gen') sv)"
    using assms(1) gen(1) by (rule moves_generator) (simp_all add: mark_ready_for_lease_def)
  moreover have "moves g (on_runtime (set_generator g ?gen') sv) sv'"
    using calculation by (intro moves_frame) (simp_all add: sv' on_runtime_def moves_def)
  ultimately show "moves g sv sv'" by (rule moves_trans)
qed

lemma init_generator_effect:
  assumes "svc_ok g sv" "init_generator g f sv = (sv', r)"
  shows "moves g sv sv'" "held g sv' = held g sv" "r = Inr () \<Longrightarrow> {t \<in> cov f. position g sv' \<le> t} = {}"
proof -
  have "moves g sv sv' \<and> held g sv' = held g sv \<and> (r = Inr () \<longrightarrow> {t \<in> cov f. position g sv' \<le> t} = {})"
  proof (cases f)
    case None
    with assms show ?thesis by (simp add: init_generator_def moves_def cov_def)
  next
    case (Some x)
    obtain gen where gen: "lookup_generator sv g = Inr gen" "generator_at (sv_generator_runtime sv) g = Inr gen"
      "gn_id gen = g" "gn_layout gen = layout_of sv" using svc_ok_lookup [OF assms(1)] by blast
    obtain gen' res where i: "init_after_floor x gen = (gen', res)" by fastforce
    have sv': "sv' = on_runtime (set_generator g gen') sv" "res = r"
      using assms(2) Some gen i by (auto simp: init_generator_def)
    note m = init_after_floor_monotone [OF i]
    have "moves g sv sv'" unfolding sv' using assms(1) gen(2) by (rule moves_generator) (use m in simp_all)
    moreover have "{t \<in> cov f. position g sv' \<le> t} = {}" if "r = Inr ()"
    proof -
      have "unat x < slot_tso (layout_of sv) g (unat (gn_next_index gen'))"
        using init_after_floor_above [of gen x gen'] i sv'(2) that gen assms(1) svc_ok_width [OF assms(1)]
        by (simp add: svc_ok_def)
      then have "unat x < position g sv'"
        using generator_at_set [OF gen(2), of gen'] by (simp add: position_def sv' on_runtime_def)
      then show ?thesis by (auto simp: cov_def Some)
    qed
    ultimately show ?thesis by (simp add: sv' on_runtime_def)
  qed
  then show "moves g sv sv'" "held g sv' = held g sv" "r = Inr () \<Longrightarrow> {t \<in> cov f. position g sv' \<le> t} = {}" by blast+
qed

lemma install_lease_effect:
  assumes "svc_ok g sv" "install_lease g f l sv = (sv', r)"
  shows "moves g sv sv' \<and> (held g sv' = held g sv \<or> held g sv' = Some l \<and> {t \<in> cov f. position g sv' \<le> t} = {})"
proof -
  obtain sv1 r1 where i: "init_generator g f sv = (sv1, r1)" by fastforce
  note e = init_generator_effect [OF assms(1) i]
  show ?thesis
  proof (cases r1)
    case (Inl x)
    with assms(2) i e show ?thesis by (simp add: install_lease_def)
  next
    case (Inr u)
    with assms(2) i have h: "hold_lease g l sv1 = (sv', r)" by (simp add: install_lease_def)
    have ok: "svc_ok g sv1" using e(1) by (simp add: moves_def)
    note h' = hold_lease_effect [OF ok h]
    have "{t \<in> cov f. position g sv' \<le> t} \<subseteq> {t \<in> cov f. position g sv1 \<le> t}" using h'(1) by (auto simp: moves_def)
    moreover have "{t \<in> cov f. position g sv1 \<le> t} = {}" using e(3) Inr by simp
    ultimately have "{t \<in> cov f. position g sv' \<le> t} = {}" by blast
    with h' moves_trans [OF e(1) h'(1)] show ?thesis by blast
  qed
qed

lemma drop_lease_effect:
  assumes "svc_ok g sv" "drop_lease g sv = (sv', r)"
  shows "moves g sv sv'" "held g sv' = None"
proof -
  obtain gen where gen: "generator_at (sv_generator_runtime sv) g = Inr gen"
    using svc_ok_lookup [OF assms(1)] by blast
  let ?rs = "sv_generator_runtime sv \<lparr> grs_leases := AList.delete g (grs_leases (sv_generator_runtime sv)) \<rparr>"
  have at: "generator_at ?rs g = Inr gen" using gen by (simp add: generator_at_def split: if_splits)
  have sv': "sv' = on_runtime (set_generator g (clear_ready_lease gen)) (sv \<lparr> sv_generator_runtime := ?rs \<rparr>)"
    using assms(2) at by (simp add: drop_lease_def remove_lease_def on_runtime_def)
  have "svc_ok g (sv \<lparr> sv_generator_runtime := ?rs \<rparr>)" "moves g sv (sv \<lparr> sv_generator_runtime := ?rs \<rparr>)"
    using assms(1) at gen by (auto intro!: moves_frame simp: svc_ok_def)
  moreover have "moves g (sv \<lparr> sv_generator_runtime := ?rs \<rparr>) sv'"
    unfolding sv' by (rule moves_generator [OF calculation(1), of gen]) (simp_all add: at clear_ready_lease_def)
  ultimately show "moves g sv sv'" using moves_trans by blast
  show "held g sv' = None" by (simp add: sv' on_runtime_def lease_state_def set_generator_def delete_conv')
qed

lemma ensure_on_record_effect:
  assumes "svc_ok g sv" "ensure_on_record g r rv now sv = (sv', d)"
  obtains (same) "moves g sv sv'" "held g sv' = held g sv"
  | (adopted) l where "moves g sv sv'" "held g sv' = Some l" "ls_revision l = rv"
      "ls_issued_upper_bound l = gr_issued_upper_bound r" "opt_le (gr_last_issued_tso r) (ls_last_persisted_tso l)"
      "{t \<in> rec_cov r. position g sv' \<le> t} = {}" "\<exists>res. d = Inl res"
proof (cases "is_local_generator_owner sv r \<and> \<not> takeover_ready sv r now")
  case False
  with assms(2) have "sv' = sv \<or> sv' = note_foreign_owner g r now sv"
    by (auto simp: ensure_on_record_def Let_def split: if_splits sum.splits)
  then show thesis using assms(1) by (intro same moves_frame) auto
next
  case True
  show thesis
  proof (cases "\<exists>e. gr_lease_expire_at_ms r = Some e \<and> now < e")
    case False
    with True assms(2) have "sv' = clear_ownership_drift_of g sv"
      by (auto simp: ensure_on_record_def Let_def split: option.splits if_splits)
    then show thesis using assms(1) by (intro same moves_frame) auto
  next
    case late: True
    then obtain e where e: "gr_lease_expire_at_ms r = Some e" "now < e" by blast
    let ?f = "generator_recovery_floor_tso r"
    let ?l = "lease_state_of rv r e ?f"
    obtain res where i: "install_lease g ?f ?l sv = (sv', res)" "d = Inl res"
      using True e assms(2) by (auto simp: ensure_on_record_def Let_def split: prod.splits)
    from install_lease_effect [OF assms(1) i(1)] show thesis
    proof (elim conjE disjE)
      assume "moves g sv sv'" "held g sv' = held g sv" then show thesis by (rule same)
    next
      assume "moves g sv sv'" "held g sv' = Some ?l" "{t \<in> cov ?f. position g sv' \<le> t} = {}"
      then show thesis using i(2)
        by (intro adopted [of ?l]) (simp_all add: lease_state_of_def rec_cov_def generator_recovery_floor_tso_def)
    qed
  qed
qed

lemma takeover_covers:
  assumes "takeover_record sv g now r = Inr r'"
  shows "rec_cov r \<subseteq> rec_cov r'"
proof (cases "generator_recovery_floor_tso r")
  case None
  then show ?thesis by (simp add: rec_cov_def cov_def)
next
  case (Some f)
  with assms have "gr_last_issued_tso r' = Some f" by (auto simp: takeover_record_def and_then_eq_Inr)
  with Some show ?thesis by (simp add: rec_cov_def [of r] rec_cov_parts [of r'])
qed

lemma ensure_on_record_covers:
  "ensure_on_record g r rv now sv = (sv', Inr r') \<Longrightarrow> rec_cov r \<subseteq> rec_cov r'"
  by (auto simp: ensure_on_record_def Let_def dest: takeover_covers split: if_splits option.splits sum.splits prod.splits)

lemma refresh_record_covers:
  assumes "refresh_record sv g l now reason = Inr (Some r)"
  shows "opt_le (ls_last_persisted_tso l) (gr_last_issued_tso r)" "opt_le (ls_issued_upper_bound l) (gr_issued_upper_bound r)"
proof -
  let ?plan = "\<lambda>ll. build_with_layout (layout_of sv) (ls_lease_expire_at_ms l) (ls_last_persisted_tso l)
     (ls_issued_upper_bound l) ll now
     \<lparr> rtm_ttl_ms = cfg_generator_lease_ttl_ms (sv_config sv), rtm_pre_borrow_ms = cfg_pre_borrow_ms (sv_config sv) \<rparr>"
  obtain ll n where "gr_last_issued_tso r = rp_candidate_last (?plan ll)"
    "gr_issued_upper_bound r = record_issued_upper_bound (?plan ll) n reason"
    using assms by (auto simp: refresh_record_def Let_def and_then_eq_Inr split: if_splits)
  then show "opt_le (ls_last_persisted_tso l) (gr_last_issued_tso r)"
    "opt_le (ls_issued_upper_bound l) (gr_issued_upper_bound r)"
    using candidate_last_ge(1) record_issued_upper_bound_ge [of "?plan ll"] by simp_all
qed

subsection \<open>The invariant\<close>

definition task_ok :: "(nat \<Rightarrow> nat) \<Rightarrow> (nat \<Rightarrow> nat set) \<Rightarrow> (generator_record \<times> u64) option \<Rightarrow> task \<Rightarrow> bool" where
  "task_ok p G e t = (case t of
     Loaded w r rv \<Rightarrow> known e r rv
   | TakingOver w rv r' \<Rightarrow> (\<exists>r. known e r rv \<and> rec_cov r \<subseteq> rec_cov r')
   | TookOver w r rv \<Rightarrow> known e r rv
   | CreatedRecord w r rv \<Rightarrow> (\<forall>x. lease_ok (p w) (G w) e (lease_state_of rv r x None))
   | Refreshing w l r \<Rightarrow> lease_ok (p w) (G w) e l \<and> opt_le (ls_last_persisted_tso l) (gr_last_issued_tso r)
       \<and> opt_le (ls_issued_upper_bound l) (gr_issued_upper_bound r)
   | RefreshedRecord w r rv \<Rightarrow> (\<forall>x. lease_ok (p w) (G w) e (lease_state_of rv r x (gr_last_issued_tso r)))
   | AllowedUpTo w ub \<Rightarrow> {t \<in> cov (Some ub). p w \<le> t} \<subseteq> G w)"

abbreviation pos :: "u32 \<Rightarrow> cluster \<Rightarrow> nat \<Rightarrow> nat" where
  "pos g s w \<equiv> position g (cl_workers s w)"

abbreviation entry :: "u32 \<Rightarrow> cluster \<Rightarrow> (generator_record \<times> u64) option" where
  "entry g s \<equiv> generator_entry (cl_store s) g"

definition granted_ok :: "nat set \<Rightarrow> nat set \<Rightarrow> (nat \<Rightarrow> nat set) \<Rightarrow> bool" where
  \<comment> \<open>what was covered from the start belongs to no one, the rest of what is covered to at most one worker\<close>
  "granted_ok c0 c G \<longleftrightarrow> c0 \<subseteq> c \<and> (\<forall>w. G w \<subseteq> c - c0) \<and> (\<forall>w v. w \<noteq> v \<longrightarrow> G w \<inter> G v = {})"

definition cluster_ok :: "u32 \<Rightarrow> nat set \<Rightarrow> cluster \<Rightarrow> (nat \<Rightarrow> nat set) \<Rightarrow> bool" where
  "cluster_ok g c0 s G \<longleftrightarrow>
     (\<forall>w. svc_ok g (cl_workers s w))
     \<and> (\<forall>w l. held g (cl_workers s w) = Some l \<longrightarrow> lease_ok (pos g s w) (G w) (entry g s) l)
     \<and> (\<forall>t \<in> cl_tasks s. task_ok (pos g s) G (entry g s) t)
     \<and> granted_ok c0 (entry_cov (entry g s)) G
     \<and> (\<forall>(w, t) \<in> set (cl_issued s). t \<in> G w \<and> t < pos g s w) \<and> distinct (map snd (cl_issued s))"

lemma task_ok_adv:
  assumes "task_ok p G e t" "\<And>w. p w \<le> p' w" "\<And>w. G w \<subseteq> G' w" "adv e e'"
  shows "task_ok p' G' e' t"
proof (cases t)
  case (AllowedUpTo w ub)
  with assms(1-3) show ?thesis by (fastforce simp: task_ok_def dest: order_trans)
next
  case (TakingOver w rv r)
  with assms(1) known_adv [OF _ assms(4)] show ?thesis by (auto simp: task_ok_def)
qed (use assms known_adv [OF _ assms(4)] lease_ok_adv [OF _ assms(2,3,4)] in \<open>auto simp: task_ok_def\<close>)

lemma cluster_ok_frame:
  assumes ok: "cluster_ok g c0 s G"
    and m: "\<And>w. moves g (cl_workers s w) (cl_workers s' w)" and a: "adv (entry g s) (entry g s')"
    and G: "\<And>w. G w \<subseteq> G' w" "granted_ok c0 (entry_cov (entry g s')) G'"
    and l: "\<And>w l. held g (cl_workers s' w) = Some l \<Longrightarrow> held g (cl_workers s w) = Some l
              \<or> lease_ok (pos g s' w) (G' w) (entry g s') l"
    and t: "\<And>t. t \<in> cl_tasks s' \<Longrightarrow> t \<in> cl_tasks s \<or> task_ok (pos g s') G' (entry g s') t"
    and i: "cl_issued s' = cl_issued s"
  shows "cluster_ok g c0 s' G'"
proof -
  have p: "pos g s w \<le> pos g s' w" for w using m [of w] by (simp add: moves_def)
  have "lease_ok (pos g s' w) (G' w) (entry g s') l" if h: "held g (cl_workers s' w) = Some l" for w l
  proof (rule disjE [OF l [OF h]])
    assume "held g (cl_workers s w) = Some l"
    then have "lease_ok (pos g s w) (G w) (entry g s) l" using ok by (simp add: cluster_ok_def)
    then show ?thesis using p G(1) a by (rule lease_ok_adv)
  qed
  moreover have "task_ok (pos g s') G' (entry g s') x" if x: "x \<in> cl_tasks s'" for x
  proof (rule disjE [OF t [OF x]])
    assume "x \<in> cl_tasks s"
    then have "task_ok (pos g s) G (entry g s) x" using ok by (simp add: cluster_ok_def)
    then show ?thesis using p G(1) a by (rule task_ok_adv)
  qed
  moreover have "svc_ok g (cl_workers s' w)" for w using m [of w] by (simp add: moves_def)
  moreover have "\<forall>(w, t) \<in> set (cl_issued s'). t \<in> G' w \<and> t < pos g s' w" "distinct (map snd (cl_issued s'))"
    using ok p G(1) unfolding cluster_ok_def i by (auto dest!: bspec intro: less_le_trans)
  ultimately show ?thesis using G(2) unfolding cluster_ok_def by blast
qed

lemma worker_step:
  assumes ok: "cluster_ok g c0 s G" and m: "moves g (cl_workers s w) sv"
    and l: "\<And>l. held g sv = Some l \<Longrightarrow> held g (cl_workers s w) = Some l \<or> lease_ok (position g sv) (G w) (entry g s) l"
    and t: "\<And>t. t \<in> T \<Longrightarrow> task_ok ((pos g s)(w := position g sv)) G (entry g s) t"
    and s': "cl_workers s' = (cl_workers s)(w := sv)" "cl_tasks s' = cl_tasks s \<union> T" "cl_store s' = cl_store s"
      "cl_issued s' = cl_issued s"
  shows "cluster_ok g c0 s' G"
proof -
  have mm: "moves g (cl_workers s v) (cl_workers s' v)" for v
    using m ok by (simp add: s' cluster_ok_def moves_def)
  have p: "pos g s' = (pos g s)(w := position g sv)" by (auto simp: s')
  have ll: "held g (cl_workers s v) = Some x \<or> lease_ok (pos g s' v) (G v) (entry g s') x"
    if "held g (cl_workers s' v) = Some x" for v x
    using that l [of x] by (cases "v = w") (simp_all add: s')
  have tt: "x \<in> cl_tasks s \<or> task_ok (pos g s') G (entry g s') x" if "x \<in> cl_tasks s'" for x
    using that t [of x] unfolding p by (auto simp: s'(2,3))
  have gr: "granted_ok c0 (entry_cov (entry g s')) G" using ok by (simp add: cluster_ok_def s'(3))
  show ?thesis
    by (rule cluster_ok_frame [OF ok mm _ order_refl gr ll tt s'(4)]) (simp add: s'(3))
qed

lemma write_step:
  assumes ok: "cluster_ok g c0 s G" and a: "adv (entry g s) (entry g s')"
    and G': "G' = G(w := G w \<union> (entry_cov (entry g s') - entry_cov (entry g s)))"
    and t: "task_ok (pos g s) G' (entry g s') t"
    and s': "cl_workers s' = cl_workers s" "cl_tasks s' = insert t (cl_tasks s)" "cl_issued s' = cl_issued s"
  shows "cluster_ok g c0 s' G'"
proof -
  have mm: "moves g (cl_workers s v) (cl_workers s' v)" for v using ok by (simp add: s' cluster_ok_def moves_def)
  have sub: "G v \<subseteq> G' v" for v by (simp add: G')
  have gr: "granted_ok c0 (entry_cov (entry g s)) G" using ok by (simp add: cluster_ok_def)
  have apart: "x \<in> G v \<Longrightarrow> x \<in> G u \<Longrightarrow> v = u" "x \<in> G v \<Longrightarrow> x \<in> entry_cov (entry g s) \<and> x \<notin> c0" for x u v
    using gr unfolding granted_ok_def by blast+
  have gr': "granted_ok c0 (entry_cov (entry g s')) G'"
    using gr adv_cov [OF a] unfolding granted_ok_def G' by (auto split: if_splits dest: apart)
  have tt: "x \<in> cl_tasks s \<or> task_ok (pos g s') G' (entry g s') x" if "x \<in> cl_tasks s'" for x
    using that t by (auto simp: s')
  show ?thesis
    by (rule cluster_ok_frame [OF ok mm a sub gr' _ tt s'(3)]) (simp add: s'(1))
qed

lemma next_revision: "unat (rv :: u64) + 1 < 2 ^ 64 \<Longrightarrow> unat (rv + 1) = unat rv + 1"
  by (simp add: unat_add_small)

lemma lease_state_of_fields [simp]:
  "ls_revision (lease_state_of rv r x y) = rv" "ls_issued_upper_bound (lease_state_of rv r x y) = gr_issued_upper_bound r"
  "ls_last_persisted_tso (lease_state_of rv r x y) = y"
  by (simp_all add: lease_state_of_def)

lemma known_written: "known (Some (stamp_generator r, rv)) r rv" "known (Some (r, rv)) r rv"
  by (simp_all add: known_def)

lemma takeover_adv:
  assumes "known (Some (c, rv)) r rv" "rec_cov r \<subseteq> rec_cov r'" "unat rv + 1 < 2 ^ 64"
  shows "adv (Some (c, rv)) (Some (stamp_generator r', rv + 1))"
proof -
  have "rec_cov c = rec_cov r" using assms(1) by (simp add: known_def rec_cov_parts)
  then show ?thesis using assms(2) next_revision [OF assms(3)] by (simp add: adv_def)
qed

lemma refresh_adv:
  assumes ok: "lease_ok p G (Some (c, ls_revision l)) l" and rv: "unat (ls_revision l) + 1 < 2 ^ 64"
    and le: "opt_le (ls_last_persisted_tso l) (gr_last_issued_tso r)" "opt_le (ls_issued_upper_bound l) (gr_issued_upper_bound r)"
    and r': "gr_last_issued_tso r' = gr_last_issued_tso r" "gr_issued_upper_bound r' = gr_issued_upper_bound r"
  shows "adv (Some (c, ls_revision l)) (Some (r', ls_revision l + 1))"
    "lease_ok p (G \<union> (rec_cov r' - rec_cov c)) (Some (r', ls_revision l + 1))
       (lease_state_of (ls_revision l + 1) r x (gr_last_issued_tso r))"
proof -
  from ok have c: "ls_issued_upper_bound l = gr_issued_upper_bound c"
    "opt_le (gr_last_issued_tso c) (ls_last_persisted_tso l)" "{t \<in> rec_cov c. p \<le> t} \<subseteq> G"
    by (auto simp: lease_ok_def)
  have "opt_le (gr_last_issued_tso c) (gr_last_issued_tso r)" using c(2) le(1) by (rule opt_le_trans)
  then have "rec_cov c \<subseteq> rec_cov r" using le(2) c(1) cov_mono unfolding rec_cov_parts by (metis Un_mono)
  moreover have "rec_cov r' = rec_cov r" by (simp add: rec_cov_parts r')
  ultimately show "adv (Some (c, ls_revision l)) (Some (r', ls_revision l + 1))"
    using next_revision [OF rv] by (simp add: adv_def)
  have "{t \<in> rec_cov r'. p \<le> t} \<subseteq> G \<union> (rec_cov r' - rec_cov c)" using c(3) by blast
  moreover have "{t \<in> cov (gr_issued_upper_bound r). p \<le> t} \<subseteq> {t \<in> rec_cov r'. p \<le> t}"
    by (auto simp: rec_cov_parts r')
  ultimately show "lease_ok p (G \<union> (rec_cov r' - rec_cov c)) (Some (r', ls_revision l + 1))
       (lease_state_of (ls_revision l + 1) r x (gr_last_issued_tso r))"
    by (simp add: lease_ok_def r')
qed

lemma adopted_lease_ok:
  assumes "known e r rv" "ls_revision l = rv" "ls_issued_upper_bound l = gr_issued_upper_bound r"
    "opt_le (gr_last_issued_tso r) (ls_last_persisted_tso l)" "{t \<in> rec_cov r. p \<le> t} = {}"
  shows "lease_ok p G e l"
proof -
  obtain c cv where c: "e = Some (c, cv)" "unat rv \<le> unat cv"
    "rv = cv \<longrightarrow> gr_last_issued_tso c = gr_last_issued_tso r \<and> gr_issued_upper_bound c = gr_issued_upper_bound r"
    using assms(1) by (auto simp: known_def)
  have "rv = cv \<longrightarrow> rec_cov c = rec_cov r" using c(3) by (simp add: rec_cov_parts)
  moreover have "{t \<in> cov (gr_issued_upper_bound r). p \<le> t} \<subseteq> {t \<in> rec_cov r. p \<le> t}" by (auto simp: rec_cov_parts)
  ultimately show ?thesis using c assms(2-5) unfolding lease_ok_def by auto
qed

subsection \<open>Every step keeps the invariant\<close>

lemma ensure_keeps:
  assumes ok: "cluster_ok g c0 s G" and t: "Loaded w r rv \<in> cl_tasks s"
    and e: "ensure_on_record g r rv now (cl_workers s w) = (sv, d)"
    and d: "\<And>r'. d = Inr r' \<Longrightarrow> T = {TakingOver w rv r'}" "\<And>res. d = Inl res \<Longrightarrow> T = {}"
    and s': "s' = set_worker w sv (s \<lparr> cl_tasks := cl_tasks s \<union> T \<rparr>)"
  shows "cluster_ok g c0 s' G"
proof -
  have sv: "svc_ok g (cl_workers s w)" and k: "known (entry g s) r rv"
    using ok t by (auto simp: cluster_ok_def task_ok_def)
  have T: "task_ok p G (entry g s) x" if "x \<in> T" for p x
    using that d k e by (cases d) (auto simp: task_ok_def dest: ensure_on_record_covers)
  from sv e show ?thesis
  proof (cases rule: ensure_on_record_effect)
    case same
    then show ?thesis by (intro worker_step [OF ok same(1) _ T]) (simp_all add: s')
  next
    case (adopted l)
    then have "lease_ok (position g sv) (G w) (entry g s) l" using k adopted_lease_ok by blast
    then show ?thesis using adopted by (intro worker_step [OF ok adopted(1) _ T]) (simp_all add: s')
  qed
qed

lemma hold_keeps:
  assumes ok: "cluster_ok g c0 s G" and h: "hold_lease g l (cl_workers s w) = (sv, res)"
    and l: "lease_ok (pos g s w) (G w) (entry g s) l"
  shows "cluster_ok g c0 (set_worker w sv s) G"
proof -
  have sv: "svc_ok g (cl_workers s w)" using ok by (simp add: cluster_ok_def)
  note e = hold_lease_effect [OF sv h]
  have "lease_ok (position g sv) (G w) (entry g s) l"
    using l e(1) by (intro lease_ok_adv [OF l]) (simp_all add: moves_def)
  then show ?thesis using e(2) by (intro worker_step [OF ok e(1), where T = "{}"]) simp_all
qed

lemma taken_keeps:
  assumes ok: "cluster_ok g c0 s G" and k: "known (entry g s) r rv"
    and a: "after_takeover g r rv (cl_workers s w) = (sv, res)"
  shows "cluster_ok g c0 (set_worker w sv s) G"
proof -
  have sv: "svc_ok g (cl_workers s w)" using ok by (simp add: cluster_ok_def)
  obtain x where i: "install_lease g (generator_recovery_floor_tso r)
      (lease_state_of rv r x (gr_last_issued_tso r)) (cl_workers s w) = (sv, res)"
    using a by (auto simp: after_takeover_def)
  note e = install_lease_effect [OF sv i]
  have "lease_ok (position g sv) (G w) (entry g s) l"
    if "l = lease_state_of rv r x (gr_last_issued_tso r)" "{t \<in> rec_cov r. position g sv \<le> t} = {}" for l
    using k that by (intro adopted_lease_ok [OF k]) simp_all
  then show ?thesis using e by (intro worker_step [OF ok, where T = "{}"]) (auto simp: rec_cov_def)
qed

lemma allocate_moves:
  assumes sv: "svc_ok g sv" and gen: "lookup_generator sv g = Inr gen"
    and a: "allocate_after (\<lambda>_ v. v) a gen = (gen', res)"
  shows "moves g sv (on_runtime (set_generator g gen') sv)"
proof -
  obtain gen0 where g: "lookup_generator sv g = Inr gen0" "generator_at (sv_generator_runtime sv) g = Inr gen0"
    "gn_id gen0 = g" "gn_layout gen0 = layout_of sv" using svc_ok_lookup [OF sv] by blast
  then have [simp]: "gen0 = gen" using gen by simp
  have v: "layout_valid (gn_layout gen)" using sv g(4) by (simp add: svc_ok_def)
  have "gn_id gen' = gn_id gen \<and> gn_layout gen' = gn_layout gen \<and> gn_next_index gen \<le> gn_next_index gen'"
    using a allocate_attempt_Inr(1,3) [OF v]
    by (fastforce simp: allocate_after_uncontended word_le_nat_alt split: sum.splits)
  then show ?thesis using g(2) by (intro moves_generator [OF sv, of gen]) simp_all
qed

lemma allocate_issues:
  assumes sv: "svc_ok g sv" and gen: "lookup_generator sv g = Inr gen" and c: "al_count a \<noteq> 0"
    and a: "allocate_after (\<lambda>_ v. v) a gen = (gen', Inr (Allocated rs))" and ub: "al_issued_upper_bound a = Some ub"
    and t: "t \<in> set (ranges_tsos rs)"
  shows "position g sv \<le> t" "t < position g (on_runtime (set_generator g gen') sv)" "t \<in> cov (Some ub)"
    "distinct (ranges_tsos rs)"
proof -
  obtain gen0 where g: "lookup_generator sv g = Inr gen0" "generator_at (sv_generator_runtime sv) g = Inr gen0"
    "gn_id gen0 = g" "gn_layout gen0 = layout_of sv" using svc_ok_lookup [OF sv] by blast
  then have [simp]: "gen0 = gen" using gen by simp
  have v: "layout_valid (gn_layout gen)" "gn_id gen < max_generators (gn_layout gen)"
    using sv g(3,4) by (simp_all add: svc_ok_def)
  note w = svc_ok_width [OF sv]
  obtain start where ts: "ranges_tsos rs = map (slot_tso (layout_of sv) g) [start ..< start + unat (al_count a)]"
    and n: "unat (gn_next_index gen') = start + unat (al_count a)" and s: "unat (gn_next_index gen) \<le> start"
    and u: "slot_tso (layout_of sv) g (start + unat (al_count a) - 1) \<le> unat ub"
    by (rule allocate_after_Allocated [OF v c a]) (use g ub in auto)
  from t ts obtain i where i: "t = slot_tso (layout_of sv) g i" "start \<le> i" "i < start + unat (al_count a)" by auto
  show "position g sv \<le> t" using g(2) i s by (simp add: position_def slot_tso_le [OF w])
  show "t < position g (on_runtime (set_generator g gen') sv)"
    using generator_at_set [OF g(2), of gen'] i n by (simp add: position_def on_runtime_def slot_tso_less [OF w])
  have "t \<le> slot_tso (layout_of sv) g (start + unat (al_count a) - 1)" using i by (simp add: slot_tso_le [OF w])
  with u show "t \<in> cov (Some ub)" by (simp add: cov_def)
  show "distinct (ranges_tsos rs)" unfolding ts by (simp add: distinct_map inj_on_def slot_tso_eq [OF w])
qed

lemma allocate_keeps:
  assumes ok: "cluster_ok g c0 s G" and b: "AllowedUpTo w ub \<in> cl_tasks s"
    and gen: "lookup_generator (cl_workers s w) g = Inr gen" and ub: "al_issued_upper_bound a = Some ub"
    and c: "al_count a \<noteq> 0" and a: "allocate_after (\<lambda>_ v. v) a gen = (gen', res)"
  defines "sv \<equiv> on_runtime (set_generator g gen') (cl_workers s w)"
  shows "cluster_ok g c0 (set_worker w sv s \<lparr> cl_issued := cl_issued s @ issued_by w res \<rparr>) G"
proof -
  have svo: "svc_ok g (cl_workers s w)" using ok by (simp add: cluster_ok_def)
  have m: "moves g (cl_workers s w) sv" unfolding sv_def using svo gen a by (rule allocate_moves)
  have h: "held g sv = held g (cl_workers s w)" by (simp add: sv_def on_runtime_def)
  let ?s = "set_worker w sv s"
  have ok1: "cluster_ok g c0 ?s G"
    by (rule worker_step [OF ok m, where T = "{}"]) (simp_all add: h)
  have bnd: "{t \<in> cov (Some ub). pos g s w \<le> t} \<subseteq> G w"
    using ok b unfolding cluster_ok_def by (fastforce simp: task_ok_def)
  have new: "t \<in> G v \<and> pos g s v \<le> t \<and> t < pos g ?s v \<and> v = w" if "(v, t) \<in> set (issued_by w res)" for v t
  proof -
    from that obtain rs where rs: "res = Inr (Allocated rs)" "v = w" "t \<in> set (ranges_tsos rs)"
      by (auto simp: issued_by_def split: sum.splits allocate_after_result.splits)
    note i = allocate_issues [OF svo gen c a [unfolded rs(1)] ub rs(3)]
    with bnd rs(2) show ?thesis by (auto simp: sv_def)
  qed
  have dnew: "distinct (map snd (issued_by w res))"
  proof (cases "\<exists>rs t. res = Inr (Allocated rs) \<and> t \<in> set (ranges_tsos rs)")
    case True
    then show ?thesis using allocate_issues(4) [OF svo gen c _ ub] a by (auto simp: issued_by_def comp_def)
  next
    case False
    then show ?thesis by (auto simp: issued_by_def comp_def neq_Nil_conv split: sum.splits allocate_after_result.splits)
  qed
  have old: "t \<in> G v" "t < pos g s v" if "(v, t) \<in> set (cl_issued s)" for v t
    using ok that by (auto simp: cluster_ok_def)
  have gr: "v = u" if "t \<in> G v" "t \<in> G u" for t u v
    using ok that unfolding cluster_ok_def granted_ok_def by blast
  have "snd ` set (cl_issued s) \<inter> snd ` set (issued_by w res) = {}"
  proof (rule equals0I)
    fix t assume "t \<in> snd ` set (cl_issued s) \<inter> snd ` set (issued_by w res)"
    then obtain v u where vu: "(v, t) \<in> set (cl_issued s)" "(u, t) \<in> set (issued_by w res)" by auto
    then have "v = u" using gr old(1) new by blast
    moreover have "pos g s u \<le> t" using new [OF vu(2)] by blast
    ultimately show False using old(2) [OF vu(1)] by simp
  qed
  with ok1 dnew new show ?thesis unfolding cluster_ok_def by (auto simp: distinct_map_filter)
qed

lemma batch_entry:
  assumes b: "ms_compare_exchange_generators ops st = (st', Inr revs)" and i: "i < length ops" and op: "ops ! i = op"
  shows "\<exists>c. generator_entry st (gb_generator_id op) = Some (c, gb_previous_revision op)"
    "revs ! i = gb_previous_revision op + 1"
    "generator_entry st' (gb_generator_id op) = Some (gb_record op, gb_previous_revision op + 1)"
proof -
  have g: "map (\<lambda>op. map_option snd (generator_entry st (gb_generator_id op))) ops = map (\<lambda>op. Some (gb_previous_revision op)) ops"
    and d: "distinct (map gb_generator_id ops)" and r: "revs = map (\<lambda>op. gb_previous_revision op + 1) ops"
    and e: "generator_entry st' = ops_map gb_generator_id gb_record gb_previous_revision ops (generator_entry st)"
    using generator_batch [of st ops] unfolding b by simp_all
  have "map_option snd (generator_entry st (gb_generator_id op)) = Some (gb_previous_revision op)"
    using arg_cong [OF g, of "\<lambda>xs. xs ! i"] i op by simp
  then show "\<exists>c. generator_entry st (gb_generator_id op) = Some (c, gb_previous_revision op)" by auto
  show "revs ! i = gb_previous_revision op + 1" using i op by (simp add: r)
  let ?kv = "map (\<lambda>op. (gb_generator_id op, gb_record op, gb_previous_revision op + 1)) ops"
  have "distinct (map fst ?kv)" using d by (simp add: comp_def)
  moreover have "(gb_generator_id op, gb_record op, gb_previous_revision op + 1) \<in> set ?kv"
    using i op by (auto simp: image_iff dest: nth_mem)
  ultimately have "map_of ?kv (gb_generator_id op) = Some (gb_record op, gb_previous_revision op + 1)"
    by (rule map_of_is_SomeI)
  then show "generator_entry st' (gb_generator_id op) = Some (gb_record op, gb_previous_revision op + 1)"
    by (simp add: e ops_map_def map_add_Some_iff del: map_of_eq_Some_iff)
qed

lemma refresh_write_keeps:
  assumes ok: "cluster_ok g c0 s G" and t: "Refreshing w l r \<in> cl_tasks s"
    and rv: "unat (ls_revision l) + 1 < 2 ^ 64" "entry g s = Some (c, ls_revision l)"
    and st: "generator_entry st g = Some (r', ls_revision l + 1)"
    and r': "gr_last_issued_tso r' = gr_last_issued_tso r" "gr_issued_upper_bound r' = gr_issued_upper_bound r"
  shows "\<exists>G'. cluster_ok g c0 (add_task (RefreshedRecord w r (ls_revision l + 1)) (s \<lparr> cl_store := st \<rparr>)) G'"
proof -
  have tk: "lease_ok (pos g s w) (G w) (entry g s) l" "opt_le (ls_last_persisted_tso l) (gr_last_issued_tso r)"
    "opt_le (ls_issued_upper_bound l) (gr_issued_upper_bound r)"
    using ok t unfolding cluster_ok_def by (fastforce simp: task_ok_def)+
  note a = refresh_adv [OF tk(1) [unfolded rv(2)] rv(1) tk(2,3) r']
  show ?thesis
    by (rule exI, rule write_step [OF ok _ refl, where w = w and t = "RefreshedRecord w r (ls_revision l + 1)"])
      (use a rv(2) st in \<open>simp_all add: task_ok_def entry_cov_def\<close>)
qed

lemma created_lease_ok:
  assumes "gr_last_issued_tso r = None" "rec_cov r \<subseteq> G"
  shows "lease_ok p G (Some (stamp_generator r, rv)) (lease_state_of rv r x None)"
  using assms by (auto simp: lease_ok_def rec_cov_parts)

lemma task_step: "cluster_ok g c0 s G \<Longrightarrow> task_ok (pos g s) G (entry g s) t \<Longrightarrow> cluster_ok g c0 (add_task t s) G"
  by (auto simp: cluster_ok_def)

lemma service_step:
  assumes "cluster_ok g c0 s G" "moves g (cl_workers s w) sv"
    and "\<And>l. held g sv = Some l \<Longrightarrow> held g (cl_workers s w) = Some l \<or> lease_ok (position g sv) (G w) (entry g s) l"
  shows "cluster_ok g c0 (set_worker w sv s) G"
  by (rule worker_step [OF assms(1,2), where T = "{}"]) (use assms(3) in simp_all)

lemma load_keeps:
  assumes ok: "cluster_ok g c0 s G" and "ms_load_generator (cl_store s) g = Inr (Some (r, rv))"
  shows "cluster_ok g c0 (add_task (Loaded w r rv) s) G"
proof -
  have "entry g s = Some (r, rv)"
    using assms(2) by (auto simp: ms_load_generator_def generator_entry_def and_then_eq_Inr split: option.splits)
  then show ?thesis by (intro task_step [OF ok]) (simp add: task_ok_def known_written)
qed

lemma takeover_keeps:
  assumes ok: "cluster_ok g c0 s G" and t: "TakingOver w rv r \<in> cl_tasks s"
    and w: "ms_compare_exchange_generator g rv r (cl_store s) = (st, Inr rv')" and rv: "unat rv + 1 < 2 ^ 64"
  shows "\<exists>G'. cluster_ok g c0 (add_task (TookOver w r rv') (s \<lparr> cl_store := st \<rparr>)) G'"
proof -
  obtain c where c: "entry g s = Some (c, rv)" "rv' = rv + 1" "generator_entry st g = Some (stamp_generator r, rv + 1)"
    using gens.cas_ok [OF w] by auto
  obtain r0 where r0: "known (Some (c, rv)) r0 rv" "rec_cov r0 \<subseteq> rec_cov r"
    using ok t c(1) unfolding cluster_ok_def by (fastforce simp: task_ok_def)
  show ?thesis
    by (rule exI, rule write_step [OF ok _ refl, where w = w and t = "TookOver w r rv'"])
      (use takeover_adv [OF r0 rv] c known_written in \<open>simp_all add: task_ok_def\<close>)
qed

lemma create_keeps:
  assumes ok: "cluster_ok g c0 s G" and w: "ms_create_generator g r (cl_store s) = (st, Inr rv)"
    and r: "r = new_generator_record (cl_workers s w) g now"
  shows "\<exists>G'. cluster_ok g c0 (add_task (CreatedRecord w r rv) (s \<lparr> cl_store := st \<rparr>)) G'"
proof -
  have c: "entry g s = None" "generator_entry st g = Some (stamp_generator r, rv)" using gens.create_ok [OF w] by auto
  have l: "lease_ok p (G w \<union> rec_cov r) (Some (stamp_generator r, rv)) (lease_state_of rv r x None)" for p x
    by (rule created_lease_ok) (simp_all add: r new_generator_record_def)
  show ?thesis
    by (rule exI, rule write_step [OF ok _ refl, where w = w and t = "CreatedRecord w r rv"])
      (use c l in \<open>simp_all add: task_ok_def entry_cov_def adv_def\<close>)
qed

lemma refresh_keeps:
  assumes ok: "cluster_ok g c0 s G" and h: "held g (cl_workers s w) = Some l"
    and r: "refresh_record (cl_workers s w) g l now reason = Inr (Some r)"
  shows "cluster_ok g c0 (add_task (Refreshing w l r) s) G"
proof (rule task_step [OF ok])
  have "lease_ok (pos g s w) (G w) (entry g s) l" using ok h by (simp add: cluster_ok_def)
  then show "task_ok (pos g s) G (entry g s) (Refreshing w l r)"
    using refresh_record_covers [OF r] by (simp add: task_ok_def)
qed

lemma refreshed_keeps:
  assumes ok: "cluster_ok g c0 s G" and t: "RefreshedRecord w r rv \<in> cl_tasks s"
    and a: "after_refresh g r rv (cl_workers s w) = (sv, res)"
  shows "cluster_ok g c0 (set_worker w sv s) G"
proof -
  have l: "lease_ok (pos g s w) (G w) (entry g s) (lease_state_of rv r x (gr_last_issued_tso r))" for x
    using ok t unfolding cluster_ok_def by (fastforce simp: task_ok_def)
  show ?thesis
  proof (cases "gr_lease_expire_at_ms r")
    case None
    with a have "sv = cl_workers s w" by (simp add: after_refresh_def runtime_lease_state_from_record_def)
    with ok show ?thesis by simp
  next
    case (Some x)
    then have "hold_lease g (lease_state_of rv r x (gr_last_issued_tso r)) (cl_workers s w) = (sv, res)"
      using a by (simp add: after_refresh_def runtime_lease_state_from_record_def)
    then show ?thesis using hold_keeps [OF ok _ l] by blast
  qed
qed

lemma restore_keeps:
  assumes ok: "cluster_ok g c0 s G" and t: "Refreshing w l r \<in> cl_tasks s"
  shows "cluster_ok g c0 (set_worker w (on_runtime (upsert_lease g l) (cl_workers s w)) s) G"
proof (rule service_step [OF ok])
  let ?sv = "on_runtime (upsert_lease g l) (cl_workers s w)"
  have "lease_ok (pos g s w) (G w) (entry g s) l" using ok t unfolding cluster_ok_def by (fastforce simp: task_ok_def)
  moreover have "position g ?sv = pos g s w" by (simp add: position_def on_runtime_def split: sum.split)
  ultimately show "held g ?sv = Some l' \<Longrightarrow> held g (cl_workers s w) = Some l' \<or> lease_ok (position g ?sv) (G w) (entry g s) l'"
    for l' by (simp add: on_runtime_def)
  show "moves g (cl_workers s w) ?sv" using ok by (intro moves_frame) (simp_all add: cluster_ok_def on_runtime_def)
qed

lemma bound_keeps:
  assumes ok: "cluster_ok g c0 s G" and b: "valid_generator_lease_upper_bound (cl_workers s w) g now = Inr (Some ub)"
  shows "cluster_ok g c0 (add_task (AllowedUpTo w ub) s) G"
proof (rule task_step [OF ok])
  obtain l where "held g (cl_workers s w) = Some l" "ls_issued_upper_bound l = Some ub"
    using b by (auto simp: valid_generator_lease_upper_bound_def valid_lease_upper_bound_for_owner_def and_then_eq_Inr
        split: option.splits if_splits)
  then show "task_ok (pos g s) G (entry g s) (AllowedUpTo w ub)"
    using ok unfolding cluster_ok_def by (fastforce simp: task_ok_def lease_ok_def)
qed

lemma decide_keeps:
  assumes ok: "cluster_ok g c0 s G" and t: "Loaded w r rv \<in> cl_tasks s"
  shows "ensure_on_record g r rv now (cl_workers s w) = (sv, Inl res) \<Longrightarrow> cluster_ok g c0 (set_worker w sv s) G"
    "ensure_on_record g r rv now (cl_workers s w) = (sv, Inr r') \<Longrightarrow>
       cluster_ok g c0 (add_task (TakingOver w rv r') (set_worker w sv s)) G"
proof -
  show "cluster_ok g c0 (set_worker w sv s) G" if "ensure_on_record g r rv now (cl_workers s w) = (sv, Inl res)"
    by (rule ensure_keeps [OF ok t that, where T = "{}"]) simp_all
  show "cluster_ok g c0 (add_task (TakingOver w rv r') (set_worker w sv s)) G"
    if "ensure_on_record g r rv now (cl_workers s w) = (sv, Inr r')"
    by (rule ensure_keeps [OF ok t that, where T = "{TakingOver w rv r'}"]) simp_all
qed

lemma cluster_step_keeps:
  assumes "cluster_step g s s'" and ok: "cluster_ok g c0 s G"
  shows "\<exists>G'. cluster_ok g c0 s' G'"
  using assms(1)
proof cases
  case load then show ?thesis using load_keeps [OF ok] by blast
next
  case decide then show ?thesis using decide_keeps(1) [OF ok] by blast
next
  case decide_takeover then show ?thesis using decide_keeps(2) [OF ok] by blast
next
  case takeover then show ?thesis using takeover_keeps [OF ok] by blast
next
  case (taken w r rv)
  moreover have "known (entry g s) r rv" using ok taken(2) unfolding cluster_ok_def by (fastforce simp: task_ok_def)
  ultimately show ?thesis using taken_keeps [OF ok] by blast
next
  case create then show ?thesis using create_keeps [OF ok] by blast
next
  case (created w r rv)
  moreover have "lease_ok (pos g s w) (G w) (entry g s) (lease_state_of rv r x None)" for x
    using ok created(2) unfolding cluster_ok_def by (fastforce simp: task_ok_def)
  ultimately show ?thesis using hold_keeps [OF ok] unfolding after_creation_def by blast
next
  case refresh then show ?thesis using refresh_keeps [OF ok] by blast
next
  case (refresh_write w l r st rv)
  then show ?thesis using gens.cas_ok [OF refresh_write(3)] refresh_write_keeps [OF ok refresh_write(2,4), of _ st] by auto
next
  case (refresh_batch w l r ops st revs i)
  then show ?thesis
    using batch_entry [OF refresh_batch(3,5,6)] refresh_write_keeps [OF ok refresh_batch(2,4), of _ st r] by auto
next
  case refreshed then show ?thesis using refreshed_keeps [OF ok] by blast
next
  case (drop w sv res)
  have "svc_ok g (cl_workers s w)" using ok by (simp add: cluster_ok_def)
  note e = drop_lease_effect [OF this drop(2)]
  have "cluster_ok g c0 (set_worker w sv s) G" by (rule service_step [OF ok e(1)]) (simp add: e(2))
  then show ?thesis unfolding drop(1) by blast
next
  case restore then show ?thesis using restore_keeps [OF ok] by blast
next
  case bound then show ?thesis using bound_keeps [OF ok] by blast
next
  case allocate then show ?thesis using allocate_keeps [OF ok allocate(2-6)] by blast
next
  case other_store then show ?thesis using ok by (auto simp: cluster_ok_def)
next
  case (other_service sv w)
  have "moves g (cl_workers s w) sv" using ok other_service by (intro moves_frame) (simp_all add: cluster_ok_def)
  then have "cluster_ok g c0 (set_worker w sv s) G" by (rule service_step [OF ok]) (simp add: other_service(3))
  then show ?thesis unfolding other_service(1) by blast
qed

lemma cluster_init_ok:
  assumes "\<And>w. layout_valid (cfg_timestamp_layout (config w)) \<and> g < max_generators (cfg_timestamp_layout (config w))"
  shows "cluster_ok g (entry_cov (generator_entry st g)) (cluster_init st config instance_id seed) (\<lambda>_. {})"
proof -
  have "svc_ok g (service_new (config w) (instance_id w) (seed w))" for w
    using assms [of w] by (simp add: svc_ok_def fresh_generator_at generator_with_layout_def)
  moreover have "held g (service_new (config w) (instance_id w) (seed w)) = None" for w
    by (simp add: lease_state_def runtime_with_layout_def)
  ultimately show ?thesis by (simp add: cluster_ok_def cluster_init_def granted_ok_def)
qed

lemma cluster_reachable_ok:
  assumes "(cluster_step g)\<^sup>*\<^sup>* s s'" "cluster_ok g c0 s G"
  shows "\<exists>G'. cluster_ok g c0 s' G'"
  using assms by (induction rule: rtranclp_induct) (auto dest: cluster_step_keeps)

text \<open>
  C1: no timestamp of a generator is ever issued twice. Any number of workers compete for the generator over one
  store, with arbitrary clocks, delays, retries and crashes, and each issues only under an upper bound it read from
  a valid lease. Then all timestamps issued by all of them are distinct, each of them lies above every timestamp
  covered by the record the run started from, and each is covered by the record that is persisted now, so that a
  later takeover starts above it.
\<close>
theorem fenced_timestamps_unique:
  assumes "\<And>w. layout_valid (cfg_timestamp_layout (config w)) \<and> g < max_generators (cfg_timestamp_layout (config w))"
    and "(cluster_step g)\<^sup>*\<^sup>* (cluster_init st config instance_id seed) s"
  shows "distinct (map snd (cl_issued s))
    \<and> (\<forall>(w, t) \<in> set (cl_issued s).
        (\<forall>r rv f. generator_entry st g = Some (r, rv) \<longrightarrow> generator_recovery_floor_tso r = Some f \<longrightarrow> unat f < t)
        \<and> (\<exists>r rv f. generator_entry (cl_store s) g = Some (r, rv) \<and> generator_recovery_floor_tso r = Some f \<and> t \<le> unat f))"
proof -
  obtain G where ok: "cluster_ok g (entry_cov (generator_entry st g)) s G"
    using cluster_reachable_ok [OF assms(2) cluster_init_ok [OF assms(1)]] by blast
  have "t \<notin> entry_cov (generator_entry st g) \<and> t \<in> entry_cov (entry g s)" if "(w, t) \<in> set (cl_issued s)" for w t
  proof -
    have "t \<in> G w" using ok that by (auto simp: cluster_ok_def)
    then show ?thesis using ok unfolding cluster_ok_def granted_ok_def by blast
  qed
  then have "\<forall>(w, t) \<in> set (cl_issued s).
        (\<forall>r rv f. generator_entry st g = Some (r, rv) \<longrightarrow> generator_recovery_floor_tso r = Some f \<longrightarrow> unat f < t)
        \<and> (\<exists>r rv f. entry g s = Some (r, rv) \<and> generator_recovery_floor_tso r = Some f \<and> t \<le> unat f)"
    by (fastforce simp: entry_cov_def rec_cov_def cov_def not_le split: option.splits)
  then show ?thesis using ok unfolding cluster_ok_def by blast
qed

subsection \<open>A run\<close>

lemma sample_run:
  "\<exists>s. (cluster_step 7)\<^sup>*\<^sup>* (cluster_init memory_store_new (\<lambda>_. tso_config_default) (\<lambda>_. ''worker'') (\<lambda>_. 0)) s
     \<and> cl_issued s = [(0, 83900416), (0, 83900417), (0, 83900418)]"
proof -
  define s0 where "s0 = cluster_init memory_store_new (\<lambda>_. tso_config_default) (\<lambda>_. ''worker'') (\<lambda>_. 0)"
  define s1 where "s1 = add_task (CreatedRecord 0 sample_record 1)
    (s0 \<lparr> cl_store := memory_store_new \<lparr> ms_generators := [(7, (stamp_generator sample_record, 1))] \<rparr> \<rparr>)"
  define s2 where "s2 = set_worker 0 sample_held s1"
  define s3 where "s3 = add_task (AllowedUpTo 0 1761624063) s2"
  have w: "cl_workers s0 v = sample_service" "cl_workers s1 0 = sample_service" "cl_workers s2 0 = sample_held"
    "cl_workers s3 0 = sample_held" "cl_issued s3 = []" for v
    by (simp_all add: s0_def s1_def s2_def s3_def cluster_init_def sample_service_def)
  have r: "new_generator_record (cl_workers s0 0) 7 5 = sample_record" by (simp add: w sample_record_def)
  have "cluster_step 7 s0 s1"
    using cluster_step.create [of 7 s0 0 5] unfolding r s1_def
    by (simp add: s0_def cluster_init_def ms_create_generator_def create_entry_def memory_store_new_def
        validate_generator_schema_def CURRENT_METADATA_SCHEMA_VERSION_def sample_record_fields)
  moreover have "cluster_step 7 s1 s2" unfolding s2_def
    by (rule cluster_step.created [of 0 sample_record 1]) (simp_all add: w, simp_all add: s1_def sample_held_def prod_eq_iff)
  moreover have "cluster_step 7 s2 s3" unfolding s3_def
    by (rule cluster_step.bound [of _ _ _ 5]) (simp add: w sample_bound)
  moreover obtain s4 where "cluster_step 7 s3 s4" "cl_issued s4 = [(0, 83900416), (0, 83900417), (0, 83900418)]"
  proof
    show "cluster_step 7 s3 (set_worker 0 (on_runtime (set_generator 7 (generator_with_layout 7 DEFAULT_TIMESTAMP_LAYOUT
        \<lparr> gn_ready_lease_token := 1, gn_next_index := 10243 \<rparr>)) (cl_workers s3 0)) s3
        \<lparr> cl_issued := cl_issued s3 @ issued_by 0 (Inr (Allocated [\<lparr> rg_start_tso = 83900416, rg_end_tso = 83900418 \<rparr>])) \<rparr>)"
      by (rule cluster_step.allocate [OF _ _ _ _ sample_allocate]) (simp_all add: w sample_lookup sample_args_def s3_def)
    show "cl_issued (set_worker 0 (on_runtime (set_generator 7 (generator_with_layout 7 DEFAULT_TIMESTAMP_LAYOUT
        \<lparr> gn_ready_lease_token := 1, gn_next_index := 10243 \<rparr>)) (cl_workers s3 0)) s3
        \<lparr> cl_issued := cl_issued s3 @ issued_by 0 (Inr (Allocated [\<lparr> rg_start_tso = 83900416, rg_end_tso = 83900418 \<rparr>])) \<rparr>)
        = [(0, 83900416), (0, 83900417), (0, 83900418)]"
      by (simp add: w issued_by_def ranges_tsos_def range_tsos_def upt_rec)
  qed
  ultimately show ?thesis unfolding s0_def by (meson converse_rtranclp_into_rtranclp rtranclp.rtrancl_refl)
qed

theorem fenced_timestamps_unique_witness:
  "\<exists>s. (cluster_step 7)\<^sup>*\<^sup>* (cluster_init memory_store_new (\<lambda>_. tso_config_default) (\<lambda>_. ''worker'') (\<lambda>_. 0)) s
     \<and> cl_issued s = [(0, 83900416), (0, 83900417), (0, 83900418)]
     \<and> (\<exists>r rv f. generator_entry (cl_store s) 7 = Some (r, rv) \<and> generator_recovery_floor_tso r = Some f \<and> 83900418 \<le> unat f)"
proof -
  obtain s where s: "(cluster_step 7)\<^sup>*\<^sup>* (cluster_init memory_store_new (\<lambda>_. tso_config_default) (\<lambda>_. ''worker'') (\<lambda>_. 0)) s"
    "cl_issued s = [(0, 83900416), (0, 83900417), (0, 83900418)]" using sample_run by blast
  have "layout_valid (cfg_timestamp_layout tso_config_default) \<and> 7 < max_generators (cfg_timestamp_layout tso_config_default)"
    by (simp add: tso_config_default_def default_layout_valid) (simp add: alloc_eval)
  from fenced_timestamps_unique [OF this s(1)] s show ?thesis by auto
qed

end
