(* ===== verification/Timelines.thy ===== *)
theory Timelines
  imports Lease Planning Status
begin

text \<open>
  What a worker does with timelines outside an allocation: checking keys (\<open>service/validation.rs\<close>), loading
  records, keeping the cached state (\<open>timeline_state.rs\<close>, \<open>service/runtime_coordination/\<close>), activating a
  record it owns, creating a timeline (\<open>service/allocation/ensure.rs\<close>) and reporting it. A cached state is
  reached by its address; locking it is a point where others run.
\<close>

subsection \<open>Validation\<close>

definition MAX_TIMELINE_KEY_BYTES :: nat where
  "MAX_TIMELINE_KEY_BYTES = 256"

definition MAX_CLIENT_REQUEST_ID_BYTES :: nat where
  "MAX_CLIENT_REQUEST_ID_BYTES = 128"

definition validate_timeline_key :: "string \<Rightarrow> unit tso_result" where
  "validate_timeline_key tk =
     (if str_is_blank tk then Inl (InvalidTimelineKey ''must not be blank'')
      else if MAX_TIMELINE_KEY_BYTES < length tk
      then Inl (InvalidTimelineKey (''must not exceed '' @ fmt_dec MAX_TIMELINE_KEY_BYTES @ '' UTF-8 bytes''))
      else if contains_control tk then Inl (InvalidTimelineKey ''must not contain control characters'')
      else Inr ())"

definition validate_client_request_id :: "string \<Rightarrow> unit tso_result" where
  "validate_client_request_id i =
     (if i = [] then Inr ()
      else if str_is_blank i
      then Inl (InvalidClientRequestId ''must be empty or contain a non-whitespace character'')
      else if MAX_CLIENT_REQUEST_ID_BYTES < length i
      then Inl (InvalidClientRequestId (''must not exceed '' @ fmt_dec MAX_CLIENT_REQUEST_ID_BYTES @ '' UTF-8 bytes''))
      else if contains_control i then Inl (InvalidClientRequestId ''must not contain control characters'')
      else Inr ())"

subsection \<open>Loading a record\<close>

definition acquire_timeline_load_permit :: "surroundings \<Rightarrow> unit act" where
  "acquire_timeline_load_permit ax =
     bnd (pause ax) (\<lambda>_ w.
       (tick w, if ax_cancelled ax (w_tick w) \<or> ax_load_timeout ax (w_tick w) then Inl RequestCancelled else Inr ()))"

definition load_once ::
    "surroundings \<Rightarrow> (nat \<Rightarrow> 'a tso_result option) \<Rightarrow> 'a act \<Rightarrow> 'a act" where
  \<comment> \<open>the result of a flight in progress, else the own load\<close>
  "load_once ax joined load =
     bnd (check_request_cancellation ax) (\<lambda>_ w.
       case joined (w_tick w) of
         Some r \<Rightarrow> bnd (pause ax) (\<lambda>_. done_with r) (tick w)
       | None \<Rightarrow> load (tick w))"

definition load_timeline_with_singleflight :: "surroundings \<Rightarrow> string \<Rightarrow> (timeline_record \<times> u64) option act" where
  "load_timeline_with_singleflight ax tk =
     load_once ax (\<lambda>i. ax_joined ax i tk) (bnd (acquire_timeline_load_permit ax) (\<lambda>_. load_timeline ax tk))"

definition load_timeline_route_with_singleflight ::
    "surroundings \<Rightarrow> string \<Rightarrow> (timeline_route_record \<times> u64) option act" where
  "load_timeline_route_with_singleflight ax tk =
     load_once ax (\<lambda>i. ax_joined_route ax i tk)
       (bnd (acquire_timeline_load_permit ax) (\<lambda>_. load_timeline_route ax tk))"

subsection \<open>Cached states\<close>

definition build_timeline_state :: "timeline_record \<Rightarrow> u64 \<Rightarrow> u64 option \<Rightarrow> timeline_state" where
  "build_timeline_state r revision recovered_last_issued_tso =
     \<lparr> tst_route = tl_route r, tst_state = tl_state r, tst_last_issued_tso = recovered_last_issued_tso,
       tst_recovery_floor_tso = recovered_last_issued_tso, tst_last_graceful_issued = tl_last_graceful_issued r,
       tst_timeline_quota_tokens = None, tst_timeline_quota_last_refill_ms = None, tst_revision = revision \<rparr>"

definition alloc_state :: "timeline_state \<Rightarrow> tso_service \<Rightarrow> tso_service \<times> nat" where
  \<comment> \<open>\<open>Arc::new(Mutex::new(..))\<close>\<close>
  "alloc_state st sv =
     (let a = Suc (fold max (map fst (sv_timeline_states sv)) 0)
      in (sv \<lparr> sv_timeline_states := (a, st) # sv_timeline_states sv \<rparr>, a))"

definition set_state :: "nat \<Rightarrow> timeline_state \<Rightarrow> tso_service \<Rightarrow> tso_service" where
  "set_state a st sv = sv \<lparr> sv_timeline_states := AList.update a st (sv_timeline_states sv) \<rparr>"

definition with_state ::
    "surroundings \<Rightarrow> nat \<Rightarrow> (timeline_state \<Rightarrow> tso_service \<Rightarrow> tso_service \<times> 'a tso_result) \<Rightarrow> 'a act" where
  \<comment> \<open>\<open>handle.lock().await\<close> and the code up to the release of the lock\<close>
  "with_state ax a f =
     bnd (pause ax) (\<lambda>_. on_service (\<lambda>sv.
       case map_of (sv_timeline_states sv) a of
         None \<Rightarrow> (sv, Inl (Internal ''dangling timeline state''))
       | Some st \<Rightarrow> f st sv))"

definition read_state :: "surroundings \<Rightarrow> nat \<Rightarrow> timeline_state act" where
  "read_state ax a = with_state ax a (\<lambda>st sv. (sv, Inr st))"

definition cached_handle :: "string \<Rightarrow> nat option act" where
  "cached_handle tk = on_service (\<lambda>sv.
     case timeline_handle tk (sv_timeline_runtime sv) of (c, h) \<Rightarrow> (sv \<lparr> sv_timeline_runtime := c \<rparr>, Inr h))"

definition best_effort_insert_timeline_cache :: "surroundings \<Rightarrow> string \<Rightarrow> nat \<Rightarrow> bool act" where
  "best_effort_insert_timeline_cache ax tk a w =
     on_service (\<lambda>sv.
       case insert_timeline (ax_idle ax (w_tick w)) tk a (sv_timeline_runtime sv) of (c, r) \<Rightarrow>
         (sv \<lparr> sv_timeline_runtime := c \<rparr>,
          case r of
            Inr _ \<Rightarrow> Inr True
          | Inl (TimelineRuntimeCacheSaturated _ _) \<Rightarrow> Inr False
          | Inl e \<Rightarrow> Inl e)) (tick w)"

definition restore_dedicated_claim :: "string \<Rightarrow> timeline_record \<Rightarrow> tso_service \<Rightarrow> tso_service \<times> unit tso_result" where
  "restore_dedicated_claim tk r sv =
     (if rt_resource_tier (tl_route r) \<noteq> Dedicated then (sv, Inr ())
      else if \<not> is_local_endpoint sv (rt_owner_worker_endpoint (tl_route r)) then (sv, Inr ())
      else (case claim_specific_dedicated (rt_generator_id (tl_route r)) tk sv of
              (sv', res) \<Rightarrow> (sv', and_then res (\<lambda>_. Inr ()))))"

definition handle_or_insert :: "surroundings \<Rightarrow> string \<Rightarrow> timeline_state \<Rightarrow> nat act" where
  \<comment> \<open>a saturated cache leaves the new state uncached\<close>
  "handle_or_insert ax tk st w =
     on_service (\<lambda>sv.
       let (sv1, a) = alloc_state st sv in
       case timeline_handle_or_insert_with (ax_idle ax (w_tick w)) tk a (sv_timeline_runtime sv1) of (c, r) \<Rightarrow>
         (case r of
            Inr h \<Rightarrow>
              ((if h = a then sv1 else sv) \<lparr> sv_timeline_runtime := c \<rparr>, Inr h)
          | Inl (TimelineRuntimeCacheSaturated _ _) \<Rightarrow> (sv1 \<lparr> sv_timeline_runtime := c \<rparr>, Inr a)
          | Inl e \<Rightarrow> (sv \<lparr> sv_timeline_runtime := c \<rparr>, Inl e))) (tick w)"

definition merge_record :: "timeline_record \<Rightarrow> u64 \<Rightarrow> timeline_state \<Rightarrow> timeline_state" where
  "merge_record r revision st =
     st \<lparr> tst_route := tl_route r, tst_state := tl_state r,
          tst_last_issued_tso := opt_max (tst_last_issued_tso st) (recovered_timeline_floor_tso r),
          tst_recovery_floor_tso := opt_max (tst_recovery_floor_tso st) (recovered_timeline_floor_tso r),
          tst_last_graceful_issued := tl_last_graceful_issued r, tst_revision := revision \<rparr>"

definition timeline_state_handle_from_record :: "surroundings \<Rightarrow> string \<Rightarrow> timeline_record \<Rightarrow> u64 \<Rightarrow> nat act" where
  "timeline_state_handle_from_record ax tk r revision =
     bnd (on_service (restore_dedicated_claim tk r)) (\<lambda>_.
     bnd (handle_or_insert ax tk (build_timeline_state r revision (recovered_timeline_floor_tso r))) (\<lambda>a.
     bnd (with_state ax a (\<lambda>st sv. (set_state a (merge_record r revision st) sv, Inr ()))) (\<lambda>_.
     ret a)))"

definition upsert_timeline_cache_from_record :: "surroundings \<Rightarrow> string \<Rightarrow> timeline_record \<Rightarrow> u64 \<Rightarrow> unit act" where
  "upsert_timeline_cache_from_record ax tk r revision =
     bnd (timeline_state_handle_from_record ax tk r revision) (\<lambda>_. ret ())"

definition should_clear_timeline_cache_for_route_update :: "timeline_route \<Rightarrow> timeline_route \<Rightarrow> bool" where
  "should_clear_timeline_cache_for_route_update cached updated =
     (let same_route_target =
        rt_timeline_key cached = rt_timeline_key updated
        \<and> rt_generator_id cached = rt_generator_id updated
        \<and> rt_epoch cached = rt_epoch updated
        \<and> rt_resource_tier cached = rt_resource_tier updated
        \<and> endpoints_match (rt_owner_worker_endpoint cached) (rt_owner_worker_endpoint updated)
      in \<not> same_route_target \<and> rt_route_version cached \<le> rt_route_version updated)"

definition invalidate_timeline_cache_for_route_update :: "surroundings \<Rightarrow> timeline_route \<Rightarrow> unit act" where
  "invalidate_timeline_cache_for_route_update ax updated =
     bnd (cached_handle (rt_timeline_key updated)) (\<lambda>h. case h of
       None \<Rightarrow> ret ()
     | Some a \<Rightarrow>
         bnd (read_state ax a) (\<lambda>st.
         if should_clear_timeline_cache_for_route_update (tst_route st) updated then
           bnd (read_state ax a) (\<lambda>st. let cached = tst_route st in
           on_service (\<lambda>sv.
             (clear_timeline_cache (rt_timeline_key updated)
                (if rt_resource_tier cached = Dedicated
                 then service_release_dedicated (rt_generator_id cached) (rt_timeline_key cached) sv else sv), Inr ())))
         else ret ()))"

subsection \<open>Route updates\<close>

datatype route_event = Route_Update timeline_route | Route_Reset | Route_Lagged
datatype route_notice = Route_Changed timeline_route | Routes_Reset

definition ROUTE_WATCH_LAG_CLEAR_COOLDOWN :: nat where
  "ROUTE_WATCH_LAG_CLEAR_COOLDOWN = 200"

definition clear_cached_routes :: "tso_service \<Rightarrow> tso_service" where
  "clear_cached_routes sv =
     service_clear_dedicated_claims (sv \<lparr> sv_timeline_runtime := cache_clear (sv_timeline_runtime sv) \<rparr>)"

definition on_route_update ::
    "surroundings \<Rightarrow> route_event \<Rightarrow> nat option \<Rightarrow> (nat option \<times> route_notice list) act" where
  \<comment> \<open>one turn of the loop: the time of the last clear for a lag, and what is sent to the subscribers\<close>
  "on_route_update ax ev last_lag_clear_at =
     (case ev of
        Route_Update r \<Rightarrow>
          bnd (invalidate_timeline_cache_for_route_update ax r) (\<lambda>_. ret (last_lag_clear_at, [Route_Changed r]))
      | Route_Reset \<Rightarrow>
          bnd (on_service (\<lambda>sv. (clear_cached_routes sv, Inr ()))) (\<lambda>_. ret (last_lag_clear_at, [Routes_Reset]))
      | Route_Lagged \<Rightarrow>
          bnd (instant_now ax) (\<lambda>t.
          if (case last_lag_clear_at of Some cleared \<Rightarrow> t - cleared < ROUTE_WATCH_LAG_CLEAR_COOLDOWN | None \<Rightarrow> False)
          then ret (last_lag_clear_at, [])
          else bnd (on_service (\<lambda>sv. (clear_cached_routes sv, Inr ()))) (\<lambda>_. ret (Some t, [Routes_Reset]))))"

subsection \<open>Floors of a generator\<close>

definition current_generator_floor :: "surroundings \<Rightarrow> u32 \<Rightarrow> u64 option act" where
  "current_generator_floor ax gid =
     bnd get_service (\<lambda>sv.
     bnd (done_with (and_then (lookup_generator sv gid) current_last_issued_tso)) (\<lambda>local_last.
     bnd (load_generator ax gid) (\<lambda>loaded.
     ret (opt_max local_last (case loaded of None \<Rightarrow> None | Some (r, _) \<Rightarrow> generator_recovery_floor_tso r)))))"

definition required_jump_ms_for_generator :: "surroundings \<Rightarrow> u32 \<Rightarrow> u64 \<Rightarrow> u64 act" where
  "required_jump_ms_for_generator ax gid safe_floor =
     bnd (current_generator_floor ax gid) (\<lambda>current. case current of
       None \<Rightarrow> ret 0
     | Some current_floor \<Rightarrow>
         bnd get_service (\<lambda>sv. let l = cfg_timestamp_layout (sv_config sv) in
         bnd (done_with (next_cursor_after_with_layout l safe_floor gid)) (\<lambda>c.
         ret (saturating_sub (cu_physical_ms c) (dt_physical_ms (decode l current_floor))))))"

subsection \<open>Activation\<close>

definition catchup_pending :: "tso_config \<Rightarrow> timeline_record \<Rightarrow> u64 \<Rightarrow> bool" where
  \<comment> \<open>the recovery floor is further ahead of the clock than the budget allows\<close>
  "catchup_pending c r now_ms =
     (case recovered_timeline_floor_tso r of
        None \<Rightarrow> False
      | Some f \<Rightarrow>
          saturating_add now_ms (cfg_recovery_catchup_budget_ms c) < dt_physical_ms (decode (cfg_timestamp_layout c) f))"

fun activate_loop ::
    "surroundings \<Rightarrow> nat \<Rightarrow> string \<Rightarrow> nat \<Rightarrow> u32 \<Rightarrow> nat \<Rightarrow> timeline_record \<Rightarrow> u64 \<Rightarrow> (timeline_record \<times> u64) option act" where
  \<comment> \<open>with the fuel of the lease operations and its own\<close>
  "activate_loop ax fuel tk deadline retries 0 r revision = ret None"
| "activate_loop ax fuel tk deadline retries (Suc n) r revision =
     bnd (check_request_cancellation ax) (\<lambda>_.
     bnd get_service (\<lambda>sv.
     let write =
       bnd (clock_now_ms ax) (\<lambda>now_ms.
       let r' = r \<lparr> tl_state := Active, tl_updated_at_ms := now_ms \<rparr> in
       bnd (result_of (compare_exchange_timeline ax tk revision r')) (\<lambda>res. case res of
         Inr new_revision \<Rightarrow> ret (Some (r', new_revision))
       | Inl e \<Rightarrow>
           if e = CasFailed then
             bnd (backoff_after_contention ax (saturating_add retries 1) deadline) (\<lambda>_.
             bnd (load_timeline_with_singleflight ax tk) (\<lambda>loaded. case loaded of
               None \<Rightarrow> throw (TimelineNotFound tk)
             | Some (latest, latest_revision) \<Rightarrow>
                 activate_loop ax fuel tk deadline (saturating_add retries 1) n latest latest_revision))
           else throw e));
         ensured = (\<lambda>k. bnd (ensure_generator_lease_with_cancellation ax fuel (rt_generator_id (tl_route r)))
           (\<lambda>res. case res of None \<Rightarrow> ret None | Some _ \<Rightarrow> k)) in
     if \<not> is_local_endpoint sv (rt_owner_worker_endpoint (tl_route r)) then ret (Some (r, revision))
     else (case serving_readiness (tl_state r) of
             NotReady \<Rightarrow> ret (Some (r, revision))
           | Serving \<Rightarrow> ensured (ret (Some (r, revision)))
           | RequiresActivation \<Rightarrow>
               if recovered_timeline_floor_tso r \<noteq> None then
                 bnd (clock_now_ms ax) (\<lambda>now_ms.
                 if catchup_pending (sv_config sv) r now_ms then ret (Some (r, revision)) else ensured write)
               else ensured write)))"

definition activate_local_timeline_record ::
    "surroundings \<Rightarrow> nat \<Rightarrow> string \<Rightarrow> timeline_record \<Rightarrow> u64 \<Rightarrow> (timeline_record \<times> u64) option act" where
  "activate_local_timeline_record ax fuel tk r revision =
     bnd (instant_now ax) (\<lambda>t.
     bnd get_service (\<lambda>sv.
       activate_loop ax fuel tk (t + unat (retry_budget (sv_config sv))) 0 fuel r revision))"

subsection \<open>Creating a timeline\<close>

definition new_timeline_record :: "tso_service \<Rightarrow> string \<Rightarrow> u32 \<Rightarrow> resource_tier \<Rightarrow> u64 \<Rightarrow> timeline_record" where
  "new_timeline_record sv tk gid tier now_ms =
     \<lparr> tl_schema_version = 1,
       tl_route = \<lparr> rt_timeline_key = tk, rt_generator_id = gid, rt_epoch = 1, rt_route_version = 1,
         rt_resource_tier = tier, rt_owner_worker_endpoint = cfg_advertise_endpoint (sv_config sv) \<rparr>,
       tl_state = Active, tl_recovery_floor_tso = None, tl_issued_upper_bound = None,
       tl_last_graceful_issued = None, tl_lease_expire_at_ms = None, tl_updated_at_ms = now_ms \<rparr>"

definition serve_cached_route :: "surroundings \<Rightarrow> string \<Rightarrow> timeline_route option act" where
  \<comment> \<open>the route of a cached local timeline that is ready\<close>
  "serve_cached_route ax tk =
     bnd (cached_handle tk) (\<lambda>h. case h of
       None \<Rightarrow> ret None
     | Some a \<Rightarrow> with_state ax a (\<lambda>st sv. (sv, Inr (
         if is_local_endpoint sv (rt_owner_worker_endpoint (tst_route st)) \<and> timeline_is_ready (tst_state st)
         then Some (tst_route st) else None))))"

fun ensure_timeline_loop ::
    "surroundings \<Rightarrow> nat \<Rightarrow> (string \<Rightarrow> u64) \<Rightarrow> string \<Rightarrow> resource_tier \<Rightarrow> nat \<Rightarrow> timeline_route option act" where
  \<comment> \<open>the loop after the check of the key\<close>
  "ensure_timeline_loop ax fuel hash tk tier 0 = ret None"
| "ensure_timeline_loop ax fuel hash tk tier (Suc n) =
     bnd get_service (\<lambda>sv.
     bnd (done_with (reject_new_work_if_shutting_down sv)) (\<lambda>_.
     bnd (serve_cached_route ax tk) (\<lambda>cached. case cached of
       Some route \<Rightarrow> ret (Some route)
     | None \<Rightarrow>
         bnd (load_timeline_with_singleflight ax tk) (\<lambda>loaded. case loaded of
           Some (r, revision) \<Rightarrow>
             if is_local_endpoint sv (rt_owner_worker_endpoint (tl_route r)) then
               bnd (result_of (activate_local_timeline_record ax fuel tk r revision)) (\<lambda>res. case res of
                 Inr None \<Rightarrow> ret None
               | Inr (Some (r', revision')) \<Rightarrow>
                   bnd (upsert_timeline_cache_from_record ax tk r' revision') (\<lambda>_. ret (Some (tl_route r')))
               | Inl (NotGeneratorOwner _ _) \<Rightarrow>
                   bnd (on_service (restore_dedicated_claim tk r)) (\<lambda>_. ret (Some (tl_route r)))
               | Inl e \<Rightarrow> throw e)
             else ret (Some (tl_route r))
         | None \<Rightarrow>
             bnd (on_service (pick_generator_id hash tk tier)) (\<lambda>gid.
             bnd (ensure_generator_lease_with_cancellation ax fuel gid) (\<lambda>ensured. case ensured of
               None \<Rightarrow> ret None
             | Some _ \<Rightarrow>
                 bnd (clock_now_ms ax) (\<lambda>now_ms.
                 let r = new_timeline_record sv tk gid tier now_ms in
                 bnd (result_of (create_timeline_with_limit ax tk r (cfg_max_timeline_records (sv_config sv)))) (\<lambda>res.
                 case res of
                   Inr revision \<Rightarrow>
                     bnd (on_service (\<lambda>sv. case alloc_state (build_timeline_state r revision None) sv of
                            (sv', a) \<Rightarrow> (sv', Inr a))) (\<lambda>a.
                     bnd (best_effort_insert_timeline_cache ax tk a) (\<lambda>_. ret (Some (tl_route r))))
                 | Inl e \<Rightarrow>
                     if e = MetadataAlreadyExists then ensure_timeline_loop ax fuel hash tk tier n
                     else throw e))))))))"

definition ensure_timeline_with_tier ::
    "surroundings \<Rightarrow> nat \<Rightarrow> (string \<Rightarrow> u64) \<Rightarrow> string \<Rightarrow> resource_tier \<Rightarrow> timeline_route option act" where
  "ensure_timeline_with_tier ax fuel hash tk tier =
     bnd (done_with (validate_timeline_key tk)) (\<lambda>_. ensure_timeline_loop ax fuel hash tk tier fuel)"

definition ensure_timeline :: "surroundings \<Rightarrow> nat \<Rightarrow> (string \<Rightarrow> u64) \<Rightarrow> string \<Rightarrow> timeline_route option act" where
  "ensure_timeline ax fuel hash tk =
     bnd get_service (\<lambda>sv.
       ensure_timeline_with_tier ax fuel hash tk (cfg_default_resource_tier (sv_config sv)))"

subsection \<open>Reports\<close>

definition get_timeline_route :: "surroundings \<Rightarrow> string \<Rightarrow> timeline_route act" where
  "get_timeline_route ax tk =
     bnd (done_with (validate_timeline_key tk)) (\<lambda>_.
     bnd (load_timeline_route_with_singleflight ax tk) (\<lambda>loaded. case loaded of
       None \<Rightarrow> throw (TimelineNotFound tk)
     | Some (r, _) \<Rightarrow> ret (tr_route r)))"

definition get_timeline_record :: "surroundings \<Rightarrow> string \<Rightarrow> timeline_record act" where
  "get_timeline_record ax tk =
     bnd (done_with (validate_timeline_key tk)) (\<lambda>_.
     bnd (load_timeline_with_singleflight ax tk) (\<lambda>loaded. case loaded of
       None \<Rightarrow> throw (TimelineNotFound tk)
     | Some (r, _) \<Rightarrow> ret r))"

definition get_timeline_status :: "surroundings \<Rightarrow> string \<Rightarrow> timeline_status_snapshot act" where
  "get_timeline_status ax tk =
     bnd (get_timeline_record ax tk) (\<lambda>r.
     bnd (load_generator ax (rt_generator_id (tl_route r))) (\<lambda>loaded.
     bnd (clock_now_ms ax) (\<lambda>now_ms.
     bnd get_service (\<lambda>sv.
     ret (build_timeline_status_snapshot (sv_config sv) now_ms r (map_option fst loaded))))))"

fun filter_scan ::
    "surroundings \<Rightarrow> timeline_lifecycle_state list \<Rightarrow> string option \<Rightarrow> nat \<Rightarrow> string option \<Rightarrow> timeline_record list \<Rightarrow> nat
       \<Rightarrow> timeline_record list option act" where
  \<comment> \<open>the pages of the store until one more than \<open>limit\<close> records match; the last argument is the fuel\<close>
  "filter_scan ax states owner limit cursor matched 0 = ret None"
| "filter_scan ax states owner limit cursor matched (Suc n) =
     (if limit < length matched then ret (Some matched)
      else bnd (on_store ax (ms_list_timelines_page cursor limit)) (\<lambda>page.
        if pg_records page = [] then ret (Some matched)
        else let matched' = take (limit + 1)
               (matched @ filter (timeline_matches_status_filter states owner) (pg_records page)) in
             case pg_next_start_after_timeline_key page of
               None \<Rightarrow> ret (Some matched')
             | Some k \<Rightarrow> filter_scan ax states owner limit (Some k) matched' n))"

definition list_by_status_filter ::
    "surroundings \<Rightarrow> nat \<Rightarrow> timeline_lifecycle_state list \<Rightarrow> string option \<Rightarrow> string option \<Rightarrow> nat
       \<Rightarrow> timeline_record list_page option act" where
  "list_by_status_filter ax fuel states owner start_after limit =
     (if states = [] \<and> owner = None
      then bnd (on_store ax (ms_list_timelines_page start_after limit)) (\<lambda>page. ret (Some page))
      else if limit = 0 then ret (Some \<lparr> pg_records = [], pg_next_start_after_timeline_key = None \<rparr>)
      else bnd (filter_scan ax states owner limit start_after [] fuel) (\<lambda>scanned. ret (map_option (\<lambda>matched.
        \<lparr> pg_records = take limit matched,
          pg_next_start_after_timeline_key =
            (if limit < length matched then Some (record_key (matched ! (limit - 1))) else None) \<rparr>) scanned)))"

record timeline_status_list_page =
  sp_statuses :: "timeline_status_snapshot list"
  sp_next_start_after :: "string option"

definition status_generators :: "tso_service \<Rightarrow> u64 \<Rightarrow> timeline_record list \<Rightarrow> (u32 \<times> generator_record option) list \<times> u32 list" where
  \<comment> \<open>the generators this worker knows from its own leases, and those to load\<close>
  "status_generators sv now_ms rs =
     (let ids = sorted_list_of_set (set (map (\<lambda>r. rt_generator_id (tl_route r)) rs))
      in (map (\<lambda>gid. (gid, cached_local_generator_record sv gid now_ms))
            (filter (\<lambda>gid. cached_local_generator_record sv gid now_ms \<noteq> None) ids),
          filter (\<lambda>gid. cached_local_generator_record sv gid now_ms = None) ids))"

definition list_timeline_statuses ::
    "surroundings \<Rightarrow> nat \<Rightarrow> timeline_lifecycle_state list \<Rightarrow> string option \<Rightarrow> string option \<Rightarrow> nat
       \<Rightarrow> timeline_status_list_page option act" where
  "list_timeline_statuses ax fuel states owner start_after limit =
     bnd (done_with (case start_after of None \<Rightarrow> Inr () | Some k \<Rightarrow> validate_timeline_key k)) (\<lambda>_.
     if limit = 0 then ret (Some \<lparr> sp_statuses = [], sp_next_start_after = None \<rparr>)
     else
       bnd (clock_now_ms ax) (\<lambda>now_ms.
       bnd (list_by_status_filter ax fuel states owner start_after limit) (\<lambda>page. case page of
         None \<Rightarrow> ret None
       | Some page \<Rightarrow>
           bnd get_service (\<lambda>sv.
           let (cached, missing) = status_generators sv now_ms (pg_records page) in
           bnd (if missing = [] then ret [] else load_generators ax missing) (\<lambda>loaded.
           let known = loaded @ cached;
               snapshot = (\<lambda>t. build_timeline_status_snapshot (sv_config sv) now_ms t
                 (case map_of known (rt_generator_id (tl_route t)) of Some g \<Rightarrow> g | None \<Rightarrow> None)) in
           ret (Some \<lparr> sp_statuses = map snapshot (pg_records page),
                       sp_next_start_after = pg_next_start_after_timeline_key page \<rparr>))))))"

definition load_generator_record :: "surroundings \<Rightarrow> u32 \<Rightarrow> generator_record act" where
  "load_generator_record ax gid =
     bnd (load_generator ax gid) (\<lambda>loaded. case loaded of
       None \<Rightarrow> throw (TimelineNotFound (''generator:'' @ fmt_dec (unat gid)))
     | Some (r, _) \<Rightarrow> ret r)"

definition renew_timeline_lease :: "surroundings \<Rightarrow> nat \<Rightarrow> string \<Rightarrow> unit option act" where
  "renew_timeline_lease ax fuel tk =
     bnd (get_timeline_route ax tk) (\<lambda>route.
     bnd get_service (\<lambda>sv.
     if \<not> is_local_endpoint sv (rt_owner_worker_endpoint route)
     then throw (NotTimelineOwner (rt_owner_worker_endpoint route))
     else
       bnd (ensure_generator_lease_with_cancellation ax fuel (rt_generator_id route)) (\<lambda>ensured. case ensured of
         None \<Rightarrow> ret None
       | Some _ \<Rightarrow> refresh_generator_lease_inner ax fuel (rt_generator_id route) ExplicitRenewal)))"

end
