(* ===== verification/Quota.thy ===== *)
theory Quota
  imports Service
begin

text \<open>
  The budget of a timeline (\<open>service/allocation/quota.rs\<close>): the largest batch, how far an allocation may
  borrow from the future, and a bucket of tokens in \<open>f64\<close>. A double is the real number it stands for; every
  operation rounds to the nearest number with 53 significant bits, ties to the even one. The quantities here
  neither overflow nor become subnormal, so the range of the exponent is left out.
\<close>

subsection \<open>Doubles\<close>

definition round_even :: "real \<Rightarrow> int" where
  "round_even y =
     (let n = \<lfloor>y\<rfloor>; d = y - of_int n
      in if d < 1 / 2 then n else if 1 / 2 < d then n + 1 else if even n then n else n + 1)"

definition f64_exponent :: "real \<Rightarrow> int" where
  "f64_exponent x = \<lfloor>log 2 \<bar>x\<bar>\<rfloor> - 52"

definition f64 :: "real \<Rightarrow> real" where
  "f64 x = (if x = 0 then 0
            else of_int (round_even (x / 2 powr of_int (f64_exponent x))) * 2 powr of_int (f64_exponent x))"

definition u64_as_f64 :: "u64 \<Rightarrow> real" where
  "u64_as_f64 n = f64 (of_nat (unat n))"

definition u32_as_f64 :: "u32 \<Rightarrow> real" where
  "u32_as_f64 n = f64 (of_nat (unat n))"

definition f64_as_u64 :: "real \<Rightarrow> u64" where
  \<comment> \<open>the saturating cast\<close>
  "f64_as_u64 x = (if x < 0 then 0 else if 2 ^ 64 \<le> x then -1 else of_nat (nat \<lfloor>x\<rfloor>))"

subsection \<open>Limits of a route\<close>

definition batch_limit :: "tso_config \<Rightarrow> resource_tier \<Rightarrow> u32" where
  "batch_limit c tier =
     (case tier of
        Shared \<Rightarrow> min (cfg_max_batch_per_request c) (sequence_capacity (cfg_timestamp_layout c))
      | Warm \<Rightarrow> cfg_max_batch_per_request c
      | Dedicated \<Rightarrow> cfg_max_batch_per_request c)"

definition validate_batch_for_route :: "tso_config \<Rightarrow> u32 \<Rightarrow> timeline_route \<Rightarrow> unit tso_result" where
  "validate_batch_for_route c count route =
     (let limit = batch_limit c (rt_resource_tier route)
      in if limit < count then Inl (BatchTooLarge count limit) else Inr ())"

definition effective_future_borrow_ms_for_route :: "tso_config \<Rightarrow> timeline_route \<Rightarrow> u64" where
  "effective_future_borrow_ms_for_route c route =
     (case rt_resource_tier route of
        Shared \<Rightarrow> cfg_max_future_borrow_ms c
      | Warm \<Rightarrow> cfg_max_future_borrow_ms c
      | Dedicated \<Rightarrow> cfg_max_future_borrow_ms c)"

definition effective_future_borrow_ms_for_timeline_state :: "tso_config \<Rightarrow> timeline_state \<Rightarrow> u64 \<Rightarrow> u64" where
  "effective_future_borrow_ms_for_timeline_state c st now_ms =
     (let base = effective_future_borrow_ms_for_route c (tst_route st) in
      case tst_recovery_floor_tso st of
        None \<Rightarrow> base
      | Some f \<Rightarrow>
          let recovery_physical_ms = dt_physical_ms (decode (cfg_timestamp_layout c) f) in
          if recovery_physical_ms \<le> now_ms then base
          else max base (min (recovery_physical_ms - now_ms) (cfg_recovery_catchup_budget_ms c)))"

definition timeline_quota_capacity_for_route :: "tso_config \<Rightarrow> timeline_route \<Rightarrow> real option" where
  "timeline_quota_capacity_for_route c route =
     (case rt_resource_tier route of
        Shared \<Rightarrow> Some (u32_as_f64 (min (cfg_max_batch_per_request c) (sequence_capacity (cfg_timestamp_layout c))))
      | Warm \<Rightarrow> Some (u32_as_f64 (cfg_max_batch_per_request c))
      | Dedicated \<Rightarrow> None)"

subsection \<open>The bucket\<close>

definition timeline_quota_wait_ms_for_route :: "tso_config \<Rightarrow> timeline_route \<Rightarrow> real \<Rightarrow> u64" where
  "timeline_quota_wait_ms_for_route c route deficit =
     (let window_ms = u64_as_f64 (max (effective_future_borrow_ms_for_route c route) 1);
          capacity = max (case timeline_quota_capacity_for_route c route of Some x \<Rightarrow> x | None \<Rightarrow> 0) 1;
          refill_per_ms = f64 (capacity / window_ms)
      in f64_as_u64 (max (of_int \<lceil>f64 (deficit / refill_per_ms)\<rceil>) 1))"

definition quota_available :: "tso_config \<Rightarrow> real \<Rightarrow> timeline_state \<Rightarrow> u64 \<Rightarrow> real" where
  "quota_available c capacity st now_ms =
     (let window_ms = u64_as_f64 (max (effective_future_borrow_ms_for_timeline_state c st now_ms) 1);
          refill_per_ms = f64 (capacity / window_ms);
          elapsed_ms = (case tst_timeline_quota_last_refill_ms st of
              Some refilled \<Rightarrow> u64_as_f64 (saturating_sub now_ms refilled)
            | None \<Rightarrow> 0);
          tokens = min (case tst_timeline_quota_tokens st of Some x \<Rightarrow> x | None \<Rightarrow> capacity) capacity
      in min (f64 (tokens + f64 (elapsed_ms * refill_per_ms))) capacity)"

definition charge_timeline_quota ::
    "tso_config \<Rightarrow> u32 \<Rightarrow> u64 \<Rightarrow> timeline_state \<Rightarrow> timeline_state \<times> real option tso_result" where
  "charge_timeline_quota c count now_ms st =
     (case timeline_quota_capacity_for_route c (tst_route st) of
        None \<Rightarrow> (st, Inr None)
      | Some capacity \<Rightarrow>
          let available = quota_available c capacity st now_ms; requested = u32_as_f64 count in
          if available < requested then
            (st, Inl (FutureBorrowExceeded
               (now_ms + timeline_quota_wait_ms_for_route c (tst_route st) (f64 (requested - available))) now_ms))
          else (st \<lparr> tst_timeline_quota_tokens := Some (max (f64 (available - requested)) 0),
                     tst_timeline_quota_last_refill_ms := Some now_ms \<rparr>, Inr (Some requested)))"

definition refund_timeline_quota :: "tso_config \<Rightarrow> real option \<Rightarrow> timeline_state \<Rightarrow> timeline_state" where
  "refund_timeline_quota c charged st =
     (case charged of
        None \<Rightarrow> st
      | Some x \<Rightarrow>
          (case timeline_quota_capacity_for_route c (tst_route st) of
             None \<Rightarrow> st
           | Some capacity \<Rightarrow>
               let available = (case tst_timeline_quota_tokens st of Some y \<Rightarrow> y | None \<Rightarrow> capacity)
               in st \<lparr> tst_timeline_quota_tokens := Some (min (f64 (available + x)) capacity) \<rparr>))"

subsection \<open>Rounding\<close>

lemma round_even_of_int [simp]: "round_even (of_int n) = n"
  by (simp add: round_even_def)

lemma round_even_le: "y \<le> of_int n \<Longrightarrow> round_even y \<le> n"
proof -
  assume y: "y \<le> of_int n"
  show ?thesis
  proof (cases "y = of_int n")
    case False
    with y have "\<lfloor>y\<rfloor> < n" by (simp add: floor_less_iff)
    then show ?thesis by (auto simp: round_even_def Let_def)
  qed simp
qed

lemma round_even_ge: "of_int n \<le> y \<Longrightarrow> n \<le> round_even y"
proof -
  assume "of_int n \<le> y"
  then have "n \<le> \<lfloor>y\<rfloor>" by (simp add: le_floor_iff)
  then show ?thesis by (auto simp: round_even_def Let_def)
qed

definition is_f64 :: "real \<Rightarrow> bool" where
  "is_f64 x \<longleftrightarrow> (\<exists>k e. 0 \<le> k \<and> k \<le> 2 ^ 53 \<and> x = of_int k * 2 powr of_int e)"

lemma f64_zero [simp]: "f64 0 = 0"
  by (simp add: f64_def)

lemma log_floor_bounds:
  assumes "0 < x"
  shows "2 powr of_int \<lfloor>log 2 x\<rfloor> \<le> x" "x < 2 powr of_int (\<lfloor>log 2 x\<rfloor> + 1)"
proof -
  have "2 powr of_int \<lfloor>log 2 x\<rfloor> \<le> 2 powr log 2 x" by simp
  then show "2 powr of_int \<lfloor>log 2 x\<rfloor> \<le> x" using assms by simp
  have "log 2 x < of_int (\<lfloor>log 2 x\<rfloor> + 1)" by linarith
  then have "2 powr log 2 x < 2 powr of_int (\<lfloor>log 2 x\<rfloor> + 1)" by (intro powr_less_mono) simp_all
  then show "x < 2 powr of_int (\<lfloor>log 2 x\<rfloor> + 1)" using assms by simp
qed

lemma f64_scaled:
  assumes "0 < x"
  shows "2 ^ 52 \<le> x / 2 powr of_int (f64_exponent x)" "x / 2 powr of_int (f64_exponent x) < 2 ^ 53"
proof -
  let ?n = "\<lfloor>log 2 x\<rfloor>"
  have e: "2 powr of_int (f64_exponent x) = (2 :: real) powr of_int ?n / 2 ^ 52"
    using assms by (simp add: f64_exponent_def powr_diff powr_numeral)
  have "(2 :: real) powr (of_int (?n + 1)) = 2 * 2 powr of_int ?n" by (simp add: powr_add)
  with log_floor_bounds [OF assms]
  show "2 ^ 52 \<le> x / 2 powr of_int (f64_exponent x)" "x / 2 powr of_int (f64_exponent x) < 2 ^ 53"
    unfolding e by (simp_all add: field_simps)
qed

lemma f64_is_f64: "0 \<le> x \<Longrightarrow> is_f64 (f64 x)"
proof (cases "x = 0")
  case True
  then show ?thesis by (auto simp: is_f64_def intro: exI [of _ 0])
next
  case False
  assume "0 \<le> x"
  with False have "0 < x" by simp
  note s = f64_scaled [OF this]
  have "round_even (x / 2 powr of_int (f64_exponent x)) \<le> 2 ^ 53" using s(2) by (intro round_even_le) simp
  moreover have "2 ^ 52 \<le> round_even (x / 2 powr of_int (f64_exponent x))" using s(1) by (intro round_even_ge) simp
  ultimately show ?thesis using False unfolding is_f64_def f64_def
    by (intro exI [of _ "round_even (x / 2 powr of_int (f64_exponent x))"] exI [of _ "f64_exponent x"]) simp
qed

lemma f64_nonneg: "0 \<le> x \<Longrightarrow> 0 \<le> f64 x"
  using f64_is_f64 [of x] by (auto simp: is_f64_def)

lemma f64_exact: "is_f64 x \<Longrightarrow> f64 x = x"
proof -
  assume "is_f64 x"
  then obtain k e where k: "0 \<le> k" "k \<le> 2 ^ 53" and x: "x = of_int k * 2 powr of_int e" by (auto simp: is_f64_def)
  show ?thesis
  proof (cases "k = 0")
    case False
    with k have k0: "0 < k" by simp
    then have x0: "0 < x" by (simp add: x)
    let ?d = "e - f64_exponent x"
    have q: "x / 2 powr of_int (f64_exponent x) = of_int k * 2 powr of_int ?d"
      by (simp add: x powr_diff)
    have "\<exists>m. x / 2 powr of_int (f64_exponent x) = of_int m"
    proof (cases "0 \<le> ?d")
      case True
      then have "2 powr of_int ?d = (of_int (2 ^ nat ?d) :: real)" by (simp add: powr_realpow [symmetric])
      then show ?thesis unfolding q by (metis of_int_mult)
    next
      case False
      have "2 ^ 52 \<le> of_int k * (2 :: real) powr of_int ?d" using f64_scaled(1) [OF x0] by (simp add: q)
      moreover have "(2 :: real) powr of_int ?d \<le> 2 powr (-1)" using False by (intro powr_mono) linarith+
      then have "of_int k * (2 :: real) powr of_int ?d \<le> of_int k * 2 powr (-1)" using k0 by (intro mult_left_mono) simp_all
      ultimately have "2 ^ 53 \<le> (of_int k :: real)" by (simp add: powr_minus_divide)
      then have "2 ^ 53 \<le> k" by (metis of_int_le_iff of_int_numeral of_int_power)
      with k have k53: "k = 2 ^ 53" by simp
      have "2 ^ 52 \<le> 2 ^ 53 * (2 :: real) powr of_int ?d" using f64_scaled(1) [OF x0] by (simp add: q k53)
      then have "(2 :: real) powr (-1) \<le> 2 powr of_int ?d" by (simp add: powr_minus_divide)
      then have "(- 1 :: real) \<le> of_int ?d" by (subst (asm) powr_le_cancel_iff) simp_all
      then have "- 1 \<le> ?d" by linarith
      with False have "?d = - 1" by simp
      then have "x / 2 powr of_int (f64_exponent x) = of_int (2 ^ 52)" by (simp add: q k53 powr_minus_divide)
      then show ?thesis ..
    qed
    then obtain m where m: "x / 2 powr of_int (f64_exponent x) = of_int m" ..
    then have "f64 x = of_int m * 2 powr of_int (f64_exponent x)" using x0 by (simp add: f64_def)
    also have "\<dots> = x" using m by (simp add: field_simps)
    finally show ?thesis .
  qed (simp add: x)
qed

lemma is_f64_of_nat:
  assumes "n \<le> 2 ^ 53"
  shows "is_f64 (of_nat n)"
proof -
  have "int n \<le> int (2 ^ 53)" using assms by (simp only: of_nat_le_iff)
  then show ?thesis unfolding is_f64_def by (intro exI [of _ "int n"] exI [of _ 0]) simp
qed

lemma is_f64_nonneg: "is_f64 x \<Longrightarrow> 0 \<le> x"
  by (auto simp: is_f64_def)

lemma f64_grid:
  assumes "is_f64 y" "0 < y"
  obtains m where "0 < m" "m \<le> 2 ^ 53" "y = of_int m * 2 powr of_int (f64_exponent y)"
proof
  let ?m = "round_even (y / 2 powr of_int (f64_exponent y))"
  show "y = of_int ?m * 2 powr of_int (f64_exponent y)" using f64_exact [OF assms(1)] assms(2) by (simp add: f64_def)
  show "?m \<le> 2 ^ 53" using f64_scaled(2) [OF assms(2)] by (intro round_even_le) simp
  have "2 ^ 52 \<le> ?m" using f64_scaled(1) [OF assms(2)] by (intro round_even_ge) simp
  then show "0 < ?m" by simp
qed

lemma f64_exponent_mono: "0 < x \<Longrightarrow> x \<le> y \<Longrightarrow> f64_exponent x \<le> f64_exponent y"
  unfolding f64_exponent_def by (auto intro!: floor_mono)

lemma powr_of_int: "0 \<le> n \<Longrightarrow> (2 :: real) powr of_int n = of_int (2 ^ nat n)"
  by (simp add: powr_realpow [symmetric])

lemma f64_le:
  assumes "0 \<le> x" "x \<le> y" "is_f64 y"
  shows "f64 x \<le> y"
proof (cases "x = 0")
  case False
  with assms have x: "0 < x" "0 < y" by simp_all
  obtain m where m: "y = of_int m * 2 powr of_int (f64_exponent y)" using f64_grid [OF assms(3) x(2)] by blast
  let ?d = "f64_exponent y - f64_exponent x"
  have "0 \<le> ?d" using f64_exponent_mono [OF x(1) assms(2)] by simp
  then have y: "y / 2 powr of_int (f64_exponent x) = of_int (m * 2 ^ nat ?d)"
    using powr_of_int [of ?d] by (subst m) (simp add: powr_diff flip: times_divide_eq_right)
  then have "x / 2 powr of_int (f64_exponent x) \<le> of_int (m * 2 ^ nat ?d)"
    using divide_right_mono [OF assms(2), of "2 powr of_int (f64_exponent x)"] unfolding y by simp
  then have "round_even (x / 2 powr of_int (f64_exponent x)) \<le> m * 2 ^ nat ?d" by (rule round_even_le)
  then have "f64 x \<le> of_int (m * 2 ^ nat ?d) * 2 powr of_int (f64_exponent x)"
    using False by (simp add: f64_def del: of_int_mult of_int_power)
  also have "\<dots> = y" using y by (simp add: field_simps)
  finally show ?thesis .
qed (use assms in simp)

lemma f64_sub_of_nat:
  assumes "is_f64 t" "t < 2 ^ 53" "of_nat n \<le> t"
  shows "f64 (t - of_nat n) = t - of_nat n"
proof (cases "t = 0")
  case False
  with assms have t: "0 < t" using is_f64_nonneg by force
  obtain m where m: "m \<le> 2 ^ 53" "t = of_int m * 2 powr of_int (f64_exponent t)" using f64_grid [OF assms(1) t] by blast
  let ?e = "f64_exponent t"
  have "?e \<le> 0"
  proof (rule ccontr)
    assume "\<not> ?e \<le> 0"
    then have "(2 :: real) powr 1 \<le> 2 powr of_int ?e" by (intro powr_mono) simp_all
    moreover have "2 ^ 52 * 2 powr of_int ?e \<le> t" using f64_scaled(1) [OF t] by (simp add: field_simps)
    ultimately show False using assms(2) by simp
  qed
  then have p: "(2 :: real) powr of_int (- ?e) = of_int (2 ^ nat (- ?e))" by (intro powr_of_int) simp
  have "(2 :: real) powr of_int (- ?e) * 2 powr of_int ?e = 1" by (simp add: powr_add [symmetric])
  then have one: "of_int (2 ^ nat (- ?e)) * (2 :: real) powr of_int ?e = 1" unfolding p .
  have d: "t - of_nat n = of_int (m - int n * 2 ^ nat (- ?e)) * 2 powr of_int ?e"
    using m(2) one by (simp add: algebra_simps)
  then have "0 \<le> of_int (m - int n * 2 ^ nat (- ?e)) * (2 :: real) powr of_int ?e" using assms(3) by simp
  then have "0 \<le> (of_int (m - int n * 2 ^ nat (- ?e)) :: real)" by (simp add: zero_le_mult_iff del: of_int_diff)
  then have "0 \<le> m - int n * 2 ^ nat (- ?e)" unfolding of_int_0_le_iff .
  moreover have "0 \<le> int n * 2 ^ nat (- ?e)" by simp
  then have "m - int n * 2 ^ nat (- ?e) \<le> 2 ^ 53" using m(1) by linarith
  ultimately have "is_f64 (t - of_nat n)" using d unfolding is_f64_def by blast
  then show ?thesis by (rule f64_exact)
qed (use assms in simp)

lemma f64_ge:
  assumes "is_f64 y" "y \<le> x"
  shows "y \<le> f64 x"
proof (cases "y = 0")
  case True
  then show ?thesis using f64_nonneg assms(2) by simp
next
  case False
  then have y: "0 < y" using is_f64_nonneg [OF assms(1)] by simp
  with assms(2) have x: "0 < x" by simp
  let ?r = "round_even (x / 2 powr of_int (f64_exponent x))"
  have fx: "f64 x = of_int ?r * 2 powr of_int (f64_exponent x)" using x by (simp add: f64_def)
  show ?thesis
  proof (cases "f64_exponent x = f64_exponent y")
    case True
    obtain m where m: "y = of_int m * 2 powr of_int (f64_exponent y)" using f64_grid [OF assms(1) y] by blast
    have "of_int m \<le> x / 2 powr of_int (f64_exponent x)" using assms(2) m True by (simp add: field_simps)
    then have "of_int m \<le> (of_int ?r :: real)" using round_even_ge by (metis of_int_le_iff)
    then show ?thesis unfolding fx by (subst m, subst True) (intro mult_right_mono, simp_all)
  next
    case False
    with f64_exponent_mono [OF y assms(2)] have "f64_exponent y + 1 \<le> f64_exponent x" by simp
    then have "(2 :: real) powr of_int (f64_exponent y + 1) \<le> 2 powr of_int (f64_exponent x)" by (intro powr_mono) linarith+
    then have "(2 :: real) * 2 powr of_int (f64_exponent y) \<le> 2 powr of_int (f64_exponent x)" by (simp add: powr_add)
    moreover have "y < 2 ^ 53 * 2 powr of_int (f64_exponent y)" using f64_scaled(2) [OF y] by (simp add: field_simps)
    ultimately have "y < 2 ^ 52 * 2 powr of_int (f64_exponent x)" by simp
    moreover have "2 ^ 52 \<le> ?r" using f64_scaled(1) [OF x] by (intro round_even_ge) simp
    then have "2 ^ 52 \<le> (of_int ?r :: real)" by (metis of_int_le_iff of_int_numeral of_int_power)
    then have "2 ^ 52 * 2 powr of_int (f64_exponent x) \<le> f64 x" unfolding fx by (intro mult_right_mono) simp_all
    ultimately show ?thesis by simp
  qed
qed

lemma u32_as_f64: "u32_as_f64 n = of_nat (unat n)"
proof -
  have "unat n < 2 ^ 32" by simp
  also have "(2 :: nat) ^ 32 \<le> 2 ^ 53" by simp
  finally have "unat n \<le> 2 ^ 53" by (rule less_imp_le)
  then show ?thesis unfolding u32_as_f64_def by (intro f64_exact is_f64_of_nat)
qed

lemma u64_as_f64_nonneg: "0 \<le> u64_as_f64 n"
  unfolding u64_as_f64_def by (intro f64_nonneg of_nat_0_le_iff)

lemma f64_as_u64_pos:
  assumes "1 \<le> x"
  shows "f64_as_u64 x \<noteq> 0"
proof (cases "2 ^ 64 \<le> x")
  case False
  with assms have "1 \<le> nat \<lfloor>x\<rfloor>" "nat \<lfloor>x\<rfloor> < 2 ^ 64" by (simp_all add: le_nat_iff le_floor_iff nat_less_iff floor_less_iff)
  then have "unat (of_nat (nat \<lfloor>x\<rfloor>) :: u64) = nat \<lfloor>x\<rfloor>" by (simp add: unsigned_of_nat take_bit_nat_eq_self)
  then have "unat (of_nat (nat \<lfloor>x\<rfloor>) :: u64) \<noteq> 0" using \<open>1 \<le> nat \<lfloor>x\<rfloor>\<close> by linarith
  with False assms show ?thesis unfolding f64_as_u64_def by (metis not_le not_one_le_zero order_trans less_le unsigned_0)
qed (use assms in \<open>simp add: f64_as_u64_def\<close>)

subsection \<open>The bucket stays within its capacity\<close>

abbreviation count_of :: "u32 \<Rightarrow> real" where
  "count_of n \<equiv> of_nat (unat n)"

definition tokens_ok :: "timeline_state \<Rightarrow> bool" where
  "tokens_ok st \<longleftrightarrow> (\<forall>t. tst_timeline_quota_tokens st = Some t \<longrightarrow> is_f64 t)"

lemma quota_capacity:
  assumes "timeline_quota_capacity_for_route c route = Some capacity"
  shows "is_f64 capacity" "capacity < 2 ^ 53" "capacity = count_of (batch_limit c (rt_resource_tier route))"
proof -
  show cap: "capacity = count_of (batch_limit c (rt_resource_tier route))"
    using assms unfolding timeline_quota_capacity_for_route_def batch_limit_def u32_as_f64
    by (cases "rt_resource_tier route") (simp_all del: of_nat_unat)
  have small: "unat (batch_limit c (rt_resource_tier route)) < 2 ^ 32" by simp
  also have "(2 :: nat) ^ 32 \<le> 2 ^ 53" by simp
  finally have "unat (batch_limit c (rt_resource_tier route)) < 2 ^ 53" .
  then show "is_f64 capacity" "capacity < 2 ^ 53" unfolding cap by (auto intro: is_f64_of_nat simp del: of_nat_unat)
qed

lemma is_f64_min: "is_f64 x \<Longrightarrow> is_f64 y \<Longrightarrow> is_f64 (min x y)"
  by (simp add: min_def)

lemma quota_available:
  assumes "timeline_quota_capacity_for_route c (tst_route st) = Some capacity" "tokens_ok st"
  shows "is_f64 (quota_available c capacity st now_ms)" "quota_available c capacity st now_ms \<le> capacity"
    and "tst_timeline_quota_tokens st = None \<Longrightarrow> quota_available c capacity st now_ms = capacity"
proof -
  note cap = quota_capacity [OF assms(1)]
  define elapsed where "elapsed = (case tst_timeline_quota_last_refill_ms st of
      Some refilled \<Rightarrow> u64_as_f64 (saturating_sub now_ms refilled) | None \<Rightarrow> 0)"
  define refill where "refill = f64 (capacity / u64_as_f64 (max (effective_future_borrow_ms_for_timeline_state c st now_ms) 1))"
  define tokens where "tokens = min (case tst_timeline_quota_tokens st of Some x \<Rightarrow> x | None \<Rightarrow> capacity) capacity"
  have a: "quota_available c capacity st now_ms = min (f64 (tokens + f64 (elapsed * refill))) capacity"
    by (simp add: quota_available_def elapsed_def refill_def tokens_def Let_def)
  have e: "0 \<le> elapsed" by (simp add: elapsed_def u64_as_f64_nonneg split: option.split)
  have r: "0 \<le> refill" unfolding refill_def using is_f64_nonneg [OF cap(1)] u64_as_f64_nonneg
    by (intro f64_nonneg divide_nonneg_nonneg)
  have t: "is_f64 tokens" unfolding tokens_def using assms(2) cap(1)
    by (intro is_f64_min) (auto simp: tokens_ok_def split: option.split)
  have sum: "0 \<le> f64 (elapsed * refill)" using e r by (intro f64_nonneg mult_nonneg_nonneg)
  then have "0 \<le> tokens + f64 (elapsed * refill)" using is_f64_nonneg [OF t] by simp
  then show "is_f64 (quota_available c capacity st now_ms)" unfolding a by (intro is_f64_min f64_is_f64 cap(1))
  show "quota_available c capacity st now_ms \<le> capacity" unfolding a by simp
  show "quota_available c capacity st now_ms = capacity" if "tst_timeline_quota_tokens st = None"
  proof -
    have "capacity \<le> f64 (tokens + f64 (elapsed * refill))"
      using that sum by (intro f64_ge cap(1)) (simp add: tokens_def)
    then show ?thesis unfolding a by simp
  qed
qed

text \<open>
  C33: the token bucket of a shared or warm timeline counts exactly, although it is kept in floating point.
  What is available lies between zero and the capacity. A charge succeeds exactly when the batch is covered,
  takes that many tokens and not a fraction more, and giving it back restores what was available. A refused
  charge changes nothing and asks to wait at least a millisecond. A timeline with no history is never
  refused a batch that its route admits.
\<close>

theorem quota_counts_exactly:
  fixes now_ms :: u64
  assumes "timeline_quota_capacity_for_route c (tst_route st) = Some capacity" "tokens_ok st"
  defines "available \<equiv> quota_available c capacity st now_ms"
  shows "0 \<le> available \<and> available \<le> capacity
    \<and> (count_of count \<le> available \<longrightarrow>
        (\<exists>st'. charge_timeline_quota c count now_ms st = (st', Inr (Some (count_of count)))
           \<and> tst_timeline_quota_tokens st' = Some (available - count_of count) \<and> tokens_ok st'
           \<and> tst_timeline_quota_tokens (refund_timeline_quota c (Some (count_of count)) st') = Some available))
    \<and> (available < count_of count \<longrightarrow>
        (\<exists>wait_ms. wait_ms \<noteq> 0
           \<and> charge_timeline_quota c count now_ms st = (st, Inl (FutureBorrowExceeded (now_ms + wait_ms) now_ms))))
    \<and> (tst_timeline_quota_tokens st = None \<longrightarrow> validate_batch_for_route c count (tst_route st) = Inr () \<longrightarrow>
        count_of count \<le> available)"
proof (intro conjI impI)
  note cap = quota_capacity [OF assms(1)] and av = quota_available [OF assms(1,2), of now_ms, folded available_def]
  show "0 \<le> available" "available \<le> capacity" using av is_f64_nonneg by simp_all
  have small: "available < 2 ^ 53" using av(2) cap(2) by simp
  {
    assume le: "count_of count \<le> available"
    note exact = f64_sub_of_nat [OF av(1) small le]
    let ?st = "st \<lparr> tst_timeline_quota_tokens := Some (available - count_of count),
      tst_timeline_quota_last_refill_ms := Some now_ms \<rparr>"
    have "max (f64 (available - count_of count)) 0 = available - count_of count"
      using le unfolding exact by (simp del: of_nat_unat)
    then have "charge_timeline_quota c count now_ms st = (?st, Inr (Some (count_of count)))"
      using le assms(1) unfolding charge_timeline_quota_def u32_as_f64
      by (simp add: Let_def available_def [symmetric] del: of_nat_unat)
    moreover have "is_f64 (available - count_of count)"
      using f64_is_f64 [of "available - count_of count"] le unfolding exact by (simp del: of_nat_unat)
    moreover have "tst_timeline_quota_tokens (refund_timeline_quota c (Some (count_of count)) ?st) = Some available"
      using assms(1) f64_exact [OF av(1)] av(2) by (simp add: refund_timeline_quota_def del: of_nat_unat)
    ultimately show "\<exists>st'. charge_timeline_quota c count now_ms st = (st', Inr (Some (count_of count)))
        \<and> tst_timeline_quota_tokens st' = Some (available - count_of count) \<and> tokens_ok st'
        \<and> tst_timeline_quota_tokens (refund_timeline_quota c (Some (count_of count)) st') = Some available"
      by (intro exI [of _ ?st]) (simp add: tokens_ok_def del: of_nat_unat)
  next
    assume "available < count_of count"
    then show "\<exists>wait_ms. wait_ms \<noteq> 0
        \<and> charge_timeline_quota c count now_ms st = (st, Inl (FutureBorrowExceeded (now_ms + wait_ms) now_ms))"
      using assms(1) unfolding charge_timeline_quota_def u32_as_f64
      by (intro exI [of _ "timeline_quota_wait_ms_for_route c (tst_route st) (f64 (count_of count - available))"])
        (simp add: Let_def available_def [symmetric] timeline_quota_wait_ms_for_route_def f64_as_u64_pos del: of_nat_unat)
  next
    assume none: "tst_timeline_quota_tokens st = None" and valid: "validate_batch_for_route c count (tst_route st) = Inr ()"
    have "count \<le> batch_limit c (rt_resource_tier (tst_route st))"
      using valid by (simp add: validate_batch_for_route_def Let_def not_less split: if_splits)
    then have "count_of count \<le> capacity" unfolding cap(3) by (simp add: word_le_nat_alt del: of_nat_unat)
    then show "count_of count \<le> available" using av(3) none by simp
  }
qed

definition fresh_timeline :: timeline_state where
  "fresh_timeline =
     \<lparr> tst_route = \<lparr> rt_timeline_key = ''orders'', rt_generator_id = 0, rt_epoch = 1, rt_route_version = 1,
         rt_resource_tier = Warm, rt_owner_worker_endpoint = ''worker'' \<rparr>,
       tst_state = Active, tst_last_issued_tso = None, tst_recovery_floor_tso = None, tst_last_graceful_issued = None,
       tst_timeline_quota_tokens = None, tst_timeline_quota_last_refill_ms = None, tst_revision = 1 \<rparr>"

theorem quota_counts_exactly_witness:
  "\<exists>st'. charge_timeline_quota tso_config_default 3 5 fresh_timeline = (st', Inr (Some 3)) \<and> tokens_ok st'"
proof -
  have cap: "timeline_quota_capacity_for_route tso_config_default (tst_route fresh_timeline)
      = Some (u32_as_f64 (cfg_max_batch_per_request tso_config_default))"
    by (simp add: timeline_quota_capacity_for_route_def fresh_timeline_def)
  have none: "tokens_ok fresh_timeline" "tst_timeline_quota_tokens fresh_timeline = None"
    by (simp_all add: tokens_ok_def fresh_timeline_def)
  have "validate_batch_for_route tso_config_default 3 (tst_route fresh_timeline) = Inr ()"
    by (simp add: validate_batch_for_route_def batch_limit_def fresh_timeline_def tso_config_default_def
        DEFAULT_MAX_BATCH_PER_REQUEST_def)
  then show ?thesis using quota_counts_exactly [OF cap none(1), where count = 3 and now_ms = 5] none(2) by auto
qed

end
