(* ===== verification/Serve.thy ===== *)
theory Serve
  imports Timelines Quota Store_Requests
begin

text \<open>
  Serving an allocation (\<open>service/allocation.rs\<close>, \<open>service/allocation/serve.rs\<close>): from the cached state when
  route, readiness and lease allow it, else after loading and activating the record. The queue before a
  shared generator is in \<open>Fairness\<close>; here it is a point where others run. Fuel bounds the loops; \<open>None\<close>
  means that it ran out, \<open>Some None\<close> that the caller has to look at the metadata again.
\<close>

subsection \<open>Checks of a cached timeline\<close>

record cached_timeline_checks =
  ck_owner_matches :: bool
  ck_route_matches_request :: bool
  ck_timeline_ready :: bool
  ck_state :: timeline_lifecycle_state

definition request_matches_timeline_route :: "allocate_request \<Rightarrow> timeline_route \<Rightarrow> bool" where
  "request_matches_timeline_route rq route \<longleftrightarrow>
     rt_route_version route = rq_expected_route_version rq \<and> rt_epoch route = rq_expected_epoch rq"

definition cached_timeline_checks_new ::
    "tso_service \<Rightarrow> allocate_request \<Rightarrow> timeline_route \<Rightarrow> timeline_lifecycle_state \<Rightarrow> cached_timeline_checks" where
  "cached_timeline_checks_new sv rq route state =
     \<lparr> ck_owner_matches = is_local_endpoint sv (rt_owner_worker_endpoint route),
       ck_route_matches_request = request_matches_timeline_route rq route,
       ck_timeline_ready = timeline_is_ready state, ck_state = state \<rparr>"

definition matches_local_route :: "cached_timeline_checks \<Rightarrow> bool" where
  "matches_local_route ck \<longleftrightarrow> ck_owner_matches ck \<and> ck_route_matches_request ck"

definition can_serve :: "cached_timeline_checks \<Rightarrow> bool \<Rightarrow> bool" where
  "can_serve ck generator_still_matches \<longleftrightarrow> matches_local_route ck \<and> ck_timeline_ready ck \<and> generator_still_matches"

definition drop_cached :: "string \<Rightarrow> unit act" where
  "drop_cached tk = on_service (\<lambda>sv. (clear_timeline_cache tk sv, Inr ()))"

definition cached_timeline_still_matches_metadata ::
    "surroundings \<Rightarrow> string \<Rightarrow> timeline_route \<Rightarrow> timeline_lifecycle_state \<Rightarrow> bool act" where
  "cached_timeline_still_matches_metadata ax tk route state =
     bnd (load_timeline_with_singleflight ax tk) (\<lambda>loaded. case loaded of
       None \<Rightarrow> ret False
     | Some (r, _) \<Rightarrow>
         bnd (load_generator ax (rt_generator_id route)) (\<lambda>loaded. case loaded of
           None \<Rightarrow> ret False
         | Some (g, _) \<Rightarrow>
             bnd get_service (\<lambda>sv. ret (tl_route r = route \<and> tl_state r = state \<and> is_local_generator_owner sv g))))"

subsection \<open>Allocating under the lock of the timeline\<close>

definition MAX_ALLOCATION_CONTENTION_RETRIES :: u32 where
  "MAX_ALLOCATION_CONTENTION_RETRIES = 8"

datatype serve_outcome =
  Served allocate_response
| Contended_Outcome
| Retry_After_Lease_Refresh
| Serve_Error tso_error

definition last_issued :: "timestamp_range list \<Rightarrow> u64 option" where
  "last_issued rs = (if rs = [] then None else Some (rg_end_tso (last rs)))"

definition serve_section ::
    "(nat \<Rightarrow> u64 \<Rightarrow> u64) \<Rightarrow> allocate_request \<Rightarrow> u32 \<Rightarrow> u64 \<Rightarrow> u64 option \<Rightarrow> tso_config \<Rightarrow> timeline_state \<times> generator
       \<Rightarrow> (timeline_state \<times> generator) \<times> serve_outcome tso_result" where
  \<comment> \<open>charging and allocating; \<open>Inl\<close> is a refused charge\<close>
  "serve_section race rq gid now_ms issued_upper_bound c = (\<lambda>(st, g).
     case charge_timeline_quota c (rq_count rq) now_ms st of
       (st1, Inl e) \<Rightarrow> ((st1, g), Inl e)
     | (st1, Inr charged) \<Rightarrow>
         let (g', r) = allocate_after race
               \<lparr> al_count = rq_count rq, al_floor = tst_last_issued_tso st1, al_now_ms = now_ms,
                 al_max_future_borrow_ms = effective_future_borrow_ms_for_timeline_state c st1 now_ms,
                 al_max_clock_rewind_ms = cfg_max_clock_rewind_ms c, al_issued_upper_bound = issued_upper_bound \<rparr> g;
             refunded = refund_timeline_quota c charged st1
         in case r of
              Inr (Allocated rs) \<Rightarrow>
                ((st1 \<lparr> tst_last_issued_tso := last_issued rs \<rparr>, g'),
                 Inr (Served \<lparr> rs_timeline_key = rt_timeline_key (tst_route st1), rs_generator_id = gid,
                   rs_epoch = rt_epoch (tst_route st1), rs_route_version = rt_route_version (tst_route st1),
                   rs_ranges = rs \<rparr>))
            | Inr Contended \<Rightarrow> ((refunded, g'), Inr Contended_Outcome)
            | Inl (IssuedUpperBoundExceeded _ _) \<Rightarrow> ((refunded, g'), Inr Retry_After_Lease_Refresh)
            | Inl e \<Rightarrow> ((refunded, g'), Inr (Serve_Error e)))"

definition serve_locked ::
    "surroundings \<Rightarrow> allocate_request \<Rightarrow> u32 \<Rightarrow> u64 option \<Rightarrow> nat \<Rightarrow> u64 \<Rightarrow> serve_outcome tso_result act" where
  "serve_locked ax rq gid issued_upper_bound a now_ms w =
     on_service (\<lambda>sv.
       case map_of (sv_timeline_states sv) a of
         None \<Rightarrow> (sv, Inl (Internal ''dangling timeline state''))
       | Some st \<Rightarrow>
           (case lookup_generator sv gid of
              Inl e \<Rightarrow> (sv, Inl e)
            | Inr g \<Rightarrow>
                let ((st', g'), r) = serve_section (ax_race ax (w_tick w)) rq gid now_ms issued_upper_bound (sv_config sv) (st, g)
                in (on_runtime (set_generator gid g') (set_state a st' sv), Inr r))) (tick w)"

subsection \<open>The serving loop\<close>

definition acquire_generator_admission :: "surroundings \<Rightarrow> resource_tier \<Rightarrow> unit act" where
  "acquire_generator_admission ax tier =
     (if tier = Dedicated then ret ()
      else bnd (check_request_cancellation ax) (\<lambda>_. bnd (pause ax) (\<lambda>_. check_request_cancellation ax)))"

definition wait_for_future_borrow_error :: "surroundings \<Rightarrow> bool \<Rightarrow> tso_error \<Rightarrow> unit act" where
  \<comment> \<open>only a request that can be cancelled waits\<close>
  "wait_for_future_borrow_error ax cancellable e =
     (case e of
        FutureBorrowExceeded _ _ \<Rightarrow>
          if cancellable then bnd (pause ax) (\<lambda>_. check_request_cancellation ax) else throw e
      | _ \<Rightarrow> throw e)"

definition is_future_borrow :: "tso_error \<Rightarrow> bool" where
  "is_future_borrow e = (case e of FutureBorrowExceeded _ _ \<Rightarrow> True | _ \<Rightarrow> False)"

fun serve_allocation ::
    "surroundings \<Rightarrow> nat \<Rightarrow> bool \<Rightarrow> allocate_request \<Rightarrow> u32 \<Rightarrow> u64 option \<Rightarrow> nat \<Rightarrow> u32 \<Rightarrow> nat
       \<Rightarrow> allocate_response option option act" where
  \<comment> \<open>with the fuel of the lease operations, the retries so far and the own fuel\<close>
  "serve_allocation ax fuel cancellable rq gid issued_upper_bound a retries 0 = ret None"
| "serve_allocation ax fuel cancellable rq gid issued_upper_bound a retries (Suc n) =
     (let wait_and_retry = (\<lambda>e.
            if is_future_borrow e then
              bnd (wait_for_future_borrow_error ax cancellable e) (\<lambda>_.
                serve_allocation ax fuel cancellable rq gid issued_upper_bound a retries n)
            else throw e) in
      bnd (check_request_cancellation ax) (\<lambda>_.
      bnd (read_state ax a) (\<lambda>st.
      bnd (acquire_generator_admission ax (rt_resource_tier (tst_route st))) (\<lambda>_.
      bnd (pause ax) (\<lambda>_.
      bnd (check_request_cancellation ax) (\<lambda>_.
      bnd (clock_now_ms ax) (\<lambda>now_ms.
      bnd (serve_locked ax rq gid issued_upper_bound a now_ms) (\<lambda>out. case out of
        Inl e \<Rightarrow> wait_and_retry e
      | Inr (Served response) \<Rightarrow> ret (Some (Some response))
      | Inr Contended_Outcome \<Rightarrow>
          let retries' = saturating_add retries 1 in
          if MAX_ALLOCATION_CONTENTION_RETRIES \<le> retries' then
            (if cancellable then
               bnd (pause ax) (\<lambda>_. bnd (check_request_cancellation ax) (\<lambda>_.
                 serve_allocation ax fuel cancellable rq gid issued_upper_bound a 0 n))
             else throw (AllocationContention gid))
          else bnd (pause ax) (\<lambda>_. serve_allocation ax fuel cancellable rq gid issued_upper_bound a retries' n)
      | Inr Retry_After_Lease_Refresh \<Rightarrow>
          bnd (refresh_generator_lease_if_unchanged ax fuel gid issued_upper_bound) (\<lambda>refreshed.
            ret (map_option (\<lambda>_. None) refreshed))
      | Inr (Serve_Error e) \<Rightarrow> wait_and_retry e))))))))"

definition serve_allocation_from_timeline_state_handle ::
    "surroundings \<Rightarrow> nat \<Rightarrow> bool \<Rightarrow> allocate_request \<Rightarrow> nat \<Rightarrow> u32 \<Rightarrow> u64 option \<Rightarrow> allocate_response option option act" where
  "serve_allocation_from_timeline_state_handle ax fuel cancellable rq a gid issued_upper_bound =
     bnd get_service (\<lambda>sv.
     bnd (done_with (lookup_generator sv gid)) (\<lambda>_.
       serve_allocation ax fuel cancellable rq gid issued_upper_bound a 0 fuel))"

definition try_serve_timeline_state_handle_with_guard ::
    "surroundings \<Rightarrow> nat \<Rightarrow> bool \<Rightarrow> allocate_request \<Rightarrow> nat \<Rightarrow> u32 \<Rightarrow> u64 option \<Rightarrow> bool
       \<Rightarrow> allocate_response option option act" where
  "try_serve_timeline_state_handle_with_guard ax fuel cancellable rq a gid issued_upper_bound revalidate_authority =
     (let tk = rq_timeline_key rq in
      bnd (check_request_cancellation ax) (\<lambda>_.
      bnd (read_state ax a) (\<lambda>st.
      bnd get_service (\<lambda>sv.
      let route = tst_route st; ck = cached_timeline_checks_new sv rq route (tst_state st) in
      if matches_local_route ck \<and> \<not> ck_timeline_ready ck then
        bnd (drop_cached tk) (\<lambda>_. throw (TimelineNotReady tk (ck_state ck)))
      else if \<not> ck_owner_matches ck \<or> rt_generator_id route \<noteq> gid then bnd (drop_cached tk) (\<lambda>_. ret (Some None))
      else if \<not> can_serve ck True then ret (Some None)
      else
        bnd (if revalidate_authority then cached_timeline_still_matches_metadata ax tk route (ck_state ck) else ret True)
        (\<lambda>authority_matches.
        if \<not> authority_matches then bnd (drop_cached tk) (\<lambda>_. ret (Some None))
        else
          bnd (read_state ax a) (\<lambda>post.
          if tst_state post \<noteq> ck_state ck \<or> tst_route post \<noteq> route \<or> rt_generator_id (tst_route post) \<noteq> gid
          then bnd (drop_cached tk) (\<lambda>_. ret (Some None))
          else serve_allocation_from_timeline_state_handle ax fuel cancellable rq a gid issued_upper_bound))))))"

subsection \<open>From the cache, or after a look at the metadata\<close>

definition try_allocate_from_cached_timeline ::
    "surroundings \<Rightarrow> nat \<Rightarrow> bool \<Rightarrow> allocate_request \<Rightarrow> allocate_response option option act" where
  "try_allocate_from_cached_timeline ax fuel cancellable rq =
     (let tk = rq_timeline_key rq in
      bnd (cached_handle tk) (\<lambda>h. case h of
        None \<Rightarrow> ret (Some None)
      | Some a \<Rightarrow>
          bnd (read_state ax a) (\<lambda>st.
          bnd get_service (\<lambda>sv.
          let route = tst_route st; gid = rt_generator_id route;
              ck = cached_timeline_checks_new sv rq route (tst_state st) in
          bnd (if matches_local_route ck \<and> ck_timeline_ready ck then valid_bound_now ax gid else ret None) (\<lambda>bound.
          if \<not> matches_local_route ck then
            bnd (if ck_owner_matches ck then ret () else drop_cached tk) (\<lambda>_. ret (Some None))
          else
            bnd (done_with (validate_batch_for_route (sv_config sv) (rq_count rq) route)) (\<lambda>_.
            case bound of
              Some ub \<Rightarrow> try_serve_timeline_state_handle_with_guard ax fuel cancellable rq a gid (Some ub) False
            | None \<Rightarrow>
                bnd (cached_timeline_still_matches_metadata ax tk route (tst_state st)) (\<lambda>authority_matches.
                if \<not> authority_matches then bnd (drop_cached tk) (\<lambda>_. ret (Some None))
                else if \<not> ck_timeline_ready ck then
                  bnd (drop_cached tk) (\<lambda>_. throw (TimelineNotReady tk (ck_state ck)))
                else
                  bnd (result_of (ensure_generator_lease_for_allocation ax fuel tk gid)) (\<lambda>res. case res of
                    Inr None \<Rightarrow> ret None
                  | Inr (Some ub) \<Rightarrow> try_serve_timeline_state_handle_with_guard ax fuel cancellable rq a gid ub True
                  | Inl _ \<Rightarrow> bnd (drop_cached tk) (\<lambda>_. ret (Some None))))))))))"

fun allocate_timestamps_after_validation ::
    "surroundings \<Rightarrow> nat \<Rightarrow> bool \<Rightarrow> allocate_request \<Rightarrow> nat \<Rightarrow> allocate_response option act" where
  "allocate_timestamps_after_validation ax fuel cancellable rq 0 = ret None"
| "allocate_timestamps_after_validation ax fuel cancellable rq (Suc n) =
     (let tk = rq_timeline_key rq;
          refuse = (\<lambda>e. bnd (drop_cached tk) (\<lambda>_. throw e)) in
      bnd get_service (\<lambda>sv.
      bnd (done_with (reject_new_work_if_shutting_down sv)) (\<lambda>_.
      bnd (check_request_cancellation ax) (\<lambda>_.
      bnd (try_allocate_from_cached_timeline ax fuel cancellable rq) (\<lambda>cached. case cached of
        None \<Rightarrow> ret None
      | Some (Some response) \<Rightarrow> ret (Some response)
      | Some None \<Rightarrow>
          bnd (load_timeline_with_singleflight ax tk) (\<lambda>loaded. case loaded of
            None \<Rightarrow> throw (TimelineNotFound tk)
          | Some (r, revision) \<Rightarrow>
              let route = tl_route r in
              if rt_route_version route \<noteq> rq_expected_route_version rq
              then refuse (RouteVersionMismatch (rq_expected_route_version rq) (rt_route_version route))
              else if rt_epoch route \<noteq> rq_expected_epoch rq
              then refuse (EpochMismatch (rq_expected_epoch rq) (rt_epoch route))
              else if \<not> is_local_endpoint sv (rt_owner_worker_endpoint route)
              then refuse (NotTimelineOwner (rt_owner_worker_endpoint route))
              else
                bnd (done_with (validate_batch_for_route (sv_config sv) (rq_count rq) route)) (\<lambda>_.
                bnd (result_of (activate_local_timeline_record ax fuel tk r revision)) (\<lambda>res. case res of
                  Inl (GeneratorLeaseExpired _) \<Rightarrow> throw (LeaseExpired tk)
                | Inl e \<Rightarrow> throw e
                | Inr None \<Rightarrow> ret None
                | Inr (Some (r', revision')) \<Rightarrow>
                    let gid = rt_generator_id (tl_route r') in
                    if \<not> timeline_is_ready (tl_state r') then refuse (TimelineNotReady tk (tl_state r'))
                    else
                      bnd (ensure_generator_lease_for_allocation ax fuel tk gid) (\<lambda>bound. case bound of
                        None \<Rightarrow> ret None
                      | Some ub \<Rightarrow>
                          bnd (timeline_state_handle_from_record ax tk r' revision') (\<lambda>a.
                          bnd (try_serve_timeline_state_handle_with_guard ax fuel cancellable rq a gid ub True) (\<lambda>out.
                          case out of
                            None \<Rightarrow> ret None
                          | Some (Some response) \<Rightarrow> ret (Some response)
                          | Some None \<Rightarrow> allocate_timestamps_after_validation ax fuel cancellable rq n)))))))))))"

subsection \<open>What a timeline is served\<close>

lemma charge_keeps:
  "charge_timeline_quota c n now_ms st = (st', r) \<Longrightarrow>
     tst_last_issued_tso st' = tst_last_issued_tso st \<and> tst_route st' = tst_route st"
  by (auto simp: charge_timeline_quota_def Let_def split: option.splits if_splits)

lemma refund_keeps [simp]:
  "tst_last_issued_tso (refund_timeline_quota c charged st) = tst_last_issued_tso st"
  "tst_route (refund_timeline_quota c charged st) = tst_route st"
  by (simp_all add: refund_timeline_quota_def Let_def split: option.splits)

lemma last_range:
  assumes "rs \<noteq> []" "\<forall>r \<in> set rs. rg_start_tso r \<le> rg_end_tso r"
  shows "ranges_tsos rs \<noteq> [] \<and> last (ranges_tsos rs) = unat (rg_end_tso (last rs))"
proof -
  have "rg_start_tso (last rs) \<le> rg_end_tso (last rs)" using assms by simp
  then have l: "range_tsos (last rs) \<noteq> []" "last (range_tsos (last rs)) = unat (rg_end_tso (last rs))"
    by (simp_all add: range_tsos_def word_le_nat_alt)
  have "ranges_tsos rs = ranges_tsos (butlast rs) @ range_tsos (last rs)"
    using assms(1) by (cases rs rule: rev_cases) (simp_all add: ranges_tsos_def)
  with l show ?thesis by simp
qed

lemma serve_section_unserved:
  assumes "serve_section race rq gid now_ms bound c (st, g) = ((st', g'), r)"
    and "\<And>response. r \<noteq> Inr (Served response)"
  shows "tst_last_issued_tso st' = tst_last_issued_tso st"
  using assms
  by (auto simp: serve_section_def Let_def charge_keeps
      split: prod.splits sum.splits allocate_after_result.splits tso_error.splits)

lemma serve_section_served:
  assumes "layout_valid (gn_layout g)" "gn_id g < max_generators (gn_layout g)" "rq_count rq \<noteq> 0"
    and "serve_section race rq gid now_ms bound c (st, g) = ((st', g'), Inr (Served response))"
  shows "length (ranges_tsos (rs_ranges response)) = unat (rq_count rq)"
    "sorted_wrt (<) (ranges_tsos (rs_ranges response))"
    "\<forall>f. tst_last_issued_tso st = Some f \<longrightarrow> (\<forall>t \<in> set (ranges_tsos (rs_ranges response)). unat f < t)"
    "\<forall>u. bound = Some u \<longrightarrow> (\<forall>t \<in> set (ranges_tsos (rs_ranges response)). t \<le> unat u)"
    "map_option unat (tst_last_issued_tso st') = Some (last (ranges_tsos (rs_ranges response)))"
    "rs_generator_id response = gid" "rs_epoch response = rt_epoch (tst_route st)"
    "rs_route_version response = rt_route_version (tst_route st)" "rs_timeline_key response = rt_timeline_key (tst_route st)"
proof -
  obtain st1 charged where charge: "charge_timeline_quota c (rq_count rq) now_ms st = (st1, Inr charged)"
    using assms(4) by (fastforce simp: serve_section_def split: prod.splits sum.splits)
  note keep = charge_keeps [OF charge]
  let ?a = "\<lparr> al_count = rq_count rq, al_floor = tst_last_issued_tso st1, al_now_ms = now_ms,
    al_max_future_borrow_ms = effective_future_borrow_ms_for_timeline_state c st1 now_ms,
    al_max_clock_rewind_ms = cfg_max_clock_rewind_ms c, al_issued_upper_bound = bound \<rparr>"
  from assms(4) charge obtain rs where a: "allocate_after race ?a g = (g', Inr (Allocated rs))"
    and st': "tst_last_issued_tso st' = last_issued rs"
    and response: "response = \<lparr> rs_timeline_key = rt_timeline_key (tst_route st1), rs_generator_id = gid,
        rs_epoch = rt_epoch (tst_route st1), rs_route_version = rt_route_version (tst_route st1), rs_ranges = rs \<rparr>"
    by (auto simp: serve_section_def Let_def split: prod.splits sum.splits allocate_after_result.splits tso_error.splits)
  let ?n = "unat (rq_count rq)" and ?slot = "slot_tso (gn_layout g) (gn_id g)"
  have n: "0 < ?n" using assms(3) by (simp add: unat_gt_0)
  have c: "al_count ?a \<noteq> 0" using assms(3) by simp
  obtain start where ts: "ranges_tsos rs = map ?slot [start ..< start + ?n]"
    and le: "\<forall>r \<in> set rs. rg_start_tso r \<le> rg_end_tso r"
    and fl: "\<And>f. tst_last_issued_tso st1 = Some f \<Longrightarrow> unat f < ?slot start"
    and ub: "\<And>u. bound = Some u \<Longrightarrow> ?slot (start + ?n - 1) \<le> unat u"
    by (rule allocate_after_Allocated [OF assms(1,2) c a]) auto
  have id: "unat (gn_id g) < 2 ^ gen_w (gn_layout g)"
    using assms(1,2) by (simp add: word_less_nat_alt unat_max_generators)
  have between: "?slot start \<le> t \<and> t \<le> ?slot (start + ?n - 1)" if "t \<in> set (ranges_tsos rs)" for t
    using that ts by (auto simp: slot_tso_le [OF id])
  have ne: "rs \<noteq> []" using ts n by (auto simp: ranges_tsos_def)
  show "length (ranges_tsos (rs_ranges response)) = ?n" "sorted_wrt (<) (ranges_tsos (rs_ranges response))"
    using ts sorted_wrt_slots [OF id] by (simp_all add: response)
  show "\<forall>f. tst_last_issued_tso st = Some f \<longrightarrow> (\<forall>t \<in> set (ranges_tsos (rs_ranges response)). unat f < t)"
    using between fl keep by (fastforce simp: response)
  show "\<forall>u. bound = Some u \<longrightarrow> (\<forall>t \<in> set (ranges_tsos (rs_ranges response)). t \<le> unat u)"
    using between ub by (fastforce simp: response)
  show "map_option unat (tst_last_issued_tso st') = Some (last (ranges_tsos (rs_ranges response)))"
    using last_range [OF ne le] ne by (simp add: st' last_issued_def response)
  show "rs_generator_id response = gid" "rs_epoch response = rt_epoch (tst_route st)"
    "rs_route_version response = rt_route_version (tst_route st)" "rs_timeline_key response = rt_timeline_key (tst_route st)"
    using keep by (simp_all add: response)
qed

end
