(* ===== verification/Serving.thy ===== *)
theory Serving
  imports Serve Outcomes
begin

text \<open>
  A worker that holds a lease and has a timeline in its cache, and what it answers.
\<close>

definition owned_timeline :: timeline_state where
  "owned_timeline =
     \<lparr> tst_route = \<lparr> rt_timeline_key = ''orders'', rt_generator_id = 7, rt_epoch = 1, rt_route_version = 1,
         rt_resource_tier = Dedicated, rt_owner_worker_endpoint = ''default-endpoint:50051'' \<rparr>,
       tst_state = Active, tst_last_issued_tso = None, tst_recovery_floor_tso = None, tst_last_graceful_issued = None,
       tst_timeline_quota_tokens = None, tst_timeline_quota_last_refill_ms = None, tst_revision = 1 \<rparr>"

definition serving_service :: tso_service where
  "serving_service = sample_held
     \<lparr> sv_timeline_states := [(1, owned_timeline)],
       sv_timeline_runtime := fst (insert_timeline (\<lambda>_. False) ''orders'' 1 (timeline_cache_new 10)) \<rparr>"

definition plain_request :: allocate_request where
  "plain_request = \<lparr> rq_timeline_key = ''orders'', rq_count = 3, rq_expected_epoch = 1,
     rq_expected_route_version = 1, rq_client_request_id = [] \<rparr>"

lemma owned_fields:
  "rt_resource_tier (tst_route owned_timeline) = Dedicated" "rt_generator_id (tst_route owned_timeline) = 7"
  "rt_owner_worker_endpoint (tst_route owned_timeline) = ''default-endpoint:50051''" "tst_state owned_timeline = Active"
  "rt_epoch (tst_route owned_timeline) = 1" "rt_route_version (tst_route owned_timeline) = 1"
  by (simp_all add: owned_timeline_def)

lemma serving_fields:
  "sv_generator_runtime serving_service = sv_generator_runtime sample_held"
  "sv_config serving_service = sv_config sample_held" "sv_instance_id serving_service = ''worker''"
  "sv_shutdown_gate serving_service = False" "sv_timeline_states serving_service = [(1, owned_timeline)]"
  "cfg_advertise_endpoint (sv_config sample_held) = ''default-endpoint:50051''"
  "cfg_max_future_borrow_ms (sv_config sample_held) = 10" "cfg_max_clock_rewind_ms (sv_config sample_held) = 30000"
  "\<not> cfg_max_batch_per_request (sv_config sample_held) < 3"
  by (simp_all add: serving_service_def sample_held_def after_creation_def hold_lease_def mark_generator_ready_for_lease_def
      sample_generator clear_ownership_drift_of_def)
   (simp_all add: sample_service_def service_new_def tso_config_default_def DEFAULT_ADVERTISE_ENDPOINT_def
      DEFAULT_MAX_BATCH_PER_REQUEST_def)

lemma serving_cache:
  "\<exists>c. timeline_handle ''orders'' (sv_timeline_runtime serving_service) = (c, Some 1)"
  by (simp add: serving_service_def insert_timeline_def timeline_cache_new_def make_room_def insert_entry_def
      timeline_handle_def next_access_tick_def record_eviction_candidate_def
      ensure_eviction_generation_def push_candidate_def Let_def)

definition served_response :: allocate_response where
  "served_response = \<lparr> rs_timeline_key = ''orders'', rs_generator_id = 7, rs_epoch = 1, rs_route_version = 1,
     rs_ranges = [\<lparr> rg_start_tso = 83900416, rg_end_tso = 83900418 \<rparr>] \<rparr>"

lemma serving_allocate:
  "allocate_after (\<lambda>_ v. v)
     \<lparr> al_count = 3, al_floor = None, al_now_ms = 5, al_max_future_borrow_ms = 10,
       al_max_clock_rewind_ms = 30000, al_issued_upper_bound = Some 1761624063 \<rparr>
     (generator_with_layout 7 DEFAULT_TIMESTAMP_LAYOUT \<lparr> gn_ready_lease_token := 1 \<rparr>)
   = (generator_with_layout 7 DEFAULT_TIMESTAMP_LAYOUT \<lparr> gn_ready_lease_token := 1, gn_next_index := 10243 \<rparr>,
      Inr (Allocated [\<lparr> rg_start_tso = 83900416, rg_end_tso = 83900418 \<rparr>]))"
  by (simp add: alloc_eval allocate_loop.simps build_ranges.simps [of _ _ _ 3] build_ranges.simps [of _ _ _ 0])

lemma quiet_read:
  assumes "map_of (sv_timeline_states (w_service w)) a = Some st"
  shows "read_state quiet_surroundings a w = (tick w, Inr st)"
  using assms by (simp add: read_state_def with_state_def bnd_def quiet_pause on_service_def)

lemma quiet_checks:
  "check_request_cancellation quiet_surroundings w = (tick w, Inr ())" "clock_now_ms quiet_surroundings w = (tick w, Inr 5)"
  by (simp_all add: check_request_cancellation_def clock_now_ms_def quiet_surroundings_def)

lemma serving_run:
  assumes "w_service w = serving_service" "rq_timeline_key rq = ''orders''" "rq_count rq = 3" "rq_expected_epoch rq = 1"
    "rq_expected_route_version rq = 1"
  shows "\<exists>w'. allocate_timestamps_after_validation quiet_surroundings (Suc m) cancellable rq (Suc n) w
    = (w', Inr (Some served_response)) \<and> w_store w' = w_store w \<and> sv_config (w_service w') = sv_config (w_service w)"
proof -
  obtain c where c: "timeline_handle ''orders'' (sv_timeline_runtime serving_service) = (c, Some 1)"
    using serving_cache by blast
  let ?sv = "serving_service \<lparr> sv_timeline_runtime := c \<rparr>"
  have h: "cached_handle ''orders'' v = (v \<lparr> w_service := ?sv \<rparr>, Inr (Some 1))" if "w_service v = serving_service" for v
    using that c by (simp add: cached_handle_def on_service_def)
  have read: "read_state quiet_surroundings 1 v = (tick v, Inr owned_timeline)" if "w_service v = ?sv" for v
    by (rule quiet_read) (simp add: that serving_fields)
  have bound: "valid_bound_now quiet_surroundings 7 v = (tick v, Inr (Some 1761624063))" if "w_service v = ?sv" for v
    using sample_bound that
    by (simp add: valid_bound_now_def bnd_def quiet_checks get_service_def done_with_def valid_generator_lease_upper_bound_def
        serving_fields sample_held_runtime)
  have lookup: "lookup_generator ?sv 7 = lookup_generator sample_held 7"
    by (simp add: lookup_generator_def ensure_generator_id_range_def serving_fields)
  have batch: "validate_batch_for_route (sv_config ?sv) 3 (tst_route owned_timeline) = Inr ()"
    by (simp add: serving_fields validate_batch_for_route_def batch_limit_def owned_timeline_def)
  have checks: "cached_timeline_checks_new ?sv rq (tst_route owned_timeline) s
      = \<lparr> ck_owner_matches = True, ck_route_matches_request = True, ck_timeline_ready = timeline_is_ready s, ck_state = s \<rparr>" for s
    using assms(4,5) by (simp add: cached_timeline_checks_new_def is_local_endpoint_def serving_fields owned_fields
        request_matches_timeline_route_def)
  have ready: "timeline_is_ready Active" by (simp add: timeline_is_ready_def)
  have drawn: "serve_section (\<lambda>_ v. v) rq 7 5 (Some 1761624063) (sv_config ?sv)
      (owned_timeline, generator_with_layout 7 DEFAULT_TIMESTAMP_LAYOUT \<lparr> gn_ready_lease_token := 1 \<rparr>)
    = ((owned_timeline \<lparr> tst_last_issued_tso := Some 83900418 \<rparr>, generator_with_layout 7 DEFAULT_TIMESTAMP_LAYOUT
        \<lparr> gn_ready_lease_token := 1, gn_next_index := 10243 \<rparr>), Inr (Served served_response))"
    using assms(3) serving_allocate
    by (simp add: serve_section_def charge_timeline_quota_def timeline_quota_capacity_for_route_def owned_timeline_def
        serving_fields effective_future_borrow_ms_for_timeline_state_def effective_future_borrow_ms_for_route_def
        last_issued_def served_response_def Let_def)
  have locked: "\<exists>v'. serve_locked quiet_surroundings rq 7 (Some 1761624063) 1 5 v = (v', Inr (Inr (Served served_response)))
      \<and> w_store v' = w_store v \<and> sv_config (w_service v') = sv_config serving_service"
    if "w_service v = ?sv" for v
    using that drawn lookup sample_lookup
    by (simp add: serve_locked_def on_service_def serving_fields quiet_surroundings_def Let_def on_runtime_def set_state_def
        tick_def)
  have serve: "\<exists>v'. serve_allocation_from_timeline_state_handle quiet_surroundings (Suc m) cancellable rq 1 7 (Some 1761624063) v
      = (v', Inr (Some (Some served_response)))
      \<and> w_store v' = w_store v \<and> sv_config (w_service v') = sv_config serving_service" if "w_service v = ?sv" for v
    using that locked [of "tick (tick (tick (tick (tick v))))"] lookup sample_lookup read
    by (auto simp: serve_allocation_from_timeline_state_handle_def bnd_def get_service_def done_with_def quiet_checks quiet_pause
        acquire_generator_admission_def ret_def Let_def owned_fields)
  have guard: "\<exists>v'. try_serve_timeline_state_handle_with_guard quiet_surroundings (Suc m) cancellable rq 1 7 (Some 1761624063)
      False v = (v', Inr (Some (Some served_response)))
      \<and> w_store v' = w_store v \<and> sv_config (w_service v') = sv_config serving_service" if "w_service v = ?sv" for v
    using that serve [of "tick (tick (tick v))"] read assms
    by (simp add: try_serve_timeline_state_handle_with_guard_def bnd_def quiet_checks get_service_def ret_def Let_def checks
        can_serve_def matches_local_route_def owned_fields ready)
  have cached: "\<exists>v'. try_allocate_from_cached_timeline quiet_surroundings (Suc m) cancellable rq v
      = (v', Inr (Some (Some served_response)))
      \<and> w_store v' = w_store v \<and> sv_config (w_service v') = sv_config serving_service" if "w_service v = serving_service" for v
    using that guard [of "tick (tick (v \<lparr> w_service := ?sv \<rparr>))"] read bound batch assms
    by (simp add: try_allocate_from_cached_timeline_def bnd_def h get_service_def Let_def checks done_with_def
        matches_local_route_def owned_fields ready)
  show ?thesis
    using assms cached [of "tick w"]
    by (auto simp: bnd_def get_service_def done_with_def reject_new_work_if_shutting_down_def serving_fields quiet_checks
        ret_def Let_def)
qed

end
