(* ===== verification/Idempotency.thy ===== *)
theory Idempotency
  imports Serving
begin

text \<open>
  Allocations with a client request id (\<open>service/allocation/idempotency.rs\<close>) and the entry point of an
  allocation (\<open>service/allocation.rs\<close>): a pending record is written before the timestamps are drawn and
  turned into a completed one with the response; a later request with the same id finds that response.
  Whether the store keeps request records at all (\<open>request_records()\<close>) is a parameter. The preparing
  loop has fuel; \<open>None\<close> means that it ran out.
\<close>

subsection \<open>Records\<close>

record pending_idempotent_allocation =
  pi_revision :: u64
  pi_fingerprint :: allocation_request_fingerprint

datatype idempotent_allocation_preparation =
  Idempotency_Disabled
| Replay allocate_response
| Pending_Allocation pending_idempotent_allocation

definition idempotency_enabled :: "allocate_request \<Rightarrow> bool" where
  "idempotency_enabled rq \<longleftrightarrow> \<not> str_is_blank (rq_client_request_id rq)"

definition request_fingerprint :: "allocate_request \<Rightarrow> allocation_request_fingerprint" where
  "request_fingerprint rq = \<lparr> fp_timeline_key = rq_timeline_key rq, fp_count = rq_count rq \<rparr>"

definition pending_request_record :: "allocation_request_fingerprint \<Rightarrow> u64 \<Rightarrow> request_record" where
  "pending_request_record fp updated_at_ms =
     \<lparr> rr_schema_version = 1, rr_fingerprint = fp, rr_state = Pending, rr_response = None,
       rr_updated_at_ms = updated_at_ms \<rparr>"

definition completed_request_record ::
    "allocation_request_fingerprint \<Rightarrow> allocate_response \<Rightarrow> u64 \<Rightarrow> request_record" where
  "completed_request_record fp response updated_at_ms =
     \<lparr> rr_schema_version = 1, rr_fingerprint = fp, rr_state = Completed,
       rr_response = Some \<lparr> ar_timeline_key = rs_timeline_key response, ar_generator_id = rs_generator_id response,
         ar_epoch = rs_epoch response, ar_route_version = rs_route_version response,
         ar_ranges = rs_ranges response \<rparr>,
       rr_updated_at_ms = updated_at_ms \<rparr>"

definition pending_record_is_stale :: "tso_config \<Rightarrow> request_record \<Rightarrow> u64 \<Rightarrow> bool" where
  "pending_record_is_stale c r now_ms \<longleftrightarrow>
     rr_state r = Pending
     \<and> cfg_request_record_pending_timeout_ms c \<le> saturating_sub now_ms (rr_updated_at_ms r)"

definition validate_idempotent_record_fingerprint :: "allocate_request \<Rightarrow> request_record \<Rightarrow> unit tso_result" where
  "validate_idempotent_record_fingerprint rq r =
     (let fp = rr_fingerprint r in
      if fp_count fp = rq_count rq \<and> (fp_timeline_key fp = [] \<or> fp_timeline_key fp = rq_timeline_key rq)
      then Inr ()
      else Inl (ClientRequestConflict (rq_timeline_key rq) (rq_client_request_id rq)))"

subsection \<open>Before and after drawing the timestamps\<close>

definition create_request_record :: "surroundings \<Rightarrow> allocate_request \<Rightarrow> request_record \<Rightarrow> u64 act" where
  "create_request_record ax rq r =
     on_store ax (ms_create_request_record (rq_timeline_key rq) (rq_client_request_id rq) r)"

definition load_request_record :: "surroundings \<Rightarrow> allocate_request \<Rightarrow> (request_record \<times> u64) option act" where
  "load_request_record ax rq =
     on_store ax (\<lambda>s. (s, ms_load_request_record s (rq_timeline_key rq) (rq_client_request_id rq)))"

definition compare_exchange_request_record ::
    "surroundings \<Rightarrow> allocate_request \<Rightarrow> u64 \<Rightarrow> request_record \<Rightarrow> u64 act" where
  "compare_exchange_request_record ax rq expected r =
     on_store ax (ms_compare_exchange_request_record (rq_timeline_key rq) (rq_client_request_id rq) expected r)"

definition compare_delete_request_record :: "surroundings \<Rightarrow> allocate_request \<Rightarrow> u64 \<Rightarrow> unit act" where
  "compare_delete_request_record ax rq expected =
     on_store ax (ms_compare_delete_request_record (rq_timeline_key rq) (rq_client_request_id rq) expected)"

definition in_progress :: "allocate_request \<Rightarrow> tso_error" where
  "in_progress rq = ClientRequestInProgress (rq_timeline_key rq) (rq_client_request_id rq)"

definition lost_write :: "tso_error \<Rightarrow> bool" where
  "lost_write e = (case e of CasFailed \<Rightarrow> True | TimelineNotFound _ \<Rightarrow> True | _ \<Rightarrow> False)"

fun prepare_loop ::
    "surroundings \<Rightarrow> allocate_request \<Rightarrow> nat \<Rightarrow> idempotent_allocation_preparation option act" where
  "prepare_loop ax rq 0 = ret None"
| "prepare_loop ax rq (Suc n) =
     bnd (clock_now_ms ax) (\<lambda>now_ms.
     bnd (result_of (create_request_record ax rq (pending_request_record (request_fingerprint rq) now_ms)))
       (\<lambda>created. case created of
          Inr revision \<Rightarrow>
            ret (Some (Pending_Allocation \<lparr> pi_revision = revision, pi_fingerprint = request_fingerprint rq \<rparr>))
        | Inl e \<Rightarrow>
            if e \<noteq> MetadataAlreadyExists then throw e
            else bnd (load_request_record ax rq) (\<lambda>loaded. case loaded of
              None \<Rightarrow> prepare_loop ax rq n
            | Some (r, revision) \<Rightarrow>
                bnd (done_with (validate_idempotent_record_fingerprint rq r)) (\<lambda>_.
                bnd (done_with (completed_response (rq_timeline_key rq) r)) (\<lambda>completed. case completed of
                  Some response \<Rightarrow> ret (Some (Replay response))
                | None \<Rightarrow>
                    bnd get_service (\<lambda>sv.
                    if pending_record_is_stale (sv_config sv) r now_ms then
                      bnd (result_of (compare_delete_request_record ax rq revision)) (\<lambda>deleted. case deleted of
                        Inr _ \<Rightarrow> prepare_loop ax rq n
                      | Inl e \<Rightarrow> if lost_write e then prepare_loop ax rq n else throw e)
                    else throw (in_progress rq)))))))"

definition prepare_idempotent_allocation ::
    "surroundings \<Rightarrow> nat \<Rightarrow> bool \<Rightarrow> allocate_request \<Rightarrow> idempotent_allocation_preparation option act" where
  "prepare_idempotent_allocation ax fuel supported rq =
     (if \<not> idempotency_enabled rq \<or> \<not> supported then ret (Some Idempotency_Disabled)
      else prepare_loop ax rq fuel)"

definition recover_idempotent_completion_after_cas_failure ::
    "surroundings \<Rightarrow> bool \<Rightarrow> allocate_request \<Rightarrow> request_record \<Rightarrow> allocate_response \<Rightarrow> allocate_response act" where
  "recover_idempotent_completion_after_cas_failure ax supported rq completed_record response =
     (if \<not> supported then ret response
      else bnd (load_request_record ax rq) (\<lambda>loaded. case loaded of
        Some (r, revision) \<Rightarrow>
          bnd (done_with (validate_idempotent_record_fingerprint rq r)) (\<lambda>_.
          bnd (done_with (completed_response (rq_timeline_key rq) r)) (\<lambda>completed. case completed of
            Some existing_response \<Rightarrow> ret existing_response
          | None \<Rightarrow>
              bnd (result_of (compare_exchange_request_record ax rq revision completed_record)) (\<lambda>res. case res of
                Inr _ \<Rightarrow> ret response
              | Inl e \<Rightarrow> throw (if e = CasFailed then in_progress rq else e))))
      | None \<Rightarrow>
          bnd (result_of (create_request_record ax rq completed_record)) (\<lambda>res. case res of
            Inr _ \<Rightarrow> ret response
          | Inl e \<Rightarrow> throw (if e = MetadataAlreadyExists then in_progress rq else e))))"

definition finish_idempotent_allocation ::
    "surroundings \<Rightarrow> bool \<Rightarrow> allocate_request \<Rightarrow> idempotent_allocation_preparation \<Rightarrow> allocate_response tso_result
       \<Rightarrow> allocate_response act" where
  "finish_idempotent_allocation ax supported rq preparation allocation_result =
     (case preparation of
        Pending_Allocation p \<Rightarrow>
          if \<not> supported then done_with allocation_result
          else (case allocation_result of
            Inl e \<Rightarrow>
              bnd (result_of (compare_delete_request_record ax rq (pi_revision p))) (\<lambda>_. throw e)
          | Inr response \<Rightarrow>
              bnd (clock_now_ms ax) (\<lambda>now_ms.
              let completed_record = completed_request_record (pi_fingerprint p) response now_ms in
              bnd (result_of (compare_exchange_request_record ax rq (pi_revision p) completed_record)) (\<lambda>res.
              case res of
                Inr _ \<Rightarrow> ret response
              | Inl e \<Rightarrow>
                  if lost_write e
                  then recover_idempotent_completion_after_cas_failure ax supported rq completed_record response
                  else throw e)))
      | _ \<Rightarrow> done_with allocation_result)"

subsection \<open>The entry point\<close>

definition validate_allocation :: "tso_config \<Rightarrow> allocate_request \<Rightarrow> unit tso_result" where
  "validate_allocation c rq =
     and_then (validate_timeline_key (rq_timeline_key rq)) (\<lambda>_.
     and_then (validate_client_request_id (rq_client_request_id rq)) (\<lambda>_.
       if rq_count rq = 0 then Inl InvalidCount
       else if cfg_max_batch_per_request c < rq_count rq
       then Inl (BatchTooLarge (rq_count rq) (cfg_max_batch_per_request c))
       else Inr ()))"

definition allocate_timestamps_with_cancellation ::
    "surroundings \<Rightarrow> nat \<Rightarrow> bool \<Rightarrow> bool \<Rightarrow> allocate_request \<Rightarrow> allocate_response option act" where
  "allocate_timestamps_with_cancellation ax fuel supported cancellable rq =
     bnd get_service (\<lambda>sv.
     bnd (done_with (validate_allocation (sv_config sv) rq)) (\<lambda>_.
     bnd (prepare_idempotent_allocation ax fuel supported rq) (\<lambda>prepared. case prepared of
       None \<Rightarrow> ret None
     | Some (Replay response) \<Rightarrow> ret (Some response)
     | Some preparation \<Rightarrow>
         bnd (result_of (allocate_timestamps_after_validation ax fuel cancellable rq fuel)) (\<lambda>res. case res of
           Inr None \<Rightarrow> ret None
         | Inr (Some response) \<Rightarrow>
             bnd (finish_idempotent_allocation ax supported rq preparation (Inr response)) (\<lambda>r. ret (Some r))
         | Inl e \<Rightarrow>
             bnd (finish_idempotent_allocation ax supported rq preparation (Inl e)) (\<lambda>r. ret (Some r))))))"

definition allocate_timestamps ::
    "surroundings \<Rightarrow> nat \<Rightarrow> bool \<Rightarrow> allocate_request \<Rightarrow> allocate_response option act" where
  "allocate_timestamps ax fuel supported rq =
     allocate_timestamps_with_cancellation (uncancelled ax) fuel supported False rq"

subsection \<open>A successful answer is the recorded one\<close>

definition recorded_response :: "memory_store \<Rightarrow> allocate_request \<Rightarrow> allocate_response \<Rightarrow> bool" where
  \<comment> \<open>the record of the request is completed with this response\<close>
  "recorded_response s rq response =
     (case ms_load_request_record s (rq_timeline_key rq) (rq_client_request_id rq) of
        Inr (Some (r, _)) \<Rightarrow>
          rr_state r = Completed \<and> validate_idempotent_record_fingerprint rq r = Inr ()
          \<and> (case rr_response r of
               None \<Rightarrow> False
             | Some a \<Rightarrow>
                 ar_generator_id a = rs_generator_id response \<and> ar_epoch a = rs_epoch response
                 \<and> ar_route_version a = rs_route_version response \<and> ar_ranges a = rs_ranges response
                 \<and> (ar_timeline_key a = rs_timeline_key response
                    \<or> ar_timeline_key a = [] \<and> rs_timeline_key response = rq_timeline_key rq))
      | _ \<Rightarrow> False)"

lemma load_recorded:
  assumes "load_request_record ax rq w = (w', Inr (Some (r, rv)))"
  shows "ms_load_request_record (w_store w') (rq_timeline_key rq) (rq_client_request_id rq) = Inr (Some (r, rv))"
  using assms by (auto simp: load_request_record_def on_store_eq Let_def)

lemma replay_recorded:
  assumes "load_request_record ax rq w = (w', Inr (Some (r, rv)))"
    and "validate_idempotent_record_fingerprint rq r = Inr ()"
    and "completed_response (rq_timeline_key rq) r = Inr (Some response)"
  shows "recorded_response (w_store w') rq response"
  using assms(2,3) load_recorded [OF assms(1)]
  by (auto simp: recorded_response_def completed_response_def split: request_record_state.splits option.splits if_splits)

lemma load_after_write:
  assumes "map_of (ms_request_records s) (request_key [] tk cid) = Some (stamp_request r, rv)"
  shows "ms_load_request_record s tk cid = Inr (Some (stamp_request r, rv))"
  using assms by (simp add: ms_load_request_record_def and_then_def stamp_request_def validate_request_schema_def)

lemma created_record:
  assumes "create_request_record ax rq r w = (w', Inr rv)"
  shows "ms_load_request_record (w_store w') (rq_timeline_key rq) (rq_client_request_id rq)
           = Inr (Some (stamp_request r, rv))"
  using assms
  by (auto simp: create_request_record_def on_store_eq Let_def ms_create_request_record_def create_entry_def
      intro!: load_after_write simp: update_conv' split: sum.splits if_splits option.splits prod.splits)

lemma exchanged_record:
  assumes "compare_exchange_request_record ax rq expected r w = (w', Inr rv)"
  shows "ms_load_request_record (w_store w') (rq_timeline_key rq) (rq_client_request_id rq)
           = Inr (Some (stamp_request r, rv))"
  using assms
  by (auto simp: compare_exchange_request_record_def on_store_eq Let_def ms_compare_exchange_request_record_def
      intro!: load_after_write simp: update_conv' split: sum.splits if_splits option.splits prod.splits)

lemma completed_recorded:
  assumes "ms_load_request_record s (rq_timeline_key rq) (rq_client_request_id rq)
             = Inr (Some (stamp_request (completed_request_record (request_fingerprint rq) response now_ms), rv))"
  shows "recorded_response s rq response"
  using assms
  by (simp add: recorded_response_def stamp_request_def completed_request_record_def request_fingerprint_def
      validate_idempotent_record_fingerprint_def)

definition prepared_ok :: "allocate_request \<Rightarrow> world \<Rightarrow> idempotent_allocation_preparation option \<Rightarrow> bool" where
  "prepared_ok rq w prepared =
     (case prepared of
        None \<Rightarrow> True
      | Some Idempotency_Disabled \<Rightarrow> False
      | Some (Replay response) \<Rightarrow> recorded_response (w_store w) rq response
      | Some (Pending_Allocation p) \<Rightarrow> pi_fingerprint p = request_fingerprint rq)"

lemma completed_created:
  "create_request_record ax rq (completed_request_record (request_fingerprint rq) response now_ms) w = (w', Inr rv)
     \<Longrightarrow> recorded_response (w_store w') rq response"
  by (rule completed_recorded, rule created_record)

lemma completed_exchanged:
  "compare_exchange_request_record ax rq expected
      (completed_request_record (request_fingerprint rq) response now_ms) w = (w', Inr rv)
     \<Longrightarrow> recorded_response (w_store w') rq response"
  by (rule completed_recorded, rule exchanged_record)

lemma prepare_loop_success: "ends (prepared_ok rq) (prepare_loop ax rq n w)"
proof (induction n arbitrary: w)
  case (Suc n)
  show ?case unfolding prepare_loop.simps
    by (intro ends_rules Suc.IH) (auto simp: prepared_ok_def intro: replay_recorded)
qed (simp add: ret_def ends_Inr prepared_ok_def)

lemma recover_success:
  "ends (\<lambda>w. recorded_response (w_store w) rq)
     (recover_idempotent_completion_after_cas_failure ax True rq
        (completed_request_record (request_fingerprint rq) response now_ms) response w)"
  unfolding recover_idempotent_completion_after_cas_failure_def
  by (intro ends_rules) (auto intro: replay_recorded completed_created completed_exchanged)

lemma finish_success:
  assumes "pi_fingerprint p = request_fingerprint rq"
  shows "ends (\<lambda>w. recorded_response (w_store w) rq)
     (finish_idempotent_allocation ax True rq (Pending_Allocation p) res w)"
  unfolding finish_idempotent_allocation_def idempotent_allocation_preparation.case assms Let_def
  by (intro ends_rules recover_success) (auto intro: completed_exchanged)

lemma ends_preparation:
  assumes "prepared_ok rq w (Some preparation)"
    and "\<And>response. preparation = Replay response \<Longrightarrow> recorded_response (w_store w) rq response \<Longrightarrow> ends Q (f response w)"
    and "\<And>p. preparation = Pending_Allocation p \<Longrightarrow> pi_fingerprint p = request_fingerprint rq \<Longrightarrow> ends Q (g preparation w)"
  shows "ends Q ((case preparation of Replay response \<Rightarrow> f response | _ \<Rightarrow> g preparation) w)"
  using assms by (auto simp: prepared_ok_def split: idempotent_allocation_preparation.split)

lemma allocate_success:
  assumes "idempotency_enabled rq"
  shows "ends (\<lambda>w. pred_option (recorded_response (w_store w) rq))
     (allocate_timestamps_with_cancellation ax fuel True cancellable rq w)"
proof -
  have prepared: "prepared_ok rq w2 p" if "prepare_idempotent_allocation ax fuel True rq w1 = (w2, Inr p)" for w1 w2 p
    using endsD [OF prepare_loop_success, of ax rq fuel w1 w2 p] that assms
    by (simp add: prepare_idempotent_allocation_def)
  have finished: "recorded_response (w_store w2) rq r"
    if "finish_idempotent_allocation ax True rq (Pending_Allocation p) res w1 = (w2, Inr r)"
      and "pi_fingerprint p = request_fingerprint rq" for w1 w2 p res r
    using endsD [OF finish_success [OF that(2)] that(1)] .
  show ?thesis unfolding allocate_timestamps_with_cancellation_def
    apply (intro ends_bnd_service ends_bnd_done)
    apply (rule ends_bnd)
    subgoal for sv w2 p
      using prepared [of w w2 p]
      by (auto simp: prepared_ok_def intro!: ends_rules intro: finished
          split: option.split idempotent_allocation_preparation.split)
    done
qed

text \<open>
  C35: with a client request id a success is never lost: when an allocation answers, whatever other
  requests, cleanups and workers did in between, the record of its id is at that moment completed with
  exactly this answer (generator, epoch, route version and ranges).
\<close>
theorem success_is_recorded:
  assumes "allocate_timestamps_with_cancellation ax fuel True cancellable rq w = (w', Inr (Some response))"
    and "idempotency_enabled rq"
  shows "recorded_response (w_store w') rq response"
  using endsD [OF allocate_success [OF assms(2)] assms(1)] by simp

subsection \<open>A retry finds the recorded answer\<close>

definition keeps_record :: "surroundings \<Rightarrow> allocate_request \<Rightarrow> memory_store \<Rightarrow> bool" where
  \<comment> \<open>the others leave the record of the request as it is in this store\<close>
  "keeps_record ax rq s \<longleftrightarrow> (\<forall>i sv s1.
     ms_load_request_record s1 (rq_timeline_key rq) (rq_client_request_id rq)
       = ms_load_request_record s (rq_timeline_key rq) (rq_client_request_id rq)
     \<longrightarrow> ms_load_request_record (snd (ax_others ax i (sv, s1))) (rq_timeline_key rq) (rq_client_request_id rq)
       = ms_load_request_record s (rq_timeline_key rq) (rq_client_request_id rq))"

lemma create_over_record:
  assumes "ms_load_request_record s tk cid = Inr (Some x)"
  shows "ms_create_request_record tk cid (pending_request_record fp now_ms) s = (s, Inl MetadataAlreadyExists)"
  using assms
  by (auto simp: ms_create_request_record_def ms_load_request_record_def and_then_def create_entry_def
      pending_request_record_def validate_request_schema_def CURRENT_METADATA_SCHEMA_VERSION_def Let_def
      split: option.splits if_splits sum.splits)

lemma recorded_completed:
  assumes "recorded_response s rq response" "rs_timeline_key response = rq_timeline_key rq"
  obtains r rv where "ms_load_request_record s (rq_timeline_key rq) (rq_client_request_id rq) = Inr (Some (r, rv))"
    "validate_idempotent_record_fingerprint rq r = Inr ()"
    "completed_response (rq_timeline_key rq) r = Inr (Some response)"
  using assms
  by (auto simp: recorded_response_def completed_response_def intro!: that split: sum.splits option.splits)

lemma replay:
  assumes "recorded_response (w_store w) rq response" "rs_timeline_key response = rq_timeline_key rq"
    and keep: "keeps_record ax rq (w_store w)"
  shows "\<exists>w'. prepare_loop ax rq (Suc n) w = (w', Inr (Some (Replay response)))
    \<and> (w_service w', w_store w') =
        ax_others ax (w_tick w + 2) (ax_others ax (w_tick w + 1) (w_service w, w_store w))"
proof -
  let ?load = "\<lambda>s. ms_load_request_record s (rq_timeline_key rq) (rq_client_request_id rq)"
  obtain r rv where r: "?load (w_store w) = Inr (Some (r, rv))" "validate_idempotent_record_fingerprint rq r = Inr ()"
    "completed_response (rq_timeline_key rq) r = Inr (Some response)"
    using recorded_completed [OF assms(1,2)] .
  obtain sv1 s1 where o1: "ax_others ax (w_tick w + 1) (w_service w, w_store w) = (sv1, s1)" by fastforce
  obtain sv2 s2 where o2: "ax_others ax (w_tick w + 2) (sv1, s1) = (sv2, s2)" by fastforce
  have l1: "?load s1 = ?load (w_store w)"
    using keep o1 unfolding keeps_record_def by (metis snd_conv)
  then have l2: "?load s2 = ?load (w_store w)"
    using keep o2 unfolding keeps_record_def by (metis snd_conv)
  show ?thesis
    using r l1 l2 o1 o2
    by (simp add: bnd_def clock_now_ms_def result_of_def create_request_record_def on_store_eq pause_def tick_def
        create_over_record load_request_record_def done_with_def ret_def)
qed

lemma recorded_same_request:
  assumes "rq_timeline_key rq' = rq_timeline_key rq" "rq_client_request_id rq' = rq_client_request_id rq"
    "rq_count rq' = rq_count rq"
  shows "recorded_response s rq' = recorded_response s rq"
proof -
  have "validate_idempotent_record_fingerprint rq' = validate_idempotent_record_fingerprint rq"
    using assms by (intro ext) (simp add: validate_idempotent_record_fingerprint_def Let_def)
  then show ?thesis using assms by (intro ext) (simp add: recorded_response_def split: sum.split option.split)
qed

text \<open>
  C34: a retry returns the first answer and draws no timestamps. After an allocation with a client request id
  has answered, a request with the same timeline, id and count is answered with the same generator, epoch,
  route version and ranges for as long as the record is kept, even when it names another epoch or route
  version, and all that happens to the worker and the store meanwhile is what the others do.
\<close>
theorem retry_returns_first_answer:
  assumes first: "allocate_timestamps_with_cancellation ax fuel True cancellable rq w = (w1, Inr (Some response))"
    and "idempotency_enabled rq" "rs_timeline_key response = rq_timeline_key rq"
    and same: "rq_timeline_key rq' = rq_timeline_key rq" "rq_client_request_id rq' = rq_client_request_id rq"
      "rq_count rq' = rq_count rq"
    and kept: "ms_load_request_record (w_store w2) (rq_timeline_key rq) (rq_client_request_id rq)
        = ms_load_request_record (w_store w1) (rq_timeline_key rq) (rq_client_request_id rq)"
    and "keeps_record ax' rq' (w_store w2)" "validate_allocation (sv_config (w_service w2)) rq' = Inr ()"
  shows "\<exists>w3. allocate_timestamps_with_cancellation ax' (Suc n) True cancellable' rq' w2 = (w3, Inr (Some response))
     \<and> (w_service w3, w_store w3) =
         ax_others ax' (w_tick w2 + 2) (ax_others ax' (w_tick w2 + 1) (w_service w2, w_store w2))"
proof -
  have "recorded_response (w_store w1) rq response"
    using endsD [OF allocate_success [OF assms(2)] first] by simp
  then have "recorded_response (w_store w2) rq' response"
    unfolding recorded_same_request [OF same] by (simp add: recorded_response_def kept)
  from replay [OF this _ assms(8), of n] same(1) assms(3) obtain w3 where
    "prepare_loop ax' rq' (Suc n) w2 = (w3, Inr (Some (Replay response)))"
    "(w_service w3, w_store w3) = ax_others ax' (w_tick w2 + 2) (ax_others ax' (w_tick w2 + 1) (w_service w2, w_store w2))"
    by auto
  moreover have "idempotency_enabled rq'" using assms(2) same(2) by (simp add: idempotency_enabled_def)
  ultimately show ?thesis using assms(9)
    by (simp add: allocate_timestamps_with_cancellation_def prepare_idempotent_allocation_def bnd_def get_service_def
        done_with_def ret_def del: prepare_loop.simps)
qed

subsection \<open>Revisions are used again\<close>

definition clock_at :: "u64 \<Rightarrow> surroundings" where
  \<comment> \<open>nobody else acts, and the clock shows this time\<close>
  "clock_at t = quiet_surroundings \<lparr> ax_now := \<lambda>_. t \<rparr>"

definition retried_request :: allocate_request where
  "retried_request = \<lparr> rq_timeline_key = ''orders'', rq_count = 3, rq_expected_epoch = 1,
     rq_expected_route_version = 1, rq_client_request_id = ''r1'' \<rparr>"

definition first_pending :: pending_idempotent_allocation where
  "first_pending = \<lparr> pi_revision = 1, pi_fingerprint = request_fingerprint retried_request \<rparr>"

definition answer_with :: "u64 \<Rightarrow> allocate_response" where
  "answer_with t = \<lparr> rs_timeline_key = ''orders'', rs_generator_id = 7, rs_epoch = 1, rs_route_version = 1,
     rs_ranges = [\<lparr> rg_start_tso = t, rg_end_tso = t + 2 \<rparr>] \<rparr>"

abbreviation the_key :: string where "the_key \<equiv> request_key [] ''orders'' ''r1''"

lemma quiet_store:
  "on_store (clock_at t) f w = (case f (w_store w) of (s, r) \<Rightarrow> (tick w \<lparr> w_store := s \<rparr>, r))"
  by (simp add: on_store_eq pause_def clock_at_def quiet_surroundings_def tick_def)

lemma small_revision: "(1 :: u64) AND LEGACY_REQUEST_REVISION_FLAG = 0" "(1 :: u64) AND NOT LEGACY_REQUEST_REVISION_FLAG = 1"
proof -
  show "(1 :: u64) AND LEGACY_REQUEST_REVISION_FLAG = 0"
    by (intro bit_word_eqI) (auto simp: flag_bit bit_simps)
  then show "(1 :: u64) AND NOT LEGACY_REQUEST_REVISION_FLAG = 1" by (rule plain_revision(1))
qed

lemma single_record:
  assumes "rr_schema_version r = 1"
  shows "ms_request_records s = [] \<Longrightarrow> \<exists>s'. ms_create_request_record ''orders'' ''r1'' r s = (s', Inr 1)
      \<and> ms_request_records s' = [(the_key, (r, 1))]"
    "ms_request_records s = [] \<Longrightarrow> ms_load_request_record s ''orders'' ''r1'' = Inr None"
    "ms_request_records s = [] \<Longrightarrow>
       ms_compare_exchange_request_record ''orders'' ''r1'' 1 r s = (s, Inl (request_not_found ''orders'' ''r1''))"
    "ms_request_records s = [(the_key, (r, rv))] \<Longrightarrow> ms_load_request_record s ''orders'' ''r1'' = Inr (Some (r, rv))"
    "ms_request_records s = [(the_key, (r0, 1))] \<Longrightarrow>
       \<exists>s'. ms_compare_delete_request_record ''orders'' ''r1'' 1 s = (s', Inr ()) \<and> ms_request_records s' = []"
    "ms_request_records s = [(the_key, (r0, 1))] \<Longrightarrow>
       \<exists>s'. ms_compare_exchange_request_record ''orders'' ''r1'' 1 r s = (s', Inr 2)
         \<and> ms_request_records s' = [(the_key, (r, 2))]"
  using assms
  by (auto simp: ms_create_request_record_def ms_load_request_record_def ms_compare_exchange_request_record_def
      ms_compare_delete_request_record_def validate_request_schema_def CURRENT_METADATA_SCHEMA_VERSION_def
      stamp_request_def create_entry_def Let_def and_then_def small_revision request_keys_apart)

definition at_revision_one :: "world \<Rightarrow> request_record \<Rightarrow> bool" where
  "at_revision_one w r \<longleftrightarrow> ms_request_records (w_store w) = [(the_key, (r, 1))]
     \<and> cfg_request_record_pending_timeout_ms (sv_config (w_service w)) = 300000"

abbreviation pending_at :: "u64 \<Rightarrow> request_record" where
  "pending_at t \<equiv> pending_request_record (request_fingerprint retried_request) t"

lemmas request_run = bnd_def clock_now_ms_def result_of_def ret_def throw_def done_with_def quiet_store
  create_request_record_def load_request_record_def compare_delete_request_record_def compare_exchange_request_record_def

lemma pending_fields:
  "rr_schema_version (pending_at t) = 1" "rr_state (pending_at t) = Pending" "rr_updated_at_ms (pending_at t) = t"
  "validate_idempotent_record_fingerprint retried_request (pending_at t) = Inr ()"
  "completed_response k (pending_at t) = Inr None"
  "rr_schema_version (completed_request_record fp response t) = 1"
  by (simp_all add: pending_request_record_def completed_request_record_def request_fingerprint_def
      validate_idempotent_record_fingerprint_def completed_response_def)

lemma retried_fields [simp]: "rq_timeline_key retried_request = ''orders''" "rq_client_request_id retried_request = ''r1''"
  by (simp_all add: retried_request_def)

lemma retried_enabled: "idempotency_enabled retried_request"
proof -
  have "str_trim ''r1'' = ''r1''" by (rule str_trim_visible) (simp_all add: visible_ascii_def)
  then show ?thesis by (simp add: idempotency_enabled_def str_is_blank_def)
qed

lemma clock_at_now [simp]: "ax_now (clock_at t) i = t"
  by (simp add: clock_at_def)

lemma prepare_fresh:
  assumes "ms_request_records (w_store w) = []" "cfg_request_record_pending_timeout_ms (sv_config (w_service w)) = 300000"
  obtains w' where "prepare_loop (clock_at t) retried_request (Suc n) w = (w', Inr (Some (Pending_Allocation first_pending)))"
    "at_revision_one w' (pending_at t)" "w_service w' = w_service w"
proof -
  obtain s' where "ms_create_request_record ''orders'' ''r1'' (pending_at t) (w_store w) = (s', Inr 1)"
    "ms_request_records s' = [(the_key, (pending_at t, 1))]"
    using single_record(1) [OF pending_fields(1) assms(1)] by blast
  then show thesis using assms(2) by (auto simp: request_run first_pending_def at_revision_one_def tick_def intro!: that)
qed

lemma prepare_stale:
  assumes "at_revision_one w (pending_at t0)" "300000 \<le> saturating_sub t t0"
  obtains w' where "prepare_loop (clock_at t) retried_request (Suc (Suc n)) w
      = (w', Inr (Some (Pending_Allocation first_pending)))" "at_revision_one w' (pending_at t)"
proof -
  have w: "ms_request_records (w_store w) = [(the_key, (pending_at t0, 1))]" "cfg_request_record_pending_timeout_ms (sv_config (w_service w)) = 300000"
    using assms(1) by (simp_all add: at_revision_one_def)
  have load: "ms_load_request_record (w_store w) ''orders'' ''r1'' = Inr (Some (pending_at t0, 1))"
    by (rule single_record(4) [OF pending_fields(1) w(1)])
  obtain s' where s': "ms_compare_delete_request_record ''orders'' ''r1'' 1 (w_store w) = (s', Inr ())" "ms_request_records s' = []"
    using single_record(5) [OF pending_fields(1) w(1)] by blast
  have stale: "pending_record_is_stale (sv_config (w_service w)) (pending_at t0) t"
    using assms(2) w(2) by (simp add: pending_record_is_stale_def pending_fields)
  let ?w = "tick (tick (tick (tick w))) \<lparr> w_store := s' \<rparr>"
  have step: "prepare_loop (clock_at t) retried_request (Suc (Suc n)) w = prepare_loop (clock_at t) retried_request (Suc n) ?w"
    by (subst prepare_loop.simps(2))
      (simp add: request_run tick_def create_over_record [OF load] load pending_fields get_service_def stale s'(1)
        del: prepare_loop.simps)
  have "ms_request_records (w_store ?w) = []" "cfg_request_record_pending_timeout_ms (sv_config (w_service ?w)) = 300000"
    using s'(2) w(2) by (simp_all add: tick_def)
  then show thesis by (rule prepare_fresh [of ?w t n]) (rule that, simp_all only: step)
qed

lemma finish_fails:
  assumes "at_revision_one w r"
  shows "\<exists>w'. finish_idempotent_allocation (clock_at t) True retried_request (Pending_Allocation first_pending) (Inl e) w
        = (w', Inl e) \<and> ms_request_records (w_store w') = [] \<and> cfg_request_record_pending_timeout_ms (sv_config (w_service w')) = 300000"
proof -
  have w: "ms_request_records (w_store w) = [(the_key, (r, 1))]" "cfg_request_record_pending_timeout_ms (sv_config (w_service w)) = 300000"
    using assms by (simp_all add: at_revision_one_def)
  from single_record(5) [OF pending_fields(1) w(1)] w(2) show ?thesis
    by (auto simp: finish_idempotent_allocation_def request_run first_pending_def tick_def)
qed

lemma finish_completes:
  assumes "ms_request_records (w_store w) = [(the_key, (r, 1))]"
  obtains w' where "finish_idempotent_allocation (clock_at t) True retried_request (Pending_Allocation first_pending)
      (Inr response) w = (w', Inr response)" "w_service w' = w_service w"
proof -
  from single_record(6) [OF pending_fields(6) assms]
  obtain s' where "ms_compare_exchange_request_record ''orders'' ''r1'' 1
      (completed_request_record (request_fingerprint retried_request) response t) (w_store w) = (s', Inr 2)" by blast
  then show thesis
    by (intro that [of "tick (tick w) \<lparr> w_store := s' \<rparr>"])
      (simp_all add: finish_idempotent_allocation_def request_run first_pending_def tick_def Let_def)
qed

lemma finish_missing:
  assumes "ms_request_records (w_store w) = []" "cfg_request_record_pending_timeout_ms (sv_config (w_service w)) = 300000"
  obtains w' where "finish_idempotent_allocation (clock_at t) True retried_request (Pending_Allocation first_pending)
      (Inr response) w = (w', Inr response)"
    "at_revision_one w' (completed_request_record (request_fingerprint retried_request) response t)"
proof -
  let ?r = "completed_request_record (request_fingerprint retried_request) response t"
  obtain s' where "ms_create_request_record ''orders'' ''r1'' ?r (w_store w) = (s', Inr 1)"
    "ms_request_records s' = [(the_key, (?r, 1))]"
    using single_record(1) [OF pending_fields(6) assms(1)] by blast
  then show thesis
    using assms single_record(2,3) [OF pending_fields(6) assms(1)] that
    by (simp add: finish_idempotent_allocation_def recover_idempotent_completion_after_cas_failure_def request_run
        first_pending_def tick_def Let_def lost_write_def request_not_found_def at_revision_one_def)
qed

text \<open>
  C36: two attempts with one client request id can both succeed with different timestamps. The store numbers
  the revisions of a record from 1 again when the record has been deleted. A first attempt is slow, its
  pending record is deleted as stale by a second one and that by a third, all three hold revision 1. The third
  fails and deletes the record, the second completes by creating it anew, at revision 1, and answers; then the
  first overwrites the completed record, whose revision is the one it holds, and answers differently.
\<close>
theorem reused_revision_answers_twice:
  "\<exists>w1 w2 w3 w4 w5 w6.
     prepare_idempotent_allocation (clock_at 0) 2 True retried_request quiet_world
       = (w1, Inr (Some (Pending_Allocation first_pending)))
     \<and> prepare_idempotent_allocation (clock_at 300000) 2 True retried_request w1
       = (w2, Inr (Some (Pending_Allocation first_pending)))
     \<and> prepare_idempotent_allocation (clock_at 600000) 2 True retried_request w2
       = (w3, Inr (Some (Pending_Allocation first_pending)))
     \<and> finish_idempotent_allocation (clock_at 600000) True retried_request (Pending_Allocation first_pending)
         (Inl RequestCancelled) w3 = (w4, Inl RequestCancelled)
     \<and> finish_idempotent_allocation (clock_at 600000) True retried_request (Pending_Allocation first_pending)
         (Inr (answer_with 42)) w4 = (w5, Inr (answer_with 42))
     \<and> finish_idempotent_allocation (clock_at 600000) True retried_request (Pending_Allocation first_pending)
         (Inr (answer_with 17)) w5 = (w6, Inr (answer_with 17))"
proof -
  have p: "prepare_idempotent_allocation ax 2 True retried_request = prepare_loop ax retried_request (Suc (Suc 0))" for ax
    using retried_enabled by (simp add: prepare_idempotent_allocation_def numeral_2_eq_2 fun_eq_iff)
  have q: "ms_request_records (w_store quiet_world) = []" "cfg_request_record_pending_timeout_ms (sv_config (w_service quiet_world)) = 300000"
    by (simp_all add: quiet_world_def memory_store_new_def service_new_def tso_config_default_def
        DEFAULT_REQUEST_RECORD_PENDING_TIMEOUT_MS_def)
  have late: "300000 \<le> saturating_sub 300000 (0 :: u64)" "300000 \<le> saturating_sub 600000 (300000 :: u64)"
    by (simp_all add: saturating_sub_def)
  obtain w1 where w1: "prepare_loop (clock_at 0) retried_request (Suc (Suc 0)) quiet_world
      = (w1, Inr (Some (Pending_Allocation first_pending)))" "at_revision_one w1 (pending_at 0)"
    using prepare_fresh [OF q] by blast
  obtain w2 where w2: "prepare_loop (clock_at 300000) retried_request (Suc (Suc 0)) w1
      = (w2, Inr (Some (Pending_Allocation first_pending)))" "at_revision_one w2 (pending_at 300000)"
    by (rule prepare_stale [OF w1(2) late(1)])
  obtain w3 where w3: "prepare_loop (clock_at 600000) retried_request (Suc (Suc 0)) w2
      = (w3, Inr (Some (Pending_Allocation first_pending)))" "at_revision_one w3 (pending_at 600000)"
    by (rule prepare_stale [OF w2(2) late(2)])
  obtain w4 where w4: "finish_idempotent_allocation (clock_at 600000) True retried_request (Pending_Allocation first_pending)
      (Inl RequestCancelled) w3 = (w4, Inl RequestCancelled)"
    "ms_request_records (w_store w4) = []" "cfg_request_record_pending_timeout_ms (sv_config (w_service w4)) = 300000"
    using finish_fails [OF w3(2)] by blast
  obtain w5 where w5: "finish_idempotent_allocation (clock_at 600000) True retried_request (Pending_Allocation first_pending)
      (Inr (answer_with 42)) w4 = (w5, Inr (answer_with 42))"
    "at_revision_one w5 (completed_request_record (request_fingerprint retried_request) (answer_with 42) 600000)"
    by (rule finish_missing [OF w4(2,3)])
  obtain w6 where w6: "finish_idempotent_allocation (clock_at 600000) True retried_request (Pending_Allocation first_pending)
      (Inr (answer_with 17)) w5 = (w6, Inr (answer_with 17))"
    using finish_completes [of w5] w5(2) unfolding at_revision_one_def by blast
  show ?thesis unfolding p using w1(1) w2(1) w3(1) w4(1) w5(1) w6 by blast
qed

subsection \<open>Runs\<close>

definition serving_world :: "memory_store \<Rightarrow> world" where
  "serving_world s = \<lparr> w_service = serving_service, w_store = s, w_tick = 0 \<rparr>"

lemma quiet_clock: "clock_at 5 = quiet_surroundings"
  by (simp add: clock_at_def quiet_surroundings_def)

lemma retried_valid: "validate_allocation (sv_config serving_service) retried_request = Inr ()"
proof -
  have "str_trim ''r1'' = ''r1''" "str_trim ''orders'' = ''orders''"
    by (rule str_trim_visible; simp add: visible_ascii_def)+
  then show ?thesis
    by (simp add: validate_allocation_def and_then_def validate_timeline_key_def validate_client_request_id_def str_is_blank_def
        MAX_TIMELINE_KEY_BYTES_def MAX_CLIENT_REQUEST_ID_BYTES_def retried_request_def serving_fields)
qed

lemma retried_run:
  obtains w where "allocate_timestamps_with_cancellation quiet_surroundings 2 True True retried_request
      (serving_world memory_store_new) = (w, Inr (Some served_response))"
    "sv_config (w_service w) = sv_config serving_service"
proof -
  let ?w = "serving_world memory_store_new"
  have config: "cfg_request_record_pending_timeout_ms (sv_config serving_service) = 300000"
    by (simp add: serving_fields sample_held_def after_creation_def hold_lease_def mark_generator_ready_for_lease_def
        sample_generator) (simp add: sample_service_def service_new_def tso_config_default_def
        DEFAULT_REQUEST_RECORD_PENDING_TIMEOUT_MS_def)
  have w: "ms_request_records (w_store ?w) = []" "cfg_request_record_pending_timeout_ms (sv_config (w_service ?w)) = 300000"
    using config by (simp_all add: serving_world_def memory_store_new_def)
  obtain w1 where w1: "prepare_loop quiet_surroundings retried_request (Suc (Suc 0)) ?w
      = (w1, Inr (Some (Pending_Allocation first_pending)))" "at_revision_one w1 (pending_at 5)" "w_service w1 = serving_service"
    using prepare_fresh [OF w, of 5 "Suc 0"] unfolding quiet_clock by (auto simp: serving_world_def)
  obtain w2 where w2: "allocate_timestamps_after_validation quiet_surroundings (Suc (Suc 0)) True retried_request (Suc (Suc 0)) w1
      = (w2, Inr (Some served_response))" "w_store w2 = w_store w1" "sv_config (w_service w2) = sv_config serving_service"
    using serving_run [OF w1(3), of retried_request "Suc 0" True "Suc 0"] w1(3) by (auto simp: retried_request_def)
  obtain w3 where w3: "finish_idempotent_allocation quiet_surroundings True retried_request (Pending_Allocation first_pending)
      (Inr served_response) w2 = (w3, Inr served_response)" "w_service w3 = w_service w2"
    using finish_completes [of w2 "pending_at 5" 5 served_response] w1(2) w2(2) unfolding quiet_clock at_revision_one_def by auto
  have "allocate_timestamps_with_cancellation quiet_surroundings (Suc (Suc 0)) True True retried_request ?w
      = (w3, Inr (Some served_response))"
    using w1(1) w2(1) w3(1) retried_valid retried_enabled
    by (simp add: allocate_timestamps_with_cancellation_def prepare_idempotent_allocation_def bnd_def get_service_def
        done_with_def result_of_def ret_def serving_world_def
        del: prepare_loop.simps allocate_timestamps_after_validation.simps)
  then show thesis using that w2(3) w3(2) by (simp add: numeral_2_eq_2)
qed

theorem success_is_recorded_witness:
  "\<exists>w. allocate_timestamps_with_cancellation quiet_surroundings 2 True True retried_request
      (serving_world memory_store_new) = (w, Inr (Some served_response))
    \<and> recorded_response (w_store w) retried_request served_response"
proof -
  obtain w where "allocate_timestamps_with_cancellation quiet_surroundings 2 True True retried_request
      (serving_world memory_store_new) = (w, Inr (Some served_response))" by (rule retried_run)
  with success_is_recorded [OF this retried_enabled] show ?thesis by blast
qed

theorem retry_returns_first_answer_witness:
  "\<exists>w w'. allocate_timestamps_with_cancellation quiet_surroundings 2 True True retried_request
      (serving_world memory_store_new) = (w, Inr (Some served_response))
    \<and> allocate_timestamps_with_cancellation quiet_surroundings 1 True True retried_request w = (w', Inr (Some served_response))"
proof -
  obtain w where w: "allocate_timestamps_with_cancellation quiet_surroundings 2 True True retried_request
      (serving_world memory_store_new) = (w, Inr (Some served_response))"
    "sv_config (w_service w) = sv_config serving_service" by (rule retried_run)
  have "keeps_record quiet_surroundings retried_request (w_store w)" by (simp add: keeps_record_def quiet_surroundings_def)
  then show ?thesis
    using retry_returns_first_answer [OF w(1) retried_enabled, of retried_request w quiet_surroundings 0 True]
      w retried_valid by (auto simp: served_response_def)
qed

lemma serving_answer:
  "\<exists>w. allocate_timestamps quiet_surroundings 1 supported plain_request (serving_world s)
     = (w, Inr (Some served_response)) \<and> w_store w = s"
proof -
  have "strip_seqs ws [] = []" for ws
    by (subst strip_seqs.simps) (auto simp: find_Some_iff split: option.split)
  then have blank: "\<not> idempotency_enabled plain_request"
    by (simp add: idempotency_enabled_def plain_request_def str_is_blank_def str_trim_def)
  have "str_trim ''orders'' = ''orders''" by (rule str_trim_visible) (simp_all add: visible_ascii_def)
  then have valid: "validate_allocation (sv_config serving_service) plain_request = Inr ()"
    by (simp add: validate_allocation_def and_then_def validate_timeline_key_def validate_client_request_id_def str_is_blank_def
        MAX_TIMELINE_KEY_BYTES_def plain_request_def serving_fields)
  have quiet: "uncancelled quiet_surroundings = quiet_surroundings"
    by (simp add: uncancelled_def quiet_surroundings_def)
  obtain w where "allocate_timestamps_after_validation quiet_surroundings (Suc 0) False plain_request (Suc 0) (serving_world s)
      = (w, Inr (Some served_response))" "w_store w = s"
    using serving_run [of "serving_world s" plain_request 0 False 0] by (auto simp: serving_world_def plain_request_def)
  with blank valid show ?thesis
    by (simp add: allocate_timestamps_def quiet allocate_timestamps_with_cancellation_def prepare_idempotent_allocation_def
        bnd_def get_service_def done_with_def result_of_def ret_def serving_world_def finish_idempotent_allocation_def
        del: allocate_timestamps_after_validation.simps)
qed

text \<open>
  C37: a worker answers from its cache without asking the store. While it holds the lease of the generator, a
  request for the cached route is answered whatever the store says of the timeline, so after a transfer to
  another worker the old owner goes on allocating, in parallel with the new one, until the notice of the new
  route reaches it.
\<close>
theorem moved_timeline_still_served:
  "\<forall>s. \<exists>w. allocate_timestamps quiet_surroundings 1 supported plain_request (serving_world s)
     = (w, Inr (Some served_response)) \<and> w_store w = s"
  by (intro allI serving_answer)

end
