(* ===== verification/Unfenced.thy ===== *)
theory Unfenced
  imports Fencing Idempotency
begin

text \<open>
  The case the fence does not cover: a lease that expires while an allocation waits for it. The run goes
  through the entry point of the service, from a cached timeline to the timestamps that are drawn.
\<close>

subsection \<open>The worker, its store and its clock\<close>

definition expiring_surroundings :: surroundings where
  \<comment> \<open>nobody else acts, and the clock passes the expiry of the lease right after it was adopted\<close>
  "expiring_surroundings = \<lparr> ax_others = (\<lambda>_ x. x), ax_now = (\<lambda>i. if i < 23 then 100 else 3005),
     ax_cancelled = (\<lambda>_. False), ax_instant = (\<lambda>_. 0),
     ax_idle = (\<lambda>_ _. False), ax_load_timeout = (\<lambda>_. False), ax_joined = (\<lambda>_ _. None), ax_joined_route = (\<lambda>_ _. None),
     ax_race = (\<lambda>_ _ v. v), ax_flight = (\<lambda>_ _. False) \<rparr>"

definition owned_record :: timeline_record where
  "owned_record = \<lparr> tl_schema_version = 1, tl_route = tst_route owned_timeline, tl_state = Active,
     tl_recovery_floor_tso = None, tl_issued_upper_bound = None, tl_last_graceful_issued = None,
     tl_lease_expire_at_ms = None, tl_updated_at_ms = 0 \<rparr>"

definition expiring_store :: memory_store where
  \<comment> \<open>the generator is still the worker's own, under a lease that ends at 3005\<close>
  "expiring_store = memory_store_new
     \<lparr> ms_generators := [(7, (sample_record, 1))], ms_records := [(''orders'', (owned_record, 1))] \<rparr>"

definition unleased_service :: tso_service where
  \<comment> \<open>the timeline is cached, and the lease is not in memory\<close>
  "unleased_service = sample_service
     \<lparr> sv_timeline_states := [(1, owned_timeline)],
       sv_timeline_runtime := fst (insert_timeline (\<lambda>_. False) ''orders'' 1 (timeline_cache_new 10)) \<rparr>"

definition expiring_world :: world where
  "expiring_world = \<lparr> w_service = unleased_service, w_store = expiring_store, w_tick = 0 \<rparr>"

definition adopted_generator :: generator where
  "adopted_generator = generator_with_layout 7 DEFAULT_TIMESTAMP_LAYOUT \<lparr> gn_next_index := 217088, gn_ready_lease_token := 1 \<rparr>"

definition unfenced_response :: allocate_response where
  "unfenced_response = \<lparr> rs_timeline_key = ''orders'', rs_generator_id = 7, rs_epoch = 1, rs_route_version = 1,
     rs_ranges = [\<lparr> rg_start_tso = 50415548416, rg_end_tso = 50415548418 \<rparr>] \<rparr>"

definition like_sample :: "tso_service \<Rightarrow> bool" where
  "like_sample sv \<longleftrightarrow> sv_config sv = sv_config sample_service \<and> sv_instance_id sv = ''worker''
     \<and> sv_timeline_states sv = [(1, owned_timeline)] \<and> \<not> sv_shutdown_gate sv"

lemma sample_config:
  "cfg_timestamp_layout (sv_config sample_service) = DEFAULT_TIMESTAMP_LAYOUT"
  "cfg_advertise_endpoint (sv_config sample_service) = ''default-endpoint:50051''"
  "cfg_max_future_borrow_ms (sv_config sample_service) = 10" "cfg_max_clock_rewind_ms (sv_config sample_service) = 30000"
  "\<not> cfg_max_batch_per_request (sv_config sample_service) < 3" "cfg_generator_ownership_modulo (sv_config sample_service) = 1"
  by (simp_all add: sample_service_def service_new_def tso_config_default_def DEFAULT_ADVERTISE_ENDPOINT_def
      DEFAULT_MAX_BATCH_PER_REQUEST_def)

lemma sample_owner:
  assumes "like_sample sv" "sv_generator_runtime sv = sv_generator_runtime sample_service"
  shows "is_local_generator_owner sv sample_record" "owns_generator_id sv 7"
    "held 7 sv = None" "ensure_generator_id_range sv 7 = Inr ()"
proof -
  have own: "owns_generator_id sample_service 7"
    by (simp add: owns_generator_id_def sample_service_def service_new_def tso_config_default_def
        effective_generator_ownership_remainders_def)
  show "is_local_generator_owner sv sample_record"
    using assms(1) by (simp add: is_local_generator_owner_def is_local_endpoint_def sample_record_fields like_sample_def)
      (simp add: sample_record_def new_generator_record_def endpoints_match_refl)
  show "owns_generator_id sv 7" using own assms(1) by (simp add: owns_generator_id_def like_sample_def)
  show "held 7 sv = None"
    using assms(2) by (simp add: lease_state_def) (simp add: sample_service_def runtime_with_layout_def)
  show "ensure_generator_id_range sv 7 = Inr ()"
    using assms(1) by (simp add: ensure_generator_id_range_def like_sample_def sample_config) (simp add: alloc_eval)
qed

lemma expiring_loads:
  "ms_load_generator expiring_store 7 = Inr (Some (sample_record, 1))"
  "ms_load_timeline expiring_store ''orders'' = Inr (Some (owned_record, 1))"
  by (simp_all add: ms_load_generator_def ms_load_timeline_def expiring_store_def validate_generator_schema_def
      validate_timeline_schema_def CURRENT_METADATA_SCHEMA_VERSION_def sample_record_fields)
    (simp add: owned_record_def)

lemma sample_adoption:
  assumes "like_sample sv0" "sv_generator_runtime sv0 = sv_generator_runtime sample_service"
  obtains sv where "install_lease 7 (generator_recovery_floor_tso sample_record)
       (lease_state_of 1 sample_record 3005 (generator_recovery_floor_tso sample_record)) sv0 = (sv, Inr ())"
    "held 7 sv = Some (lease_state_of 1 sample_record 3005 (generator_recovery_floor_tso sample_record))"
    "lookup_generator sv 7 = Inr adopted_generator" "like_sample sv"
proof -
  let ?g = "generator_with_layout 7 DEFAULT_TIMESTAMP_LAYOUT"
  let ?l = "lease_state_of 1 sample_record 3005 (Some 1761624063)"
  have f: "generator_recovery_floor_tso sample_record = Some 1761624063"
    by (simp add: generator_recovery_floor_tso_def sample_record_fields)
  have i: "init_after_floor 1761624063 ?g = (?g \<lparr> gn_next_index := 217088 \<rparr>, Inr ())"
    by (simp add: init_after_floor_def alloc_eval)
  have at: "generator_at (sv_generator_runtime sv0) 7 = Inr ?g" using assms(2) sample_generator by simp
  have l: "lookup_generator sv0 7 = Inr ?g"
    using sample_owner(4) [OF assms] at by (simp add: lookup_generator_def)
  define sv1 where "sv1 = on_runtime (set_generator 7 (?g \<lparr> gn_next_index := 217088 \<rparr>)) sv0"
  define sv where "sv = clear_ownership_drift_of 7 (sv1 \<lparr> sv_generator_runtime :=
    upsert_lease 7 ?l (set_generator 7 adopted_generator (sv_generator_runtime sv1)) \<rparr>)"
  have at1: "generator_at (sv_generator_runtime sv1) 7 = Inr (?g \<lparr> gn_next_index := 217088 \<rparr>)"
    unfolding sv1_def using generator_at_set [OF at] by (simp add: on_runtime_def)
  have "install_lease 7 (Some 1761624063) ?l sv0 = (sv, Inr ())"
    using l i at1 by (simp add: install_lease_def init_generator_def hold_lease_def mark_generator_ready_for_lease_def
        sv_def mark_ready_for_lease_def lease_state_of_def sample_record_fields adopted_generator_def flip: sv1_def)
  moreover have "held 7 sv = Some ?l" by (simp add: sv_def)
  moreover have "lookup_generator sv 7 = Inr adopted_generator"
    using generator_at_set [OF at1] sample_owner(4) [OF assms]
    by (simp add: sv_def lookup_generator_def ensure_generator_id_range_def sv1_def on_runtime_def)
  moreover have "like_sample sv"
    using assms(1) by (simp add: like_sample_def sv_def sv1_def on_runtime_def clear_ownership_drift_of_def)
  ultimately show thesis using that f by simp
qed

subsection \<open>The run\<close>

lemma expiring_steps:
  "pause expiring_surroundings w = (tick w, Inr ())" "check_request_cancellation expiring_surroundings w = (tick w, Inr ())"
  "clock_now_ms expiring_surroundings w = (tick w, Inr (if w_tick w < 23 then 100 else 3005))"
  "uncancelled expiring_surroundings = expiring_surroundings" "alone expiring_surroundings"
  by (simp_all add: pause_def check_request_cancellation_def clock_now_ms_def expiring_surroundings_def tick_def
      uncancelled_def alone_def)

lemma expiring_read:
  "like_sample (w_service w) \<Longrightarrow> read_state expiring_surroundings 1 w = (tick w, Inr owned_timeline)"
  by (simp add: read_state_def with_state_def bnd_def expiring_steps on_service_def like_sample_def)

lemma expiring_metadata:
  assumes "like_sample (w_service w)" "w_store w = expiring_store"
  shows "cached_timeline_still_matches_metadata expiring_surroundings ''orders'' (tst_route owned_timeline) Active w
    = (w \<lparr> w_tick := w_tick w + 6 \<rparr>, Inr True)"
proof -
  have own: "is_local_generator_owner (w_service w) sample_record"
    using assms(1) by (simp add: is_local_generator_owner_def is_local_endpoint_def sample_record_fields like_sample_def)
      (simp add: sample_record_def new_generator_record_def endpoints_match_refl)
  have calm: "ax_joined expiring_surroundings i k = None" "\<not> ax_cancelled expiring_surroundings i"
    "\<not> ax_load_timeout expiring_surroundings i" for i k
    by (simp_all add: expiring_surroundings_def)
  have "load_timeline_with_singleflight expiring_surroundings ''orders'' w
      = (w \<lparr> w_tick := w_tick w + 5 \<rparr>, Inr (Some (owned_record, 1)))"
    using assms(2) expiring_loads(2)
    by (simp add: load_timeline_with_singleflight_def load_once_def bnd_def expiring_steps calm acquire_timeline_load_permit_def
        load_timeline_def on_store_eq tick_def numeral_eq_Suc)
  then show ?thesis
    using assms(2) expiring_loads(1) own
    by (simp add: cached_timeline_still_matches_metadata_def bnd_def load_generator_def on_store_eq expiring_steps
        owned_fields get_service_def ret_def tick_def owned_record_def)
qed

lemma unfenced_drawn:
  assumes "like_sample sv" "rq_count rq = 3"
  shows "serve_section (\<lambda>_ v. v) rq 7 3005 None (sv_config sv) (owned_timeline, adopted_generator)
    = ((owned_timeline \<lparr> tst_last_issued_tso := Some 50415548418 \<rparr>, adopted_generator \<lparr> gn_next_index := 6154243 \<rparr>),
       Inr (Served unfenced_response))"
proof -
  have "allocate_after (\<lambda>_ v. v) \<lparr> al_count = 3, al_floor = None, al_now_ms = 3005, al_max_future_borrow_ms = 10,
      al_max_clock_rewind_ms = 30000, al_issued_upper_bound = None \<rparr> adopted_generator
    = (adopted_generator \<lparr> gn_next_index := 6154243 \<rparr>,
       Inr (Allocated [\<lparr> rg_start_tso = 50415548416, rg_end_tso = 50415548418 \<rparr>]))"
    by (simp add: adopted_generator_def alloc_eval allocate_loop.simps
        build_ranges.simps [of _ _ _ 3] build_ranges.simps [of _ _ _ 0])
  with assms show ?thesis
    by (simp add: serve_section_def charge_timeline_quota_def timeline_quota_capacity_for_route_def owned_timeline_def
        like_sample_def sample_config effective_future_borrow_ms_for_timeline_state_def
        effective_future_borrow_ms_for_route_def last_issued_def unfenced_response_def Let_def)
qed

lemma plain_checks:
  "like_sample sv \<Longrightarrow> cached_timeline_checks_new sv plain_request (tst_route owned_timeline) Active
     = \<lparr> ck_owner_matches = True, ck_route_matches_request = True, ck_timeline_ready = True, ck_state = Active \<rparr>"
  by (simp add: cached_timeline_checks_new_def is_local_endpoint_def like_sample_def sample_config owned_fields
      request_matches_timeline_route_def plain_request_def timeline_is_ready_def)

lemma unfenced_serve:
  assumes "like_sample (w_service w)" "lookup_generator (w_service w) 7 = Inr adopted_generator"
    and "w_store w = expiring_store" "23 \<le> w_tick w"
  shows "\<exists>w'. try_serve_timeline_state_handle_with_guard expiring_surroundings (Suc 0) False plain_request 1 7 None True w
      = (w', Inr (Some (Some unfenced_response))) \<and> w_store w' = expiring_store"
proof -
  have locked: "\<exists>v'. serve_locked expiring_surroundings plain_request 7 None 1 3005 v
      = (v', Inr (Inr (Served unfenced_response))) \<and> w_store v' = w_store v" if "w_service v = w_service w" for v
    using that assms(1,2) unfenced_drawn [OF assms(1), of plain_request]
    by (simp add: serve_locked_def on_service_def like_sample_def expiring_surroundings_def plain_request_def Let_def
        on_runtime_def set_state_def tick_def)
  have serve: "\<exists>v'. serve_allocation_from_timeline_state_handle expiring_surroundings (Suc 0) False plain_request 1 7 None v
      = (v', Inr (Some (Some unfenced_response))) \<and> w_store v' = w_store v"
    if "w_service v = w_service w" "23 \<le> w_tick v" for v
    using that locked [of "tick (tick (tick (tick (tick v))))"] assms(1,2) expiring_read
    by (auto simp: serve_allocation_from_timeline_state_handle_def bnd_def get_service_def done_with_def expiring_steps
        acquire_generator_admission_def ret_def Let_def owned_fields tick_def)
  have "rq_timeline_key plain_request = ''orders''" by (simp add: plain_request_def)
  with assms serve [of "tick (tick (tick w) \<lparr> w_tick := w_tick w + 8 \<rparr>)"] expiring_metadata [of "tick (tick w)"]
    expiring_read plain_checks show ?thesis
    by (simp add: try_serve_timeline_state_handle_with_guard_def bnd_def expiring_steps get_service_def Let_def
        can_serve_def matches_local_route_def owned_fields tick_def)
qed

lemma unfenced_cached:
  assumes "w_service w = unleased_service" "w_store w = expiring_store" "w_tick w = 1"
  shows "\<exists>w'. try_allocate_from_cached_timeline expiring_surroundings (Suc 0) False plain_request w
      = (w', Inr (Some (Some unfenced_response))) \<and> w_store w' = expiring_store"
proof -
  obtain c where c: "timeline_handle ''orders'' (sv_timeline_runtime unleased_service) = (c, Some 1)"
    using serving_cache by (auto simp: unleased_service_def serving_service_def)
  let ?sv = "unleased_service \<lparr> sv_timeline_runtime := c \<rparr>"
  have like: "like_sample ?sv" "sv_generator_runtime ?sv = sv_generator_runtime sample_service"
    by (simp_all add: like_sample_def unleased_service_def) (simp_all add: sample_service_def service_new_def)
  obtain sv where sv: "install_lease 7 (generator_recovery_floor_tso sample_record)
       (lease_state_of 1 sample_record 3005 (generator_recovery_floor_tso sample_record)) ?sv = (sv, Inr ())"
    "held 7 sv = Some (lease_state_of 1 sample_record 3005 (generator_recovery_floor_tso sample_record))"
    "lookup_generator sv 7 = Inr adopted_generator" "like_sample sv" by (rule sample_adoption [OF like])
  let ?at = "\<lambda>sv i. \<lparr> w_service = sv, w_store = expiring_store, w_tick = i \<rparr>"
  have h: "cached_handle ''orders'' w = (?at ?sv 1, Inr (Some 1))"
    using assms c by (cases w) (simp add: cached_handle_def on_service_def)
  have now: "ax_now expiring_surroundings i = (if i < 23 then 100 else 3005)" for i by (simp add: expiring_surroundings_def)
  have adopt: "ensure_generator_lease_for_allocation expiring_surroundings (Suc 0) ''orders'' 7 (?at ?sv 9)
      = (?at sv 24, Inr (Some None))"
    using expired_after_adoption [OF expiring_steps(5) sample_owner(4,2,3) [OF like] expiring_loads(1)
        sample_owner(1) [OF like] sample_record_fields(2) _ _ _ sv(1,2), of 9 0 "''orders''"] by (simp add: now)
  have bound: "valid_bound_now expiring_surroundings 7 (?at ?sv (Suc (Suc 0))) = (?at ?sv (Suc (Suc (Suc 0))), Inr None)"
    using no_lease_no_bound(1) [OF sample_owner(3) [OF like]]
    by (simp add: valid_bound_now_def bnd_def expiring_steps get_service_def done_with_def tick_def)
  have batch: "validate_batch_for_route (sv_config unleased_service) 3 (tst_route owned_timeline) = Inr ()"
    using like(1) by (simp add: like_sample_def sample_config validate_batch_for_route_def batch_limit_def owned_timeline_def)
  have rq: "rq_timeline_key plain_request = ''orders''" "rq_count plain_request = 3" by (simp_all add: plain_request_def)
  obtain w' where w': "try_serve_timeline_state_handle_with_guard expiring_surroundings (Suc 0) False plain_request 1 7 None True
      (?at sv 24) = (w', Inr (Some (Some unfenced_response)))" "w_store w' = expiring_store"
    using unfenced_serve [of "?at sv 24"] sv(3,4) by auto
  show ?thesis
    using expiring_read [of "?at ?sv 1"] expiring_metadata [of "?at ?sv (Suc (Suc (Suc 0)))"] plain_checks [OF like(1)] like(1) w'
    by (simp add: try_allocate_from_cached_timeline_def rq bnd_def h get_service_def Let_def bound batch done_with_def
        matches_local_route_def owned_fields adopt result_of_def tick_def)
qed

text \<open>
  C28: an allocation can be served without an upper bound, after its lease has expired. A worker has a timeline
  cached and finds the lease of its generator, still its own, in the store. It adopts the lease, and the lease
  expires before the last reading of the clock. The request for an upper bound then succeeds and returns none,
  every later check passes, and the service answers the allocation with timestamps that are past the end of the
  lease and above everything the persisted record covers.
\<close>
theorem expired_lease_allocates_unfenced:
  "\<exists>w response r rv f e t.
     allocate_timestamps expiring_surroundings 1 False plain_request expiring_world = (w, Inr (Some response))
     \<and> generator_entry (w_store w) (rs_generator_id response) = Some (r, rv)
     \<and> generator_recovery_floor_tso r = Some f \<and> gr_lease_expire_at_ms r = Some e
     \<and> t \<in> set (ranges_tsos (rs_ranges response)) \<and> unat f < t
     \<and> e \<le> dt_physical_ms (decode DEFAULT_TIMESTAMP_LAYOUT (of_nat t))"
proof -
  have "strip_seqs ws [] = []" for ws
    by (subst strip_seqs.simps) (auto simp: find_Some_iff split: option.split)
  then have blank: "\<not> idempotency_enabled plain_request"
    by (simp add: idempotency_enabled_def plain_request_def str_is_blank_def str_trim_def)
  have "str_trim ''orders'' = ''orders''" by (rule str_trim_visible) (simp_all add: visible_ascii_def)
  then have valid: "validate_allocation (sv_config unleased_service) plain_request = Inr ()"
    by (simp add: validate_allocation_def and_then_def validate_timeline_key_def validate_client_request_id_def str_is_blank_def
        MAX_TIMELINE_KEY_BYTES_def plain_request_def unleased_service_def sample_config)
  have open_gate: "\<not> sv_shutdown_gate unleased_service" by (simp add: unleased_service_def sample_service_def service_new_def)
  obtain w where "allocate_timestamps_after_validation expiring_surroundings (Suc 0) False plain_request (Suc 0) expiring_world
      = (w, Inr (Some unfenced_response))" "w_store w = expiring_store"
    using unfenced_cached [of "tick expiring_world"] open_gate
    by (auto simp: expiring_world_def bnd_def get_service_def done_with_def reject_new_work_if_shutting_down_def expiring_steps
        ret_def Let_def tick_def)
  moreover from this(1) blank valid
  have "allocate_timestamps expiring_surroundings 1 False plain_request expiring_world = (w, Inr (Some unfenced_response))"
    by (simp add: allocate_timestamps_def expiring_steps allocate_timestamps_with_cancellation_def prepare_idempotent_allocation_def
        bnd_def get_service_def done_with_def result_of_def ret_def expiring_world_def finish_idempotent_allocation_def
        del: allocate_timestamps_after_validation.simps)
  moreover have "generator_entry expiring_store 7 = Some (sample_record, 1)"
    by (simp add: generator_entry_def expiring_store_def)
  moreover have "generator_recovery_floor_tso sample_record = Some 1761624063"
    by (simp add: generator_recovery_floor_tso_def sample_record_fields)
  moreover have "50415548416 \<in> set (ranges_tsos (rs_ranges unfenced_response))"
    by (simp add: ranges_tsos_def range_tsos_def unfenced_response_def)
  moreover have "3005 \<le> dt_physical_ms (decode DEFAULT_TIMESTAMP_LAYOUT (of_nat 50415548416))" by (simp add: alloc_eval)
  ultimately show ?thesis
    by (intro exI [of _ w] exI [of _ unfenced_response] exI [of _ sample_record] exI [of _ 1] exI [of _ 1761624063]
        exI [of _ 3005] exI [of _ 50415548416]) (simp add: sample_record_fields unfenced_response_def)
qed

end
