(* ===== verification/Fairness.thy ===== *)
theory Fairness
  imports Service "HOL-Library.Sublist"
begin

text \<open>
  The admission of requests to a shared generator (\<open>service/mod.rs\<close>): a first-in first-out queue of
  waiters, one active turn, and a semaphore with one permit. Each section under the fairness lock is a
  definition; requests interleave between the sections, the notifications, the semaphore and cancellations.
\<close>

subsection \<open>Sections under the lock\<close>

record generator_wait_queue_entry =
  we_timeline_key :: string
  we_waiter_id :: u64

record generator_fairness_state =
  ff_active_timeline_key :: "string option"
  ff_wait_queue :: "generator_wait_queue_entry list"
  ff_next_waiter_id :: u64

definition generator_fairness_default :: generator_fairness_state where
  "generator_fairness_default = \<lparr> ff_active_timeline_key = None, ff_wait_queue = [], ff_next_waiter_id = 0 \<rparr>"

definition queue_generator_waiter_if_needed ::
    "string \<Rightarrow> u64 option \<Rightarrow> generator_fairness_state \<Rightarrow> generator_fairness_state \<times> u64 option" where
  \<comment> \<open>the waiter guard is the id of the waiter\<close>
  "queue_generator_waiter_if_needed tk waiter_guard f =
     (case waiter_guard of
        Some w \<Rightarrow> (f, Some w)
      | None \<Rightarrow>
          let waiter_id = ff_next_waiter_id f in
          (f \<lparr> ff_next_waiter_id := waiter_id + 1,
               ff_wait_queue := ff_wait_queue f @ [\<lparr> we_timeline_key = tk, we_waiter_id = waiter_id \<rparr>] \<rparr>,
           Some waiter_id))"

definition grant_turn ::
    "string \<Rightarrow> u64 option \<Rightarrow> generator_fairness_state \<Rightarrow> generator_fairness_state \<times> u64 option \<times> bool" where
  "grant_turn tk waiter_guard f =
     (if ff_active_timeline_key f = None then
        (case ff_wait_queue f of
           front # rest \<Rightarrow>
             if waiter_guard = Some (we_waiter_id front)
             then (f \<lparr> ff_wait_queue := rest, ff_active_timeline_key := Some (we_timeline_key front) \<rparr>, None, True)
             else (case queue_generator_waiter_if_needed tk waiter_guard f of (f', g) \<Rightarrow> (f', g, False))
         | [] \<Rightarrow> (f \<lparr> ff_active_timeline_key := Some tk \<rparr>, None, True))
      else (case queue_generator_waiter_if_needed tk waiter_guard f of (f', g) \<Rightarrow> (f', g, False)))"

definition drop_waiter_guard :: "u64 \<Rightarrow> generator_fairness_state \<Rightarrow> generator_fairness_state \<times> bool" where
  \<comment> \<open>whether the waiters are notified afterwards\<close>
  "drop_waiter_guard w f =
     (let was_front = (case ff_wait_queue f of front # _ \<Rightarrow> we_waiter_id front = w | [] \<Rightarrow> False);
          queue = filter (\<lambda>queued. we_waiter_id queued \<noteq> w) (ff_wait_queue f)
      in (f \<lparr> ff_wait_queue := queue \<rparr>, length queue \<noteq> length (ff_wait_queue f) \<and> was_front))"

definition release_inner :: "string \<Rightarrow> generator_fairness_state \<Rightarrow> generator_fairness_state \<times> bool" where
  "release_inner tk f =
     (if ff_active_timeline_key f = Some tk then (f \<lparr> ff_active_timeline_key := None \<rparr>, True) else (f, False))"

subsection \<open>Requests\<close>

datatype admission =
  Outside
| Entering string "u64 option"  \<comment> \<open>at the top of the loop\<close>
| Enabled string "u64 option" bool  \<comment> \<open>registered with the notifier; whether it has been notified\<close>
| Waiting string "u64 option" bool
| Turn string  \<comment> \<open>has the turn, waits for the semaphore\<close>
| Admitted string
| Permit_Only
| Turn_Only string
| Notifying admission  \<comment> \<open>between the section and the notification\<close>

record admission_gate =
  ga_fairness :: generator_fairness_state
  ga_permits :: nat
  ga_requests :: "nat \<Rightarrow> admission"
  ga_queued :: nat  \<comment> \<open>ghost: waiters queued so far\<close>

abbreviation set_request :: "nat \<Rightarrow> admission \<Rightarrow> admission_gate \<Rightarrow> admission_gate" where
  "set_request t p s \<equiv> s \<lparr> ga_requests := (ga_requests s)(t := p) \<rparr>"

definition after_section :: "nat \<Rightarrow> admission \<Rightarrow> generator_fairness_state \<times> bool \<Rightarrow> admission_gate \<Rightarrow> admission_gate" where
  "after_section t p r s =
     set_request t (if snd r then Notifying p else p) (s \<lparr> ga_fairness := fst r \<rparr>)"

definition leave :: "nat \<Rightarrow> u64 option \<Rightarrow> admission_gate \<Rightarrow> admission_gate" where
  \<comment> \<open>the request ends and drops its waiter guard\<close>
  "leave t g s =
     (case g of
        None \<Rightarrow> set_request t Outside s
      | Some w \<Rightarrow> after_section t Outside (drop_waiter_guard w (ga_fairness s)) s)"

fun notified :: "admission \<Rightarrow> admission" where
  "notified (Enabled tk g _) = Enabled tk g True"
| "notified (Waiting tk g _) = Waiting tk g True"
| "notified p = p"

inductive gate_move :: "admission_gate \<Rightarrow> admission_gate \<Rightarrow> bool" where
  \<comment> \<open>what the requests do by themselves\<close>
  enable: "ga_requests s t = Entering tk g \<Longrightarrow> gate_move s (set_request t (Enabled tk g False) s)"
| granted: "ga_requests s t = Enabled tk g n \<Longrightarrow> grant_turn tk g (ga_fairness s) = (f, g', True) \<Longrightarrow>
     gate_move s (set_request t (Turn tk) (s \<lparr> ga_fairness := f \<rparr>))"
| queued: "ga_requests s t = Enabled tk g n \<Longrightarrow> grant_turn tk g (ga_fairness s) = (f, g', False) \<Longrightarrow>
     gate_move s (set_request t (Waiting tk g' n)
       (s \<lparr> ga_fairness := f, ga_queued := ga_queued s + (if g = None then 1 else 0) \<rparr>))"
| wake: "ga_requests s t = Waiting tk g True \<Longrightarrow> gate_move s (set_request t (Entering tk g) s)"
| permit: "ga_requests s t = Turn tk \<Longrightarrow> 0 < ga_permits s \<Longrightarrow>
     gate_move s (set_request t (Admitted tk) (s \<lparr> ga_permits := ga_permits s - 1 \<rparr>))"
| give_back: "ga_requests s t = Permit_Only \<Longrightarrow>
     gate_move s (set_request t Outside (s \<lparr> ga_permits := ga_permits s + 1 \<rparr>))"
| drop_turn: "ga_requests s t = Turn_Only tk \<Longrightarrow>
     gate_move s (after_section t Outside (release_inner tk (ga_fairness s)) s)"
| notify: "ga_requests s t = Notifying p \<Longrightarrow>
     gate_move s (s \<lparr> ga_requests := (notified \<circ> ga_requests s)(t := p) \<rparr>)"

inductive gate_event :: "admission_gate \<Rightarrow> admission_gate \<Rightarrow> bool" where
  \<comment> \<open>arrivals, cancellations and the end of the work\<close>
  enter: "ga_requests s t = Outside \<Longrightarrow> gate_event s (set_request t (Entering tk None) s)"
| cancel_top: "ga_requests s t = Entering tk g \<Longrightarrow> gate_event s (leave t g s)"
| cancel_wait: "ga_requests s t = Waiting tk g n \<Longrightarrow> gate_event s (leave t g s)"
| cancel_turn: "ga_requests s t = Turn tk \<Longrightarrow>
     gate_event s (after_section t Outside (release_inner tk (ga_fairness s)) s)"
| release: "ga_requests s t = Admitted tk \<Longrightarrow>
     gate_event s (after_section t Permit_Only (release_inner tk (ga_fairness s)) s)"
| dropped: "ga_requests s t = Admitted tk \<Longrightarrow>
     gate_event s (set_request t (Turn_Only tk) (s \<lparr> ga_permits := ga_permits s + 1 \<rparr>))"

definition gate_step :: "admission_gate \<Rightarrow> admission_gate \<Rightarrow> bool" where
  "gate_step s s' \<longleftrightarrow> gate_move s s' \<or> gate_event s s'"

definition gate_init :: admission_gate where
  "gate_init = \<lparr> ga_fairness = generator_fairness_default, ga_permits = 1, ga_requests = (\<lambda>_. Outside), ga_queued = 0 \<rparr>"

subsection \<open>One turn and one permit\<close>

fun turn_of :: "admission \<Rightarrow> string option" where
  "turn_of (Turn tk) = Some tk"
| "turn_of (Admitted tk) = Some tk"
| "turn_of (Turn_Only tk) = Some tk"
| "turn_of _ = None"

fun guard_of :: "admission \<Rightarrow> (string \<times> u64) option" where
  "guard_of (Entering tk (Some w)) = Some (tk, w)"
| "guard_of (Enabled tk (Some w) _) = Some (tk, w)"
| "guard_of (Waiting tk (Some w) _) = Some (tk, w)"
| "guard_of _ = None"

fun holds_permit :: "admission \<Rightarrow> bool" where
  "holds_permit (Admitted _) = True"
| "holds_permit Permit_Only = True"
| "holds_permit (Notifying p) = (p = Permit_Only)"
| "holds_permit _ = False"

fun shape_ok :: "admission \<Rightarrow> bool" where
  "shape_ok (Waiting _ g _) = (g \<noteq> None)"
| "shape_ok (Notifying p) = (p = Outside \<or> p = Permit_Only)"
| "shape_ok _ = True"

abbreviation queue :: "admission_gate \<Rightarrow> generator_wait_queue_entry list" where
  "queue s \<equiv> ff_wait_queue (ga_fairness s)"

abbreviation active :: "admission_gate \<Rightarrow> string option" where
  "active s \<equiv> ff_active_timeline_key (ga_fairness s)"

definition entry_of :: "generator_wait_queue_entry \<Rightarrow> string \<times> u64" where
  "entry_of e = (we_timeline_key e, we_waiter_id e)"

definition at_most_one :: "('a \<Rightarrow> bool) \<Rightarrow> bool" where
  "at_most_one P \<longleftrightarrow> (\<forall>x y. P x \<longrightarrow> P y \<longrightarrow> x = y)"

definition turn_ok :: "admission_gate \<Rightarrow> bool" where
  "turn_ok s \<longleftrightarrow> at_most_one (\<lambda>t. turn_of (ga_requests s t) \<noteq> None)
     \<and> (\<forall>t. turn_of (ga_requests s t) \<noteq> None \<longrightarrow> turn_of (ga_requests s t) = active s)
     \<and> (active s \<noteq> None \<longrightarrow> (\<exists>t. turn_of (ga_requests s t) \<noteq> None))"

definition permit_ok :: "admission_gate \<Rightarrow> bool" where
  "permit_ok s \<longleftrightarrow> ga_permits s = 1 \<and> (\<forall>t. \<not> holds_permit (ga_requests s t))
     \<or> ga_permits s = 0 \<and> (\<exists>t. \<forall>u. holds_permit (ga_requests s u) = (u = t))"

definition queue_ok :: "admission_gate \<Rightarrow> bool" where
  "queue_ok s \<longleftrightarrow> ff_next_waiter_id (ga_fairness s) = of_nat (ga_queued s)
     \<and> distinct (map we_waiter_id (queue s))
     \<and> (\<forall>e \<in> set (queue s). unat (we_waiter_id e) < ga_queued s)
     \<and> entry_of ` set (queue s) = {x. \<exists>t. guard_of (ga_requests s t) = Some x}
     \<and> (\<forall>x. at_most_one (\<lambda>t. guard_of (ga_requests s t) = Some x))
     \<and> (\<forall>t. shape_ok (ga_requests s t))"

definition wake_ok :: "admission_gate \<Rightarrow> bool" where
  \<comment> \<open>with no turn active the first waiter has been or will be notified\<close>
  "wake_ok s \<longleftrightarrow> (active s = None \<longrightarrow> queue s \<noteq> [] \<longrightarrow>
     (\<forall>t tk. ga_requests s t = Waiting tk (Some (we_waiter_id (hd (queue s)))) False \<longrightarrow>
        (\<exists>t' p. ga_requests s t' = Notifying p)))"

definition gate_ok :: "admission_gate \<Rightarrow> bool" where
  "gate_ok s \<longleftrightarrow> turn_ok s \<and> permit_ok s \<and> queue_ok s \<and> wake_ok s"

lemma notified_simps [simp]:
  "turn_of (notified p) = turn_of p" "guard_of (notified p) = guard_of p"
  "holds_permit (notified p) = holds_permit p" "shape_ok (notified p) = shape_ok p"
  by (cases p rule: guard_of.cases; simp)+

lemma gate_init_ok: "gate_ok gate_init"
  by (simp add: gate_ok_def gate_init_def generator_fairness_default_def turn_ok_def permit_ok_def queue_ok_def
      wake_ok_def at_most_one_def)

lemmas section_defs = after_section_def leave_def drop_waiter_guard_def release_inner_def

lemma grant_turn_True:
  assumes "grant_turn tk g f = (f', g', True)"
  obtains "ff_active_timeline_key f = None" "ff_wait_queue f = []" "f' = f \<lparr> ff_active_timeline_key := Some tk \<rparr>"
  | e rest where "ff_active_timeline_key f = None" "ff_wait_queue f = e # rest" "g = Some (we_waiter_id e)"
      "f' = f \<lparr> ff_wait_queue := rest, ff_active_timeline_key := Some (we_timeline_key e) \<rparr>"
  using assms unfolding grant_turn_def queue_generator_waiter_if_needed_def Let_def
  by (cases "ff_active_timeline_key f"; cases "ff_wait_queue f"; cases g) (auto split: if_splits)

lemma grant_turn_False:
  assumes "grant_turn tk g f = (f', g', False)"
  obtains w where "g = Some w" "f' = f" "g' = Some w"
      "ff_active_timeline_key f = None \<Longrightarrow> ff_wait_queue f \<noteq> [] \<and> we_waiter_id (hd (ff_wait_queue f)) \<noteq> w"
  | "g = None" "g' = Some (ff_next_waiter_id f)" "ff_active_timeline_key f = None \<Longrightarrow> ff_wait_queue f \<noteq> []"
      "f' = f \<lparr> ff_next_waiter_id := ff_next_waiter_id f + 1,
        ff_wait_queue := ff_wait_queue f @ [\<lparr> we_timeline_key = tk, we_waiter_id = ff_next_waiter_id f \<rparr>] \<rparr>"
  using assms unfolding grant_turn_def queue_generator_waiter_if_needed_def Let_def
  by (cases "ff_active_timeline_key f"; cases "ff_wait_queue f"; cases g) (auto split: if_splits)

lemma queue_front_key:
  assumes "queue_ok s" "guard_of (ga_requests s t) = Some (tk, w)" "queue s = e # rest" "we_waiter_id e = w"
  shows "we_timeline_key e = tk"
proof -
  have "(tk, w) \<in> entry_of ` set (queue s)" using assms(1,2) by (auto simp: queue_ok_def)
  then obtain e' where e': "e' \<in> set (queue s)" "entry_of e' = (tk, w)" by force
  then have "we_waiter_id e' = we_waiter_id e" "we_timeline_key e' = tk" using assms(4) by (simp_all add: entry_of_def)
  moreover have "distinct (map we_waiter_id (queue s))" using assms(1) by (simp add: queue_ok_def)
  ultimately show ?thesis using e'(1) assms(3) by (metis distinct_map inj_on_def list.set_intros(1))
qed

lemma notifying_shape: "queue_ok s \<Longrightarrow> ga_requests s t = Notifying p \<Longrightarrow> p = Outside \<or> p = Permit_Only"
  unfolding queue_ok_def by (metis shape_ok.simps(2))

lemma waiting_shape: "queue_ok s \<Longrightarrow> ga_requests s t = Waiting tk g n \<Longrightarrow> \<exists>w. g = Some w"
  unfolding queue_ok_def by (metis option.exhaust shape_ok.simps(1))

lemma turn_same:
  "turn_ok s \<Longrightarrow> active s' = active s \<Longrightarrow> (\<And>t. turn_of (ga_requests s' t) = turn_of (ga_requests s t)) \<Longrightarrow> turn_ok s'"
  by (simp add: turn_ok_def)

lemma turn_free: "active s = None \<Longrightarrow> (\<And>t. turn_of (ga_requests s t) = None) \<Longrightarrow> turn_ok s"
  by (simp add: turn_ok_def at_most_one_def)

lemma turn_taken:
  "active s = Some tk \<Longrightarrow> (\<And>u. turn_of (ga_requests s u) = (if u = t then Some tk else None)) \<Longrightarrow> turn_ok s"
  by (auto simp: turn_ok_def at_most_one_def split: if_splits)

lemma turn_holder:
  assumes "turn_ok s" "turn_of (ga_requests s t) = Some tk"
  shows "active s = Some tk" "u \<noteq> t \<Longrightarrow> turn_of (ga_requests s u) = None"
  using assms unfolding turn_ok_def at_most_one_def by (metis option.distinct(1))+

lemma turn_released:
  assumes "turn_ok s" "turn_of (ga_requests s t) = Some tk" "p = Outside \<or> p = Permit_Only"
  shows "turn_ok (after_section t p (release_inner tk (ga_fairness s)) s)"
  using turn_holder [OF assms(1,2)] assms(3) by (intro turn_free) (auto simp: section_defs)

lemma turn_move:
  assumes "gate_move s s'" "turn_ok s" "queue_ok s"
  shows "turn_ok s'"
  using assms(1)
proof cases
  case (granted t tk g n f g')
  have "active s = None \<and> ff_active_timeline_key f = Some tk"
  proof (rule grant_turn_True [OF granted(3)])
    fix e rest assume a: "active s = None" "queue s = e # rest" "g = Some (we_waiter_id e)"
      "f = ga_fairness s \<lparr> ff_wait_queue := rest, ff_active_timeline_key := Some (we_timeline_key e) \<rparr>"
    then show ?thesis using queue_front_key [OF assms(3) _ a(2) refl, of t tk] granted(2) by simp
  qed simp
  moreover from this have "turn_of (ga_requests s u) = None" for u using assms(2) by (auto simp: turn_ok_def)
  ultimately show ?thesis using granted(1) by (intro turn_taken) auto
next
  case (queued t tk g n f g')
  have "ff_active_timeline_key f = active s" by (rule grant_turn_False [OF queued(3)]) simp_all
  with queued show ?thesis by (intro turn_same [OF assms(2)]) auto
next
  case (drop_turn t tk)
  then show ?thesis using turn_released [OF assms(2)] by simp
next
  case (notify t p)
  then have "turn_of p = None" using notifying_shape [OF assms(3)] by force
  with notify show ?thesis by (intro turn_same [OF assms(2)]) auto
qed (auto intro!: turn_same [OF assms(2)])

lemma turn_event:
  assumes "gate_event s s'" "turn_ok s"
  shows "turn_ok s'"
  using assms(1)
proof cases
  case (cancel_top t tk g)
  then show ?thesis by (intro turn_same [OF assms(2)]) (auto simp: section_defs Let_def split: option.splits)
next
  case (cancel_wait t tk g n)
  then show ?thesis by (intro turn_same [OF assms(2)]) (auto simp: section_defs Let_def split: option.splits)
qed (auto intro: turn_released [OF assms(2)] turn_same [OF assms(2)])

lemma permit_same:
  "permit_ok s \<Longrightarrow> ga_permits s' = ga_permits s
    \<Longrightarrow> (\<And>t. holds_permit (ga_requests s' t) = holds_permit (ga_requests s t)) \<Longrightarrow> permit_ok s'"
  by (simp add: permit_ok_def)

lemma permit_taken: "ga_permits s = 0 \<Longrightarrow> (\<And>u. holds_permit (ga_requests s u) = (u = t)) \<Longrightarrow> permit_ok s"
  by (auto simp: permit_ok_def)

lemma permit_returned:
  assumes "permit_ok s" "holds_permit (ga_requests s t)" "\<not> holds_permit p"
  shows "permit_ok (set_request t p (s \<lparr> ga_permits := ga_permits s + 1 \<rparr>))"
proof -
  obtain t' where t': "ga_permits s = 0" "\<And>u. holds_permit (ga_requests s u) = (u = t')"
    using assms(1,2) by (auto simp: permit_ok_def)
  with assms(2) have "t' = t" by simp
  with t' assms(3) show ?thesis by (simp add: permit_ok_def)
qed

lemma permit_step:
  assumes "gate_step s s'" "permit_ok s" "queue_ok s"
  shows "permit_ok s'"
  using assms(1) unfolding gate_step_def
proof
  assume "gate_move s s'"
  then show ?thesis
  proof cases
    case (permit t tk)
    then have "ga_permits s = 1" "\<not> holds_permit (ga_requests s u)" for u using assms(2) by (auto simp: permit_ok_def)
    with permit show ?thesis by (intro permit_taken [where t = t]) auto
  next
    case (give_back t)
    then show ?thesis using permit_returned [OF assms(2), of t Outside] by simp
  next
    case (notify t p)
    then have "holds_permit p \<longleftrightarrow> p = Permit_Only" using notifying_shape [OF assms(3)] by force
    with notify show ?thesis by (intro permit_same [OF assms(2)]) auto
  qed (auto intro!: permit_same [OF assms(2)] simp: section_defs split: if_splits)
next
  assume "gate_event s s'"
  then show ?thesis
  proof cases
    case (dropped t tk)
    then show ?thesis using permit_returned [OF assms(2), of t "Turn_Only tk"] by simp
  qed (auto intro!: permit_same [OF assms(2)] simp: section_defs Let_def split: option.splits if_splits)
qed

subsection \<open>The queue\<close>

lemma queue_same:
  assumes "queue_ok s" "queue s' = queue s" "ff_next_waiter_id (ga_fairness s') = ff_next_waiter_id (ga_fairness s)"
    and "ga_queued s' = ga_queued s" "\<And>t. guard_of (ga_requests s' t) = guard_of (ga_requests s t)"
    and "\<And>t. shape_ok (ga_requests s' t)"
  shows "queue_ok s'"
  using assms by (simp add: queue_ok_def)

lemma queue_removed:
  assumes q: "queue_ok s" and g: "guard_of (ga_requests s t) = Some (tk, w)"
    and s': "queue s' = filter (\<lambda>e. we_waiter_id e \<noteq> w) (queue s)"
      "ff_next_waiter_id (ga_fairness s') = ff_next_waiter_id (ga_fairness s)" "ga_queued s' = ga_queued s"
    and r: "\<And>u. guard_of (ga_requests s' u) = (if u = t then None else guard_of (ga_requests s u))"
    and shape: "\<And>u. shape_ok (ga_requests s' u)"
  shows "queue_ok s'"
proof -
  note q' = q [unfolded queue_ok_def]
  have inj: "inj_on we_waiter_id (set (queue s))" and mem: "(tk, w) \<in> entry_of ` set (queue s)"
    using q' g by (auto simp: distinct_map)
  have one: "x = (tk, w)" if x: "x \<in> entry_of ` set (queue s)" "snd x = w" for x
  proof -
    obtain e e' where e: "e \<in> set (queue s)" "x = entry_of e" "e' \<in> set (queue s)" "(tk, w) = entry_of e'"
      using x(1) mem by blast
    then have "we_waiter_id e = we_waiter_id e'" using x(2) by (simp add: entry_of_def)
    then show ?thesis using inj_onD [OF inj _ e(1,3)] e(2,4) by simp
  qed
  then have iff: "snd x \<noteq> w \<longleftrightarrow> x \<noteq> (tk, w)" if "x \<in> entry_of ` set (queue s)" for x
    using that by (metis snd_conv)
  have other: "guard_of (ga_requests s u) = Some (tk, w) \<Longrightarrow> u = t" for u
    using q' g unfolding at_most_one_def by blast
  have "entry_of ` set (queue s') = {x \<in> entry_of ` set (queue s). snd x \<noteq> w}"
    by (auto simp: s' entry_of_def)
  also have "\<dots> = entry_of ` set (queue s) - {(tk, w)}" using iff by blast
  also have "\<dots> = {x. \<exists>u. guard_of (ga_requests s u) = Some x} - {(tk, w)}" using q' by blast
  also have "\<dots> = {x. \<exists>u. guard_of (ga_requests s' u) = Some x}"
  proof (rule set_eqI, rule iffI)
    fix x assume "x \<in> {x. \<exists>u. guard_of (ga_requests s u) = Some x} - {(tk, w)}"
    then obtain u where "guard_of (ga_requests s u) = Some x" "x \<noteq> (tk, w)" by blast
    then have "guard_of (ga_requests s' u) = Some x" using g r [of u] by auto
    then show "x \<in> {x. \<exists>u. guard_of (ga_requests s' u) = Some x}" by blast
  next
    fix x assume "x \<in> {x. \<exists>u. guard_of (ga_requests s' u) = Some x}"
    then obtain u where "guard_of (ga_requests s' u) = Some x" by blast
    then have "u \<noteq> t" "guard_of (ga_requests s u) = Some x" using r [of u] by (auto split: if_splits)
    then show "x \<in> {x. \<exists>u. guard_of (ga_requests s u) = Some x} - {(tk, w)}" using other by blast
  qed
  finally have "entry_of ` set (queue s') = \<dots>" .
  moreover have "distinct (map we_waiter_id (queue s'))" using q' by (simp add: s' distinct_map_filter)
  moreover have "\<forall>x. at_most_one (\<lambda>u. guard_of (ga_requests s' u) = Some x)"
    using q' unfolding at_most_one_def r by (metis option.distinct(1))
  ultimately show ?thesis using q' shape unfolding queue_ok_def by (simp add: s')
qed

lemma queue_added:
  assumes q: "queue_ok s" and g: "guard_of (ga_requests s t) = None" and few: "ga_queued s < 2 ^ 64"
    and s': "queue s' = queue s @ [\<lparr> we_timeline_key = tk, we_waiter_id = ff_next_waiter_id (ga_fairness s) \<rparr>]"
      "ff_next_waiter_id (ga_fairness s') = ff_next_waiter_id (ga_fairness s) + 1" "ga_queued s' = ga_queued s + 1"
    and r: "\<And>u. guard_of (ga_requests s' u)
      = (if u = t then Some (tk, ff_next_waiter_id (ga_fairness s)) else guard_of (ga_requests s u))"
    and shape: "\<And>u. shape_ok (ga_requests s' u)"
  shows "queue_ok s'"
proof -
  note q' = q [unfolded queue_ok_def]
  let ?w = "ff_next_waiter_id (ga_fairness s)"
  have w: "unat ?w = ga_queued s" using q' few by (simp add: unsigned_of_nat take_bit_nat_eq_self)
  have old: "unat (we_waiter_id e) < ga_queued s" if "e \<in> set (queue s)" for e using q' that by blast
  then have fresh: "?w \<notin> we_waiter_id ` set (queue s)" using w by force
  then have unused: "guard_of (ga_requests s u) \<noteq> Some (k, ?w)" for u k
  proof -
    have "(k, ?w) \<notin> entry_of ` set (queue s)" using fresh by (auto simp: entry_of_def)
    then show ?thesis using q' by blast
  qed
  have "entry_of ` set (queue s') = insert (tk, ?w) {x. \<exists>u. guard_of (ga_requests s u) = Some x}"
    using q' by (simp add: s' entry_of_def)
  also have "\<dots> = {x. \<exists>u. guard_of (ga_requests s' u) = Some x}"
    using g by (intro set_eqI) (simp add: r, metis option.distinct(1) option.inject)
  finally have "entry_of ` set (queue s') = \<dots>" .
  moreover have "distinct (map we_waiter_id (queue s'))" using q' fresh by (simp add: s')
  moreover have "\<forall>e \<in> set (queue s'). unat (we_waiter_id e) < ga_queued s'"
    using old w by (auto simp: s' less_SucI)
  moreover have "\<forall>x. at_most_one (\<lambda>u. guard_of (ga_requests s' u) = Some x)"
    using q' unused unfolding at_most_one_def r by (metis option.inject)
  moreover have "ff_next_waiter_id (ga_fairness s') = of_nat (ga_queued s')" using q' by (simp add: s')
  ultimately show ?thesis using shape unfolding queue_ok_def by blast
qed

lemma queue_shape: "queue_ok s \<Longrightarrow> shape_ok (ga_requests s t)"
  by (simp add: queue_ok_def)

lemma queue_left:
  assumes q: "queue_ok s" and t: "guard_of (ga_requests s t) = map_option (Pair tk) g"
  shows "queue_ok (leave t g s)"
proof (cases g)
  case None
  then show ?thesis using t queue_shape [OF q] by (intro queue_same [OF q]) (auto simp: leave_def)
next
  case (Some w)
  with t have "guard_of (ga_requests s t) = Some (tk, w)" by simp
  then show ?thesis
    by (rule queue_removed [OF q]) (use Some queue_shape [OF q] in \<open>auto simp: section_defs Let_def\<close>)
qed

lemma queue_move:
  assumes "gate_move s s'" "queue_ok s" "ga_queued s' \<le> 2 ^ 64"
  shows "queue_ok s'"
  using assms(1)
proof cases
  case (granted t tk g n f g')
  show ?thesis
  proof (rule grant_turn_True [OF granted(3)])
    assume a: "queue s = []" "f = ga_fairness s \<lparr> ff_active_timeline_key := Some tk \<rparr>"
    then have "guard_of (ga_requests s t) = None" using assms(2) by (cases "guard_of (ga_requests s t)") (auto simp: queue_ok_def)
    then show ?thesis using granted a queue_shape [OF assms(2)] by (intro queue_same [OF assms(2)]) auto
  next
    fix e rest assume a: "queue s = e # rest" "g = Some (we_waiter_id e)"
      "f = ga_fairness s \<lparr> ff_wait_queue := rest, ff_active_timeline_key := Some (we_timeline_key e) \<rparr>"
    have "we_waiter_id e \<notin> we_waiter_id ` set rest" using assms(2) a(1) by (simp add: queue_ok_def)
    then have "rest = filter (\<lambda>e'. we_waiter_id e' \<noteq> we_waiter_id e) (queue s)"
      unfolding a(1) by (induction rest) auto
    then show ?thesis using granted a queue_shape [OF assms(2)]
      by (intro queue_removed [OF assms(2), of t tk "we_waiter_id e"]) auto
  qed
next
  case (queued t tk g n f g')
  show ?thesis
  proof (rule grant_turn_False [OF queued(3)])
    fix w assume "g = Some w" "f = ga_fairness s" "g' = Some w"
    then show ?thesis using queued queue_shape [OF assms(2)] by (intro queue_same [OF assms(2)]) auto
  next
    assume a: "g = None" "g' = Some (ff_next_waiter_id (ga_fairness s))"
      "f = ga_fairness s \<lparr> ff_next_waiter_id := ff_next_waiter_id (ga_fairness s) + 1,
         ff_wait_queue := queue s @ [\<lparr> we_timeline_key = tk, we_waiter_id = ff_next_waiter_id (ga_fairness s) \<rparr>] \<rparr>"
    then show ?thesis using queued assms(3) queue_shape [OF assms(2)]
      by (intro queue_added [OF assms(2), of t _ tk]) auto
  qed
next
  case (notify t p)
  then have "guard_of p = None" "shape_ok p" using notifying_shape [OF assms(2)] by force+
  then show ?thesis using notify queue_shape [OF assms(2)] by (intro queue_same [OF assms(2)]) auto
next
  case (wake t tk g)
  obtain w where "g = Some w" using waiting_shape [OF assms(2) wake(2)] by blast
  then show ?thesis using wake queue_shape [OF assms(2)] by (intro queue_same [OF assms(2)]) auto
next
  case (enable t tk g)
  then show ?thesis using queue_shape [OF assms(2)] by (cases g) (auto intro!: queue_same [OF assms(2)])
qed (use queue_shape [OF assms(2)] in \<open>auto intro!: queue_same [OF assms(2)] simp: section_defs split: if_splits\<close>)

lemma queue_event:
  assumes "gate_event s s'" "queue_ok s"
  shows "queue_ok s'"
  using assms(1)
proof cases
  case (cancel_top t tk g)
  then show ?thesis by (cases g) (auto intro!: queue_left [OF assms(2)])
next
  case (cancel_wait t tk g n)
  then show ?thesis by (cases g) (auto intro!: queue_left [OF assms(2)])
qed (use queue_shape [OF assms(2)] in \<open>auto intro!: queue_same [OF assms(2)] simp: section_defs split: if_splits\<close>)

subsection \<open>No lost wakeup\<close>

lemma wake_same:
  assumes "wake_ok s" "active s' = active s" "queue s \<noteq> []"
    and "we_waiter_id (hd (queue s')) = we_waiter_id (hd (queue s))"
    and "\<And>u tk. ga_requests s' u = Waiting tk (Some (we_waiter_id (hd (queue s')))) False
      \<Longrightarrow> ga_requests s u = Waiting tk (Some (we_waiter_id (hd (queue s')))) False"
    and "\<And>u p. ga_requests s u = Notifying p \<Longrightarrow> ga_requests s' u = Notifying p"
  shows "wake_ok s'"
  using assms unfolding wake_ok_def by metis

lemma wake_notifying: "ga_requests s t = Notifying p \<Longrightarrow> wake_ok s"
  unfolding wake_ok_def by blast

lemma wake_active: "active s \<noteq> None \<Longrightarrow> wake_ok s"
  unfolding wake_ok_def by blast

lemma wake_quiet:
  assumes "wake_ok s" "active s' = active s" "queue s' = queue s"
    and "\<And>u tk g. ga_requests s' u = Waiting tk g False \<Longrightarrow> ga_requests s u = Waiting tk g False"
    and "\<And>u p. ga_requests s u = Notifying p \<Longrightarrow> ga_requests s' u = Notifying p"
  shows "wake_ok s'"
  using assms unfolding wake_ok_def by metis

lemma wake_released:
  assumes "turn_ok s" "turn_of (ga_requests s t) = Some tk"
  shows "wake_ok (after_section t p (release_inner tk (ga_fairness s)) s)"
  using turn_holder(1) [OF assms] by (intro wake_notifying [of _ t p]) (simp add: section_defs)

lemma wake_left:
  assumes w: "wake_ok s" and q: "queue_ok s" and t: "guard_of (ga_requests s t) = map_option (Pair tk) g"
    and p: "\<And>p. ga_requests s t \<noteq> Notifying p"
  shows "wake_ok (leave t g s)"
proof (cases g)
  case None
  then show ?thesis using p by (intro wake_quiet [OF w]) (auto simp: leave_def split: if_splits)
next
  case (Some v)
  have "(tk, v) \<in> entry_of ` set (queue s)" using q t Some by (auto simp: queue_ok_def)
  then have v: "v \<in> we_waiter_id ` set (queue s)" by (force simp: entry_of_def)
  then obtain e rest where e: "queue s = e # rest" by (cases "queue s") auto
  show ?thesis
  proof (cases "we_waiter_id e = v")
    case True
    have "length (filter (\<lambda>e. we_waiter_id e \<noteq> v) rest) \<noteq> Suc (length rest)"
      using length_filter_le [of "\<lambda>e. we_waiter_id e \<noteq> v" rest] by linarith
    with True e show ?thesis using Some by (intro wake_notifying [of _ t Outside]) (simp add: section_defs Let_def)
  next
    case False
    with e show ?thesis using Some p by (intro wake_same [OF w]) (auto simp: section_defs Let_def split: if_splits)
  qed
qed

lemma wake_move:
  assumes "gate_move s s'" "wake_ok s" "turn_ok s" "queue_ok s" "queue_ok s'"
  shows "wake_ok s'"
  using assms(1)
proof cases
  case (granted t tk g n f g')
  have "ff_active_timeline_key f \<noteq> None" by (rule grant_turn_True [OF granted(3)]) simp_all
  with granted(1) show ?thesis by (intro wake_active) simp
next
  case (queued t tk g n f g')
  show ?thesis
  proof (cases "active s = None")
    case True
    show ?thesis
    proof (rule grant_turn_False [OF queued(3)])
      fix w assume "g = Some w" "f = ga_fairness s" "g' = Some w"
        and "active s = None \<Longrightarrow> queue s \<noteq> [] \<and> we_waiter_id (hd (queue s)) \<noteq> w"
      with True queued(1,2) show ?thesis by (intro wake_same [OF assms(2)]) (auto split: if_splits)
    next
      assume a: "g' = Some (ff_next_waiter_id (ga_fairness s))" "active s = None \<Longrightarrow> queue s \<noteq> []"
        "f = ga_fairness s \<lparr> ff_next_waiter_id := ff_next_waiter_id (ga_fairness s) + 1,
           ff_wait_queue := queue s @ [\<lparr> we_timeline_key = tk, we_waiter_id = ff_next_waiter_id (ga_fairness s) \<rparr>] \<rparr>"
      then have "ff_next_waiter_id (ga_fairness s) \<notin> we_waiter_id ` set (queue s)"
        using assms(5) queued(1) by (simp add: queue_ok_def)
      then have "we_waiter_id (hd (queue s)) \<noteq> ff_next_waiter_id (ga_fairness s)" using a(2) [OF True] by (metis image_eqI list.set_sel(1))
      with True a queued(1,2) show ?thesis by (intro wake_same [OF assms(2)]) (auto split: if_splits)
    qed
  next
    case False
    have "ff_active_timeline_key f = active s" by (rule grant_turn_False [OF queued(3)]) simp_all
    with False queued(1) show ?thesis by (intro wake_active) simp
  qed
next
  case (notify t p)
  have "ga_requests s' u \<noteq> Waiting k g False" for u k g
    using notify notifying_shape [OF assms(4) notify(2)] by (cases "ga_requests s u") auto
  then show ?thesis by (simp add: wake_ok_def)
next
  case (drop_turn t tk)
  then show ?thesis using wake_released [OF assms(3)] by simp
qed (auto intro!: wake_quiet [OF assms(2)] split: if_splits)

lemma wake_event:
  assumes "gate_event s s'" "wake_ok s" "turn_ok s" "queue_ok s"
  shows "wake_ok s'"
  using assms(1)
proof cases
  case (cancel_top t tk g)
  then show ?thesis using wake_left [OF assms(2,4), of t tk g] by (cases g) auto
next
  case (cancel_wait t tk g n)
  then show ?thesis using wake_left [OF assms(2,4), of t tk g] by (cases g) auto
qed (auto intro!: wake_quiet [OF assms(2)] wake_released [OF assms(3)] split: if_splits)

lemma gate_step_ok:
  assumes "gate_step s s'" "gate_ok s" "ga_queued s' \<le> 2 ^ 64"
  shows "gate_ok s'"
proof -
  have ok: "turn_ok s" "permit_ok s" "queue_ok s" "wake_ok s" using assms(2) by (auto simp: gate_ok_def)
  have q: "queue_ok s'" using assms(1,3) ok(3) queue_move queue_event unfolding gate_step_def by blast
  moreover have "turn_ok s'" using assms(1) ok(1,3) turn_move turn_event unfolding gate_step_def by blast
  moreover have "wake_ok s'" using assms(1) ok q wake_move wake_event unfolding gate_step_def by blast
  ultimately show ?thesis using permit_step [OF assms(1) ok(2,3)] by (simp add: gate_ok_def)
qed

lemma gate_queued_mono: "gate_step s s' \<Longrightarrow> ga_queued s \<le> ga_queued s'"
  unfolding gate_step_def
  by (auto elim!: gate_move.cases gate_event.cases simp: leave_def after_section_def split: option.splits)

lemma gate_reachable_ok:
  assumes "gate_step\<^sup>*\<^sup>* gate_init s" "ga_queued s \<le> 2 ^ 64"
  shows "gate_ok s"
  using assms
proof (induction rule: rtranclp_induct)
  case (step s s')
  then show ?case using gate_queued_mono [OF step(2)] by (intro gate_step_ok [OF step(2)]) simp_all
qed (simp add: gate_init_ok)

subsection \<open>Properties\<close>

lemma turn_gained:
  assumes "gate_step s s'" "queue_ok s" "turn_of (ga_requests s t) = None" "turn_of (ga_requests s' t) = Some tk"
  obtains g n f g' where "ga_requests s t = Enabled tk g n" "grant_turn tk g (ga_fairness s) = (f, g', True)"
    "ga_fairness s' = f"
proof -
  have "turn_of p = None" if "ga_requests s t = Notifying p" for t p
    using notifying_shape [OF assms(2) that] by auto
  then show ?thesis using assms that unfolding gate_step_def
    by (auto elim!: gate_move.cases gate_event.cases simp: section_defs Let_def split: if_splits option.splits)
qed

lemma queue_order:
  assumes "gate_step s s'"
  shows "\<exists>ys xs. subseq ys (queue s) \<and> queue s' = ys @ xs \<and> length xs \<le> 1"
proof -
  have same: "\<exists>ys xs. subseq ys q \<and> q = ys @ xs \<and> length xs \<le> 1" for q :: "generator_wait_queue_entry list"
    by (intro exI [of _ q] exI [of _ "[]"]) simp
  have shorter: "\<exists>ys xs. subseq ys q \<and> q' = ys @ xs \<and> length xs \<le> 1" if "subseq q' q"
    for q q' :: "generator_wait_queue_entry list"
    using that by (intro exI [of _ q'] exI [of _ "[]"]) simp
  have left: "\<exists>ys xs. subseq ys (queue s) \<and> queue (leave t g s) = ys @ xs \<and> length xs \<le> 1" for t g
    using shorter same by (cases g) (simp_all add: section_defs Let_def)
  show ?thesis using assms unfolding gate_step_def
  proof
    assume "gate_move s s'"
    then show ?thesis
    proof cases
      case (granted t tk g n f g')
      then show ?thesis using same shorter by (elim grant_turn_True) (auto simp: subseq_Cons')
    next
      case (queued t tk g n f g')
      show ?thesis
      proof (rule grant_turn_False [OF queued(3)])
        assume "f = ga_fairness s \<lparr> ff_next_waiter_id := ff_next_waiter_id (ga_fairness s) + 1,
           ff_wait_queue := queue s @ [\<lparr> we_timeline_key = tk, we_waiter_id = ff_next_waiter_id (ga_fairness s) \<rparr>] \<rparr>"
        with queued(1) show ?thesis
          by (intro exI [of _ "queue s"]
              exI [of _ "[\<lparr> we_timeline_key = tk, we_waiter_id = ff_next_waiter_id (ga_fairness s) \<rparr>]"]) simp
      qed (use same queued(1) in simp)
    qed (use same in \<open>simp_all add: section_defs\<close>)
  next
    assume "gate_event s s'"
    then show ?thesis by cases (use same left in \<open>simp_all add: section_defs\<close>)
  qed
qed

text \<open>
  C31: admission to a shared generator is exclusive and first come, first served. In every reachable state at
  most one request has the turn and at most one the permit, and the semaphore accounts for it. A request gets
  the turn only when no turn is active and nobody waits, or when it is itself the first of the queue, which
  it then leaves; no step changes the order of the queue, waiters only leave it or join at its end.
\<close>

theorem admission_exclusive_fifo:
  assumes "gate_step\<^sup>*\<^sup>* gate_init s" "ga_queued s \<le> 2 ^ 64" "gate_step s s'"
  shows "at_most_one (\<lambda>t. turn_of (ga_requests s t) \<noteq> None)
    \<and> at_most_one (\<lambda>t. holds_permit (ga_requests s t))
    \<and> ga_permits s = (if \<exists>t. holds_permit (ga_requests s t) then 0 else 1)
    \<and> (\<forall>t tk. turn_of (ga_requests s t) = None \<longrightarrow> turn_of (ga_requests s' t) = Some tk \<longrightarrow>
         active s = None \<and> active s' = Some tk \<and>
         (queue s = [] \<or> guard_of (ga_requests s t) = Some (entry_of (hd (queue s))) \<and> queue s' = tl (queue s)))
    \<and> (\<exists>ys xs. subseq ys (queue s) \<and> queue s' = ys @ xs \<and> length xs \<le> 1)"
proof (intro conjI allI impI)
  have ok: "turn_ok s" "permit_ok s" "queue_ok s" using gate_reachable_ok [OF assms(1,2)] by (simp_all add: gate_ok_def)
  show "at_most_one (\<lambda>t. turn_of (ga_requests s t) \<noteq> None)" using ok(1) by (simp add: turn_ok_def)
  show "at_most_one (\<lambda>t. holds_permit (ga_requests s t))"
    "ga_permits s = (if \<exists>t. holds_permit (ga_requests s t) then 0 else 1)"
    using ok(2) by (auto simp: permit_ok_def at_most_one_def)
  fix t tk assume t: "turn_of (ga_requests s t) = None" "turn_of (ga_requests s' t) = Some tk"
  obtain g n f g' where g: "ga_requests s t = Enabled tk g n"
      "grant_turn tk g (ga_fairness s) = (f, g', True)" "ga_fairness s' = f"
    by (rule turn_gained [OF assms(3) ok(3) t])
  have key: "we_timeline_key e = tk" if "queue s = e # rest" "g = Some (we_waiter_id e)" for e rest
    by (rule queue_front_key [OF ok(3) _ that(1) refl, of t]) (simp add: g(1) that(2))
  show "active s = None" by (rule grant_turn_True [OF g(2)]) simp_all
  show "queue s = [] \<or> guard_of (ga_requests s t) = Some (entry_of (hd (queue s))) \<and> queue s' = tl (queue s)"
    using g by (elim grant_turn_True) (auto simp: entry_of_def key)
  show "active s' = Some tk"
    using g by (elim grant_turn_True) (auto simp: entry_of_def key)
next
  show "\<exists>ys xs. subseq ys (queue s) \<and> queue s' = ys @ xs \<and> length xs \<le> 1" by (rule queue_order [OF assms(3)])
qed

definition sample_gate :: admission_gate where
  \<comment> \<open>the request of a timeline waits behind the turn of another one\<close>
  "sample_gate =
     \<lparr> ga_fairness = \<lparr> ff_active_timeline_key = Some ''a'',
         ff_wait_queue = [\<lparr> we_timeline_key = ''b'', we_waiter_id = 0 \<rparr>], ff_next_waiter_id = 1 \<rparr>,
       ga_permits = 1, ga_requests = (\<lambda>_. Outside)(0 := Turn ''a'', 1 := Waiting ''b'' (Some 0) False), ga_queued = 1 \<rparr>"

definition sample_grant :: admission_gate where
  \<comment> \<open>the turn has been given up, and the waiter looks again\<close>
  "sample_grant = sample_gate \<lparr> ga_fairness := ga_fairness sample_gate \<lparr> ff_active_timeline_key := None \<rparr>,
     ga_requests := (\<lambda>_. Outside)(1 := Enabled ''b'' (Some 0) False) \<rparr>"

definition sample_granted :: admission_gate where
  "sample_granted = sample_grant \<lparr>
     ga_fairness := \<lparr> ff_active_timeline_key = Some ''b'', ff_wait_queue = [], ff_next_waiter_id = 1 \<rparr>,
     ga_requests := (\<lambda>_. Outside)(1 := Turn ''b'') \<rparr>"

lemma gate_run_move: "gate_step\<^sup>*\<^sup>* s0 s \<Longrightarrow> gate_move s s' \<Longrightarrow> gate_step\<^sup>*\<^sup>* s0 s'"
  by (simp add: gate_step_def rtranclp.rtrancl_into_rtrancl)

lemma gate_run_event: "gate_step\<^sup>*\<^sup>* s0 s \<Longrightarrow> gate_event s s' \<Longrightarrow> gate_step\<^sup>*\<^sup>* s0 s'"
  by (simp add: gate_step_def rtranclp.rtrancl_into_rtrancl)

lemma sample_gate_reachable: "gate_step\<^sup>*\<^sup>* gate_init sample_gate"
proof -
  have "gate_step\<^sup>*\<^sup>* gate_init gate_init" by simp
  note gate_run_event [OF this gate_event.enter [of _ 0 "''a''"]]
  note gate_run_move [OF this gate_move.enable [of _ 0 "''a''" None]]
  note gate_run_move [OF this gate_move.granted [of _ 0 "''a''" None False
      "\<lparr> ff_active_timeline_key = Some ''a'', ff_wait_queue = [], ff_next_waiter_id = 0 \<rparr>" None]]
  note gate_run_event [OF this gate_event.enter [of _ 1 "''b''"]]
  note gate_run_move [OF this gate_move.enable [of _ 1 "''b''" None]]
  note gate_run_move [OF this gate_move.queued [of _ 1 "''b''" None False
      "\<lparr> ff_active_timeline_key = Some ''a'', ff_wait_queue = [\<lparr> we_timeline_key = ''b'', we_waiter_id = 0 \<rparr>],
         ff_next_waiter_id = 1 \<rparr>" "Some 0"]]
  then show ?thesis
    by (simp add: gate_init_def generator_fairness_default_def grant_turn_def queue_generator_waiter_if_needed_def
        sample_gate_def fun_upd_twist)
qed

lemma sample_grant_reachable: "gate_step\<^sup>*\<^sup>* gate_init sample_grant"
proof -
  note gate_run_event [OF sample_gate_reachable gate_event.cancel_turn [of _ 0 "''a''"]]
  note gate_run_move [OF this gate_move.notify [of _ 0 Outside]]
  note gate_run_move [OF this gate_move.wake [of _ 1 "''b''" "Some 0"]]
  note gate_run_move [OF this gate_move.enable [of _ 1 "''b''" "Some 0"]]
  moreover have "(notified \<circ> (\<lambda>_. Outside)(0 := Notifying Outside, Suc 0 := Waiting ''b'' (Some 0) False))
      (0 := Outside, Suc 0 := Enabled ''b'' (Some 0) False) = (\<lambda>_. Outside)(Suc 0 := Enabled ''b'' (Some 0) False)" by auto
  ultimately show ?thesis
    by (simp add: sample_gate_def sample_grant_def section_defs fun_upd_twist)
qed

lemma sample_granted_step: "gate_step sample_grant sample_granted"
proof -
  have "gate_move sample_grant sample_granted"
    using gate_move.granted [of sample_grant 1 "''b''" "Some 0" False
      "\<lparr> ff_active_timeline_key = Some ''b'', ff_wait_queue = [], ff_next_waiter_id = 1 \<rparr>" None]
    by (simp add: sample_grant_def sample_granted_def sample_gate_def grant_turn_def)
  then show ?thesis by (simp add: gate_step_def)
qed

theorem admission_exclusive_fifo_witness:
  "queue sample_grant \<noteq> [] \<and> turn_of (ga_requests sample_granted 1) = Some ''b''
    \<and> guard_of (ga_requests sample_grant 1) = Some (entry_of (hd (queue sample_grant)))
    \<and> queue sample_granted = tl (queue sample_grant)"
  using admission_exclusive_fifo [OF sample_grant_reachable _ sample_granted_step]
  by (simp add: sample_grant_def sample_granted_def sample_gate_def entry_of_def)

lemma enabled_moves:
  assumes "ga_requests s t = Enabled tk g n"
  shows "\<exists>s'. gate_move s s'"
proof -
  obtain f g' b where "grant_turn tk g (ga_fairness s) = (f, g', b)" by (rule prod_cases3)
  then show ?thesis using gate_move.granted [OF assms] gate_move.queued [OF assms] by (cases b) (simp_all, blast+)
qed

lemma front_moves:
  assumes "gate_ok s" "queue s = e # rest" "active s = None"
  shows "\<exists>s'. gate_move s s'"
proof -
  have ok: "queue_ok s" "wake_ok s" using assms(1) by (simp_all add: gate_ok_def)
  have "entry_of e \<in> entry_of ` set (queue s)" using assms(2) by simp
  then obtain t where t: "guard_of (ga_requests s t) = Some (entry_of e)" using ok(1) by (auto simp: queue_ok_def)
  show ?thesis
  proof (cases "ga_requests s t")
    case (Entering tk g)
    then show ?thesis using gate_move.enable by blast
  next
    case (Enabled tk g n)
    then show ?thesis by (rule enabled_moves)
  next
    case (Waiting tk g n)
    with t have g: "g = Some (we_waiter_id e)" by (cases g) (simp_all add: entry_of_def)
    show ?thesis
    proof (cases n)
      case True
      then show ?thesis using Waiting gate_move.wake [of s t tk g] by auto
    next
      case False
      then have "ga_requests s t = Waiting tk (Some (we_waiter_id (hd (queue s)))) False"
        using Waiting g assms(2) by simp
      then obtain t' p where "ga_requests s t' = Notifying p"
        using ok(2) assms(2,3) unfolding wake_ok_def by (metis list.distinct(1))
      then show ?thesis using gate_move.notify by blast
    qed
  qed (use t in simp_all)
qed

lemma holder_moves:
  assumes "gate_ok s" "active s = Some tk"
  shows "(\<exists>t tk. ga_requests s t = Admitted tk) \<or> (\<exists>s'. gate_move s s')"
proof -
  have ok: "turn_ok s" "permit_ok s" using assms(1) by (simp_all add: gate_ok_def)
  obtain t where t: "turn_of (ga_requests s t) \<noteq> None" using ok(1) assms(2) by (auto simp: turn_ok_def)
  show ?thesis
  proof (cases "ga_requests s t")
    case (Turn tk)
    show ?thesis
    proof (cases "0 < ga_permits s")
      case False
      then obtain u where "holds_permit (ga_requests s u)" using ok(2) unfolding permit_ok_def by (metis less_one)
      then consider k where "ga_requests s u = Admitted k" | "ga_requests s u = Permit_Only" | p where "ga_requests s u = Notifying p"
        by (cases "ga_requests s u") simp_all
      then show ?thesis by cases (blast intro: gate_move.give_back gate_move.notify)+
    qed (use Turn gate_move.permit in blast)
  next
    case (Turn_Only tk)
    then show ?thesis using gate_move.drop_turn by blast
  qed (use t in \<open>simp_all, blast?\<close>)
qed

text \<open>
  C32: no wakeup is lost. As long as some request has not finished its admission, either a request is at work
  with the generator, or some request can take its next step by itself: it never takes a new arrival or a
  cancellation to get the queue moving, although notifications are sent after the lock is released and reach
  only those registered at that moment.
\<close>

theorem admission_never_stuck:
  assumes "gate_step\<^sup>*\<^sup>* gate_init s" "ga_queued s \<le> 2 ^ 64" "ga_requests s t \<noteq> Outside"
  shows "(\<exists>t tk. ga_requests s t = Admitted tk) \<or> (\<exists>s'. gate_move s s')"
proof (cases "active s")
  case None
  have ok: "gate_ok s" by (rule gate_reachable_ok [OF assms(1,2)])
  show ?thesis
  proof (cases "queue s")
    case Nil
    have none: "turn_of (ga_requests s t) = None" using None ok by (auto simp: gate_ok_def turn_ok_def)
    show ?thesis
    proof (cases "ga_requests s t")
      case (Entering tk g)
      then show ?thesis using gate_move.enable by blast
    next
      case (Enabled tk g n)
      then show ?thesis using enabled_moves by blast
    next
      case (Waiting tk g n)
      then obtain w where "g = Some w" using ok waiting_shape unfolding gate_ok_def by blast
      with Waiting have "guard_of (ga_requests s t) = Some (tk, w)" by simp
      then have "(tk, w) \<in> entry_of ` set (queue s)" using ok unfolding gate_ok_def queue_ok_def by blast
      then show ?thesis using Nil by simp
    next
      case Permit_Only
      then show ?thesis using gate_move.give_back by blast
    next
      case (Notifying p)
      then show ?thesis using gate_move.notify by blast
    qed (use none assms(3) in simp_all)
  next
    case (Cons e rest)
    then show ?thesis using front_moves [OF ok Cons None] by blast
  qed
next
  case (Some tk)
  then show ?thesis by (rule holder_moves [OF gate_reachable_ok [OF assms(1,2)]])
qed

theorem admission_never_stuck_witness:
  "ga_requests sample_gate 1 = Waiting ''b'' (Some 0) False
    \<and> ((\<exists>t tk. ga_requests sample_gate t = Admitted tk) \<or> (\<exists>s'. gate_move sample_gate s'))"
  using admission_never_stuck [OF sample_gate_reachable, of 1] by (simp add: sample_gate_def)

end
