(* ===== verification/Transfers.thy ===== *)
theory Transfers
  imports Timelines Outcomes
begin

text \<open>
  Moving a timeline to another generator or worker (\<open>service/transfer.rs\<close>): the floor below which the new
  owner must not allocate, the choice of the target, the compare-and-exchange of the record and what the
  old owner does with its cached state. When a timeline moves between generators of the same worker, the
  lock of its cached state is held throughout (\<open>apply_fenced_local_transfer_plan\<close>): that state stays as
  it was when it was locked. Fuel bounds the lease and activation loops; \<open>None\<close> means that it ran out.
\<close>

subsection \<open>Preparation\<close>

type_synonym claimed_dedicated = "(u32 \<times> bool) option"

record transfer_preparation =
  xp_previous_route :: timeline_route
  xp_old_generator_id :: u32
  xp_safe_floor :: "u64 option"
  xp_now :: u64

record transfer_target_selection =
  xs_target_resource_tier :: resource_tier
  xs_new_generator_id :: u32
  xs_claimed_dedicated :: claimed_dedicated

record transfer_completion =
  xc_previous_route :: timeline_route
  xc_transfer :: transfer_plan
  xc_target_resource_tier :: resource_tier
  xc_new_generator_id :: u32
  xc_safe_floor :: "u64 option"

definition validate_transfer_target :: "string \<Rightarrow> string \<Rightarrow> string \<Rightarrow> u32 option \<Rightarrow> unit tso_result" where
  "validate_transfer_target local_endpoint tk target_endpoint target_generator_id =
     (if \<not> endpoints_match target_endpoint local_endpoint \<and> target_generator_id = None
      then Inl (TargetGeneratorIdRequired tk) else Inr ())"

definition validate_recovery_catchup_budget_for_target ::
    "surroundings \<Rightarrow> u32 \<Rightarrow> u64 option \<Rightarrow> unit act" where
  "validate_recovery_catchup_budget_for_target ax gid safe_floor =
     (case safe_floor of
        None \<Rightarrow> ret ()
      | Some recovery_floor_tso \<Rightarrow>
          bnd (required_jump_ms_for_generator ax gid recovery_floor_tso) (\<lambda>required_jump_ms.
          bnd get_service (\<lambda>sv. let budget_ms = cfg_recovery_catchup_budget_ms (sv_config sv) in
          if required_jump_ms \<le> budget_ms then ret ()
          else throw (RecoveryCatchupBudgetExceeded gid required_jump_ms budget_ms))))"

definition release_claimed_dedicated_if_needed ::
    "string \<Rightarrow> timeline_route \<Rightarrow> claimed_dedicated \<Rightarrow> tso_service \<Rightarrow> tso_service" where
  "release_claimed_dedicated_if_needed tk previous_route claimed_dedicated sv =
     (case claimed_dedicated of
        None \<Rightarrow> sv
      | Some (gid, claimed) \<Rightarrow>
          if should_release_claimed_dedicated_generator claimed (rt_resource_tier previous_route)
               (rt_generator_id previous_route) gid
          then service_release_dedicated gid tk sv else sv)"

definition giving_back :: "string \<Rightarrow> timeline_route \<Rightarrow> claimed_dedicated \<Rightarrow> tso_error \<Rightarrow> 'a act" where
  \<comment> \<open>an error after the claim has been released\<close>
  "giving_back tk previous_route claimed e =
     bnd (on_service (\<lambda>sv. (release_claimed_dedicated_if_needed tk previous_route claimed sv, Inr ()))) (\<lambda>_. throw e)"

definition failover_allowed ::
    "tso_config \<Rightarrow> string \<Rightarrow> u32 \<Rightarrow> (generator_record \<times> u64) option \<Rightarrow> u64 \<Rightarrow> unit tso_result" where
  "failover_allowed c tk old_generator_id loaded now =
     and_then
       (case loaded of
          None \<Rightarrow> Inr ()
        | Some (g, _) \<Rightarrow>
            (case gr_lease_expire_at_ms g of
               None \<Rightarrow> Inl (FailoverLeaseExpiryUnknown tk)
             | Some e \<Rightarrow>
                 if \<not> lease_expired_with_safety_gap e now (cfg_safety_gap_ms c)
                 then Inl (FailoverRequiresExpiredLease tk e) else Inr ()))
       (\<lambda>_. if (case loaded of None \<Rightarrow> None | Some (g, _) \<Rightarrow> generator_recovery_floor_tso g) = None
            then Inl (FailoverMissingRecoveryFloor tk old_generator_id) else Inr ())"

definition prepare_transfer_application ::
    "surroundings \<Rightarrow> string \<Rightarrow> timeline_record \<Rightarrow> transfer_plan \<Rightarrow> (timeline_record \<times> transfer_preparation) act" where
  \<comment> \<open>with the record as it is left\<close>
  "prepare_transfer_application ax tk r transfer =
     (let previous_route = tl_route r; old_generator_id = rt_generator_id previous_route in
      bnd (clock_now_ms ax) (\<lambda>now.
      bnd (load_generator ax old_generator_id) (\<lambda>loaded.
      let previous_floor = (case loaded of None \<Rightarrow> None | Some (g, _) \<Rightarrow> generator_recovery_floor_tso g) in
      bnd get_service (\<lambda>sv.
      bnd (done_with (if tp_reason transfer = Failover
                      then failover_allowed (sv_config sv) tk old_generator_id loaded now else Inr ())) (\<lambda>_.
      bnd (if tp_reason transfer \<noteq> Failover \<and> is_local_endpoint sv (rt_owner_worker_endpoint previous_route)
           then bnd (cached_handle tk) (\<lambda>h. case h of
             None \<Rightarrow> ret r
           | Some a \<Rightarrow>
               bnd (read_state ax a) (\<lambda>st. ret (case tst_last_issued_tso st of
                 None \<Rightarrow> r
               | Some last_issued \<Rightarrow> r \<lparr> tl_last_graceful_issued := Some last_issued \<rparr>)))
           else ret r) (\<lambda>r'.
      ret (r', \<lparr> xp_previous_route = previous_route, xp_old_generator_id = old_generator_id,
         xp_safe_floor = safe_floor_for_transfer_reason (tp_reason transfer) (tl_last_graceful_issued r') previous_floor,
         xp_now = now \<rparr>)))))))"

subsection \<open>Choice of the target\<close>

definition initial_target ::
    "(string \<Rightarrow> u64) \<Rightarrow> string \<Rightarrow> transfer_plan \<Rightarrow> tso_service \<Rightarrow> tso_service \<times> (u32 \<times> claimed_dedicated) tso_result" where
  "initial_target hash tk transfer sv =
     (case tp_generator_id transfer of
        Some gid \<Rightarrow>
          (case ensure_generator_id_range sv gid of
             Inl e \<Rightarrow> (sv, Inl e)
           | Inr _ \<Rightarrow>
               if tp_resource_tier transfer = Dedicated then
                 (case claim_specific_dedicated gid tk sv of
                    (sv', r) \<Rightarrow> (sv', and_then r (\<lambda>claimed. Inr (gid, Some (gid, claimed)))))
               else (sv, Inr (gid, None)))
      | None \<Rightarrow>
          if tp_resource_tier transfer = Dedicated then
            (case service_claim_dedicated tk sv of
               (sv', r) \<Rightarrow> (sv', and_then r (\<lambda>(gid, claimed). Inr (gid, Some (gid, claimed)))))
          else (case pick_generator_id hash tk (tp_resource_tier transfer) sv of
                  (sv', r) \<Rightarrow> (sv', and_then r (\<lambda>gid. Inr (gid, None)))))"

definition isolated_target ::
    "surroundings \<Rightarrow> string \<Rightarrow> transfer_plan \<Rightarrow> u64 option \<Rightarrow> u32 \<Rightarrow> claimed_dedicated \<Rightarrow> transfer_target_selection act" where
  \<comment> \<open>a shared generator that would have to jump too far ahead is replaced by a dedicated one\<close>
  "isolated_target ax tk transfer safe_floor gid claimed =
     (let chosen = \<lparr> xs_target_resource_tier = tp_resource_tier transfer, xs_new_generator_id = gid,
                     xs_claimed_dedicated = claimed \<rparr> in
      if tp_resource_tier transfer = Dedicated then ret chosen
      else (case safe_floor of
        None \<Rightarrow> ret chosen
      | Some recovery_floor_tso \<Rightarrow>
          bnd (required_jump_ms_for_generator ax gid recovery_floor_tso) (\<lambda>required_jump_ms.
          bnd get_service (\<lambda>sv. let threshold_ms = cfg_shared_jump_ahead_threshold_ms (sv_config sv) in
          if \<not> threshold_ms < required_jump_ms then ret chosen
          else if tp_generator_id transfer \<noteq> None
          then throw (SharedGeneratorJumpAheadTooLarge gid required_jump_ms threshold_ms)
          else bnd (on_service (service_claim_dedicated tk)) (\<lambda>(isolated, claimed).
            ret \<lparr> xs_target_resource_tier = Dedicated, xs_new_generator_id = isolated,
                  xs_claimed_dedicated = Some (isolated, claimed) \<rparr>)))))"

definition check_remote_target ::
    "surroundings \<Rightarrow> string \<Rightarrow> timeline_route \<Rightarrow> transfer_plan \<Rightarrow> transfer_target_selection \<Rightarrow> unit act" where
  \<comment> \<open>a generator named for another worker must not be ours and not be held by a third\<close>
  "check_remote_target ax tk previous_route transfer target =
     (let gid = xs_new_generator_id target;
          unsafe = UnsafeRemoteTransferTarget gid (tp_owner_endpoint transfer) in
      bnd get_service (\<lambda>sv.
      if is_local_endpoint sv (tp_owner_endpoint transfer) \<or> tp_generator_id transfer = None then ret ()
      else if 1 < cfg_generator_ownership_modulo (sv_config sv) \<and> owns_generator_id sv gid
      then giving_back tk previous_route (xs_claimed_dedicated target) unsafe
      else bnd (load_generator ax gid) (\<lambda>loaded. case loaded of
        None \<Rightarrow> ret ()
      | Some (g, _) \<Rightarrow>
          bnd (case gr_lease_expire_at_ms g of
                 None \<Rightarrow> ret False
               | Some e \<Rightarrow> bnd (clock_now_ms ax) (\<lambda>now.
                   ret (\<not> lease_expired_with_safety_gap e now (cfg_safety_gap_ms (sv_config sv))))) (\<lambda>lease_is_active.
          if lease_is_active \<and> \<not> endpoints_match (gr_owner_worker_endpoint g) (tp_owner_endpoint transfer)
          then giving_back tk previous_route (xs_claimed_dedicated target) unsafe
          else ret ()))))"

definition select_transfer_target ::
    "surroundings \<Rightarrow> (string \<Rightarrow> u64) \<Rightarrow> string \<Rightarrow> timeline_route \<Rightarrow> transfer_plan \<Rightarrow> u64 option
       \<Rightarrow> transfer_target_selection act" where
  "select_transfer_target ax hash tk previous_route transfer safe_floor =
     bnd (on_service (initial_target hash tk transfer)) (\<lambda>(gid, claimed).
     bnd (isolated_target ax tk transfer safe_floor gid claimed) (\<lambda>target.
     let gid = xs_new_generator_id target in
     bnd (result_of (validate_recovery_catchup_budget_for_target ax gid safe_floor)) (\<lambda>res. case res of
       Inl e \<Rightarrow> giving_back tk previous_route (xs_claimed_dedicated target) e
     | Inr _ \<Rightarrow>
         bnd get_service (\<lambda>sv.
         if is_local_endpoint sv (tp_owner_endpoint transfer) \<and> \<not> owns_generator_id sv gid
         then giving_back tk previous_route (xs_claimed_dedicated target)
                (GeneratorNotOwnedByThisWorker gid (cfg_generator_ownership_modulo (sv_config sv))
                   (cfg_generator_ownership_remainder (sv_config sv)))
         else bnd (check_remote_target ax tk previous_route transfer target) (\<lambda>_. ret target)))))"

subsection \<open>The transfer\<close>

definition transferred ::
    "timeline_record \<Rightarrow> transfer_plan \<Rightarrow> transfer_target_selection \<Rightarrow> timeline_lifecycle_state \<Rightarrow> u64 option \<Rightarrow> u64
       \<Rightarrow> timeline_record" where
  \<comment> \<open>the record of the timeline under its new route\<close>
  "transferred r transfer target state safe_floor now =
     r \<lparr> tl_route := (tl_route r) \<lparr> rt_generator_id := xs_new_generator_id target,
           rt_resource_tier := xs_target_resource_tier target, rt_epoch := rt_epoch (tl_route r) + 1,
           rt_route_version := rt_route_version (tl_route r) + 1,
           rt_owner_worker_endpoint := tp_owner_endpoint transfer \<rparr>,
         tl_state := state, tl_recovery_floor_tso := safe_floor, tl_issued_upper_bound := None,
         tl_lease_expire_at_ms := None, tl_updated_at_ms := now \<rparr>"

definition release_previous ::
    "string \<Rightarrow> timeline_route \<Rightarrow> resource_tier \<Rightarrow> u32 \<Rightarrow> tso_service \<Rightarrow> tso_service" where
  "release_previous tk previous_route tier gid sv =
     (if should_release_previous_dedicated_generator_after_route_change (rt_resource_tier previous_route)
           (rt_generator_id previous_route) tier gid
      then service_release_dedicated (rt_generator_id previous_route) tk sv else sv)"

definition synchronize_transfer_completion ::
    "surroundings \<Rightarrow> nat \<Rightarrow> string \<Rightarrow> timeline_record \<Rightarrow> u64 \<Rightarrow> transfer_completion
       \<Rightarrow> (timeline_route \<times> timeline_lifecycle_state) option act" where
  "synchronize_transfer_completion ax fuel tk r new_revision completion =
     (let tier = xc_target_resource_tier completion; gid = xc_new_generator_id completion in
      bnd (on_service (\<lambda>sv. (release_previous tk (xc_previous_route completion) tier gid sv, Inr ()))) (\<lambda>_.
      bnd get_service (\<lambda>sv. let here = is_local_endpoint sv (tp_owner_endpoint (xc_transfer completion)) in
      bnd (if here \<and> tl_state r \<noteq> Active then
             bnd (ensure_generator_lease_with_cancellation ax fuel gid) (\<lambda>ensured. case ensured of
               None \<Rightarrow> ret None
             | Some _ \<Rightarrow> activate_local_timeline_record ax fuel tk r new_revision)
           else ret (Some (r, new_revision))) (\<lambda>activated. case activated of
        None \<Rightarrow> ret None
      | Some (r', final_revision) \<Rightarrow>
          bnd (if here then
                 bnd (on_service (\<lambda>sv. case alloc_state
                        (build_timeline_state r' final_revision (xc_safe_floor completion)) sv of
                          (sv', a) \<Rightarrow> (sv', Inr a))) (\<lambda>a.
                 bnd (best_effort_insert_timeline_cache ax tk a) (\<lambda>_. ret ()))
               else on_service (\<lambda>sv. let sv' = clear_timeline_cache tk sv in
                      (if tier = Dedicated then service_release_dedicated gid tk sv' else sv', Inr ()))) (\<lambda>_.
          ret (Some (tl_route r', tl_state r')))))))"

type_synonym transfer_result = "timeline_route \<times> u32 \<times> timeline_lifecycle_state"

definition fenced_record :: "timeline_state \<Rightarrow> timeline_record \<Rightarrow> timeline_record" where
  \<comment> \<open>the record with the floor of the locked state\<close>
  "fenced_record st r =
     (case opt_max (opt_max (tst_last_issued_tso st) (tst_recovery_floor_tso st)) (tl_last_graceful_issued r) of
        None \<Rightarrow> r
      | Some safe_floor \<Rightarrow> r \<lparr> tl_last_graceful_issued := opt_max (tl_last_graceful_issued r) (Some safe_floor) \<rparr>)"

definition fenced_state :: "timeline_record \<Rightarrow> u64 option \<Rightarrow> u64 \<Rightarrow> timeline_state \<Rightarrow> timeline_state" where
  \<comment> \<open>the locked state after the move\<close>
  "fenced_state r safe_floor revision st =
     st \<lparr> tst_route := tl_route r, tst_state := tl_state r,
          tst_last_issued_tso := opt_max (tst_last_issued_tso st) safe_floor,
          tst_recovery_floor_tso := opt_max (tst_recovery_floor_tso st) safe_floor,
          tst_last_graceful_issued := tl_last_graceful_issued r,
          tst_timeline_quota_tokens := None, tst_timeline_quota_last_refill_ms := None, tst_revision := revision \<rparr>"

definition apply_fenced_local_transfer_plan ::
    "surroundings \<Rightarrow> nat \<Rightarrow> (string \<Rightarrow> u64) \<Rightarrow> string \<Rightarrow> timeline_record \<Rightarrow> transfer_plan \<Rightarrow> transfer_preparation
       \<Rightarrow> nat \<Rightarrow> timeline_state \<Rightarrow> transfer_result option act" where
  \<comment> \<open>with the address and the contents of the locked state\<close>
  "apply_fenced_local_transfer_plan ax fuel hash tk r transfer prepared a st =
     (let r = fenced_record st r; safe_floor = tl_last_graceful_issued r; previous_route = xp_previous_route prepared in
      bnd (select_transfer_target ax hash tk previous_route transfer safe_floor) (\<lambda>target.
      bnd (result_of (ensure_generator_lease_with_cancellation ax fuel (xs_new_generator_id target))) (\<lambda>ensured.
      case ensured of
        Inl e \<Rightarrow> giving_back tk previous_route (xs_claimed_dedicated target) e
      | Inr None \<Rightarrow> ret None
      | Inr (Some _) \<Rightarrow>
          let r = transferred r transfer target Active safe_floor (xp_now prepared) in
          bnd (result_of (compare_exchange_timeline ax tk (tst_revision st) r)) (\<lambda>res. case res of
            Inl e \<Rightarrow> giving_back tk previous_route (xs_claimed_dedicated target) e
          | Inr new_rev \<Rightarrow>
              bnd (on_service (\<lambda>sv.
                (set_state a (fenced_state r safe_floor new_rev st)
                   (release_previous tk previous_route (xs_target_resource_tier target) (xs_new_generator_id target) sv),
                 Inr ()))) (\<lambda>_.
              ret (Some (tl_route r, xp_old_generator_id prepared, tl_state r)))))))"

definition fenced_handle ::
    "surroundings \<Rightarrow> string \<Rightarrow> u64 \<Rightarrow> transfer_plan \<Rightarrow> transfer_preparation \<Rightarrow> (nat \<times> timeline_state) option act" where
  \<comment> \<open>the cached state to lock when the timeline stays on this worker\<close>
  "fenced_handle ax tk revision transfer prepared =
     bnd get_service (\<lambda>sv.
     if tp_reason transfer \<noteq> Failover
        \<and> is_local_endpoint sv (rt_owner_worker_endpoint (xp_previous_route prepared))
        \<and> is_local_endpoint sv (tp_owner_endpoint transfer)
     then bnd (cached_handle tk) (\<lambda>h. case h of
       None \<Rightarrow> ret None
     | Some a \<Rightarrow>
         bnd (read_state ax a) (\<lambda>st.
         ret (if tst_route st = xp_previous_route prepared \<and> tst_revision st = revision then Some (a, st) else None)))
     else ret None)"

definition apply_unfenced_transfer_plan ::
    "surroundings \<Rightarrow> nat \<Rightarrow> (string \<Rightarrow> u64) \<Rightarrow> string \<Rightarrow> timeline_record \<Rightarrow> u64 \<Rightarrow> transfer_plan \<Rightarrow> transfer_preparation
       \<Rightarrow> transfer_result option act" where
  "apply_unfenced_transfer_plan ax fuel hash tk r revision transfer prepared =
     (let previous_route = xp_previous_route prepared; safe_floor = xp_safe_floor prepared in
      bnd (select_transfer_target ax hash tk previous_route transfer safe_floor) (\<lambda>target.
      bnd get_service (\<lambda>sv.
      let can_activate = (is_local_endpoint sv (tp_owner_endpoint transfer) \<and> tp_reason transfer \<noteq> Failover) in
      bnd (if can_activate
           then result_of (ensure_generator_lease_with_cancellation ax fuel (xs_new_generator_id target))
           else ret (Inr (Some ()))) (\<lambda>ensured. case ensured of
        Inl e \<Rightarrow> giving_back tk previous_route (xs_claimed_dedicated target) e
      | Inr None \<Rightarrow> ret None
      | Inr (Some _) \<Rightarrow>
          let r = transferred r transfer target (if can_activate then Active else Recovering) safe_floor (xp_now prepared) in
          bnd (result_of (compare_exchange_timeline ax tk revision r)) (\<lambda>res. case res of
            Inl e \<Rightarrow> giving_back tk previous_route (xs_claimed_dedicated target) e
          | Inr new_rev \<Rightarrow>
              bnd (on_service (\<lambda>sv. (clear_timeline_cache tk sv, Inr ()))) (\<lambda>_.
              bnd (synchronize_transfer_completion ax fuel tk r new_rev
                     \<lparr> xc_previous_route = previous_route, xc_transfer = transfer,
                       xc_target_resource_tier = xs_target_resource_tier target,
                       xc_new_generator_id = xs_new_generator_id target, xc_safe_floor = safe_floor \<rparr>) (\<lambda>completed.
              ret (map_option (\<lambda>(route, state). (route, xp_old_generator_id prepared, state)) completed))))))))"

definition apply_transfer_plan ::
    "surroundings \<Rightarrow> nat \<Rightarrow> (string \<Rightarrow> u64) \<Rightarrow> string \<Rightarrow> timeline_record \<Rightarrow> u64 \<Rightarrow> transfer_plan
       \<Rightarrow> transfer_result option act" where
  "apply_transfer_plan ax fuel hash tk r revision transfer =
     bnd (prepare_transfer_application ax tk r transfer) (\<lambda>(r', prepared).
     bnd (fenced_handle ax tk revision transfer prepared) (\<lambda>fenced. case fenced of
       Some (a, st) \<Rightarrow> apply_fenced_local_transfer_plan ax fuel hash tk r' transfer prepared a st
     | None \<Rightarrow> apply_unfenced_transfer_plan ax fuel hash tk r' revision transfer prepared))"

subsection \<open>Entry points\<close>

definition transfer_timeline_for_rpc ::
    "surroundings \<Rightarrow> nat \<Rightarrow> (string \<Rightarrow> u64) \<Rightarrow> string \<Rightarrow> string \<Rightarrow> u32 option \<Rightarrow> transfer_reason
       \<Rightarrow> transfer_result option act" where
  "transfer_timeline_for_rpc ax fuel hash tk target_endpoint target_generator_id reason =
     bnd (done_with (validate_timeline_key tk)) (\<lambda>_.
     bnd get_service (\<lambda>sv. let c = sv_config sv in
     bnd (done_with (validate_transfer_target (cfg_advertise_endpoint c) tk target_endpoint target_generator_id)) (\<lambda>_.
     bnd (load_timeline ax tk) (\<lambda>loaded. case loaded of
       None \<Rightarrow> throw (TimelineNotFound tk)
     | Some (r, revision) \<Rightarrow>
         bnd (done_with (case target_generator_id of
                Some gid \<Rightarrow> resource_tier_for_generator_id gid (cfg_shared_generators c) (cfg_warm_generators c)
                              (max_generators (cfg_timestamp_layout c))
              | None \<Rightarrow> Inr (rt_resource_tier (tl_route r)))) (\<lambda>tier.
         apply_transfer_plan (uncancelled ax) fuel hash tk r revision
           \<lparr> tp_resource_tier = tier, tp_owner_endpoint = target_endpoint, tp_generator_id = target_generator_id,
             tp_reason = reason \<rparr>)))))"

definition transfer_timeline ::
    "surroundings \<Rightarrow> nat \<Rightarrow> (string \<Rightarrow> u64) \<Rightarrow> string \<Rightarrow> resource_tier \<Rightarrow> string \<Rightarrow> u32 option \<Rightarrow> timeline_route option act" where
  "transfer_timeline ax fuel hash tk tier target_endpoint target_generator_id =
     bnd (done_with (validate_timeline_key tk)) (\<lambda>_.
     bnd get_service (\<lambda>sv.
     bnd (done_with (validate_transfer_target (cfg_advertise_endpoint (sv_config sv)) tk target_endpoint
            target_generator_id)) (\<lambda>_.
     bnd (load_timeline ax tk) (\<lambda>loaded. case loaded of
       None \<Rightarrow> throw (TimelineNotFound tk)
     | Some (r, revision) \<Rightarrow>
         bnd (apply_transfer_plan (uncancelled ax) fuel hash tk r revision
                \<lparr> tp_resource_tier = tier, tp_owner_endpoint = target_endpoint,
                  tp_generator_id = target_generator_id, tp_reason = Manual \<rparr>) (\<lambda>res.
         ret (map_option fst res))))))"

subsection \<open>The new route\<close>

definition keeps_config :: "surroundings \<Rightarrow> bool" where
  \<comment> \<open>the configuration of a worker does not change\<close>
  "keeps_config ax \<longleftrightarrow> (\<forall>i sv s. sv_config (fst (ax_others ax i (sv, s))) = sv_config sv)"

definition written_over :: "surroundings \<Rightarrow> string \<Rightarrow> u64 \<Rightarrow> memory_store \<Rightarrow> bool" where
  \<comment> \<open>the store is what one conditional write made of the store the others had left, which held the revision\<close>
  "written_over ax tk revision s' \<longleftrightarrow>
     (\<exists>i sv s1 sv' s current written. ax_others ax i (sv, s1) = (sv', s) \<and> timeline_entry s tk = Some (current, revision)
        \<and> ms_compare_exchange_timeline tk revision written s = (s', Inr (revision + 1)))"

definition route_installed ::
    "surroundings \<Rightarrow> timeline_record \<Rightarrow> u64 \<Rightarrow> string \<Rightarrow> transfer_plan \<Rightarrow> world \<Rightarrow> transfer_result option \<Rightarrow> bool" where
  "route_installed ax r revision tk transfer w res =
     (case res of
        None \<Rightarrow> True
      | Some (route, old, state) \<Rightarrow>
          old = rt_generator_id (tl_route r) \<and> rt_timeline_key route = rt_timeline_key (tl_route r)
          \<and> rt_epoch route = rt_epoch (tl_route r) + 1 \<and> rt_route_version route = rt_route_version (tl_route r) + 1
          \<and> rt_owner_worker_endpoint route = tp_owner_endpoint transfer
          \<and> written_over ax tk revision (w_store w)
          \<and> (case timeline_entry (w_store w) tk of
               None \<Rightarrow> False
             | Some (r', rv) \<Rightarrow> rv = revision + 1 \<and> tl_route r' = route \<and> tl_state r' = state \<and> state \<in> {Active, Recovering}))"

lemma exchanged_timeline:
  assumes "compare_exchange_timeline ax tk rv r w = (w', Inr new_rv)"
  shows "timeline_entry (w_store w') tk = Some (stamp_timeline r, rv + 1)"
    "keeps_config ax \<Longrightarrow> sv_config (w_service w') = sv_config (w_service w)"
    "written_over ax tk rv (w_store w')"
proof -
  obtain sv s where o: "ax_others ax (w_tick w) (w_service w, w_store w) = (sv, s)" by fastforce
  then have c: "ms_compare_exchange_timeline tk rv r s = (w_store w', Inr new_rv)" and sv: "w_service w' = sv"
    using assms by (auto simp: compare_exchange_timeline_def on_store_eq pause_def tick_def split: prod.splits)
  show "timeline_entry (w_store w') tk = Some (stamp_timeline r, rv + 1)"
    using tls.cas_ok [OF c] by simp
  show "sv_config (w_service w') = sv_config (w_service w)" if "keeps_config ax"
    using that o sv unfolding keeps_config_def by (metis fst_conv)
  have "\<exists>current. timeline_entry s tk = Some (current, rv)" "new_rv = rv + 1" using tls.cas_ok [OF c] by auto
  with o c show "written_over ax tk rv (w_store w')" unfolding written_over_def by metis
qed

lemma ends_giving_back [simp]: "ends Q (giving_back tk previous_route claimed e w)"
  by (simp add: giving_back_def bnd_def on_service_def throw_def)

lemma prepare_keeps_route:
  "ends (\<lambda>w (r', prepared). tl_route r' = tl_route r \<and> xp_previous_route prepared = tl_route r
           \<and> xp_old_generator_id prepared = rt_generator_id (tl_route r))
     (prepare_transfer_application ax tk r transfer w)"
  unfolding prepare_transfer_application_def Let_def
  by (intro ends_bnd ends_ret) (auto simp: bnd_def ret_def split: if_splits prod.splits sum.splits option.splits)

lemma fenced_handle_revision:
  "ends (\<lambda>w. pred_option (\<lambda>(a, st). tst_revision st = revision)) (fenced_handle ax tk revision transfer prepared w)"
  unfolding fenced_handle_def by (intro ends_rules) auto

lemma transferred_route:
  "tl_route (transferred r transfer target state safe_floor now) = (tl_route r) \<lparr> rt_generator_id := xs_new_generator_id target,
     rt_resource_tier := xs_target_resource_tier target, rt_epoch := rt_epoch (tl_route r) + 1,
     rt_route_version := rt_route_version (tl_route r) + 1, rt_owner_worker_endpoint := tp_owner_endpoint transfer \<rparr>"
  "tl_state (transferred r transfer target state safe_floor now) = state"
  "tl_route (fenced_record st r) = tl_route r"
  "tl_route (stamp_timeline r) = tl_route r" "tl_state (stamp_timeline r) = tl_state r"
  by (simp_all add: transferred_def fenced_record_def stamp_timeline_def split: option.split)

lemma fenced_installs:
  assumes "xp_old_generator_id prepared = rt_generator_id (tl_route r)"
  shows "ends (route_installed ax r (tst_revision st) tk transfer)
     (apply_fenced_local_transfer_plan ax fuel hash tk r transfer prepared a st w)"
  unfolding apply_fenced_local_transfer_plan_def Let_def
  by (intro ends_rules ends_giving_back)
    (auto simp: route_installed_def on_service_def transferred_route assms dest: exchanged_timeline(1,3))

lemma synchronize_local:
  assumes "is_local_endpoint (w_service w) (tp_owner_endpoint (xc_transfer completion)) \<longrightarrow> tl_state r = Active"
  shows "ends (\<lambda>w' res. w_store w' = w_store w \<and> (res = None \<or> res = Some (tl_route r, tl_state r)))
     (synchronize_transfer_completion ax fuel tk r rv completion w)"
  using assms unfolding synchronize_transfer_completion_def Let_def
  by (intro ends_rules)
    (auto simp: on_service_def alloc_state_def best_effort_insert_timeline_cache_def bnd_def ret_def tick_def Let_def
      is_local_endpoint_def release_previous_def service_release_dedicated_def on_runtime_def
      split: if_splits prod.splits sum.splits)

lemma unfenced_installs:
  assumes "keeps_config ax" "tp_reason transfer \<noteq> Failover"
    and "xp_old_generator_id prepared = rt_generator_id (tl_route r)"
  shows "ends (route_installed ax r revision tk transfer)
     (apply_unfenced_transfer_plan ax fuel hash tk r revision transfer prepared w)"
proof -
  have finish: "ends (route_installed ax r revision tk transfer)
      (bnd (on_service (\<lambda>sv. (clear_timeline_cache tk sv, Inr ()))) (\<lambda>_.
       bnd (synchronize_transfer_completion ax fuel tk r' rv completion) (\<lambda>completed.
       ret (map_option (\<lambda>(route, state). (route, xp_old_generator_id prepared, state)) completed))) w2)"
    if r': "r' = transferred r transfer target state (xp_safe_floor prepared) (xp_now prepared)"
      and state: "state \<in> {Active, Recovering}"
      and here: "is_local_endpoint (w_service w2) (tp_owner_endpoint transfer) \<longrightarrow> state = Active"
      and stored: "timeline_entry (w_store w2) tk = Some (stamp_timeline r', revision + 1)"
        "written_over ax tk revision (w_store w2)"
      and completion: "xc_transfer completion = transfer" for r' target state rv completion w2
  proof (rule ends_bnd)
    fix w3 x assume "on_service (\<lambda>sv. (clear_timeline_cache tk sv, Inr ())) w2 = (w3, Inr (x :: unit))"
    then have w3: "w_store w3 = w_store w2" "sv_config (w_service w3) = sv_config (w_service w2)"
      by (auto simp: on_service_def clear_timeline_cache_def)
    have "ends (\<lambda>w' res. w_store w' = w_store w3 \<and> (res = None \<or> res = Some (tl_route r', tl_state r')))
        (synchronize_transfer_completion ax fuel tk r' rv completion w3)"
      by (rule synchronize_local) (use here w3(2) r' completion in \<open>simp add: is_local_endpoint_def transferred_route\<close>)
    then show "ends (route_installed ax r revision tk transfer)
        (bnd (synchronize_transfer_completion ax fuel tk r' rv completion) (\<lambda>completed.
         ret (map_option (\<lambda>(route, state). (route, xp_old_generator_id prepared, state)) completed)) w3)"
      using stored state assms(3) w3(1)
      by (intro ends_bnd ends_ret) (auto dest!: endsD simp: route_installed_def transferred_route r')
  qed
  have moved: "ends (route_installed ax r revision tk transfer)
      (bnd (result_of (compare_exchange_timeline ax tk revision r')) (\<lambda>res. case res of
         Inl e \<Rightarrow> giving_back tk (xp_previous_route prepared) claimed e
       | Inr new_rev \<Rightarrow>
           bnd (on_service (\<lambda>sv. (clear_timeline_cache tk sv, Inr ()))) (\<lambda>_.
           bnd (synchronize_transfer_completion ax fuel tk r' new_rev completion) (\<lambda>completed.
           ret (map_option (\<lambda>(route, state). (route, xp_old_generator_id prepared, state)) completed)))) w2)"
    if r': "r' = transferred r transfer target state (xp_safe_floor prepared) (xp_now prepared)"
      and state: "state \<in> {Active, Recovering}" and completion: "xc_transfer completion = transfer"
      and here: "is_local_endpoint (w_service w2) (tp_owner_endpoint transfer) \<longrightarrow> state = Active"
    for r' target state claimed completion w2
  proof (intro ends_bnd_result ends_sum ends_giving_back, simp only:)
    fix w3 new_rev assume c: "compare_exchange_timeline ax tk revision r' w2 = (w3, Inr new_rev)"
    from here exchanged_timeline(2) [OF c assms(1)]
    have "is_local_endpoint (w_service w3) (tp_owner_endpoint transfer) \<longrightarrow> state = Active"
      by (simp add: is_local_endpoint_def)
    then show "ends (route_installed ax r revision tk transfer)
        (bnd (on_service (\<lambda>sv. (clear_timeline_cache tk sv, Inr ()))) (\<lambda>_.
         bnd (synchronize_transfer_completion ax fuel tk r' new_rev completion) (\<lambda>completed.
         ret (map_option (\<lambda>(route, state). (route, xp_old_generator_id prepared, state)) completed))) w3)"
      by (rule finish [OF r' state _ exchanged_timeline(1,3) [OF c] completion])
  qed
  show ?thesis
    using assms(2) unfolding apply_unfenced_transfer_plan_def Let_def
    apply (intro ends_bnd_service ends_bnd [of _ _ _ "\<lambda>target. bnd get_service (f target)" for f])
    apply (rule ends_bnd)
    subgoal for w1 target w2 ensured
      by (auto simp: ret_def result_of_def route_installed_def ends_Inr intro!: moved ends_ret ends_giving_back
          split: if_splits sum.split option.split)
    done
qed

text \<open>
  C38: a transfer that is not a failover installs the route it announces. When it succeeds, the store is
  what one conditional write made of the store the others had left, which still held the timeline at the
  revision that was read: a timeline that moved between the read and the write is never overwritten. The
  revision, the epoch and the route version are one higher, the owner is the requested one, and route and
  state are those returned. (A failover onto the worker itself writes a second time, to activate.)
\<close>
theorem transfer_installs_route:
  assumes "keeps_config ax" "tp_reason transfer \<noteq> Failover"
    and "apply_transfer_plan ax fuel hash tk r revision transfer w = (w', Inr (Some (route, old, state)))"
  shows "old = rt_generator_id (tl_route r) \<and> rt_timeline_key route = rt_timeline_key (tl_route r)
     \<and> rt_epoch route = rt_epoch (tl_route r) + 1 \<and> rt_route_version route = rt_route_version (tl_route r) + 1
     \<and> rt_owner_worker_endpoint route = tp_owner_endpoint transfer
     \<and> (\<exists>r'. timeline_entry (w_store w') tk = Some (r', revision + 1) \<and> tl_route r' = route \<and> tl_state r' = state)
     \<and> (\<exists>i sv s1 sv' s current written. ax_others ax i (sv, s1) = (sv', s) \<and> timeline_entry s tk = Some (current, revision)
          \<and> ms_compare_exchange_timeline tk revision written s = (w_store w', Inr (revision + 1)))"
proof -
  have "ends (route_installed ax r revision tk transfer) (apply_transfer_plan ax fuel hash tk r revision transfer w)"
    unfolding apply_transfer_plan_def
  proof (rule ends_bnd, clarify)
    fix w1 r' prepared
    assume p: "prepare_transfer_application ax tk r transfer w = (w1, Inr (r', prepared))"
    have same: "tl_route r' = tl_route r" "xp_old_generator_id prepared = rt_generator_id (tl_route r')"
      using endsD [OF prepare_keeps_route p] by simp_all
    have eq: "route_installed ax r = route_installed ax r'" by (intro ext) (simp add: route_installed_def same(1) split: option.split)
    show "ends (route_installed ax r revision tk transfer)
        (bnd (fenced_handle ax tk revision transfer prepared) (\<lambda>fenced. case fenced of
           Some (a, st) \<Rightarrow> apply_fenced_local_transfer_plan ax fuel hash tk r' transfer prepared a st
         | None \<Rightarrow> apply_unfenced_transfer_plan ax fuel hash tk r' revision transfer prepared) w1)"
      unfolding eq
      by (intro ends_bnd ends_option ends_prod unfenced_installs [OF assms(1,2) same(2)])
        (use fenced_installs [OF same(2)] in \<open>auto dest!: endsD [OF fenced_handle_revision]\<close>)
  qed
  from endsD [OF this assms(3)] show ?thesis
    by (auto simp: route_installed_def written_over_def split: option.splits)
qed

subsection \<open>Failover\<close>

text \<open>
  C39: a failover is refused until the lease of the old generator has expired by at least the safety gap,
  in the eyes of the worker that performs it, and until there is a floor to start from. Without a record
  of the old generator, without the end of its lease, before that end by the clock, or without a floor, the
  failover ends with the error of the first of these and changes neither the store nor the worker.
\<close>
theorem failover_needs_expired_lease:
  assumes "tp_reason transfer = Failover"
    and "ax_others ax (Suc (w_tick w)) (w_service w, w_store w) = (sv, s)"
    and "generator_entry s (rt_generator_id (tl_route r)) = e" "\<forall>g rv. e = Some (g, rv) \<longrightarrow> validate_generator_schema g = Inr ()"
    and "apply_transfer_plan ax fuel hash tk r revision transfer w = (w', res)"
  shows "case e of
      None \<Rightarrow> res = Inl (FailoverMissingRecoveryFloor tk (rt_generator_id (tl_route r)))
        \<and> w_service w' = sv \<and> w_store w' = s
    | Some (g, rv) \<Rightarrow>
        (case gr_lease_expire_at_ms g of
           None \<Rightarrow> res = Inl (FailoverLeaseExpiryUnknown tk) \<and> w_service w' = sv \<and> w_store w' = s
         | Some lease_end \<Rightarrow>
             (unat (ax_now ax (w_tick w)) < min (unat lease_end + unat (cfg_safety_gap_ms (sv_config sv))) (2 ^ 64 - 1) \<longrightarrow>
                res = Inl (FailoverRequiresExpiredLease tk lease_end) \<and> w_service w' = sv \<and> w_store w' = s)
             \<and> (min (unat lease_end + unat (cfg_safety_gap_ms (sv_config sv))) (2 ^ 64 - 1) \<le> unat (ax_now ax (w_tick w)) \<longrightarrow>
                generator_recovery_floor_tso g = None \<longrightarrow>
                res = Inl (FailoverMissingRecoveryFloor tk (rt_generator_id (tl_route r))) \<and> w_service w' = sv \<and> w_store w' = s))"
proof -
  let ?now = "ax_now ax (w_tick w)" and ?gid = "rt_generator_id (tl_route r)"
  let ?w = "w \<lparr> w_service := sv, w_store := s, w_tick := Suc (Suc (w_tick w)) \<rparr>"
  have load: "load_generator ax ?gid (tick w) = (?w, Inr e)"
    using assms(2-4)
    by (auto simp: load_generator_def on_store_eq pause_def tick_def ms_load_generator_def generator_entry_def and_then_def
        split: option.splits sum.splits)
  have refused: "apply_transfer_plan ax fuel hash tk r revision transfer w = (?w, Inl x)"
    if "failover_allowed (sv_config sv) tk ?gid e ?now = Inl x" for x
    using that assms(1) load
    by (simp add: apply_transfer_plan_def prepare_transfer_application_def Let_def bnd_def clock_now_ms_def get_service_def done_with_def)
  show ?thesis
  proof (cases e)
    case None
    with refused assms(5) show ?thesis by (simp add: failover_allowed_def and_then_def)
  next
    case (Some p)
    then obtain g rv where p: "e = Some (g, rv)" by (cases p) simp
    show ?thesis
    proof (cases "gr_lease_expire_at_ms g")
      case None
      with refused assms(5) p show ?thesis by (simp add: failover_allowed_def and_then_def)
    next
      case (Some lease_end)
      have "failover_allowed (sv_config sv) tk ?gid e ?now =
          (if unat ?now < min (unat lease_end + unat (cfg_safety_gap_ms (sv_config sv))) (2 ^ 64 - 1)
           then Inl (FailoverRequiresExpiredLease tk lease_end)
           else if generator_recovery_floor_tso g = None then Inl (FailoverMissingRecoveryFloor tk ?gid) else Inr ())"
        using p Some by (simp add: failover_allowed_def and_then_def lease_expired_iff not_le)
      with refused assms(5) p Some show ?thesis by (auto split: if_splits)
    qed
  qed
qed

subsection \<open>Samples\<close>

definition moving_timeline :: "u32 \<Rightarrow> string \<Rightarrow> timeline_record" where
  "moving_timeline gid owner =
     \<lparr> tl_schema_version = 1,
       tl_route = \<lparr> rt_timeline_key = ''orders'', rt_generator_id = gid, rt_epoch = 1, rt_route_version = 1,
         rt_resource_tier = Shared, rt_owner_worker_endpoint = owner \<rparr>,
       tl_state = Active, tl_recovery_floor_tso = None, tl_issued_upper_bound = None,
       tl_last_graceful_issued = None, tl_lease_expire_at_ms = None, tl_updated_at_ms = 0 \<rparr>"

definition expired_generator :: "u32 \<Rightarrow> string \<Rightarrow> u64 \<Rightarrow> generator_record" where
  "expired_generator gid owner issued =
     \<lparr> gr_schema_version = 1, gr_generator_id = gid, gr_owner_worker_endpoint = owner, gr_owner_instance_id = ''gone'',
       gr_generator_lease_token = 1, gr_lease_expire_at_ms = Some 1, gr_last_issued_tso = Some issued,
       gr_issued_upper_bound = Some issued, gr_updated_at_ms = 0 \<rparr>"

definition sample_move :: "transfer_reason \<Rightarrow> string \<Rightarrow> u32 \<Rightarrow> transfer_plan" where
  "sample_move reason owner gid =
     \<lparr> tp_resource_tier = Shared, tp_owner_endpoint = owner, tp_generator_id = Some gid, tp_reason = reason \<rparr>"

definition moving_world :: world where
  "moving_world = quiet_world \<lparr> w_store := memory_store_new \<lparr>
     ms_records := [(''orders'', (moving_timeline 7 ''a'', 1))],
     ms_generators := [(7, (expired_generator 7 ''a'' 83900418, 1)), (9, (expired_generator 9 ''b'' 67127296, 1))] \<rparr> \<rparr>"

lemma named_host:
  \<comment> \<open>an endpoint that begins with a letter is no socket address\<close>
  assumes "to_digit 10 c = None" "c \<noteq> CHR ''[''"
  shows "parse_socket_addr (c # cs) = None"
  using assms
  by (simp add: parse_socket_addr_def read_socket_addr_v4_def read_socket_addr_v6_def read_ipv4_addr_def numeral_eq_Suc
      read_separator_def read_number_def read_given_char_def)

lemma remote_samples:
  "\<not> endpoints_match ''a'' ''default-endpoint:50051''" "\<not> endpoints_match ''b'' ''default-endpoint:50051''"
  "\<not> endpoints_match ''c'' ''default-endpoint:50051''"
proof -
  have t: "str_trim ''a'' = ''a''" "str_trim ''b'' = ''b''" "str_trim ''c'' = ''c''"
    "str_trim ''default-endpoint:50051'' = ''default-endpoint:50051''"
    by (rule str_trim_visible; simp add: visible_ascii_def)+
  then show "\<not> endpoints_match ''a'' ''default-endpoint:50051''" "\<not> endpoints_match ''b'' ''default-endpoint:50051''"
    "\<not> endpoints_match ''c'' ''default-endpoint:50051''"
    by (simp_all add: endpoints_match_def eq_ignore_ascii_case_def named_host to_digit_def)
qed

lemma sample_move_fields [simp]:
  "tp_resource_tier (sample_move reason owner gid) = Shared" "tp_owner_endpoint (sample_move reason owner gid) = owner"
  "tp_generator_id (sample_move reason owner gid) = Some gid" "tp_reason (sample_move reason owner gid) = reason"
  by (simp_all add: sample_move_def)

lemma quiet_load:
  "load_generator quiet_surroundings gid w = (tick w, ms_load_generator (w_store w) gid)"
  by (simp add: load_generator_def on_store_eq quiet_pause tick_def)

lemma sample_worker:
  defines "sv \<equiv> service_new tso_config_default ''worker'' 0"
  shows "cfg_advertise_endpoint (sv_config sv) = ''default-endpoint:50051''"
    "cfg_timestamp_layout (sv_config sv) = DEFAULT_TIMESTAMP_LAYOUT" "cfg_generator_ownership_modulo (sv_config sv) = 1"
    "cfg_recovery_catchup_budget_ms (sv_config sv) = 5000" "cfg_shared_jump_ahead_threshold_ms (sv_config sv) = 5000"
    "cfg_safety_gap_ms (sv_config sv) = 0" "\<not> max_generators DEFAULT_TIMESTAMP_LAYOUT \<le> 9"
    "and_then (lookup_generator sv 9) current_last_issued_tso = Inr None"
proof -
  have g: "generator_at (runtime_with_layout (max_generators DEFAULT_TIMESTAMP_LAYOUT) DEFAULT_TIMESTAMP_LAYOUT) 9
      = Inr (generator_with_layout 9 DEFAULT_TIMESTAMP_LAYOUT)"
    by (rule fresh_generator_at) (simp add: alloc_eval)
  show "\<not> max_generators DEFAULT_TIMESTAMP_LAYOUT \<le> 9" by (simp add: alloc_eval)
  then show "and_then (lookup_generator sv 9) current_last_issued_tso = Inr None"
    using g by (simp add: sv_def lookup_generator_def ensure_generator_id_range_def and_then_def tso_config_default_def
        current_last_issued_tso_def generator_with_layout_def)
qed (simp_all add: sv_def service_new_def tso_config_default_def DEFAULT_ADVERTISE_ENDPOINT_def)

lemma sample_cursor:
  "cfg_timestamp_layout tso_config_default = DEFAULT_TIMESTAMP_LAYOUT"
  "next_cursor_after_with_layout DEFAULT_TIMESTAMP_LAYOUT 83900418 9 = Inr \<lparr> cu_physical_ms = 5, cu_sequence = 0 \<rparr>"
  "dt_physical_ms (decode DEFAULT_TIMESTAMP_LAYOUT 67127296) = 4"
  by (simp_all add: tso_config_default_def alloc_eval)

lemma sample_jump:
  assumes "w_service w = service_new tso_config_default ''worker'' 0"
    and "ms_load_generator (w_store w) 9 = Inr (Some (expired_generator 9 ''b'' 67127296, rv))"
  shows "required_jump_ms_for_generator quiet_surroundings 9 83900418 w = (tick w, Inr 1)"
  using assms
  by (simp add: required_jump_ms_for_generator_def current_generator_floor_def bnd_def get_service_def done_with_def
      sample_worker sample_cursor quiet_load ret_def expired_generator_def generator_recovery_floor_tso_def tick_def Let_def
      saturating_sub_def)

lemma sample_select:
  assumes "w_service w = service_new tso_config_default ''worker'' 0"
    and "ms_load_generator (w_store w) 9 = Inr (Some (expired_generator 9 ''b'' 67127296, rv))"
  shows "\<exists>w'. w_service w' = w_service w \<and> w_store w' = w_store w
    \<and> select_transfer_target quiet_surroundings (\<lambda>_. 0) ''orders'' route (sample_move reason ''b'' 9) (Some 83900418) w
      = (w', Inr \<lparr> xs_target_resource_tier = Shared, xs_new_generator_id = 9, xs_claimed_dedicated = None \<rparr>)"
proof -
  let ?t = "\<lparr> xs_target_resource_tier = Shared, xs_new_generator_id = 9, xs_claimed_dedicated = None \<rparr>"
  have i: "on_service (initial_target (\<lambda>_. 0) ''orders'' (sample_move reason ''b'' 9)) w = (w, Inr (9, None))"
    using assms(1) sample_worker
    by (simp add: on_service_def initial_target_def ensure_generator_id_range_def sample_cursor)
  have j: "isolated_target quiet_surroundings ''orders'' (sample_move reason ''b'' 9) (Some 83900418) 9 None w = (tick w, Inr ?t)"
    using assms(1) sample_worker sample_jump [OF assms]
    by (simp add: isolated_target_def bnd_def get_service_def ret_def Let_def tick_def)
  have v: "validate_recovery_catchup_budget_for_target quiet_surroundings 9 (Some 83900418) (tick w) = (tick (tick w), Inr ())"
    using assms sample_worker sample_jump [of "tick w" rv]
    by (simp add: validate_recovery_catchup_budget_for_target_def bnd_def get_service_def ret_def Let_def tick_def)
  show ?thesis
    using assms sample_worker
    by (simp add: select_transfer_target_def bnd_def i j v result_of_def get_service_def
        Let_def is_local_endpoint_def remote_samples check_remote_target_def quiet_load ret_def
        expired_generator_def clock_now_ms_def)
qed

lemma sample_transfer:
  assumes "w_service w = service_new tso_config_default ''worker'' 0"
    and "ms_load_generator (w_store w) (rt_generator_id (tl_route r)) = Inr (Some (expired_generator old owner fl, old_rv))"
    and "rt_owner_worker_endpoint (tl_route r) \<in> {''a'', ''b''}" "dest \<in> {''b'', ''c''}" "tl_last_graceful_issued r = None"
    and select: "\<And>v. w_service v = w_service w \<Longrightarrow> w_store v = w_store w \<Longrightarrow>
        \<exists>w'. w_service w' = w_service v \<and> w_store w' = w_store v
        \<and> select_transfer_target quiet_surroundings (\<lambda>_. 0) ''orders'' (tl_route r) (sample_move reason dest gid) (Some fl) v
          = (w', Inr \<lparr> xs_target_resource_tier = Shared, xs_new_generator_id = gid, xs_claimed_dedicated = None \<rparr>)"
    and cas: "ms_compare_exchange_timeline ''orders'' rv
        (transferred r (sample_move reason dest gid)
           \<lparr> xs_target_resource_tier = Shared, xs_new_generator_id = gid, xs_claimed_dedicated = None \<rparr> Recovering (Some fl) 5)
        (w_store w) = (s', Inr new_rv)"
    and "rt_resource_tier (tl_route r) = Shared"
  shows "\<exists>w' route. apply_transfer_plan quiet_surroundings 3 (\<lambda>_. 0) ''orders'' r rv (sample_move reason dest gid) w
      = (w', Inr (Some (route, rt_generator_id (tl_route r), Recovering))) \<and> w_store w' = s'
    \<and> w_service w' = clear_timeline_cache ''orders'' (clear_timeline_cache ''orders'' (w_service w))"
proof -
  have d: "\<not> endpoints_match dest ''default-endpoint:50051''"
    "\<not> endpoints_match (rt_owner_worker_endpoint (tl_route r)) ''default-endpoint:50051''"
    using assms(3,4) remote_samples by auto
  have now: "ax_now quiet_surroundings i = 5" for i by (simp add: quiet_surroundings_def)
  have prepare: "prepare_transfer_application quiet_surroundings ''orders'' r (sample_move reason dest gid) w
      = (tick (tick w), Inr (r, \<lparr> xp_previous_route = tl_route r, xp_old_generator_id = rt_generator_id (tl_route r),
           xp_safe_floor = Some fl, xp_now = 5 \<rparr>))"
    using assms(1,2,5) sample_worker d now
    by (simp add: prepare_transfer_application_def Let_def bnd_def clock_now_ms_def quiet_load get_service_def done_with_def
        ret_def is_local_endpoint_def failover_allowed_def and_then_def expired_generator_def generator_recovery_floor_tso_def
        safe_floor_for_transfer_reason_def lease_expired_with_safety_gap_def saturating_add_def)
  have fenced: "fenced_handle quiet_surroundings ''orders'' rv (sample_move reason dest gid) prepared v = (v, Inr None)"
    if "w_service v = w_service w" for v prepared
    using that assms(1) sample_worker d
    by (simp add: fenced_handle_def bnd_def get_service_def ret_def is_local_endpoint_def)
  obtain w1 where w1: "w_service w1 = w_service w" "w_store w1 = w_store w"
    "select_transfer_target quiet_surroundings (\<lambda>_. 0) ''orders'' (tl_route r) (sample_move reason dest gid) (Some fl) (tick (tick w))
       = (w1, Inr \<lparr> xs_target_resource_tier = Shared, xs_new_generator_id = gid, xs_claimed_dedicated = None \<rparr>)"
    using select [of "tick (tick w)"] by auto
  show ?thesis
    using w1 assms(1,8) sample_worker d cas
    by (simp add: apply_transfer_plan_def bnd_def prepare fenced apply_unfenced_transfer_plan_def Let_def get_service_def
        is_local_endpoint_def ret_def compare_exchange_timeline_def on_store_eq quiet_pause result_of_def
        synchronize_transfer_completion_def on_service_def release_previous_def transferred_route
        should_release_previous_dedicated_generator_after_route_change_def clear_timeline_cache_def tick_def)
qed


lemma sample_select_fresh:
  assumes "w_service w = service_new tso_config_default ''worker'' 0" "ms_load_generator (w_store w) 10 = Inr None"
  shows "\<exists>w'. w_service w' = w_service w \<and> w_store w' = w_store w
    \<and> select_transfer_target quiet_surroundings (\<lambda>_. 0) ''orders'' route (sample_move reason ''c'' 10) (Some fl) w
      = (w', Inr \<lparr> xs_target_resource_tier = Shared, xs_new_generator_id = 10, xs_claimed_dedicated = None \<rparr>)"
proof -
  have g: "\<not> max_generators DEFAULT_TIMESTAMP_LAYOUT \<le> 10" by (simp add: alloc_eval)
  have "generator_at (runtime_with_layout (max_generators DEFAULT_TIMESTAMP_LAYOUT) DEFAULT_TIMESTAMP_LAYOUT) 10
      = Inr (generator_with_layout 10 DEFAULT_TIMESTAMP_LAYOUT)"
    by (rule fresh_generator_at) (simp add: alloc_eval)
  then have fresh: "and_then (lookup_generator (service_new tso_config_default ''worker'' 0) 10) current_last_issued_tso = Inr None"
    using g by (simp add: lookup_generator_def ensure_generator_id_range_def and_then_def sample_cursor
        current_last_issued_tso_def generator_with_layout_def)
  show ?thesis
    using assms sample_worker g
    by (simp add: select_transfer_target_def bnd_def on_service_def initial_target_def ensure_generator_id_range_def
        sample_cursor isolated_target_def Let_def required_jump_ms_for_generator_def current_generator_floor_def fresh
        get_service_def done_with_def quiet_load ret_def result_of_def validate_recovery_catchup_budget_for_target_def
        is_local_endpoint_def remote_samples check_remote_target_def)
qed

lemma sample_uncached:
  "clear_timeline_cache k (service_new tso_config_default i seed) = service_new tso_config_default i seed"
  by (simp add: clear_timeline_cache_def service_new_def remove_timeline_def timeline_cache_new_def)

lemma sample_stored:
  assumes "ms_records s = [(''orders'', (r0, rv))]" "tl_schema_version r = 1" "rt_timeline_key (tl_route r) = ''orders''"
  shows "\<exists>s'. ms_compare_exchange_timeline ''orders'' rv r s = (s', Inr (rv + 1))
    \<and> ms_records s' = [(''orders'', (r, rv + 1))] \<and> ms_generators s' = ms_generators s"
  using assms
  by (auto simp: ms_compare_exchange_timeline_def Let_def validate_timeline_schema_def stamp_timeline_def
      CURRENT_METADATA_SCHEMA_VERSION_def)

lemma sample_first_move:
  fixes reason :: transfer_reason
  defines "r1 \<equiv> transferred (moving_timeline 7 ''a'') (sample_move reason ''b'' 9)
    \<lparr> xs_target_resource_tier = Shared, xs_new_generator_id = 9, xs_claimed_dedicated = None \<rparr> Recovering (Some 83900418) 5"
  obtains w route where
    "apply_transfer_plan quiet_surroundings 3 (\<lambda>_. 0) ''orders'' (moving_timeline 7 ''a'') 1 (sample_move reason ''b'' 9) moving_world
       = (w, Inr (Some (route, 7, Recovering)))"
    "ms_records (w_store w) = [(''orders'', (r1, 2))]" "ms_generators (w_store w) = ms_generators (w_store moving_world)"
    "w_service w = service_new tso_config_default ''worker'' 0"
proof -
  have sv: "w_service moving_world = service_new tso_config_default ''worker'' 0"
    by (simp add: moving_world_def quiet_world_def)
  have load: "ms_load_generator (w_store moving_world) 7 = Inr (Some (expired_generator 7 ''a'' 83900418, 1))"
    "ms_load_generator (w_store moving_world) 9 = Inr (Some (expired_generator 9 ''b'' 67127296, 1))"
    by (simp_all add: moving_world_def memory_store_new_def ms_load_generator_def validate_generator_schema_def and_then_def
        expired_generator_def CURRENT_METADATA_SCHEMA_VERSION_def)
  have r1: "tl_schema_version r1 = 1" "rt_timeline_key (tl_route r1) = ''orders''"
    by (simp_all add: r1_def transferred_def moving_timeline_def)
  have "ms_records (w_store moving_world) = [(''orders'', (moving_timeline 7 ''a'', 1))]"
    by (simp add: moving_world_def memory_store_new_def)
  from sample_stored [OF this r1] obtain s' where s':
    "ms_compare_exchange_timeline ''orders'' 1 r1 (w_store moving_world) = (s', Inr 2)"
    "ms_records s' = [(''orders'', (r1, 2))]" "ms_generators s' = ms_generators (w_store moving_world)" by auto
  have "\<exists>w' route. apply_transfer_plan quiet_surroundings 3 (\<lambda>_. 0) ''orders'' (moving_timeline 7 ''a'') 1
      (sample_move reason ''b'' 9) moving_world
      = (w', Inr (Some (route, rt_generator_id (tl_route (moving_timeline 7 ''a'')), Recovering))) \<and> w_store w' = s'
    \<and> w_service w' = clear_timeline_cache ''orders'' (clear_timeline_cache ''orders'' (w_service moving_world))"
    by (rule sample_transfer [OF sv _ _ _ _ sample_select, where old = 7 and owner = "''a''" and old_rv = 1 and new_rv = 2])
      (use load sv s'(1) in \<open>simp_all add: r1_def moving_timeline_def\<close>)
  with s' sv sample_uncached show thesis by (auto intro!: that simp: moving_timeline_def)
qed

theorem transfer_installs_route_witness:
  "\<exists>w route. apply_transfer_plan quiet_surroundings 3 (\<lambda>_. 0) ''orders'' (moving_timeline 7 ''a'') 1
      (sample_move Manual ''b'' 9) moving_world = (w, Inr (Some (route, 7, Recovering)))
    \<and> rt_epoch route = 2 \<and> rt_owner_worker_endpoint route = ''b''"
proof -
  obtain w route where t: "apply_transfer_plan quiet_surroundings 3 (\<lambda>_. 0) ''orders'' (moving_timeline 7 ''a'') 1
      (sample_move Manual ''b'' 9) moving_world = (w, Inr (Some (route, 7, Recovering)))"
    by (rule sample_first_move [of Manual])
  have "keeps_config quiet_surroundings" by (simp add: keeps_config_def quiet_surroundings_def)
  from transfer_installs_route [OF this _ t] t show ?thesis by (auto simp: moving_timeline_def)
qed

theorem failover_needs_expired_lease_witness:
  "snd (apply_transfer_plan (quiet_surroundings \<lparr> ax_now := \<lambda>_. 0 \<rparr>) 3 (\<lambda>_. 0) ''orders'' (moving_timeline 7 ''a'') 1
      (sample_move Failover ''b'' 9) moving_world) = Inl (FailoverRequiresExpiredLease ''orders'' 1)"
proof -
  obtain w' res where t: "apply_transfer_plan (quiet_surroundings \<lparr> ax_now := \<lambda>_. 0 \<rparr>) 3 (\<lambda>_. 0) ''orders''
      (moving_timeline 7 ''a'') 1 (sample_move Failover ''b'' 9) moving_world = (w', res)" by fastforce
  have "cfg_safety_gap_ms (sv_config (w_service moving_world)) = 0"
    using sample_worker(6) by (simp add: moving_world_def quiet_world_def)
  then show ?thesis
    using failover_needs_expired_lease [OF _ _ refl _ t, of "w_service moving_world" "w_store moving_world"] t
    by (simp add: quiet_surroundings_def generator_entry_def moving_world_def memory_store_new_def moving_timeline_def
        expired_generator_def validate_generator_schema_def CURRENT_METADATA_SCHEMA_VERSION_def)
qed

text \<open>
  C40: two failovers in a row lower the recovery floor of a timeline. The timeline fails over from generator
  7, which may have issued timestamps up to 83900418, to generator 9, which has not yet reached that
  floor, and, before anything is allocated there, from generator 9 to generator 10. The second failover
  replaces the recorded floor by the one of generator 9, so generator 10 may issue timestamps below those
  of generator 7.
\<close>
theorem failover_forgets_floor:
  "\<exists>w1 w2 r1 r2 route1 route2.
     apply_transfer_plan quiet_surroundings 3 (\<lambda>_. 0) ''orders'' (moving_timeline 7 ''a'') 1
       (sample_move Failover ''b'' 9) moving_world = (w1, Inr (Some (route1, 7, Recovering)))
     \<and> timeline_entry (w_store w1) ''orders'' = Some (r1, 2) \<and> recovered_timeline_floor_tso r1 = Some 83900418
     \<and> apply_transfer_plan quiet_surroundings 3 (\<lambda>_. 0) ''orders'' r1 2 (sample_move Failover ''c'' 10) w1
         = (w2, Inr (Some (route2, 9, Recovering)))
     \<and> timeline_entry (w_store w2) ''orders'' = Some (r2, 3) \<and> recovered_timeline_floor_tso r2 = Some 67127296"
proof -
  define r1 where "r1 = transferred (moving_timeline 7 ''a'') (sample_move Failover ''b'' 9)
    \<lparr> xs_target_resource_tier = Shared, xs_new_generator_id = 9, xs_claimed_dedicated = None \<rparr> Recovering (Some 83900418) 5"
  define r2 where "r2 = transferred r1 (sample_move Failover ''c'' 10)
    \<lparr> xs_target_resource_tier = Shared, xs_new_generator_id = 10, xs_claimed_dedicated = None \<rparr> Recovering (Some 67127296) 5"
  obtain w1 route1 where w1: "apply_transfer_plan quiet_surroundings 3 (\<lambda>_. 0) ''orders'' (moving_timeline 7 ''a'') 1
      (sample_move Failover ''b'' 9) moving_world = (w1, Inr (Some (route1, 7, Recovering)))"
    "ms_records (w_store w1) = [(''orders'', (r1, 2))]" "ms_generators (w_store w1) = ms_generators (w_store moving_world)"
    "w_service w1 = service_new tso_config_default ''worker'' 0"
    by (rule sample_first_move [of Failover]) (simp add: r1_def)
  have load: "ms_load_generator (w_store w1) 9 = Inr (Some (expired_generator 9 ''b'' 67127296, 1))"
    "ms_load_generator (w_store w1) 10 = Inr None"
    by (simp_all add: w1(3) moving_world_def memory_store_new_def ms_load_generator_def validate_generator_schema_def
        and_then_def expired_generator_def CURRENT_METADATA_SCHEMA_VERSION_def)
  have r2: "tl_schema_version r2 = 1" "rt_timeline_key (tl_route r2) = ''orders''"
    by (simp_all add: r2_def r1_def transferred_def moving_timeline_def)
  from sample_stored [OF w1(2) r2] obtain s' where s':
    "ms_compare_exchange_timeline ''orders'' 2 r2 (w_store w1) = (s', Inr 3)" "ms_records s' = [(''orders'', (r2, 3))]" by auto
  have route: "rt_generator_id (tl_route r1) = 9" "rt_owner_worker_endpoint (tl_route r1) = ''b''"
    "tl_last_graceful_issued r1 = None" "rt_resource_tier (tl_route r1) = Shared"
    by (simp_all add: r1_def transferred_def moving_timeline_def)
  have "\<exists>w' route. apply_transfer_plan quiet_surroundings 3 (\<lambda>_. 0) ''orders'' r1 2 (sample_move Failover ''c'' 10) w1
      = (w', Inr (Some (route, rt_generator_id (tl_route r1), Recovering))) \<and> w_store w' = s'
    \<and> w_service w' = clear_timeline_cache ''orders'' (clear_timeline_cache ''orders'' (w_service w1))"
    by (rule sample_transfer [OF w1(4) _ _ _ _ sample_select_fresh, where old = 9 and owner = "''b''" and old_rv = 1
          and new_rv = 3 and fl = 67127296])
      (use load w1(4) s'(1) route in \<open>simp_all add: r2_def\<close>)
  then obtain w2 route2 where w2: "apply_transfer_plan quiet_surroundings 3 (\<lambda>_. 0) ''orders'' r1 2
      (sample_move Failover ''c'' 10) w1 = (w2, Inr (Some (route2, 9, Recovering)))" "w_store w2 = s'"
    using route(1) by auto
  have floors: "recovered_timeline_floor_tso r1 = Some 83900418" "recovered_timeline_floor_tso r2 = Some 67127296"
    by (simp_all add: recovered_timeline_floor_tso_def r1_def r2_def transferred_def moving_timeline_def)
  have "timeline_entry (w_store w1) ''orders'' = Some (r1, 2)" "timeline_entry (w_store w2) ''orders'' = Some (r2, 3)"
    by (simp_all add: timeline_entry_def w1(2) w2(2) s'(2))
  with w1(1) w2(1) floors show ?thesis by blast
qed

end
