(* ===== verification/Background.thy ===== *)
theory Background
  imports Transfers
begin

text \<open>
  The tasks a worker runs by itself (\<open>service/background.rs\<close>): the coordinator that tracks and ends them,
  lease maintenance, the cleanup of request records, and automatic failover. A loop is given the events
  its \<open>select!\<close> sees; what a tick does is an operation of its own. The state of the failover scan is
  passed along, since it outlives an error. Fuel bounds the inner loops; \<open>None\<close> means that it ran out.
\<close>

subsection \<open>The coordinator\<close>

datatype background_task = MaintenanceTask | CleanupTask | AutoFailoverTask | RouteUpdateTask

record background_coordinator =
  bg_shutdown_tx :: bool  \<comment> \<open>the value of the watch channel\<close>
  bg_tasks :: "background_task list"
  bg_shutdown_started :: bool

definition background_new :: background_coordinator where
  "background_new = \<lparr> bg_shutdown_tx = False, bg_tasks = [], bg_shutdown_started = False \<rparr>"

definition register_task :: "background_task \<Rightarrow> background_coordinator \<Rightarrow> background_coordinator" where
  "register_task t bg = bg \<lparr> bg_tasks := bg_tasks bg @ [t] \<rparr>"

definition begin_shutdown :: "background_coordinator \<Rightarrow> background_coordinator \<times> bool" where
  "begin_shutdown bg =
     (if bg_shutdown_started bg then (bg, False)
      else (bg \<lparr> bg_shutdown_started := True, bg_shutdown_tx := True \<rparr>, True))"

definition has_ended :: "(nat \<Rightarrow> background_task \<Rightarrow> bool) \<Rightarrow> background_task \<Rightarrow> bool act" where
  "has_ended ended t w = (w, Inr (ended (w_tick w) t))"

fun await_task :: "surroundings \<Rightarrow> (nat \<Rightarrow> background_task \<Rightarrow> bool) \<Rightarrow> background_task \<Rightarrow> nat \<Rightarrow> unit option act" where
  \<comment> \<open>\<open>task.await\<close>, with when the tasks have ended; the others go on meanwhile\<close>
  "await_task ax ended t 0 = ret None"
| "await_task ax ended t (Suc n) =
     bnd (pause ax) (\<lambda>_.
     bnd (has_ended ended t) (\<lambda>done. if done then ret (Some ()) else await_task ax ended t n))"

fun await_tasks ::
    "surroundings \<Rightarrow> (nat \<Rightarrow> background_task \<Rightarrow> bool) \<Rightarrow> nat \<Rightarrow> background_task list \<Rightarrow> unit option act" where
  "await_tasks ax ended fuel [] = ret (Some ())"
| "await_tasks ax ended fuel (t # ts) =
     bnd (await_task ax ended t fuel) (\<lambda>joined. case joined of
       None \<Rightarrow> ret None | Some _ \<Rightarrow> await_tasks ax ended fuel ts)"

definition drain_tasks ::
    "surroundings \<Rightarrow> (nat \<Rightarrow> background_task \<Rightarrow> bool) \<Rightarrow> nat \<Rightarrow> background_coordinator \<Rightarrow> background_coordinator option act" where
  \<comment> \<open>the tasks are taken and awaited one after the other, without a deadline\<close>
  "drain_tasks ax ended fuel bg =
     bnd (await_tasks ax ended fuel (bg_tasks bg)) (\<lambda>joined. ret (map_option (\<lambda>_. bg \<lparr> bg_tasks := [] \<rparr>) joined))"

definition abort_all :: "background_coordinator \<Rightarrow> background_coordinator \<times> background_task list" where
  \<comment> \<open>with the tasks that are aborted\<close>
  "abort_all bg = ((fst (begin_shutdown bg)) \<lparr> bg_tasks := [] \<rparr>, bg_tasks bg)"

datatype loop_event = Shutdown_Changed bool | Channel_Closed | Interval_Tick | Service_Gone

fun background_loop :: "unit option act \<Rightarrow> loop_event list \<Rightarrow> unit option act" where
  \<comment> \<open>the service may be gone when a tick upgrades its weak reference\<close>
  "background_loop turn [] = ret (Some ())"
| "background_loop turn (Shutdown_Changed stop # es) = (if stop then ret (Some ()) else background_loop turn es)"
| "background_loop turn (Channel_Closed # es) = ret (Some ())"
| "background_loop turn (Service_Gone # es) = ret (Some ())"
| "background_loop turn (Interval_Tick # es) =
     bnd (result_of turn) (\<lambda>res. case res of Inr None \<Rightarrow> ret None | _ \<Rightarrow> background_loop turn es)"

subsection \<open>Maintenance and cleanup\<close>

definition generator_lease_headroom :: "tso_service \<Rightarrow> u32 list \<Rightarrow> u64 \<Rightarrow> nat \<times> u64" where
  \<comment> \<open>the number of live leases of this worker and the least time one of them has left\<close>
  "generator_lease_headroom sv gids now_ms =
     (let live = filter (\<lambda>l. ls_owner_instance_id l = sv_instance_id sv \<and> now_ms < ls_lease_expire_at_ms l)
            (List.map_filter (lease_state (sv_generator_runtime sv)) gids);
          headrooms = map (\<lambda>l. ls_lease_expire_at_ms l - now_ms) live
      in (length live, case headrooms of [] \<Rightarrow> 0 | h # hs \<Rightarrow> min (foldl min h hs) (2 ^ 63 - 1)))"

definition maintenance_turn :: "surroundings \<Rightarrow> nat \<Rightarrow> nat \<Rightarrow> unit option act" where
  "maintenance_turn ax fuel n =
     bnd (clock_now_ms ax) (\<lambda>now_ms.
     bnd (on_service (\<lambda>sv. case next_generator_with_ownership_drift now_ms sv of (sv', r) \<Rightarrow> (sv', Inr r))) (\<lambda>drifted.
     bnd (case drifted of
            None \<Rightarrow> ret (Some ())
          | Some gid \<Rightarrow>
              bnd (result_of (ensure_generator_lease_with_cancellation (uncancelled ax) fuel gid)) (\<lambda>res.
              ret (case res of Inr None \<Rightarrow> None | _ \<Rightarrow> Some ()))) (\<lambda>ensured. case ensured of
       None \<Rightarrow> ret None
     | Some _ \<Rightarrow>
         bnd get_service (\<lambda>sv.
           refresh_generator_leases_batch (uncancelled ax) fuel n (lease_keys (sv_generator_runtime sv))))))"

definition background_generator_maintenance_loop ::
    "surroundings \<Rightarrow> nat \<Rightarrow> nat \<Rightarrow> loop_event list \<Rightarrow> unit option act" where
  "background_generator_maintenance_loop ax fuel n es = background_loop (maintenance_turn ax fuel n) es"

definition REQUEST_RECORD_CLEANUP_INTERVAL_MS :: u64 where
  "REQUEST_RECORD_CLEANUP_INTERVAL_MS = 60000"

definition REQUEST_RECORD_CLEANUP_BATCH_SIZE :: nat where
  "REQUEST_RECORD_CLEANUP_BATCH_SIZE = 512"

definition cleanup_turn :: "surroundings \<Rightarrow> bool \<Rightarrow> unit option act" where
  "cleanup_turn ax supported =
     (if \<not> supported then ret (Some ())
      else bnd (clock_now_ms ax) (\<lambda>now_ms.
           bnd get_service (\<lambda>sv.
           let cutoff_ms = saturating_sub now_ms (cfg_request_record_retention_ms (sv_config sv)) in
           bnd (on_store ax (\<lambda>s. case ms_prune_completed_request_records cutoff_ms REQUEST_RECORD_CLEANUP_BATCH_SIZE s of
                  (s', pruned) \<Rightarrow> (s', Inr pruned))) (\<lambda>_. ret (Some ())))))"

definition background_request_record_cleanup_loop ::
    "surroundings \<Rightarrow> bool \<Rightarrow> loop_event list \<Rightarrow> unit option act" where
  "background_request_record_cleanup_loop ax supported es = background_loop (cleanup_turn ax supported) es"

subsection \<open>The state of the failover scan\<close>

record auto_failover_scan_state =
  af_owner_cursor_index :: nat
  af_owner_cursors :: "(string \<times> string option) list"
  af_owner_endpoints :: "string list"
  af_owner_endpoints_refresh_after_ms :: u64

definition auto_failover_scan_default :: auto_failover_scan_state where
  "auto_failover_scan_default = \<lparr> af_owner_cursor_index = 0, af_owner_cursors = [], af_owner_endpoints = [],
     af_owner_endpoints_refresh_after_ms = 0 \<rparr>"

definition load_auto_failover_owner_index :: "string list \<Rightarrow> auto_failover_scan_state \<Rightarrow> nat" where
  "load_auto_failover_owner_index owners scan =
     (if owners = [] then 0 else af_owner_cursor_index scan mod length owners)"

definition store_auto_failover_owner_index ::
    "nat \<Rightarrow> string list \<Rightarrow> auto_failover_scan_state \<Rightarrow> auto_failover_scan_state" where
  "store_auto_failover_owner_index i owners scan =
     scan \<lparr> af_owner_cursor_index := (if owners = [] then 0 else i mod length owners),
            af_owner_cursors := filter (\<lambda>(owner, _). owner \<in> set owners) (af_owner_cursors scan) \<rparr>"

definition load_cached_auto_failover_owner_endpoints :: "u64 \<Rightarrow> auto_failover_scan_state \<Rightarrow> string list option" where
  "load_cached_auto_failover_owner_endpoints now_ms scan =
     (if af_owner_endpoints_refresh_after_ms scan = 0 \<or> af_owner_endpoints_refresh_after_ms scan \<le> now_ms then None
      else Some (af_owner_endpoints scan))"

definition auto_failover_owner_endpoint_refresh_interval_ms :: "tso_config \<Rightarrow> u64" where
  "auto_failover_owner_endpoint_refresh_interval_ms c =
     max 1000 (min (saturating_mul (cfg_auto_failover_interval_ms c) 10) 30000)"

definition store_cached_auto_failover_owner_endpoints ::
    "tso_config \<Rightarrow> string list \<Rightarrow> u64 \<Rightarrow> auto_failover_scan_state \<Rightarrow> auto_failover_scan_state" where
  "store_cached_auto_failover_owner_endpoints c owners now_ms scan =
     scan \<lparr> af_owner_endpoints := owners,
            af_owner_endpoints_refresh_after_ms :=
              saturating_add now_ms (auto_failover_owner_endpoint_refresh_interval_ms c) \<rparr>"

definition load_auto_failover_owner_cursor :: "string \<Rightarrow> auto_failover_scan_state \<Rightarrow> string option" where
  "load_auto_failover_owner_cursor owner scan =
     (case map_of (af_owner_cursors scan) owner of None \<Rightarrow> None | Some cursor \<Rightarrow> cursor)"

definition store_auto_failover_owner_cursor ::
    "string \<Rightarrow> string option \<Rightarrow> auto_failover_scan_state \<Rightarrow> auto_failover_scan_state" where
  "store_auto_failover_owner_cursor owner cursor scan =
     scan \<lparr> af_owner_cursors := AList.update owner cursor (af_owner_cursors scan) \<rparr>"

subsection \<open>Errors of a failover attempt\<close>

definition auto_failover_error_is_expected :: "tso_error \<Rightarrow> bool" where
  "auto_failover_error_is_expected e =
     (case e of
        FailoverRequiresExpiredLease _ _ \<Rightarrow> True | FailoverLeaseExpiryUnknown _ \<Rightarrow> True
      | FailoverMissingRecoveryFloor _ _ \<Rightarrow> True | RecoveryCatchupBudgetExceeded _ _ _ \<Rightarrow> True
      | GeneratorPoolExhausted \<Rightarrow> True | GeneratorNotOwnedByThisWorker _ _ _ \<Rightarrow> True
      | UnsafeRemoteTransferTarget _ _ \<Rightarrow> True | TimelineNotFound _ \<Rightarrow> True | CasFailed \<Rightarrow> True
      | _ \<Rightarrow> False)"

definition auto_failover_retry_before_cursor_advance :: "tso_error \<Rightarrow> bool" where
  "auto_failover_retry_before_cursor_advance e = (case e of FailoverRequiresExpiredLease _ _ \<Rightarrow> True | _ \<Rightarrow> False)"

definition auto_failover_error_outcome :: "tso_error \<Rightarrow> string" where
  "auto_failover_error_outcome e =
     (case e of
        CasFailed \<Rightarrow> ''contended'' | TimelineNotFound _ \<Rightarrow> ''contended''
      | _ \<Rightarrow> if auto_failover_error_is_expected e then ''blocked'' else ''error'')"

definition auto_failover_error_reason :: "tso_error \<Rightarrow> string" where
  "auto_failover_error_reason e =
     (case e of
        FailoverRequiresExpiredLease _ _ \<Rightarrow> ''lease_not_expired''
      | FailoverLeaseExpiryUnknown _ \<Rightarrow> ''lease_expiry_unknown''
      | FailoverMissingRecoveryFloor _ _ \<Rightarrow> ''recovery_floor_missing''
      | RecoveryCatchupBudgetExceeded _ _ _ \<Rightarrow> ''catchup_budget_exceeded''
      | GeneratorPoolExhausted \<Rightarrow> ''generator_pool_exhausted''
      | GeneratorNotOwnedByThisWorker _ _ _ \<Rightarrow> ''generator_not_owned''
      | UnsafeRemoteTransferTarget _ _ \<Rightarrow> ''unsafe_remote_target''
      | TimelineNotFound _ \<Rightarrow> ''timeline_not_found''
      | CasFailed \<Rightarrow> ''cas_failed''
      | _ \<Rightarrow> ''unexpected_error'')"

subsection \<open>Automatic failover\<close>

definition auto_failover_remote_owner_endpoints ::
    "surroundings \<Rightarrow> auto_failover_scan_state \<Rightarrow> (auto_failover_scan_state \<times> string list) act" where
  "auto_failover_remote_owner_endpoints ax scan =
     bnd (clock_now_ms ax) (\<lambda>now_ms. case load_cached_auto_failover_owner_endpoints now_ms scan of
       Some owners \<Rightarrow> ret (scan, owners)
     | None \<Rightarrow>
         bnd (on_store ax (\<lambda>s. (s, ms_scan_generators s))) (\<lambda>rs.
         bnd get_service (\<lambda>sv.
         let endpoints = filter (\<lambda>e. e \<noteq> [] \<and> \<not> is_local_endpoint sv e)
               (map (\<lambda>r. str_trim (gr_owner_worker_endpoint r)) rs);
             owners = sorted_list_of_set (set endpoints)
         in ret (store_cached_auto_failover_owner_endpoints (sv_config sv) owners now_ms scan, owners))))"

record failover_count =
  fo_scanned :: nat
  fo_attempted :: nat
  fo_succeeded :: nat
  fo_processed :: nat
  fo_next_cursor :: "string option"
  fo_retry :: bool

fun failover_records ::
    "surroundings \<Rightarrow> nat \<Rightarrow> (string \<Rightarrow> u64) \<Rightarrow> nat \<Rightarrow> timeline_record list \<Rightarrow> failover_count \<Rightarrow> failover_count option act" where
  \<comment> \<open>the records of one page\<close>
  "failover_records ax fuel hash batch_size [] count = ret (Some count)"
| "failover_records ax fuel hash batch_size (r # rs) count =
     bnd get_service (\<lambda>sv. let tk = rt_timeline_key (tl_route r) in
     bnd (result_of (transfer_timeline_for_rpc ax fuel hash tk (cfg_advertise_endpoint (sv_config sv)) None Failover)) (\<lambda>res.
     if res = Inr None then ret None
     else
       let count' = count \<lparr> fo_scanned := fo_scanned count + 1, fo_next_cursor := Some tk,
             fo_processed := fo_processed count + 1, fo_attempted := fo_attempted count + 1,
             fo_succeeded := (if isl res then fo_succeeded count else fo_succeeded count + 1),
             fo_retry := (case res of Inl e \<Rightarrow> fo_retry count \<or> auto_failover_retry_before_cursor_advance e
                          | Inr _ \<Rightarrow> fo_retry count) \<rparr>
       in if batch_size \<le> fo_attempted count' \<or> fo_retry count' then ret (Some count')
          else failover_records ax fuel hash batch_size rs count'))"

fun failover_owners ::
    "surroundings \<Rightarrow> nat \<Rightarrow> (string \<Rightarrow> u64) \<Rightarrow> string list \<Rightarrow> nat \<Rightarrow> nat \<Rightarrow> nat \<Rightarrow> nat \<Rightarrow> nat \<Rightarrow> nat \<Rightarrow> nat \<Rightarrow> nat
       \<Rightarrow> auto_failover_scan_state \<Rightarrow> (auto_failover_scan_state \<times> nat tso_result) option act" where
  \<comment> \<open>the loop over the owners, with the index of the next one, the counts so far and the fuel\<close>
  "failover_owners ax fuel hash owners batch_size scan_limit scanned attempted succeeded i idle 0 scan = ret None"
| "failover_owners ax fuel hash owners batch_size scan_limit scanned attempted succeeded i idle (Suc n) scan =
     (if \<not> (attempted < batch_size \<and> scanned < scan_limit \<and> idle < length owners) then ret (Some (scan, Inr succeeded))
      else
        let owner = owners ! i; cursor = load_auto_failover_owner_cursor owner scan;
            fetch_limit = max (min (scan_limit - scanned) batch_size) 1; i' = (i + 1) mod length owners in
        bnd (result_of (list_by_status_filter ax fuel [Active] (Some owner) cursor fetch_limit)) (\<lambda>res. case res of
          Inl e \<Rightarrow> ret (Some (scan, Inl e))
        | Inr None \<Rightarrow> ret None
        | Inr (Some page) \<Rightarrow>
            if pg_records page = [] \<and> pg_next_start_after_timeline_key page = None then
              failover_owners ax fuel hash owners batch_size scan_limit scanned attempted succeeded i' (idle + 1) n
                (store_auto_failover_owner_cursor owner None scan)
            else
              bnd (failover_records ax fuel hash batch_size (pg_records page)
                     \<lparr> fo_scanned = scanned, fo_attempted = attempted, fo_succeeded = succeeded, fo_processed = 0,
                       fo_next_cursor = pg_next_start_after_timeline_key page, fo_retry = False \<rparr>) (\<lambda>counted.
              case counted of
                None \<Rightarrow> ret None
              | Some count \<Rightarrow>
                  let next_cursor =
                        (if \<not> fo_retry count \<and> pg_next_start_after_timeline_key page = None
                            \<and> fo_processed count = length (pg_records page) then None
                         else fo_next_cursor count);
                      scan' = store_auto_failover_owner_index i' owners
                                (store_auto_failover_owner_cursor owner next_cursor scan)
                  in if batch_size \<le> fo_attempted count \<or> scan_limit \<le> fo_scanned count
                     then ret (Some (scan', Inr (fo_succeeded count)))
                     else failover_owners ax fuel hash owners batch_size scan_limit (fo_scanned count) (fo_attempted count)
                            (fo_succeeded count) i' 0 n scan')))"

definition auto_failover_owner_targeted_pass ::
    "surroundings \<Rightarrow> nat \<Rightarrow> (string \<Rightarrow> u64) \<Rightarrow> string list \<Rightarrow> auto_failover_scan_state
       \<Rightarrow> (auto_failover_scan_state \<times> nat tso_result) option act" where
  "auto_failover_owner_targeted_pass ax fuel hash owners scan =
     bnd get_service (\<lambda>sv. let batch_size = cfg_auto_failover_batch_size (sv_config sv) in
       failover_owners ax fuel hash owners batch_size (max (min (batch_size * 8) (2 ^ 64 - 1)) batch_size) 0 0 0
         (load_auto_failover_owner_index owners scan) 0 fuel scan)"

definition auto_failover_pass ::
    "surroundings \<Rightarrow> nat \<Rightarrow> (string \<Rightarrow> u64) \<Rightarrow> auto_failover_scan_state
       \<Rightarrow> (auto_failover_scan_state \<times> nat tso_result) option act" where
  "auto_failover_pass ax fuel hash scan =
     bnd (result_of (auto_failover_remote_owner_endpoints ax scan)) (\<lambda>res. case res of
       Inl e \<Rightarrow> ret (Some (scan, Inl e))
     | Inr (scan', owners) \<Rightarrow>
         if owners = [] then ret (Some (scan', Inr 0))
         else auto_failover_owner_targeted_pass ax fuel hash owners scan')"

fun background_auto_failover_loop ::
    "surroundings \<Rightarrow> nat \<Rightarrow> (string \<Rightarrow> u64) \<Rightarrow> loop_event list \<Rightarrow> auto_failover_scan_state
       \<Rightarrow> auto_failover_scan_state option act" where
  "background_auto_failover_loop ax fuel hash [] scan = ret (Some scan)"
| "background_auto_failover_loop ax fuel hash (Shutdown_Changed stop # es) scan =
     (if stop then ret (Some scan) else background_auto_failover_loop ax fuel hash es scan)"
| "background_auto_failover_loop ax fuel hash (Channel_Closed # es) scan = ret (Some scan)"
| "background_auto_failover_loop ax fuel hash (Service_Gone # es) scan = ret (Some scan)"
| "background_auto_failover_loop ax fuel hash (Interval_Tick # es) scan =
     bnd (auto_failover_pass ax fuel hash scan) (\<lambda>res. case res of
       None \<Rightarrow> ret None
     | Some (scan', _) \<Rightarrow> background_auto_failover_loop ax fuel hash es scan')"

end
