(* ===== verification/Facade.thy ===== *)
theory Facade
  imports Background Config_Validation Idempotency
begin

text \<open>
  The life of a worker (\<open>service/facade.rs\<close>): the checks \<open>TsoService::new\<close> makes and the tasks it
  starts, the health report, and the shutdown, which persists the floors of the timelines and
  generators of this worker, offers its timelines to others and drops what it holds. The concurrent
  flushes are run one after the other; what their siblings do is among the doings of others. When the
  flush meets its deadline, what it did until then counts as doing of others too. The hasher of the
  standard library has no specified function and is a parameter.
\<close>

subsection \<open>Starting a worker\<close>

fun config_error_to_string :: "config_error \<Rightarrow> string" where
  "config_error_to_string EmptyWorkerId = ''worker_id must not be empty''"
| "config_error_to_string EmptyAdvertiseEndpoint = ''advertise_endpoint must not be empty''"
| "config_error_to_string InvalidAdvertiseEndpointFormat = ''advertise_endpoint must use host:port format''"
| "config_error_to_string (TooManyTierGenerators n) =
     ''shared_generators + warm_generators exceeds max generator count '' @ fmt_dec (unat n)"
| "config_error_to_string (config_error.GeneratorOwnershipMisconfigured m r) =
     ''generator ownership is misconfigured: modulo '' @ fmt_dec (unat m) @ '' remainder '' @ fmt_dec (unat r)"
| "config_error_to_string ZeroMaxBatchPerRequest = ''max_batch_per_request must be greater than 0''"
| "config_error_to_string ZeroLeaseTtl = ''lease_ttl_ms must be greater than 0''"
| "config_error_to_string ZeroGeneratorMaintenanceInterval =
     ''generator_maintenance_interval_ms must be greater than 0''"
| "config_error_to_string (GeneratorMaintenanceIntervalTooLarge i t) =
     ''generator_maintenance_interval_ms '' @ fmt_dec (unat i) @ '' must be less than lease_ttl_ms '' @ fmt_dec (unat t)"
| "config_error_to_string (GeneratorLeaseTtlTooSmall i t) =
     ''generator_lease_ttl_ms '' @ fmt_dec (unat t) @ '' must be greater than generator_maintenance_interval_ms ''
       @ fmt_dec (unat i)"
| "config_error_to_string ZeroMaxTimelineProxyLanes = ''max_timeline_proxy_lanes must be greater than 0''"
| "config_error_to_string ZeroMaxTimelineRuntimeEntries = ''max_timeline_runtime_entries must be greater than 0''"
| "config_error_to_string ZeroMaxConcurrentTimelineLoads = ''max_concurrent_timeline_loads must be greater than 0''"
| "config_error_to_string ZeroMaxTimelineRecords = ''max_timeline_records must be greater than 0''"
| "config_error_to_string ZeroGrpcMaxConnections = ''grpc_max_connections must be greater than 0''"
| "config_error_to_string (MissingDefaultTierCapacity tier) =
     ''default resource tier '' @ resource_tier_to_string tier @ '' has no configured generators''"
| "config_error_to_string (InvalidTimestampLayout reason) = ''invalid timestamp layout: '' @ reason"
| "config_error_to_string (Security message) = message"

definition layout_debug :: "timestamp_layout \<Rightarrow> string" where
  \<comment> \<open>the derived \<open>Debug\<close> form\<close>
  "layout_debug l =
     ''TimestampLayout { format_version: '' @ fmt_dec (unat (lay_format_version l))
       @ '', epoch_unix_ms: '' @ fmt_dec (unat (lay_epoch_unix_ms l))
       @ '', physical_bits: '' @ fmt_dec (unat (lay_physical_bits l))
       @ '', generator_bits: '' @ fmt_dec (unat (lay_generator_bits l))
       @ '', sequence_bits: '' @ fmt_dec (unat (lay_sequence_bits l)) @ '' }''"

definition startup_error :: "tso_config \<Rightarrow> config_error \<Rightarrow> tso_error" where
  "startup_error c e =
     (case e of
        TooManyTierGenerators _ \<Rightarrow>
          GeneratorIdOutOfRange (saturating_add (cfg_shared_generators c) (cfg_warm_generators c))
      | config_error.GeneratorOwnershipMisconfigured m r \<Rightarrow> tso_error.GeneratorOwnershipMisconfigured m r
      | _ \<Rightarrow> Internal (config_error_to_string e))"

definition check_clock_layout :: "timestamp_layout option \<Rightarrow> tso_config \<Rightarrow> unit tso_result" where
  "check_clock_layout clock_layout c =
     (case clock_layout of
        None \<Rightarrow> Inr ()
      | Some l \<Rightarrow>
          if l \<noteq> cfg_timestamp_layout c
          then Inl (Internal (''clock timestamp layout '' @ layout_debug l
                 @ '' does not match configured cluster layout '' @ layout_debug (cfg_timestamp_layout c)))
          else Inr ())"

definition worker_instance_id :: "tso_config \<Rightarrow> u64 \<Rightarrow> string" where
  \<comment> \<open>with the reading of \<open>INSTANCE_ID_COUNTER\<close>\<close>
  "worker_instance_id c n =
     (if str_trim (cfg_instance_id c) = [] then cfg_advertise_endpoint c @ ''#'' @ fmt_dec (unat n)
      else cfg_instance_id c)"

definition contention_jitter_seed :: "(u32 \<Rightarrow> string \<Rightarrow> u64 \<Rightarrow> u64) \<Rightarrow> u32 \<Rightarrow> string \<Rightarrow> u64 \<Rightarrow> u64" where
  \<comment> \<open>with the hasher, the process id and the reading of \<open>CONTENTION_SEED_COUNTER\<close>\<close>
  "contention_jitter_seed hasher pid i n = max (hasher pid i n) 1"

definition started_tasks :: "tso_config \<Rightarrow> background_coordinator" where
  "started_tasks c =
     register_task RouteUpdateTask
       ((if cfg_auto_failover_enabled c then register_task AutoFailoverTask else id)
         (register_task CleanupTask (register_task MaintenanceTask background_new)))"

definition with_lease_ttl :: "tso_config \<Rightarrow> tso_config" where
  "with_lease_ttl c = (if cfg_generator_lease_ttl_ms c = 0 then c \<lparr> cfg_generator_lease_ttl_ms := cfg_lease_ttl_ms c \<rparr> else c)"

definition start_worker ::
    "file_system \<Rightarrow> timestamp_layout option \<Rightarrow> (u32 \<Rightarrow> string \<Rightarrow> u64 \<Rightarrow> u64) \<Rightarrow> u32 \<Rightarrow> u64 \<Rightarrow> u64 \<Rightarrow> tso_config
       \<Rightarrow> (tso_service \<times> background_coordinator) tso_result" where
  \<comment> \<open>\<open>TsoService::new\<close>, with the layout of the clock and the readings of the two counters\<close>
  "start_worker fs clock_layout hasher pid n m c0 =
     (let c = with_lease_ttl c0 in
      and_then (case validate_for_startup fs c of Inl e \<Rightarrow> Inl (startup_error c e) | Inr _ \<Rightarrow> Inr ()) (\<lambda>_.
      and_then (check_clock_layout clock_layout c) (\<lambda>_.
      and_then (case validate_authoritative_metadata_runtime_contract c of
                  Inl e \<Rightarrow> Inl (Internal (config_error_to_string e)) | Inr _ \<Rightarrow> Inr ()) (\<lambda>_.
        let i = worker_instance_id c n in
        Inr (service_new c i (contention_jitter_seed hasher pid i m), started_tasks c)))))"

definition timeline_count :: "timeline_cache \<Rightarrow> nat" where
  "timeline_count c = tc_entry_count c"

definition health :: "tso_service \<Rightarrow> health_info" where
  "health sv =
     \<lparr> hi_generator_count = generator_count (sv_generator_runtime sv),
       hi_timeline_count = timeline_count (sv_timeline_runtime sv),
       hi_worker_id = cfg_worker_id (sv_config sv), hi_instance_id = sv_instance_id sv,
       hi_advertise_endpoint = cfg_advertise_endpoint (sv_config sv) \<rparr>"

subsection \<open>What a worker leaves behind\<close>

record shutdown_transfer_candidates =
  sd_shared :: "(string \<times> u32) list"
  sd_warm :: "(string \<times> u32) list"
  sd_dedicated :: "(string \<times> u32) list"

record shutdown_transfer_state =
  ss_shared :: nat
  ss_warm :: nat
  ss_dedicated :: nat

definition usize_succ :: "nat \<Rightarrow> nat" where
  "usize_succ n = min (Suc n) (2 ^ 64 - 1)"

definition pick_in_turn :: "(string \<times> u32) list \<Rightarrow> nat \<Rightarrow> (string \<times> u32) option" where
  "pick_in_turn pool cursor = (if pool = [] then None else Some (pool ! (cursor mod length pool)))"

definition shutdown_transfer_target ::
    "shutdown_transfer_candidates \<Rightarrow> resource_tier \<Rightarrow> shutdown_transfer_state
       \<Rightarrow> shutdown_transfer_state \<times> (string \<times> u32) option" where
  "shutdown_transfer_target pools tier st =
     (case tier of
        Shared \<Rightarrow> (if sd_shared pools = [] then st else st \<lparr> ss_shared := usize_succ (ss_shared st) \<rparr>,
                   pick_in_turn (sd_shared pools) (ss_shared st))
      | Warm \<Rightarrow> (if sd_warm pools = [] then st else st \<lparr> ss_warm := usize_succ (ss_warm st) \<rparr>,
                 pick_in_turn (sd_warm pools) (ss_warm st))
      | Dedicated \<Rightarrow> (if sd_dedicated pools = [] then st else st \<lparr> ss_dedicated := usize_succ (ss_dedicated st) \<rparr>,
                      pick_in_turn (sd_dedicated pools) (ss_dedicated st)))"

record shutdown_inventory =
  iv_local_timelines :: "timeline_route list"
  iv_local_generator_ids :: "u32 list"
  iv_candidates :: shutdown_transfer_candidates
  iv_seen :: "(string \<times> u32) list"

definition empty_inventory :: shutdown_inventory where
  "empty_inventory = \<lparr> iv_local_timelines = [], iv_local_generator_ids = [],
     iv_candidates = \<lparr> sd_shared = [], sd_warm = [], sd_dedicated = [] \<rparr>, iv_seen = [] \<rparr>"

definition take_stock :: "tso_service \<Rightarrow> timeline_route \<Rightarrow> shutdown_inventory \<Rightarrow> shutdown_inventory" where
  \<comment> \<open>one record of a page\<close>
  "take_stock sv route iv =
     (let candidate = (rt_owner_worker_endpoint route, rt_generator_id route) in
      if is_local_endpoint sv (rt_owner_worker_endpoint route)
      then iv \<lparr> iv_local_timelines := iv_local_timelines iv @ [route],
                iv_local_generator_ids := List.insert (rt_generator_id route) (iv_local_generator_ids iv) \<rparr>
      else if candidate \<in> set (iv_seen iv) then iv
      else iv \<lparr> iv_seen := candidate # iv_seen iv,
                iv_candidates := (let cs = iv_candidates iv in
                  case rt_resource_tier route of
                    Shared \<Rightarrow> cs \<lparr> sd_shared := sd_shared cs @ [candidate] \<rparr>
                  | Warm \<Rightarrow> cs \<lparr> sd_warm := sd_warm cs @ [candidate] \<rparr>
                  | Dedicated \<Rightarrow> cs \<lparr> sd_dedicated := sd_dedicated cs @ [candidate] \<rparr>) \<rparr>)"

fun collect_inventory :: "surroundings \<Rightarrow> nat \<Rightarrow> string option \<Rightarrow> shutdown_inventory \<Rightarrow> nat \<Rightarrow> shutdown_inventory option act" where
  "collect_inventory ax page_size cursor iv 0 = ret None"
| "collect_inventory ax page_size cursor iv (Suc n) =
     bnd (on_store ax (ms_list_timeline_filters_page cursor page_size)) (\<lambda>page.
     if pg_records page = [] then ret (Some iv)
     else bnd get_service (\<lambda>sv.
       let iv' = fold (\<lambda>f. take_stock sv (tf_route f)) (pg_records page) iv in
       case pg_next_start_after_timeline_key page of
         None \<Rightarrow> ret (Some iv')
       | Some k \<Rightarrow> collect_inventory ax page_size (Some k) iv' n))"

definition collect_shutdown_inventory :: "surroundings \<Rightarrow> nat \<Rightarrow> shutdown_inventory option act" where
  "collect_shutdown_inventory ax fuel =
     bnd get_service (\<lambda>sv.
       collect_inventory ax (max 1 (min (cfg_max_timeline_runtime_entries (sv_config sv)) 256)) None empty_inventory fuel)"

definition at_least :: "u64 option \<Rightarrow> u64 \<Rightarrow> u64" where
  \<comment> \<open>\<open>map(|current| current.max(x)).unwrap_or(x)\<close>\<close>
  "at_least current x = (case current of Some c \<Rightarrow> max c x | None \<Rightarrow> x)"

definition ignoring_lost_race :: "u64 act \<Rightarrow> unit act" where
  \<comment> \<open>\<open>Ok(_) | Err(TsoError::CasFailed) => Ok(())\<close>\<close>
  "ignoring_lost_race m = bnd (result_of m) (\<lambda>res. case res of
     Inr _ \<Rightarrow> ret () | Inl e \<Rightarrow> if e = CasFailed then ret () else throw e)"

definition floored_timeline :: "timeline_record \<Rightarrow> u64 \<Rightarrow> timeline_record" where
  \<comment> \<open>without the time of the update\<close>
  "floored_timeline r local_last_issued =
     (let graceful = at_least (tl_last_graceful_issued r) local_last_issued
      in r \<lparr> tl_last_graceful_issued := Some graceful,
             tl_recovery_floor_tso := Some (at_least (tl_recovery_floor_tso r) graceful) \<rparr>)"

definition best_effort_persist_local_timeline_floor :: "surroundings \<Rightarrow> string \<Rightarrow> unit act" where
  "best_effort_persist_local_timeline_floor ax tk =
     bnd (cached_handle tk) (\<lambda>handle.
     bnd (case handle of None \<Rightarrow> ret None | Some a \<Rightarrow> bnd (read_state ax a) (\<lambda>st. ret (tst_last_issued_tso st))) (\<lambda>issued.
     case issued of
       None \<Rightarrow> ret ()
     | Some local_last_issued \<Rightarrow>
         bnd (load_timeline ax tk) (\<lambda>loaded. case loaded of
           None \<Rightarrow> ret ()
         | Some (r, revision) \<Rightarrow>
             bnd get_service (\<lambda>sv.
             if \<not> is_local_endpoint sv (rt_owner_worker_endpoint (tl_route r)) then ret ()
             else let r' = floored_timeline r local_last_issued in
               if tl_last_graceful_issued r' = tl_last_graceful_issued r \<and> tl_recovery_floor_tso r' = tl_recovery_floor_tso r then ret ()
               else bnd (clock_now_ms ax) (\<lambda>now_ms.
                 ignoring_lost_race (compare_exchange_timeline ax tk revision (r' \<lparr> tl_updated_at_ms := now_ms \<rparr>)))))))"

definition best_effort_persist_local_generator_floor :: "surroundings \<Rightarrow> u32 \<Rightarrow> unit act" where
  "best_effort_persist_local_generator_floor ax gid =
     bnd get_service (\<lambda>sv.
     bnd (done_with (and_then (lookup_generator sv gid) current_last_issued_tso)) (\<lambda>issued. case issued of
       None \<Rightarrow> ret ()
     | Some local_last_issued \<Rightarrow>
         bnd (load_generator ax gid) (\<lambda>loaded. case loaded of
           None \<Rightarrow> ret ()
         | Some (r, revision) \<Rightarrow>
             bnd get_service (\<lambda>sv.
             if \<not> is_local_generator_owner sv r then ret ()
             else let desired = at_least (gr_last_issued_tso r) local_last_issued in
               if gr_last_issued_tso r = Some desired then ret ()
               else bnd (clock_now_ms ax) (\<lambda>now_ms.
                 ignoring_lost_race (compare_exchange_generator ax gid revision
                   (r \<lparr> gr_last_issued_tso := Some desired, gr_updated_at_ms := now_ms \<rparr>)))))))"

fun each_best_effort :: "('a \<Rightarrow> 'b act) \<Rightarrow> 'a list \<Rightarrow> unit act" where
  \<comment> \<open>\<open>for_each_concurrent\<close> with a warning for every error\<close>
  "each_best_effort f [] = ret ()"
| "each_best_effort f (x # xs) = bnd (result_of (f x)) (\<lambda>_. each_best_effort f xs)"

fun plan_shutdown_transfers ::
    "tso_service \<Rightarrow> shutdown_transfer_candidates \<Rightarrow> timeline_route list \<Rightarrow> shutdown_transfer_state \<Rightarrow> (string \<times> string \<times> u32) list" where
  "plan_shutdown_transfers sv pools [] st = []"
| "plan_shutdown_transfers sv pools (route # routes) st =
     (if \<not> is_local_endpoint sv (rt_owner_worker_endpoint route) then plan_shutdown_transfers sv pools routes st
      else case shutdown_transfer_target pools (rt_resource_tier route) st of
          (st', None) \<Rightarrow> plan_shutdown_transfers sv pools routes st'
        | (st', Some (endpoint, gid)) \<Rightarrow>
            (rt_timeline_key route, endpoint, gid) # plan_shutdown_transfers sv pools routes st')"

definition best_effort_transfer_local_timelines_before_shutdown ::
    "surroundings \<Rightarrow> nat \<Rightarrow> (string \<Rightarrow> u64) \<Rightarrow> timeline_route list \<Rightarrow> shutdown_transfer_candidates \<Rightarrow> unit act" where
  "best_effort_transfer_local_timelines_before_shutdown ax fuel hash timelines pools =
     (if sd_shared pools = [] \<and> sd_warm pools = [] \<and> sd_dedicated pools = [] then ret ()
      else bnd get_service (\<lambda>sv.
        each_best_effort (\<lambda>(tk, endpoint, gid). transfer_timeline_for_rpc ax fuel hash tk endpoint (Some gid) Rebalance)
          (plan_shutdown_transfers sv pools timelines \<lparr> ss_shared = 0, ss_warm = 0, ss_dedicated = 0 \<rparr>)))"

definition best_effort_persist_runtime_before_shutdown ::
    "surroundings \<Rightarrow> nat \<Rightarrow> (string \<Rightarrow> u64) \<Rightarrow> unit act" where
  \<comment> \<open>a listing that does not end is cut off by the deadline\<close>
  "best_effort_persist_runtime_before_shutdown ax fuel hash =
     bnd (result_of (collect_shutdown_inventory ax fuel)) (\<lambda>res. case res of
       Inr (Some iv) \<Rightarrow>
         bnd (each_best_effort (\<lambda>route. best_effort_persist_local_timeline_floor ax (rt_timeline_key route))
                (iv_local_timelines iv)) (\<lambda>_.
         bnd (each_best_effort (best_effort_persist_local_generator_floor ax) (iv_local_generator_ids iv)) (\<lambda>_.
           best_effort_transfer_local_timelines_before_shutdown ax fuel hash (iv_local_timelines iv) (iv_candidates iv)))
     | _ \<Rightarrow> ret ())"

subsection \<open>Shutting down\<close>

definition invalidate_local_runtime_after_shutdown :: "tso_service \<Rightarrow> tso_service" where
  "invalidate_local_runtime_after_shutdown sv =
     on_runtime (\<lambda>rs. clear_dedicated_claims (clear_leases rs)) sv
       \<lparr> sv_timeline_runtime := cache_clear (sv_timeline_runtime sv) \<rparr>"

definition shutdown ::
    "surroundings \<Rightarrow> (nat \<Rightarrow> background_task \<Rightarrow> bool) \<Rightarrow> nat \<Rightarrow> (string \<Rightarrow> u64) \<Rightarrow> bool \<Rightarrow> background_coordinator
       \<Rightarrow> background_coordinator option act" where
  \<comment> \<open>with when the background tasks have ended, and whether the deadline of the flush passes: what a flush
    that is cut off has done by then is part of what the pause lets happen; the in-memory store has nothing
    to shut down\<close>
  "shutdown ax ended fuel hash timed_out bg =
     (case begin_shutdown bg of
        (bg', first) \<Rightarrow>
          if \<not> first then ret (Some bg')
          else bnd (on_service (\<lambda>sv. (request_local_shutdown_gate sv, Inr ()))) (\<lambda>_.
               bnd (if timed_out then pause ax else best_effort_persist_runtime_before_shutdown ax fuel hash) (\<lambda>_.
               bnd (drain_tasks ax ended fuel bg') (\<lambda>drained. case drained of
                 None \<Rightarrow> ret None
               | Some bg'' \<Rightarrow>
                   bnd (on_service (\<lambda>sv. (invalidate_local_runtime_after_shutdown sv, Inr ()))) (\<lambda>_. ret (Some bg''))))))"

end
