(* ===== verification/Guarantee.thy ===== *)
theory Guarantee
  imports Facade
begin

text \<open>
  What every operation of a worker guarantees of its state, given that the tasks it is interleaved with
  guarantee the same: the configuration and the identity stay, an announced shutdown is not taken back,
  and each generator keeps its id and its layout and never counts backwards. There is one rule for each
  way of composing operations, and one lemma for each operation.
\<close>

subsection \<open>The relation\<close>

definition generator_advances :: "generator \<Rightarrow> generator \<Rightarrow> bool" where
  "generator_advances g g' \<longleftrightarrow>
     gn_id g' = gn_id g \<and> gn_layout g' = gn_layout g \<and> gn_next_index g \<le> gn_next_index g'"

definition advances :: "tso_service \<Rightarrow> tso_service \<Rightarrow> bool" where
  "advances sv sv' \<longleftrightarrow>
     sv_config sv' = sv_config sv \<and> sv_instance_id sv' = sv_instance_id sv
     \<and> (sv_shutdown_gate sv \<longrightarrow> sv_shutdown_gate sv')
     \<and> list_all2 generator_advances (grs_generators (sv_generator_runtime sv)) (grs_generators (sv_generator_runtime sv'))"

definition others_advance :: "surroundings \<Rightarrow> bool" where
  \<comment> \<open>the other tasks, and the other threads at the counters of the generators\<close>
  "others_advance ax \<longleftrightarrow>
     (\<forall>i s. advances (fst s) (fst (ax_others ax i s))) \<and> (\<forall>i k v. v \<le> ax_race ax i k v)"

definition guarantees :: "'a act \<Rightarrow> bool" where
  "guarantees m \<longleftrightarrow> (\<forall>w. advances (w_service w) (w_service (fst (m w))))"

lemma generator_advances_refl [simp]: "generator_advances g g"
  by (simp add: generator_advances_def)

lemma generator_advances_trans:
  "generator_advances g g' \<Longrightarrow> generator_advances g' g'' \<Longrightarrow> generator_advances g g''"
  by (auto simp: generator_advances_def)

lemma advances_refl [simp]: "advances sv sv"
  by (simp add: advances_def list.rel_refl)

lemma advances_trans [trans]: "advances sv sv' \<Longrightarrow> advances sv' sv'' \<Longrightarrow> advances sv sv''"
  unfolding advances_def by (metis list_all2_trans [of generator_advances generator_advances] generator_advances_trans)

lemma others_uncancelled [intro]: "others_advance ax \<Longrightarrow> others_advance (uncancelled ax)"
  by (simp add: others_advance_def uncancelled_def)

subsection \<open>Updates of the state\<close>

text \<open>An update that leaves the named fields alone is an advance.\<close>

lemma advances_same:
  assumes "sv_config sv' = sv_config sv" "sv_instance_id sv' = sv_instance_id sv"
    "sv_shutdown_gate sv' = sv_shutdown_gate sv"
    "grs_generators (sv_generator_runtime sv') = grs_generators (sv_generator_runtime sv)"
  shows "advances sv sv'"
  using assms by (simp add: advances_def list.rel_refl)

lemma advances_set_generator:
  assumes "generator_at (sv_generator_runtime sv) gid = Inr g" "generator_advances g g'"
  shows "advances sv (on_runtime (set_generator gid g') sv)"
proof -
  let ?gs = "grs_generators (sv_generator_runtime sv)"
  have "?gs ! unat gid = g" "unat gid < length ?gs" using assms(1) by (auto simp: generator_at_def split: if_splits)
  then have "list_all2 generator_advances ?gs (?gs[unat gid := g'])"
    using assms(2) by (auto simp: list_all2_conv_all_nth nth_list_update)
  then show ?thesis by (simp add: advances_def on_runtime_def set_generator_def)
qed

lemma init_after_floor_advances: "init_after_floor f g = (g', r) \<Longrightarrow> generator_advances g g'"
  by (auto simp: init_after_floor_def generator_advances_def split: sum.splits option.splits)

lemma lookup_generator_at: "lookup_generator sv gid = Inr g \<Longrightarrow> generator_at (sv_generator_runtime sv) gid = Inr g"
  by (simp add: lookup_generator_def and_then_eq_Inr)

lemma init_generator_advances: "advances sv (fst (init_generator gid f sv))"
  by (auto simp: init_generator_def dest!: lookup_generator_at init_after_floor_advances
      intro: advances_set_generator split: option.split sum.split prod.split)

lemma advances_drift [simp]:
  "advances sv (clear_ownership_drift_of gid sv)"
  "advances sv (observe_ownership_drift gid i e n sv)"
  "advances sv (note_foreign_owner gid r n sv)"
  "advances sv (fst (next_generator_with_ownership_drift n sv))"
  by (auto simp: clear_ownership_drift_of_def observe_ownership_drift_def note_foreign_owner_def
      next_generator_with_ownership_drift_def intro!: advances_same split: option.split prod.split)

lemma hold_lease_advances: "advances sv (fst (hold_lease gid l sv))"
proof (cases "generator_at (sv_generator_runtime sv) gid")
  case (Inr g)
  have "advances sv (on_runtime (set_generator gid (mark_ready_for_lease (ls_generator_lease_token l) g)) sv)"
    using Inr by (rule advances_set_generator) (simp add: generator_advances_def mark_ready_for_lease_def)
  also have "advances \<dots> (clear_ownership_drift_of gid (sv \<lparr> sv_generator_runtime := upsert_lease gid l
      (set_generator gid (mark_ready_for_lease (ls_generator_lease_token l) g) (sv_generator_runtime sv)) \<rparr>))"
    by (rule advances_same) (simp_all add: clear_ownership_drift_of_def on_runtime_def upsert_lease_def)
  finally show ?thesis
    using Inr by (simp add: hold_lease_def mark_generator_ready_for_lease_def)
qed (simp add: hold_lease_def mark_generator_ready_for_lease_def)

lemma install_lease_advances: "advances sv (fst (install_lease gid f l sv))"
  using init_generator_advances [of sv gid f] hold_lease_advances
  by (auto simp: install_lease_def intro: advances_trans split: prod.split sum.split)

lemma ensure_on_record_advances: "advances sv (fst (ensure_on_record gid r revision now_ms sv))"
  using install_lease_advances
  by (simp add: ensure_on_record_def Let_def case_prod_beta split: option.split sum.split)

lemma lease_outcomes_advance:
  "advances sv (fst (after_takeover gid r revision sv))"
  "advances sv (fst (after_creation gid r revision sv))"
  "advances sv (fst (after_refresh gid r revision sv))"
  "advances sv (fst (refuse_expired tk gid r now_ms sv))"
  using install_lease_advances hold_lease_advances
  by (auto simp: after_takeover_def after_creation_def after_refresh_def refuse_expired_def
      split: option.split sum.split)

lemma drop_lease_advances: "advances sv (fst (drop_lease gid sv))"
proof (cases "generator_at (sv_generator_runtime sv) gid")
  case (Inr g)
  have "advances sv (on_runtime (set_generator gid (clear_ready_lease g)) sv)"
    using Inr by (rule advances_set_generator) (simp add: generator_advances_def clear_ready_lease_def)
  also have "advances \<dots> (fst (drop_lease gid sv))"
    using Inr by (intro advances_same)
      (simp_all add: drop_lease_def remove_lease_def on_runtime_def set_generator_def generator_at_def split: if_splits)
  finally show ?thesis .
qed (simp add: drop_lease_def remove_lease_def generator_at_def split: if_splits)

lemma hold_refreshed_advances: "advances sv (fst (hold_refreshed ops sv))"
proof (induction ops sv rule: hold_refreshed.induct)
  case (2 op revision rest sv)
  show ?case
  proof (cases "runtime_lease_state_from_record revision (gb_record op)")
    case (Inr l)
    obtain sv' r where h: "hold_lease (gb_generator_id op) l sv = (sv', r)" by fastforce
    have "advances sv sv'" using hold_lease_advances [of sv "gb_generator_id op" l] h by simp
    then show ?thesis using 2(2) [OF Inr h [symmetric]] Inr h by (cases r) (auto intro: advances_trans)
  qed (use 2(1) in simp)
qed simp

lemma advances_claims:
  "advances sv (fst (claim_first_free tk gids sv))"
  "advances sv (fst (service_claim_dedicated tk sv))"
  "advances sv (fst (claim_specific_dedicated gid tk sv))"
  "advances sv (service_release_dedicated gid tk sv)"
  "advances sv (service_clear_dedicated_claims sv)"
  "advances sv (fst (pick_generator_id hash tk tier sv))"
  "advances sv (fst (restore_dedicated_claim tk r sv))"
proof -
  have claim: "advances sv (sv \<lparr> sv_generator_runtime := fst (claim_dedicated gid tk (sv_generator_runtime sv)) \<rparr>)"
    for gid tk sv
    by (rule advances_same) (simp_all add: claim_dedicated_def split: option.split)
  show free: "advances sv (fst (claim_first_free tk gids sv))" for tk gids sv
  proof (induction tk gids sv rule: claim_first_free.induct)
    case (2 tk gid gids sv)
    obtain rs r where c: "claim_dedicated gid tk (sv_generator_runtime sv) = (rs, r)" by fastforce
    have "advances sv (sv \<lparr> sv_generator_runtime := rs \<rparr>)" using claim [of sv gid tk] c by simp
    with 2 c show ?case by (cases r) (auto simp: Let_def intro: advances_trans)
  qed simp
  show dedicated: "advances sv (fst (service_claim_dedicated tk sv))" for tk
    using free by (simp add: service_claim_dedicated_def Let_def split: option.split)
  show specific: "advances sv (fst (claim_specific_dedicated gid tk sv))" for gid tk
    using claim [of sv gid tk] by (auto simp: claim_specific_dedicated_def split: prod.split)
  show "advances sv (service_release_dedicated gid tk sv)" "advances sv (service_clear_dedicated_claims sv)"
    by (rule advances_same; simp add: service_release_dedicated_def service_clear_dedicated_claims_def on_runtime_def
        release_dedicated_def clear_dedicated_claims_def split: option.split)+
  show "advances sv (fst (pick_generator_id hash tk tier sv))"
    using dedicated [of tk] by (auto simp: pick_generator_id_def Let_def split: resource_tier.split prod.split)
  show "advances sv (fst (restore_dedicated_claim tk r sv))"
    using specific [of "rt_generator_id (tl_route r)" tk] by (auto simp: restore_dedicated_claim_def split: prod.split)
qed

lemma advances_cache [simp]:
  "advances sv (clear_timeline_cache tk sv)"
  "advances sv (set_state a st sv)"
  "advances sv (fst (alloc_state st sv))"
  "advances sv (sv \<lparr> sv_timeline_runtime := c \<rparr>)"
  "advances sv (sv \<lparr> sv_metadata_contention := seed \<rparr>)"
  "advances sv (clear_cached_routes sv)"
  by (rule advances_same; simp add: clear_timeline_cache_def set_state_def alloc_state_def Let_def clear_cached_routes_def
      service_clear_dedicated_claims_def on_runtime_def clear_dedicated_claims_def)+

subsection \<open>Serving\<close>

lemma allocate_attempt_index:
  assumes "allocate_attempt l gid a f old = Inr (s, e, n)"
  shows "old \<le> n"
proof -
  let ?now = "al_now_ms a"
  from assms have s: "s = max (max old (saturating_mul (if ?now < old div seq_cap l then old div seq_cap l else ?now)
      (seq_cap l))) f"
    and e: "Option.bind (checked_add s (ucast (al_count a))) (\<lambda>v. checked_sub v 1) = Some e"
    and n: "checked_add e 1 = Some n"
    by (auto simp: allocate_attempt_def Let_def result_simps split: if_splits)
  from e obtain v where v: "checked_add s (ucast (al_count a)) = Some v" "1 \<le> v" "e = v - 1"
    by (auto simp: checked_sub_Some bind_eq_Some_conv)
  have "unat s \<le> unat v" using checked_add_SomeD [OF v(1)] by simp
  also have "unat v = unat n" using checked_add_SomeD [OF n] v(2,3) by (simp add: unat_sub word_le_nat_alt)
  finally have "s \<le> n" by (simp add: word_le_nat_alt)
  moreover have "old \<le> s" by (simp add: s le_max_iff_disj)
  ultimately show ?thesis by simp
qed

lemma allocate_loop_advances:
  assumes "\<And>k v. v \<le> env k v"
  shows "generator_advances g (fst (allocate_loop env a f i retries g))"
  using assms
proof (induction env a f i retries g rule: allocate_loop.induct)
  case (1 env a f i retries g)
  let ?old = "env i (gn_next_index g)" and ?seen = "env (i + 1) (env i (gn_next_index g))"
  have old: "gn_next_index g \<le> ?old" using 1(2) .
  also have "?old \<le> ?seen" using 1(2) .
  finally have seen: "gn_next_index g \<le> ?seen" .
  show ?case
  proof (cases "allocate_attempt (gn_layout g) (gn_id g) a f ?old")
    case (Inl e)
    then show ?thesis using old by (subst allocate_loop.simps) (simp add: generator_advances_def)
  next
    case (Inr t)
    obtain s e n where t: "t = (s, e, n)" by (cases t)
    have n: "gn_next_index g \<le> n" using old allocate_attempt_index [OF Inr [unfolded t]] by simp
    have "generator_advances (g \<lparr> gn_next_index := ?seen \<rparr>)
        (fst (allocate_loop env a f (i + 2) (retries + 1) (g \<lparr> gn_next_index := ?seen \<rparr>)))"
      if "?seen \<noteq> ?old" "\<not> MAX_GENERATOR_CONTENTION_RETRIES \<le> retries + 1"
      using 1(1) [OF refl Inr t [symmetric] refl refl that(1) refl that(2) 1(2)] .
    with Inr n seen show ?thesis
      by (subst allocate_loop.simps) (auto simp: t Let_def generator_advances_def)
  qed
qed

lemma allocate_after_advances:
  "(\<And>k v. v \<le> env k v) \<Longrightarrow> generator_advances g (fst (allocate_after env a g))"
  using allocate_loop_advances by (simp add: allocate_after_def split: sum.split)

lemma serve_section_advances:
  assumes "\<And>k v. v \<le> race k v" "serve_section race rq gid now_ms bound c (st, g) = ((st', g'), r)"
  shows "generator_advances g g'"
proof -
  obtain st1 r1 where c: "charge_timeline_quota c (rq_count rq) now_ms st = (st1, r1)" by fastforce
  show ?thesis
  proof (cases r1)
    case (Inr charged)
    then show ?thesis
      using assms c allocate_after_advances [of race g, OF assms(1)]
      by (auto simp: serve_section_def Let_def case_prod_beta
          split: sum.splits allocate_after_result.splits tso_error.splits)
  qed (use assms c in \<open>simp add: serve_section_def\<close>)
qed

subsection \<open>Composition\<close>

named_theorems guarantee

lemma guarantees_basic [guarantee]:
  "guarantees (ret x)" "guarantees (throw e)" "guarantees (done_with r)" "guarantees get_service"
  "guarantees (clock_now_ms ax)" "guarantees (instant_now ax)" "guarantees (check_request_cancellation ax)"
  by (simp_all add: guarantees_def ret_def throw_def done_with_def get_service_def clock_now_ms_def instant_now_def
      check_request_cancellation_def)

lemma guarantees_bnd [guarantee]: "guarantees m \<Longrightarrow> (\<And>x. guarantees (f x)) \<Longrightarrow> guarantees (bnd m f)"
  unfolding guarantees_def bnd_def by (auto split: prod.split sum.split intro: advances_trans)

lemma guarantees_result [guarantee]: "guarantees m \<Longrightarrow> guarantees (result_of m)"
  by (simp add: guarantees_def result_of_def case_prod_beta)

lemma guarantees_service [guarantee]: "(\<And>sv. advances sv (fst (h sv))) \<Longrightarrow> guarantees (on_service h)"
  by (simp add: guarantees_def on_service_def case_prod_beta)

lemma guarantees_pause [guarantee]: "others_advance ax \<Longrightarrow> guarantees (pause ax)"
  by (auto simp: guarantees_def pause_def Let_def others_advance_def case_prod_beta)

lemma guarantees_store [guarantee]: "others_advance ax \<Longrightarrow> guarantees (on_store ax f)"
  unfolding on_store_def by (rule guarantees_bnd [OF guarantees_pause])
    (simp_all add: guarantees_def case_prod_beta)

lemma guarantees_case [guarantee]:
  "guarantees a \<Longrightarrow> (\<And>y. guarantees (b y)) \<Longrightarrow> guarantees (case x of None \<Rightarrow> a | Some y \<Rightarrow> b y)"
  "(\<And>e. guarantees (c e)) \<Longrightarrow> (\<And>y. guarantees (b y)) \<Longrightarrow> guarantees (case z of Inl e \<Rightarrow> c e | Inr y \<Rightarrow> b y)"
  "(\<And>y z. guarantees (d y z)) \<Longrightarrow> guarantees (case u of (y, z) \<Rightarrow> d y z)"
  "guarantees m \<Longrightarrow> guarantees m' \<Longrightarrow> guarantees (if v then m else m')"
  "guarantees m \<Longrightarrow> guarantees m' \<Longrightarrow> guarantees m''
     \<Longrightarrow> guarantees (case sr of Serving \<Rightarrow> m | RequiresActivation \<Rightarrow> m' | NotReady \<Rightarrow> m'')"
  "(\<And>r. guarantees (n r)) \<Longrightarrow> guarantees m \<Longrightarrow> guarantees m' \<Longrightarrow> (\<And>e. guarantees (n' e))
     \<Longrightarrow> guarantees (case out of Served r \<Rightarrow> n r | Contended_Outcome \<Rightarrow> m | Retry_After_Lease_Refresh \<Rightarrow> m'
       | Serve_Error e \<Rightarrow> n' e)"
  "guarantees m \<Longrightarrow> (\<And>r. guarantees (n r)) \<Longrightarrow> (\<And>q. guarantees (k q))
     \<Longrightarrow> guarantees (case prep of Idempotency_Disabled \<Rightarrow> m | Replay r \<Rightarrow> n r | Pending_Allocation q \<Rightarrow> k q)"
  by (simp_all split: option.split sum.split prod.split timeline_serving_readiness.split serve_outcome.split
      idempotent_allocation_preparation.split)

lemma guarantees_tick: "guarantees m \<Longrightarrow> guarantees (\<lambda>w. m (tick w))"
  unfolding guarantees_def by (metis tick_fields(1))

subsection \<open>Leases\<close>

lemma store_operations_guarantee [guarantee]:
  assumes "others_advance ax"
  shows "guarantees (load_generator ax gid)" "guarantees (create_generator ax gid r)"
    "guarantees (compare_exchange_generator ax gid rv r)" "guarantees (load_generators ax gids)"
    "guarantees (load_timeline ax tk)" "guarantees (load_timeline_route ax tk)"
    "guarantees (create_timeline_with_limit ax tk t limit)" "guarantees (compare_exchange_timeline ax tk rv t)"
    "guarantees (compare_exchange_generators ax ops)"
  unfolding load_generator_def create_generator_def compare_exchange_generator_def load_generators_def load_timeline_def
    load_timeline_route_def create_timeline_with_limit_def compare_exchange_timeline_def compare_exchange_generators_def
  by (intro guarantee assms)+

lemma backoff_guarantee [guarantee]: "others_advance ax \<Longrightarrow> guarantees (backoff_after_contention ax retries deadline)"
  unfolding backoff_after_contention_def by (intro guarantee) (auto simp: Let_def case_prod_beta)

lemma ensure_loop_guarantee: "others_advance ax \<Longrightarrow> guarantees (ensure_loop ax gid deadline retries fuel)"
proof (induction fuel arbitrary: retries)
  case (Suc fuel)
  then show ?case
    by (simp add: Let_def case_prod_beta)
      (intro guarantee; simp add: ensure_on_record_advances lease_outcomes_advance)
qed (simp add: guarantee)

lemma flight_guarantee [guarantee]:
  assumes "others_advance ax"
  shows "guarantees (acquire_generator_lease_singleflight ax gid n)"
    "guarantees m \<Longrightarrow> guarantees (with_flight ax fuel gid m)"
proof -
  have taken: "guarantees (flight_taken ax gid)" by (simp add: guarantees_def flight_taken_def tick_def)
  show flight: "guarantees (acquire_generator_lease_singleflight ax gid n)" for n
    by (induction n) (simp_all, (intro guarantee taken assms | assumption)+)
  show "guarantees m \<Longrightarrow> guarantees (with_flight ax fuel gid m)"
    unfolding with_flight_def by (intro guarantee flight)
qed

lemma lease_operations_guarantee [guarantee]:
  assumes "others_advance ax"
  shows "guarantees (ensure_generator_lease_after_singleflight ax fuel gid)"
    "guarantees (ensure_generator_lease_with_cancellation ax fuel gid)"
    "guarantees (valid_bound_now ax gid)"
    "guarantees (ensure_generator_lease_for_allocation ax fuel tk gid)"
  unfolding ensure_generator_lease_for_allocation_def ensure_generator_lease_with_cancellation_def
    ensure_generator_lease_after_singleflight_def valid_bound_now_def
  by (intro guarantee ensure_loop_guarantee lease_outcomes_advance assms)+

lemma refresh_guarantee [guarantee]:
  assumes "others_advance ax"
  shows "guarantees (refresh_generator_lease_after_singleflight ax fuel gid now_ms reason)"
    "guarantees (refresh_generator_lease_inner ax fuel gid reason)"
    "guarantees (refresh_generator_lease ax fuel gid)"
    "guarantees (refresh_generator_lease_if_unchanged ax fuel gid bound)"
proof -
  have restore: "advances sv (on_runtime (upsert_lease gid l) sv)" for sv l
    by (rule advances_same) (simp_all add: on_runtime_def upsert_lease_def)
  show after: "guarantees (refresh_generator_lease_after_singleflight ax fuel gid now_ms reason)" for now_ms reason
    unfolding refresh_generator_lease_after_singleflight_def
    by (intro guarantee lease_outcomes_advance drop_lease_advances assms) (simp add: restore split: sum.split)
  show inner: "guarantees (refresh_generator_lease_inner ax fuel gid reason)" for reason
    unfolding refresh_generator_lease_inner_def by (intro guarantee after assms)
  show "guarantees (refresh_generator_lease ax fuel gid)"
    "guarantees (refresh_generator_lease_if_unchanged ax fuel gid bound)"
    unfolding refresh_generator_lease_def refresh_generator_lease_if_unchanged_def
    by (intro guarantee inner after assms)+
qed

lemma batch_refresh_guarantee [guarantee]:
  assumes "others_advance ax"
  shows "guarantees (refresh_generator_leases_batch ax fuel n gids)"
proof -
  have collect: "guarantees (collect_refresh_operations ax gids)" for gids
    by (induction gids) (simp_all, (intro guarantee, assumption?)+)
  have flush: "guarantees (flush_batches ax fuel n batches)" for n batches
  proof (induction n arbitrary: batches)
    case (Suc n)
    show ?case
      by (cases batches) (simp_all, (intro guarantee Suc.IH hold_refreshed_advances assms)+)
  qed (case_tac batches; simp add: guarantee)
  show ?thesis unfolding refresh_generator_leases_batch_def by (intro guarantee collect flush)
qed

subsection \<open>Timelines\<close>

lemma loading_guarantee [guarantee]:
  assumes "others_advance ax"
  shows "guarantees (acquire_timeline_load_permit ax)"
    "guarantees m \<Longrightarrow> guarantees (load_once ax joined m)"
    "guarantees (load_timeline_with_singleflight ax tk)" "guarantees (load_timeline_route_with_singleflight ax tk)"
proof -
  show permit: "guarantees (acquire_timeline_load_permit ax)"
    unfolding acquire_timeline_load_permit_def by (rule guarantees_bnd [OF guarantees_pause [OF assms]])
      (simp add: guarantees_def)
  show once: "guarantees (load_once ax joined m)" if "guarantees m" for joined and m :: "'b act"
  proof -
    have "guarantees (\<lambda>w. bnd (pause ax) (\<lambda>_. done_with r) (tick w))" for r :: "'b tso_result"
      by (intro guarantees_tick guarantee assms)
    with guarantees_tick [OF that] have "guarantees (\<lambda>w. case joined (w_tick w) of
        Some r \<Rightarrow> bnd (pause ax) (\<lambda>_. done_with r) (tick w) | None \<Rightarrow> m (tick w))"
      unfolding guarantees_def by (simp split: option.split)
    then show ?thesis unfolding load_once_def by (intro guarantees_bnd guarantees_basic)
  qed
  show "guarantees (load_timeline_with_singleflight ax tk)"
    "guarantees (load_timeline_route_with_singleflight ax tk)"
    unfolding load_timeline_with_singleflight_def load_timeline_route_with_singleflight_def
    by (intro once guarantee permit assms)+
qed

lemma state_guarantee [guarantee]:
  assumes "others_advance ax"
  shows "(\<And>st sv. advances sv (fst (f st sv))) \<Longrightarrow> guarantees (with_state ax a f)"
    "guarantees (read_state ax a)"
proof -
  show w: "guarantees (with_state ax a f)" if "\<And>st sv. advances sv (fst (f st sv))"
    for f :: "timeline_state \<Rightarrow> tso_service \<Rightarrow> tso_service \<times> 'b tso_result"
    unfolding with_state_def using that by (intro guarantee assms) (simp split: option.split)
  show "guarantees (read_state ax a)"
    unfolding read_state_def with_state_def by (intro guarantee assms) (simp split: option.split)
qed

lemma handle_guarantee [guarantee]:
  "guarantees (cached_handle tk)" "guarantees (drop_cached tk)"
  "guarantees (best_effort_insert_timeline_cache ax tk a)" "guarantees (handle_or_insert ax tk st)"
proof -
  show "guarantees (cached_handle tk)" "guarantees (drop_cached tk)"
    unfolding cached_handle_def drop_cached_def by (intro guarantee; simp add: case_prod_beta)+
  have tick: "guarantees (\<lambda>w. on_service (h (w_tick w)) (tick w))"
    if "\<And>i sv. advances sv (fst (h i sv))" for h :: "nat \<Rightarrow> tso_service \<Rightarrow> tso_service \<times> 'b tso_result"
    using that by (simp add: guarantees_def on_service_def case_prod_beta)
  show "guarantees (best_effort_insert_timeline_cache ax tk a)"
    unfolding best_effort_insert_timeline_cache_def by (rule tick) (simp add: case_prod_beta)
  have alloc: "advances sv ((fst (alloc_state st sv)) \<lparr> sv_timeline_runtime := c \<rparr>)" for sv c
    by (rule advances_same) (simp_all add: alloc_state_def Let_def)
  show "guarantees (handle_or_insert ax tk st)"
    unfolding handle_or_insert_def
    by (rule tick) (simp add: case_prod_beta Let_def alloc split: sum.split tso_error.split)
qed

lemma timeline_operations_guarantee [guarantee]:
  assumes "others_advance ax"
  shows "guarantees (timeline_state_handle_from_record ax tk r revision)"
    "guarantees (upsert_timeline_cache_from_record ax tk r revision)"
    "guarantees (invalidate_timeline_cache_for_route_update ax updated)"
    "guarantees (on_route_update ax ev cleared)"
    "guarantees (current_generator_floor ax gid)"
    "guarantees (required_jump_ms_for_generator ax gid floor_tso)"
proof -
  have release: "advances sv (clear_timeline_cache k (if b then service_release_dedicated gid k' sv else sv))"
    for sv k b gid k'
    using advances_trans [OF advances_claims(4) advances_cache(1)] by simp
  show handle: "guarantees (timeline_state_handle_from_record ax tk r revision)"
    unfolding timeline_state_handle_from_record_def by (intro guarantee advances_claims assms) simp
  show "guarantees (upsert_timeline_cache_from_record ax tk r revision)"
    unfolding upsert_timeline_cache_from_record_def by (intro guarantee handle)
  show invalidate: "guarantees (invalidate_timeline_cache_for_route_update ax updated)" for updated
    unfolding invalidate_timeline_cache_for_route_update_def Let_def
    by (intro guarantee assms) (simp add: release)
  show "guarantees (on_route_update ax ev cleared)"
    unfolding on_route_update_def
    by (cases ev) (simp_all, (intro guarantee invalidate; simp)+)
  show floor: "guarantees (current_generator_floor ax gid)"
    unfolding current_generator_floor_def by (intro guarantee assms)
  show "guarantees (required_jump_ms_for_generator ax gid floor_tso)"
    unfolding required_jump_ms_for_generator_def Let_def by (intro guarantee floor)
qed

lemma activate_guarantee [guarantee]:
  assumes "others_advance ax"
  shows "guarantees (activate_local_timeline_record ax fuel tk r revision)"
proof -
  have "guarantees (activate_loop ax fuel tk deadline retries n r revision)" for deadline retries n r revision
  proof (induction n arbitrary: retries r revision)
    case (Suc n)
    show ?case
      unfolding activate_loop.simps Let_def by (intro guarantee Suc.IH assms)
  qed (simp add: guarantee)
  then show ?thesis unfolding activate_local_timeline_record_def by (intro guarantee)
qed

lemma listing_guarantee [guarantee]:
  assumes "others_advance ax"
  shows "guarantees (list_by_status_filter ax fuel states owner start_after limit)"
    "guarantees (list_timeline_statuses ax fuel states owner start_after limit)"
    "guarantees (get_timeline_route ax tk)" "guarantees (get_timeline_record ax tk)"
    "guarantees (get_timeline_status ax tk)" "guarantees (load_generator_record ax gid)"
proof -
  have scan: "guarantees (filter_scan ax states owner limit cursor matched n)" for cursor matched n
    by (induction n arbitrary: cursor matched) (auto simp: Let_def intro!: guarantee assms)
  show list: "guarantees (list_by_status_filter ax fuel states owner start_after limit)"
    unfolding list_by_status_filter_def by (intro guarantee scan assms)
  show "guarantees (list_timeline_statuses ax fuel states owner start_after limit)"
    unfolding list_timeline_statuses_def Let_def by (intro guarantee list assms)
  show route: "guarantees (get_timeline_route ax tk)" and loaded: "guarantees (get_timeline_record ax tk)"
    unfolding get_timeline_route_def get_timeline_record_def by (intro guarantee assms)+
  show "guarantees (get_timeline_status ax tk)" "guarantees (load_generator_record ax gid)"
    unfolding get_timeline_status_def load_generator_record_def by (intro guarantee loaded assms)+
qed

lemma ensure_timeline_guarantee [guarantee]:
  assumes "others_advance ax"
  shows "guarantees (ensure_timeline_with_tier ax fuel hash tk tier)" "guarantees (ensure_timeline ax fuel hash tk)"
    "guarantees (renew_timeline_lease ax fuel tk)"
proof -
  have cached: "guarantees (serve_cached_route ax tk)"
    unfolding serve_cached_route_def by (intro guarantee assms) simp
  have "guarantees (ensure_timeline_loop ax fuel hash tk tier n)" for tier n
  proof (induction n)
    case (Suc n)
    show ?case
      unfolding ensure_timeline_loop.simps Let_def
      by (intro guarantee Suc.IH cached advances_claims assms)
        (simp_all add: case_prod_beta guarantee advances_claims split: tso_error.split)
  qed (simp add: guarantee)
  then show tier: "guarantees (ensure_timeline_with_tier ax fuel hash tk tier)" for tier
    unfolding ensure_timeline_with_tier_def by (intro guarantee)
  show "guarantees (ensure_timeline ax fuel hash tk)" "guarantees (renew_timeline_lease ax fuel tk)"
    unfolding ensure_timeline_def renew_timeline_lease_def by (intro guarantee tier assms)+
qed

subsection \<open>Allocations\<close>

lemma serve_locked_guarantee [guarantee]:
  assumes "others_advance ax"
  shows "guarantees (serve_locked ax rq gid bound a now_ms)"
proof -
  have "advances sv (on_runtime (set_generator gid g') (set_state a st' sv))"
    if "lookup_generator sv gid = Inr g"
      "serve_section (ax_race ax i) rq gid now_ms bound (sv_config sv) (st, g) = ((st', g'), r)"
    for i sv st st' g g' r
  proof -
    have "advances sv (set_state a st' sv)" by simp
    also have "advances \<dots> (on_runtime (set_generator gid g') (set_state a st' sv))"
      using that assms
      by (intro advances_set_generator [where g = g] serve_section_advances)
        (auto simp: set_state_def others_advance_def dest: lookup_generator_at)
    finally show ?thesis .
  qed
  then show ?thesis
    unfolding guarantees_def serve_locked_def on_service_def
    by (auto simp: Let_def split: option.split sum.split prod.split)
qed

lemma serve_allocation_guarantee:
  assumes "others_advance ax"
  shows "guarantees (serve_allocation ax fuel cancellable rq gid bound a retries n)"
proof (induction n arbitrary: retries)
  case (Suc n)
  have wait: "guarantees (wait_for_future_borrow_error ax cancellable e)" for e
    unfolding wait_for_future_borrow_error_def by (simp add: guarantee assms split: tso_error.split)
  have admission: "guarantees (acquire_generator_admission ax tier)" for tier
    unfolding acquire_generator_admission_def by (intro guarantee assms)
  show ?case
    unfolding serve_allocation.simps Let_def
    by (intro guarantee admission wait Suc.IH assms)
qed (simp add: guarantee)

lemma guarded_serving_guarantee [guarantee]:
  assumes "others_advance ax"
  shows "guarantees (cached_timeline_still_matches_metadata ax tk route state)"
    "guarantees (try_serve_timeline_state_handle_with_guard ax fuel cancellable rq a gid bound revalidate)"
    "guarantees (try_allocate_from_cached_timeline ax fuel cancellable rq)"
proof -
  show matches: "guarantees (cached_timeline_still_matches_metadata ax tk route state)" for tk route state
    unfolding cached_timeline_still_matches_metadata_def by (intro guarantee assms)
  show guarded: "guarantees (try_serve_timeline_state_handle_with_guard ax fuel cancellable rq a gid bound revalidate)"
    for a gid bound revalidate
    unfolding try_serve_timeline_state_handle_with_guard_def serve_allocation_from_timeline_state_handle_def Let_def
    by (intro guarantee matches serve_allocation_guarantee assms)
  show "guarantees (try_allocate_from_cached_timeline ax fuel cancellable rq)"
    unfolding try_allocate_from_cached_timeline_def Let_def by (intro guarantee matches guarded assms)
qed

lemma allocate_after_validation_guarantee [guarantee]:
  assumes "others_advance ax"
  shows "guarantees (allocate_timestamps_after_validation ax fuel cancellable rq n)"
proof (induction n)
  case (Suc n)
  show ?case
    unfolding allocate_timestamps_after_validation.simps Let_def
    by (intro guarantee Suc.IH assms) (simp add: guarantee split: tso_error.split)
qed (simp add: guarantee)

lemma request_records_guarantee [guarantee]:
  assumes "others_advance ax"
  shows "guarantees (create_request_record ax rq r)" "guarantees (load_request_record ax rq)"
    "guarantees (compare_exchange_request_record ax rq expected r)" "guarantees (compare_delete_request_record ax rq expected)"
  unfolding create_request_record_def load_request_record_def compare_exchange_request_record_def
    compare_delete_request_record_def
  by (intro guarantee assms)+

lemma prepare_guarantee [guarantee]:
  assumes "others_advance ax"
  shows "guarantees (prepare_idempotent_allocation ax fuel supported rq)"
proof -
  have loop: "guarantees (prepare_loop ax rq n)" for n
  proof (induction n)
    case (Suc n)
    show ?case unfolding prepare_loop.simps Let_def by (intro guarantee Suc.IH assms)
  qed (simp add: guarantee)
  show ?thesis unfolding prepare_idempotent_allocation_def by (intro guarantee loop)
qed

lemma allocation_guarantee [guarantee]:
  assumes "others_advance ax"
  shows "guarantees (allocate_timestamps_with_cancellation ax fuel supported cancellable rq)"
    "guarantees (allocate_timestamps ax fuel supported rq)"
proof -
  have finish: "guarantees (finish_idempotent_allocation ax supported rq preparation res)"
    if "others_advance ax" for ax preparation res
    using that unfolding finish_idempotent_allocation_def recover_idempotent_completion_after_cas_failure_def Let_def
    by (intro guarantee)
  have all: "guarantees (allocate_timestamps_with_cancellation ax fuel supported cancellable rq)"
    if "others_advance ax" for ax cancellable
    using that unfolding allocate_timestamps_with_cancellation_def
    by (intro guarantee finish)
  show "guarantees (allocate_timestamps_with_cancellation ax fuel supported cancellable rq)"
    "guarantees (allocate_timestamps ax fuel supported rq)"
    unfolding allocate_timestamps_def by (intro all others_uncancelled assms)+
qed

subsection \<open>Transfers\<close>

lemma giving_back_guarantee [guarantee]: "guarantees (giving_back tk route claimed e)"
  unfolding giving_back_def release_claimed_dedicated_if_needed_def
  by (intro guarantee) (simp add: advances_claims split: option.split prod.split)

lemma initial_target_advances: "advances sv (fst (initial_target hash tk transfer sv))"
  using advances_claims by (simp add: initial_target_def case_prod_beta split: option.split sum.split)

lemma transfer_target_guarantee [guarantee]:
  assumes "others_advance ax"
  shows "guarantees (validate_recovery_catchup_budget_for_target ax gid safe_floor)"
    "guarantees (prepare_transfer_application ax tk r transfer)"
    "guarantees (select_transfer_target ax hash tk route transfer safe_floor)"
    "guarantees (fenced_handle ax tk revision transfer prepared)"
proof -
  show budget: "guarantees (validate_recovery_catchup_budget_for_target ax gid safe_floor)" for gid
    unfolding validate_recovery_catchup_budget_for_target_def Let_def by (intro guarantee assms)
  show "guarantees (prepare_transfer_application ax tk r transfer)"
    unfolding prepare_transfer_application_def Let_def by (intro guarantee assms)
  have isolated: "guarantees (isolated_target ax tk transfer safe_floor gid claimed)" for gid claimed
    unfolding isolated_target_def Let_def by (intro guarantee advances_claims assms)
  have remote: "guarantees (check_remote_target ax tk route transfer target)" for target
    unfolding check_remote_target_def Let_def by (intro guarantee assms)
  show "guarantees (select_transfer_target ax hash tk route transfer safe_floor)"
    unfolding select_transfer_target_def Let_def
    by (intro guarantee initial_target_advances isolated budget remote)
  show "guarantees (fenced_handle ax tk revision transfer prepared)"
    unfolding fenced_handle_def by (intro guarantee assms)
qed

lemma release_previous_advances: "advances sv (release_previous tk route tier gid sv)"
  using advances_claims by (simp add: release_previous_def)

lemma transfer_guarantee [guarantee]:
  assumes "others_advance ax"
  shows "guarantees (apply_transfer_plan ax fuel hash tk r revision transfer)"
proof -
  have fenced: "guarantees (apply_fenced_local_transfer_plan ax fuel hash tk r transfer prepared a st)" for r prepared a st
    unfolding apply_fenced_local_transfer_plan_def Let_def
    by (intro guarantee assms) (simp add: advances_trans [OF release_previous_advances advances_cache(2)])
  have complete: "guarantees (synchronize_transfer_completion ax fuel tk r rv completion)" for r rv completion
    unfolding synchronize_transfer_completion_def Let_def
    by (intro guarantee assms)
      (simp_all add: release_previous_advances case_prod_beta advances_trans [OF advances_cache(1) advances_claims(4)])
  have unfenced: "guarantees (apply_unfenced_transfer_plan ax fuel hash tk r revision transfer prepared)" for r prepared
    unfolding apply_unfenced_transfer_plan_def Let_def by (intro guarantee complete assms) simp
  show ?thesis unfolding apply_transfer_plan_def by (intro guarantee fenced unfenced assms)
qed

lemma transfer_entry_guarantee [guarantee]:
  assumes "others_advance ax"
  shows "guarantees (transfer_timeline_for_rpc ax fuel hash tk endpoint gid reason)"
    "guarantees (transfer_timeline ax fuel hash tk tier endpoint gid)"
  unfolding transfer_timeline_for_rpc_def transfer_timeline_def Let_def
  by (intro guarantee others_uncancelled assms)+

subsection \<open>Background tasks and shutdown\<close>

lemma background_loop_guarantee: "guarantees turn \<Longrightarrow> guarantees (background_loop turn es)"
  by (induction turn es rule: background_loop.induct) (auto intro!: guarantee split: sum.split option.split)

lemma maintenance_guarantee [guarantee]:
  assumes "others_advance ax"
  shows "guarantees (background_generator_maintenance_loop ax fuel n es)"
    "guarantees (background_request_record_cleanup_loop ax supported es)"
proof -
  have "guarantees (maintenance_turn ax fuel n)"
    unfolding maintenance_turn_def
    by (intro guarantee others_uncancelled assms) (simp add: case_prod_beta)
  then show "guarantees (background_generator_maintenance_loop ax fuel n es)"
    unfolding background_generator_maintenance_loop_def by (rule background_loop_guarantee)
  have "guarantees (cleanup_turn ax supported)"
    unfolding cleanup_turn_def Let_def by (intro guarantee assms)
  then show "guarantees (background_request_record_cleanup_loop ax supported es)"
    unfolding background_request_record_cleanup_loop_def by (rule background_loop_guarantee)
qed

lemma failover_pass_guarantee [guarantee]:
  assumes "others_advance ax"
  shows "guarantees (auto_failover_pass ax fuel hash scan)"
    "guarantees (background_auto_failover_loop ax fuel hash es scan)"
proof -
  have records: "guarantees (failover_records ax fuel hash batch_size rs count)" for batch_size rs count
  proof (induction rs arbitrary: count)
    case (Cons r rs)
    show ?case unfolding failover_records.simps Let_def by (intro guarantee Cons.IH assms)
  qed (simp add: guarantee)
  have owners: "guarantees (failover_owners ax fuel hash owners batch_size scan_limit scanned attempted succeeded i idle n scan)"
    for owners batch_size scan_limit scanned attempted succeeded i idle n scan
  proof (induction n arbitrary: scanned attempted succeeded i idle scan)
    case (Suc n)
    show ?case unfolding failover_owners.simps Let_def by (intro guarantee records Suc.IH assms)
  qed (simp add: guarantee)
  show pass: "guarantees (auto_failover_pass ax fuel hash scan)" for scan
    unfolding auto_failover_pass_def auto_failover_remote_owner_endpoints_def auto_failover_owner_targeted_pass_def Let_def
    by (intro guarantee owners assms)
  show "guarantees (background_auto_failover_loop ax fuel hash es scan)"
  proof (induction es arbitrary: scan)
    case (Cons e es)
    show ?case by (cases e) (auto intro!: guarantee pass Cons.IH)
  qed (simp add: guarantee)
qed

lemma flush_guarantee:
  assumes "others_advance ax"
  shows "guarantees (best_effort_persist_runtime_before_shutdown ax fuel hash)"
proof -
  have each: "guarantees (each_best_effort f xs)" if "\<And>x. guarantees (f x)"
    for f :: "'b \<Rightarrow> 'c act" and xs
    by (induction xs) (simp_all, (intro guarantee that)+)
  have inventory: "guarantees (collect_inventory ax page_size cursor iv n)" for page_size cursor iv n
    by (induction n arbitrary: cursor iv) (auto simp: Let_def intro!: guarantee assms)
  show ?thesis
    unfolding best_effort_persist_runtime_before_shutdown_def collect_shutdown_inventory_def
      best_effort_transfer_local_timelines_before_shutdown_def best_effort_persist_local_timeline_floor_def
      best_effort_persist_local_generator_floor_def ignoring_lost_race_def Let_def
    by (intro guarantee each inventory assms)
qed

lemma invalidate_advances: "advances sv (invalidate_local_runtime_after_shutdown sv)"
  by (simp add: invalidate_local_runtime_after_shutdown_def advances_def on_runtime_def clear_dedicated_claims_def
      clear_leases_def list_all2_conv_all_nth generator_advances_def clear_ready_lease_def)

lemma drain_guarantee:
  assumes "others_advance ax" shows "guarantees (drain_tasks ax ended fuel bg)"
proof -
  have look: "guarantees (has_ended ended t)" for t by (simp add: guarantees_def has_ended_def)
  have one: "guarantees (await_task ax ended t n)" for t n
    by (induction n) (simp_all, (intro guarantee look assms | assumption)+)
  have "guarantees (await_tasks ax ended fuel ts)" for ts
    by (induction ts) (simp_all, (intro guarantee one | assumption)+)
  then show ?thesis unfolding drain_tasks_def by (intro guarantee)
qed

lemma shutdown_guarantee [guarantee]:
  assumes "others_advance ax"
  shows "guarantees (shutdown ax ended fuel hash timed_out bg)"
proof -
  have "advances sv (request_local_shutdown_gate sv)" for sv
    by (simp add: advances_def request_local_shutdown_gate_def list.rel_refl)
  then show ?thesis
    unfolding shutdown_def
    by (intro guarantee flush_guarantee drain_guarantee assms) (simp_all add: invalidate_advances)
qed

end
