(* ===== verification/Worker.thy ===== *)
theory Worker
  imports Guarantee
begin

text \<open>
  What follows for a worker as a whole from the guarantees of its operations: its state is well formed
  in all its life, an answered allocation contains what was asked for, and a worker that has shut down
  holds nothing and draws no timestamps.
\<close>

subsection \<open>The state of a worker in all its life\<close>

definition worker_wf :: "tso_service \<Rightarrow> bool" where
  \<comment> \<open>one generator for each id of a valid layout\<close>
  "worker_wf sv \<longleftrightarrow>
     (let l = cfg_timestamp_layout (sv_config sv); gs = grs_generators (sv_generator_runtime sv) in
      layout_valid l \<and> length gs = unat (max_generators l)
      \<and> (\<forall>i < length gs. gn_id (gs ! i) = of_nat i \<and> gn_layout (gs ! i) = l))"

lemma worker_wf_advances: "worker_wf sv \<Longrightarrow> advances sv sv' \<Longrightarrow> worker_wf sv'"
  by (auto simp: worker_wf_def advances_def Let_def generator_advances_def list_all2_conv_all_nth)

lemma started_worker_wf:
  assumes "start_worker fs clock_layout hasher pid n m c = Inr (sv, bg)"
  shows "worker_wf sv"
proof -
  from assms have "validate_for_startup fs (with_lease_ttl c) = Inr ()"
    and sv: "sv = service_new (with_lease_ttl c) (worker_instance_id (with_lease_ttl c) n)
        (contention_jitter_seed hasher pid (worker_instance_id (with_lease_ttl c) n) m)"
    by (auto simp: start_worker_def Let_def and_then_eq_Inr split: sum.splits)
  then have "layout_valid (cfg_timestamp_layout (with_lease_ttl c))" by (intro startup_parts(1))
  then show ?thesis
    by (simp add: sv worker_wf_def Let_def runtime_with_layout_def generator_with_layout_def)
qed

datatype worker_call =
  Call_Allocate bool bool allocate_request
| Call_Ensure string resource_tier
| Call_Renew string
| Call_Route string
| Call_Status string
| Call_List "timeline_lifecycle_state list" "string option" "string option" nat
| Call_Transfer string string "u32 option" transfer_reason
| Call_Move string resource_tier string "u32 option"
| Call_Route_Event route_event "nat option"
| Call_Maintenance "loop_event list"
| Call_Cleanup bool "loop_event list"
| Call_Failover "loop_event list" auto_failover_scan_state
| Call_Shutdown "nat \<Rightarrow> background_task \<Rightarrow> bool" bool background_coordinator

fun call_effect :: "surroundings \<Rightarrow> nat \<Rightarrow> (string \<Rightarrow> u64) \<Rightarrow> worker_call \<Rightarrow> world \<Rightarrow> world" where
  "call_effect ax fuel hash (Call_Allocate supported cancellable rq) w =
     fst (allocate_timestamps_with_cancellation ax fuel supported cancellable rq w)"
| "call_effect ax fuel hash (Call_Ensure tk tier) w = fst (ensure_timeline_with_tier ax fuel hash tk tier w)"
| "call_effect ax fuel hash (Call_Renew tk) w = fst (renew_timeline_lease ax fuel tk w)"
| "call_effect ax fuel hash (Call_Route tk) w = fst (get_timeline_route ax tk w)"
| "call_effect ax fuel hash (Call_Status tk) w = fst (get_timeline_status ax tk w)"
| "call_effect ax fuel hash (Call_List states owner start_after limit) w =
     fst (list_timeline_statuses ax fuel states owner start_after limit w)"
| "call_effect ax fuel hash (Call_Transfer tk endpoint gid reason) w =
     fst (transfer_timeline_for_rpc ax fuel hash tk endpoint gid reason w)"
| "call_effect ax fuel hash (Call_Move tk tier endpoint gid) w =
     fst (transfer_timeline ax fuel hash tk tier endpoint gid w)"
| "call_effect ax fuel hash (Call_Route_Event ev cleared) w = fst (on_route_update ax ev cleared w)"
| "call_effect ax fuel hash (Call_Maintenance es) w = fst (background_generator_maintenance_loop ax fuel fuel es w)"
| "call_effect ax fuel hash (Call_Cleanup supported es) w =
     fst (background_request_record_cleanup_loop ax supported es w)"
| "call_effect ax fuel hash (Call_Failover es scan) w = fst (background_auto_failover_loop ax fuel hash es scan w)"
| "call_effect ax fuel hash (Call_Shutdown ended timed_out bg) w = fst (shutdown ax ended fuel hash timed_out bg w)"

fun run_calls :: "nat \<Rightarrow> (string \<Rightarrow> u64) \<Rightarrow> (surroundings \<times> worker_call) list \<Rightarrow> world \<Rightarrow> world" where
  "run_calls fuel hash [] w = w"
| "run_calls fuel hash ((ax, call) # calls) w = run_calls fuel hash calls (call_effect ax fuel hash call w)"

lemma call_advances:
  assumes "others_advance ax"
  shows "advances (w_service w) (w_service (call_effect ax fuel hash call w))"
proof -
  have g: "guarantees m \<Longrightarrow> advances (w_service w) (w_service (fst (m w)))" for m :: "'b act"
    by (simp add: guarantees_def)
  show ?thesis using assms by (cases call) (simp_all, (intro g guarantee, assumption)+)
qed

lemma calls_advance:
  "list_all (\<lambda>(ax, _). others_advance ax) calls \<Longrightarrow>
     advances (w_service w) (w_service (run_calls fuel hash calls w))"
  by (induction fuel hash calls w rule: run_calls.induct) (auto intro: advances_trans call_advances)

text \<open>
  C6: the state of a worker is well typed in all its life. From a successful start on, after any
  sequence of allocations, route and status requests, transfers, lease renewals, route events and
  background tasks, under any interference by other tasks that keep the same contract, the worker has
  exactly one generator for each id of the valid layout it was configured with, and no further
  operation changes its configuration or identity, takes an announced shutdown back, or moves the
  counter of a generator backwards.
\<close>
theorem worker_well_typed:
  assumes "start_worker fs clock_layout hasher pid n m c = Inr (w_service w, bg)"
    and "list_all (\<lambda>(ax, _). others_advance ax) (calls @ later)"
  shows "worker_wf (w_service (run_calls fuel hash calls w))
    \<and> advances (w_service (run_calls fuel hash calls w)) (w_service (run_calls fuel hash later (run_calls fuel hash calls w)))"
  using assms calls_advance worker_wf_advances started_worker_wf by (simp add: list_all_append) blast

lemma lease_ttl_irrelevant:
  fixes c :: tso_config and x :: u64
  defines "c' \<equiv> c \<lparr> cfg_generator_lease_ttl_ms := x \<rparr>"
  shows "validate_layout_for_startup c' = validate_layout_for_startup c"
    "validate_health_bind_addr c' = validate_health_bind_addr c"
    "validate_tier_generators c' = validate_tier_generators c"
    "effective_generator_ownership_remainders c' = effective_generator_ownership_remainders c"
    "validate_default_tier c' = validate_default_tier c"
    "resolve_effective_security_mode c' = resolve_effective_security_mode c"
    "validate_security_requirements fs mode c' = validate_security_requirements fs mode c"
  by (simp_all add: c'_def validate_layout_for_startup_def validate_health_bind_addr_def validate_tier_generators_def
      effective_generator_ownership_remainders_def validate_default_tier_def resolve_effective_security_mode_def
      has_nonlocal_topology_signal_def grpc_remote_exposed_def metrics_remote_exposed_def etcd_remote_exposed_def
      validate_security_requirements_def validate_configured_security_def grpc_tls_fields_def metrics_tls_fields_def
      etcd_tls_fields_def grpc_tls_paths_def metrics_tls_paths_def etcd_tls_paths_def etcd_tls_configured_def
      cong: option.case_cong tso_security_mode.case_cong resource_tier.case_cong if_cong)

lemma with_lease_ttl_starts:
  assumes "validate_for_startup fs c = Inr ()"
  shows "validate_for_startup fs (with_lease_ttl c) = Inr ()"
proof (cases "cfg_generator_lease_ttl_ms c = 0")
  case True
  then show ?thesis
    using assms startup_parts(7) [OF assms]
    by (simp add: with_lease_ttl_def validate_for_startup_def checks_Inr lease_ttl_irrelevant)
qed (use assms in \<open>simp add: with_lease_ttl_def\<close>)

lemma sample_start:
  "\<exists>sv bg. start_worker sample_fs None hasher 0 1 1 sample_config = Inr (sv, bg)"
proof -
  have "cfg_metadata_kind (with_lease_ttl sample_config) = ''memory''"
    by (simp add: with_lease_ttl_def sample_config_security)
  then have "validate_authoritative_metadata_runtime_contract (with_lease_ttl sample_config) = Inr ()"
    by (simp add: validate_authoritative_metadata_runtime_contract_def visible_trim eq_ignore_ascii_case_def
        to_ascii_lowercase_def ascii_lower_def)
  then show ?thesis
    using with_lease_ttl_starts [OF sample_starts] by (simp add: start_worker_def check_clock_layout_def Let_def)
qed

lemma quiet_others: "others_advance quiet_surroundings"
  by (simp add: others_advance_def quiet_surroundings_def)

theorem worker_well_typed_witness:
  "\<exists>w bg. start_worker sample_fs None (\<lambda>_ _ _. 0) 0 1 1 sample_config = Inr (w_service w, bg)
     \<and> worker_wf (w_service (run_calls 3 (\<lambda>_. 0) [(quiet_surroundings, Call_Ensure ''orders'' Shared)] w))"
proof -
  obtain sv bg where "start_worker sample_fs None (\<lambda>_ _ _. 0) 0 1 1 sample_config = Inr (sv, bg)"
    using sample_start by blast
  then have w: "start_worker sample_fs None (\<lambda>_ _ _. 0) 0 1 1 sample_config
      = Inr (w_service (quiet_world \<lparr> w_service := sv \<rparr>), bg)" by simp
  have "list_all (\<lambda>(ax, _). others_advance ax) ([(quiet_surroundings, Call_Ensure ''orders'' Shared)] @ [])"
    by (simp add: quiet_others)
  from worker_well_typed [OF w this] show ?thesis using w by blast
qed

subsection \<open>What an answered allocation contains\<close>

definition yields :: "('a \<Rightarrow> bool) \<Rightarrow> 'a act \<Rightarrow> bool" where
  \<comment> \<open>a success of a well-formed worker has the property\<close>
  "yields Q m \<longleftrightarrow> (\<forall>w. worker_wf (w_service w) \<longrightarrow> ends (\<lambda>_. Q) (m w))"

lemma yields_bnd_with:
  assumes "guarantees m" "yields P m" "\<And>x. P x \<Longrightarrow> yields Q (f x)"
  shows "yields Q (bnd m f)"
  unfolding yields_def
proof (intro allI impI ends_bnd)
  fix w w1 x assume w: "worker_wf (w_service w)" "m w = (w1, Inr x)"
  have "advances (w_service w) (w_service w1)" using assms(1) w(2) unfolding guarantees_def by (metis fst_conv)
  then have "worker_wf (w_service w1)" using w(1) by (rule worker_wf_advances [rotated])
  moreover have "P x" using assms(2) w unfolding yields_def by (metis endsD)
  ultimately show "ends (\<lambda>_. Q) (f x w1)" using assms(3) by (simp add: yields_def)
qed

lemma yields_bnd: "guarantees m \<Longrightarrow> (\<And>x. yields Q (f x)) \<Longrightarrow> yields Q (bnd m f)"
  by (rule yields_bnd_with [where P = "\<lambda>_. True"]) (simp_all add: yields_def ends_def split: prod.split sum.split)

lemma yields_ret: "Q x \<Longrightarrow> yields Q (ret x)"
  by (simp add: yields_def ends_ret)

lemma yields_throw: "yields Q (throw e)"
  by (simp add: yields_def)

lemma yields_case:
  "yields Q a \<Longrightarrow> (\<And>y. yields Q (b y)) \<Longrightarrow> yields Q (case x of None \<Rightarrow> a | Some y \<Rightarrow> b y)"
  "(\<And>e. yields Q (c e)) \<Longrightarrow> (\<And>y. yields Q (b' y)) \<Longrightarrow> yields Q (case z of Inl e \<Rightarrow> c e | Inr y \<Rightarrow> b' y)"
  "(\<And>y z. yields Q (d y z)) \<Longrightarrow> yields Q (case u of (y, z) \<Rightarrow> d y z)"
  "yields Q m \<Longrightarrow> yields Q m' \<Longrightarrow> yields Q (if v then m else m')"
  by (simp_all split: option.split sum.split prod.split)

lemmas yields_rules = yields_bnd yields_ret yields_throw yields_case

definition exact_response :: "allocate_request \<Rightarrow> allocate_response \<Rightarrow> bool" where
  \<comment> \<open>as many timestamps as were asked for, in increasing order\<close>
  "exact_response rq response \<longleftrightarrow>
     length (ranges_tsos (rs_ranges response)) = unat (rq_count rq) \<and> sorted_wrt (<) (ranges_tsos (rs_ranges response))"

lemma worker_generator:
  assumes "worker_wf sv" "lookup_generator sv gid = Inr g"
  shows "layout_valid (gn_layout g)" "gn_id g < max_generators (gn_layout g)" "gn_id g = gid"
proof -
  let ?gs = "grs_generators (sv_generator_runtime sv)" and ?l = "cfg_timestamp_layout (sv_config sv)"
  have i: "unat gid < length ?gs" and g: "g = ?gs ! unat gid"
    using lookup_generator_at [OF assms(2)] by (auto simp: generator_at_def split: if_splits)
  with assms(1) show "layout_valid (gn_layout g)" and id: "gn_id g = gid" by (simp_all add: worker_wf_def Let_def)
  from i g assms(1) show "gn_id g < max_generators (gn_layout g)"
    by (simp add: id word_less_nat_alt) (simp add: worker_wf_def Let_def)
qed

lemma serve_locked_yields:
  assumes "rq_count rq \<noteq> 0"
  shows "yields (\<lambda>out. \<forall>response. out = Inr (Served response) \<longrightarrow> exact_response rq response)
    (serve_locked ax rq gid bound a now_ms)"
  unfolding yields_def
proof (intro allI impI endsI)
  fix w w' out response
  assume wf: "worker_wf (w_service w)" and run: "serve_locked ax rq gid bound a now_ms w = (w', Inr out)"
    and out: "out = Inr (Served response)"
  let ?sv = "w_service w"
  from run out obtain st g st' g' where g: "lookup_generator ?sv gid = Inr g"
    and s: "serve_section (ax_race ax (w_tick w)) rq gid now_ms bound (sv_config ?sv) (st, g) = ((st', g'), Inr (Served response))"
    by (auto simp: serve_locked_def on_service_def Let_def split: option.splits sum.splits prod.splits)
  show "exact_response rq response"
    using serve_section_served(1,2) [OF worker_generator(1,2) [OF wf g] assms s] by (simp add: exact_response_def)
qed

definition exact_answer :: "allocate_request \<Rightarrow> allocate_response option option \<Rightarrow> bool" where
  "exact_answer rq out \<longleftrightarrow> (\<forall>response. out = Some (Some response) \<longrightarrow> exact_response rq response)"

lemma exact_answer_simps [simp]:
  "exact_answer rq None" "exact_answer rq (Some None)" "exact_answer rq (Some (Some response)) \<longleftrightarrow> exact_response rq response"
  "exact_answer rq (map_option (\<lambda>_. None) x)"
  by (auto simp: exact_answer_def)

lemma serve_allocation_yields:
  assumes "others_advance ax" "rq_count rq \<noteq> 0"
  shows "yields (exact_answer rq) (serve_allocation ax fuel cancellable rq gid bound a retries n)"
proof (induction n arbitrary: retries)
  case (Suc n)
  have wait: "guarantees (wait_for_future_borrow_error ax cancellable e)"
    "guarantees (acquire_generator_admission ax tier)" for e tier
    unfolding wait_for_future_borrow_error_def acquire_generator_admission_def
    using assms(1) by (simp_all add: guarantee split: tso_error.split)
  have retry: "yields (exact_answer rq) (if is_future_borrow e then
      bnd (wait_for_future_borrow_error ax cancellable e)
        (\<lambda>_. serve_allocation ax fuel cancellable rq gid bound a retries n) else throw e)" for e
    by (intro yields_rules wait Suc.IH)
  have locked: "yields (exact_answer rq) (bnd (serve_locked ax rq gid bound a now_ms) f)"
    if "\<And>e. yields (exact_answer rq) (f (Inl e))" "yields (exact_answer rq) (f (Inr Contended_Outcome))"
      "yields (exact_answer rq) (f (Inr Retry_After_Lease_Refresh))"
      "\<And>e. yields (exact_answer rq) (f (Inr (Serve_Error e)))"
      "\<And>response. exact_response rq response \<Longrightarrow> yields (exact_answer rq) (f (Inr (Served response)))"
    for now_ms f
  proof (rule yields_bnd_with [OF serve_locked_guarantee serve_locked_yields])
    fix out :: "serve_outcome tso_result" assume "\<forall>response. out = Inr (Served response) \<longrightarrow> exact_response rq response"
    then show "yields (exact_answer rq) (f out)"
      using that by (cases out; cases "projr out") auto
  qed (rule assms)+
  show ?case
    unfolding serve_allocation.simps Let_def
    by (intro locked yields_bnd guarantee wait assms;
        simp only: sum.case serve_outcome.case; intro yields_rules retry guarantee Suc.IH assms; simp)
qed (simp add: yields_ret)

lemma guarded_serving_yields:
  assumes "others_advance ax" "rq_count rq \<noteq> 0"
  shows "yields (exact_answer rq)
      (try_serve_timeline_state_handle_with_guard ax fuel cancellable rq a gid bound revalidate)"
    "yields (exact_answer rq) (try_allocate_from_cached_timeline ax fuel cancellable rq)"
proof -
  show guarded: "yields (exact_answer rq)
      (try_serve_timeline_state_handle_with_guard ax fuel cancellable rq a gid bound revalidate)" for a gid bound revalidate
    unfolding try_serve_timeline_state_handle_with_guard_def serve_allocation_from_timeline_state_handle_def Let_def
    by (intro yields_rules serve_allocation_yields guarantee assms; simp)
  show "yields (exact_answer rq) (try_allocate_from_cached_timeline ax fuel cancellable rq)"
    unfolding try_allocate_from_cached_timeline_def Let_def
    by (intro yields_rules guarded guarantee assms; simp)
qed

lemma allocate_after_validation_yields:
  assumes "others_advance ax" "rq_count rq \<noteq> 0"
  shows "yields (\<lambda>out. \<forall>response. out = Some response \<longrightarrow> exact_response rq response)
    (allocate_timestamps_after_validation ax fuel cancellable rq n)" (is "yields ?Q _")
proof (induction n)
  case (Suc n)
  have out: "yields ?Q (bnd m (\<lambda>out. case out of
        None \<Rightarrow> ret None | Some (Some response) \<Rightarrow> ret (Some response) | Some None \<Rightarrow> k))"
    if "guarantees m" "yields (exact_answer rq) m" "yields ?Q k" for m k
    by (rule yields_bnd_with [OF that(1,2)]) (auto intro!: yields_ret that(3) split: option.split)
  show ?case
    unfolding allocate_timestamps_after_validation.simps Let_def
    by (intro out guarded_serving_yields yields_rules guarantee Suc.IH assms)
      (auto simp: guarantee intro!: yields_rules split: tso_error.split)
qed (simp add: yields_ret)

lemma entry_yields:
  assumes "others_advance ax" "\<not> (idempotency_enabled rq \<and> supported)"
  shows "yields (\<lambda>out. \<forall>response. out = Some response \<longrightarrow> exact_response rq response)
    (allocate_timestamps_with_cancellation ax fuel supported cancellable rq)" (is "yields ?Q _")
proof (cases "rq_count rq = 0")
  case True
  then have "validate_allocation c rq \<noteq> Inr ()" for c by (auto simp: validate_allocation_def and_then_eq_Inr)
  then show ?thesis
    by (auto simp: yields_def allocate_timestamps_with_cancellation_def bnd_def get_service_def done_with_def ends_def
        split: prod.split sum.split)
next
  case False
  have after: "yields ?Q (bnd (result_of (allocate_timestamps_after_validation ax fuel cancellable rq fuel)) (\<lambda>res. case res of
        Inr None \<Rightarrow> ret None | Inr (Some response) \<Rightarrow> ret (Some response) | Inl e \<Rightarrow> throw e))"
  proof (rule yields_bnd_with [where P = "\<lambda>res. \<forall>response. res = Inr (Some response) \<longrightarrow> exact_response rq response"])
    show "yields (\<lambda>res. \<forall>response. res = Inr (Some response) \<longrightarrow> exact_response rq response)
        (result_of (allocate_timestamps_after_validation ax fuel cancellable rq fuel))"
      using allocate_after_validation_yields [OF assms(1) False, of fuel cancellable fuel]
      by (auto simp: yields_def result_of_def ends_def split: prod.splits sum.splits)
  qed (auto intro!: guarantee assms yields_rules split: sum.split option.split)
  have finish: "bnd (finish_idempotent_allocation ax supported rq Idempotency_Disabled res) (\<lambda>r. ret (Some r))
      = (case res of Inl e \<Rightarrow> throw e | Inr response \<Rightarrow> ret (Some response))" for res
    by (rule ext) (simp add: finish_idempotent_allocation_def bnd_def done_with_def ret_def throw_def split: sum.split)
  have start: "bnd (ret x) f = f x" for x :: 'c and f :: "'c \<Rightarrow> 'd act" by (rule ext) (simp add: bnd_def ret_def)
  have "prepare_idempotent_allocation ax fuel supported rq = ret (Some Idempotency_Disabled)"
    using assms(2) by (auto simp: prepare_idempotent_allocation_def)
  then show ?thesis
    unfolding allocate_timestamps_with_cancellation_def
    by (simp only: start option.case idempotent_allocation_preparation.case finish sum.case)
      (intro yields_bnd guarantee after)
qed

text \<open>
  C7: an answered allocation contains exactly what was asked for. Whatever other tasks do, whether the
  answer comes from the cache or after a look at the metadata, with or without a lease refresh, a
  catch-up or contention on the way, a successful request without a recorded client id returns as many
  timestamps as it asked for, at least one and at most the configured batch, strictly increasing.
\<close>
theorem allocation_exact:
  assumes "others_advance ax" "worker_wf (w_service w)" "\<not> (idempotency_enabled rq \<and> supported)"
    and "allocate_timestamps_with_cancellation ax fuel supported cancellable rq w = (w', Inr (Some response))"
  shows "length (ranges_tsos (rs_ranges response)) = unat (rq_count rq)
    \<and> sorted_wrt (<) (ranges_tsos (rs_ranges response))
    \<and> rq_count rq \<noteq> 0 \<and> rq_count rq \<le> cfg_max_batch_per_request (sv_config (w_service w))"
proof -
  have "ends (\<lambda>_ out. \<forall>response. out = Some response \<longrightarrow> exact_response rq response)
      (allocate_timestamps_with_cancellation ax fuel supported cancellable rq w)"
    using entry_yields [OF assms(1,3)] assms(2) by (simp add: yields_def)
  then have "exact_response rq response" unfolding assms(4) by (simp add: ends_Inr)
  moreover have "validate_allocation (sv_config (w_service w)) rq = Inr ()"
  proof (cases "validate_allocation (sv_config (w_service w)) rq")
    case (Inl e)
    then have "allocate_timestamps_with_cancellation ax fuel supported cancellable rq w = (w, Inl e)"
      by (simp add: allocate_timestamps_with_cancellation_def bnd_def [of get_service] bnd_def [of "done_with _"]
          get_service_def done_with_def)
    with assms(4) show ?thesis by simp
  qed simp
  then have "rq_count rq \<noteq> 0 \<and> rq_count rq \<le> cfg_max_batch_per_request (sv_config (w_service w))"
    by (auto simp: validate_allocation_def and_then_eq_Inr not_less split: if_splits)
  ultimately show ?thesis by (simp add: exact_response_def)
qed

lemma serving_wf: "worker_wf (w_service (serving_world s))"
proof -
  have "worker_wf sample_service"
    by (simp add: sample_service_def worker_wf_def Let_def runtime_with_layout_def generator_with_layout_def
        service_new_def tso_config_default_def default_layout_valid)
  then have "worker_wf sample_held"
    unfolding sample_held_def by (rule worker_wf_advances) (rule lease_outcomes_advance)
  then show ?thesis
    by (rule worker_wf_advances) (rule advances_same, simp_all add: serving_world_def serving_service_def)
qed

theorem allocation_exact_witness:
  "\<exists>w'. allocate_timestamps_with_cancellation (uncancelled quiet_surroundings) 1 False False plain_request
      (serving_world memory_store_new) = (w', Inr (Some served_response))
    \<and> length (ranges_tsos (rs_ranges served_response)) = 3"
proof -
  obtain w' where w': "allocate_timestamps_with_cancellation (uncancelled quiet_surroundings) 1 False False plain_request
      (serving_world memory_store_new) = (w', Inr (Some served_response))"
    using serving_answer [of False memory_store_new] by (auto simp: allocate_timestamps_def)
  show ?thesis
    using allocation_exact [OF others_uncancelled [OF quiet_others] serving_wf _ w'] w' by (simp add: plain_request_def)
qed

subsection \<open>A worker that has shut down\<close>

lemma each_best_effort_succeeds: "\<exists>w'. each_best_effort f xs w = (w', Inr ())"
  by (induction xs arbitrary: w) (auto simp: ret_def bnd_def result_of_def split: prod.split)

lemma flush_succeeds: "\<exists>w'. best_effort_persist_runtime_before_shutdown ax fuel hash w = (w', Inr ())"
proof -
  have seq: "\<exists>w'. bnd m (\<lambda>_. m') w = (w', Inr ())"
    if "\<And>w. \<exists>w'. m w = (w', Inr ())" "\<And>w. \<exists>w'. m' w = (w', Inr ())" for m m' :: "unit act" and w
    using that(1) [of w] that(2) by (auto simp: bnd_def)
  have transfers: "\<exists>w'. best_effort_transfer_local_timelines_before_shutdown ax fuel hash routes pools w = (w', Inr ())"
    for routes pools w
    by (simp add: best_effort_transfer_local_timelines_before_shutdown_def bnd_def get_service_def ret_def
        each_best_effort_succeeds)
  show ?thesis
    unfolding best_effort_persist_runtime_before_shutdown_def bnd_def [of "result_of _"] result_of_def
    by (auto split: prod.split sum.split option.split intro!: seq each_best_effort_succeeds transfers)
      (simp_all add: ret_def)
qed

lemma await_task_ends:
  assumes "\<forall>i \<ge> K. ended i t" shows "K \<le> w_tick w + n \<Longrightarrow> 0 < n \<Longrightarrow> \<exists>w'. await_task ax ended t n w = (w', Inr (Some ()))"
proof (induction n arbitrary: w)
  case (Suc n)
  obtain sv s where o: "ax_others ax (w_tick w) (w_service w, w_store w) = (sv, s)" by fastforce
  let ?w = "w \<lparr> w_service := sv, w_store := s, w_tick := Suc (w_tick w) \<rparr>"
  have p: "pause ax w = (?w, Inr ())" by (simp add: pause_def o tick_def)
  show ?case
  proof (cases "ended (Suc (w_tick w)) t")
    case False
    with assms have "\<not> K \<le> Suc (w_tick w)" by blast
    with Suc.prems Suc.IH [of ?w] show ?thesis by (simp add: bnd_def p has_ended_def ret_def)
  qed (simp add: bnd_def p has_ended_def ret_def)
qed simp

lemma drain_ends:
  assumes "\<forall>t \<in> set (bg_tasks bg). \<forall>i \<ge> K. ended i t" "K \<le> fuel" "0 < fuel"
  shows "\<exists>w'. drain_tasks ax ended fuel bg w = (w', Inr (Some (bg \<lparr> bg_tasks := [] \<rparr>)))"
proof -
  have "\<exists>w'. await_tasks ax ended fuel ts w = (w', Inr (Some ()))" if "\<forall>t \<in> set ts. \<forall>i \<ge> K. ended i t" for ts
    using that
  proof (induction ts arbitrary: w)
    case (Cons t ts)
    then obtain w1 where "await_task ax ended t fuel w = (w1, Inr (Some ()))"
      using await_task_ends [of K ended t w fuel ax] assms(2,3) by auto
    with Cons show ?case by (simp add: bnd_def)
  qed (simp add: ret_def)
  from this [OF assms(1)] show ?thesis by (auto simp: drain_tasks_def bnd_def ret_def)
qed

lemma drain_waits:
  assumes "t \<in> set (bg_tasks bg)" "\<forall>i. \<not> ended i t"
  shows "snd (drain_tasks ax ended fuel bg w) = Inr None"
proof -
  have one: "snd (await_task ax ended t n w) = Inr None" for n w
    by (induction n arbitrary: w) (simp_all add: bnd_def ret_def has_ended_def assms(2) pause_def split: prod.split)
  have any: "\<exists>w' r. await_task ax ended u n w = (w', Inr r)" for u n w
    by (induction n arbitrary: w) (auto simp: bnd_def ret_def has_ended_def pause_def split: prod.split)
  have "snd (await_tasks ax ended fuel ts w) = Inr None" if "t \<in> set ts" for ts
    using that
  proof (induction ts arbitrary: w)
    case (Cons u ts)
    obtain w1 r where r: "await_task ax ended u fuel w = (w1, Inr r)" using any by blast
    show ?case
    proof (cases "u = t")
      case True
      then show ?thesis using one [of fuel w] r by (simp add: bnd_def ret_def)
    next
      case False
      with Cons r show ?thesis by (cases r) (simp_all add: bnd_def ret_def)
    qed
  qed simp
  from this [OF assms(1)] show ?thesis
    by (cases "await_tasks ax ended fuel (bg_tasks bg) w") (simp add: drain_tasks_def bnd_def ret_def)
qed

lemma work_refused:
  assumes "sv_shutdown_gate (w_service w)"
  shows "0 < n \<Longrightarrow> allocate_timestamps_after_validation ax fuel cancellable rq n w = (w, Inl ServiceShuttingDown)"
    "0 < n \<Longrightarrow> ensure_timeline_loop ax fuel hash tk tier n w = (w, Inl ServiceShuttingDown)"
proof -
  have r: "reject_new_work_if_shutting_down (w_service w) = Inl ServiceShuttingDown"
    using assms by (simp add: reject_new_work_if_shutting_down_def)
  show "allocate_timestamps_after_validation ax fuel cancellable rq n w = (w, Inl ServiceShuttingDown)" if "0 < n"
    using that r by (cases n) (simp_all del: allocate_timestamps_after_validation.simps
        add: allocate_timestamps_after_validation.simps(2) Let_def bnd_def [of get_service] bnd_def [of "done_with _"]
          get_service_def done_with_def)
  show "ensure_timeline_loop ax fuel hash tk tier n w = (w, Inl ServiceShuttingDown)" if "0 < n"
    using that r by (cases n) (simp_all del: ensure_timeline_loop.simps
        add: ensure_timeline_loop.simps(2) Let_def bnd_def [of get_service] bnd_def [of "done_with _"]
          get_service_def done_with_def)
qed

lemma finish_refused: "ends Q (finish_idempotent_allocation ax supported rq preparation (Inl e) w)"
  unfolding finish_idempotent_allocation_def
  by (cases preparation) (auto simp: done_with_def result_of_def bnd_def throw_def split: prod.split)

lemma allocation_refused:
  assumes "others_advance ax" "sv_shutdown_gate (w_service w)" "0 < n"
  shows "validate_allocation (sv_config (w_service w)) rq = Inr () \<Longrightarrow> \<not> idempotency_enabled rq \<or> \<not> supported \<Longrightarrow>
      allocate_timestamps_with_cancellation ax n supported cancellable rq w = (w, Inl ServiceShuttingDown)"
    and "allocate_timestamps_with_cancellation ax n supported cancellable rq w = (w', Inr (Some response)) \<Longrightarrow>
      prepare_idempotent_allocation ax n supported rq w = (w', Inr (Some (Replay response)))"
proof -
  show "allocate_timestamps_with_cancellation ax n supported cancellable rq w = (w, Inl ServiceShuttingDown)"
    if "validate_allocation (sv_config (w_service w)) rq = Inr ()" "\<not> idempotency_enabled rq \<or> \<not> supported"
    using that work_refused(1) [OF assms(2,3)]
    by (auto simp: allocate_timestamps_with_cancellation_def prepare_idempotent_allocation_def bnd_def get_service_def
        done_with_def ret_def result_of_def finish_idempotent_allocation_def)
  have "ends (\<lambda>v out. out = None \<or> (\<exists>r. out = Some r \<and> prepare_idempotent_allocation ax n supported rq w = (v, Inr (Some (Replay r)))))
      (allocate_timestamps_with_cancellation ax n supported cancellable rq w)"
    unfolding allocate_timestamps_with_cancellation_def
  proof (intro ends_bnd_service ends_bnd_done, rule ends_bnd)
    fix w1 prepared assume p: "prepare_idempotent_allocation ax n supported rq w = (w1, Inr prepared)"
    have "guarantees (prepare_idempotent_allocation ax n supported rq)" by (intro guarantee assms)
    then have "advances (w_service w) (w_service w1)" using p unfolding guarantees_def by (metis fst_conv)
    then have gate: "sv_shutdown_gate (w_service w1)" using assms(2) by (simp add: advances_def)
    note refused = work_refused(1) [OF gate assms(3)]
    show "ends (\<lambda>v out. out = None \<or> (\<exists>r. out = Some r \<and> prepare_idempotent_allocation ax n supported rq w = (v, Inr (Some (Replay r)))))
        ((case prepared of None \<Rightarrow> ret None
          | Some (Replay response) \<Rightarrow> ret (Some response)
          | Some preparation \<Rightarrow>
              bnd (result_of (allocate_timestamps_after_validation ax n cancellable rq n)) (\<lambda>res. case res of
                Inr None \<Rightarrow> ret None
              | Inr (Some response) \<Rightarrow>
                  bnd (finish_idempotent_allocation ax supported rq preparation (Inr response)) (\<lambda>r. ret (Some r))
              | Inl e \<Rightarrow> bnd (finish_idempotent_allocation ax supported rq preparation (Inl e)) (\<lambda>r. ret (Some r)))) w1)"
      using p by (auto simp: bnd_def [of "result_of _"] result_of_def refused ret_def ends_Inr
          intro!: ends_bnd dest!: endsD [OF finish_refused [of "\<lambda>_ _. False"]]
          split: option.split idempotent_allocation_preparation.split)
  qed
  from endsD [OF this] show "allocate_timestamps_with_cancellation ax n supported cancellable rq w = (w', Inr (Some response)) \<Longrightarrow>
      prepare_idempotent_allocation ax n supported rq w = (w', Inr (Some (Replay response)))" by auto
qed

lemma ensure_refused:
  "sv_shutdown_gate (w_service w) \<Longrightarrow> 0 < n \<Longrightarrow> validate_timeline_key tk = Inr () \<Longrightarrow>
   ensure_timeline_with_tier ax n hash tk tier w = (w, Inl ServiceShuttingDown)"
  using work_refused(2) by (simp add: ensure_timeline_with_tier_def bnd_def [of "done_with _"] done_with_def)

lemma replay_recorded_before:
  "prepare_idempotent_allocation ax n supported rq w = (w', Inr (Some (Replay response))) \<Longrightarrow>
   recorded_response (w_store w') rq response"
  using endsD [OF prepare_loop_success, of ax rq n w w']
  by (auto simp: prepare_idempotent_allocation_def prepared_ok_def ret_def split: if_splits)

lemma invalidated_empty:
  defines "emptied w \<equiv> w \<lparr> w_service := invalidate_local_runtime_after_shutdown (w_service w) \<rparr>"
  shows "let rs = sv_generator_runtime (w_service (emptied w)) in grs_leases rs = [] \<and> grs_dedicated_claims rs = []
      \<and> (\<forall>g \<in> set (grs_generators rs). gn_ready_lease_token g = 0)"
    "timeline_count (sv_timeline_runtime (w_service (emptied w))) = 0"
    "tc_timelines (sv_timeline_runtime (w_service (emptied w))) = []"
  by (auto simp: emptied_def invalidate_local_runtime_after_shutdown_def on_runtime_def clear_leases_def
      clear_dedicated_claims_def clear_ready_lease_def cache_clear_def timeline_count_def Let_def)

text \<open>
  C8: a worker that shuts down returns once its background tasks have ended, and leaves nothing behind.
  Whatever the store answers and other tasks do, whether the flush ends or meets its deadline, the first
  shutdown closes the gate, waits for every background task and returns with no lease, no dedicated claim,
  no cached timeline and no generator marked ready; a second one returns at once. There is no deadline for
  the tasks: a task that never ends keeps the shutdown from returning. In every later state of the worker, a
  valid allocation that has no recorded client id and a request for a new timeline are refused before anything
  is read or written, and an allocation with a client id can only answer what was recorded for it before: no
  timestamp is drawn.
\<close>
theorem shutdown_leaves_nothing:
  assumes "others_advance ax" "\<not> bg_shutdown_started bg"
    and "\<forall>t \<in> set (bg_tasks bg). \<forall>i \<ge> K. ended i t" "K \<le> fuel" "0 < fuel"
  shows "\<exists>w' bg'. shutdown ax ended fuel hash timed_out bg w = (w', Inr (Some bg'))
    \<and> bg' = \<lparr> bg_shutdown_tx = True, bg_tasks = [], bg_shutdown_started = True \<rparr>
    \<and> (let rs = sv_generator_runtime (w_service w') in
        grs_leases rs = [] \<and> grs_dedicated_claims rs = []
        \<and> (\<forall>g \<in> set (grs_generators rs). gn_ready_lease_token g = 0))
    \<and> timeline_count (sv_timeline_runtime (w_service w')) = 0 \<and> tc_timelines (sv_timeline_runtime (w_service w')) = []
    \<and> (\<forall>later other. shutdown later other fuel hash timed_out bg' w' = (w', Inr (Some bg')))
    \<and> (\<forall>w'' later n. advances (w_service w') (w_service w'') \<longrightarrow> others_advance later \<longrightarrow> 0 < n \<longrightarrow>
        (\<forall>supported cancellable rq. validate_allocation (sv_config (w_service w'')) rq = Inr () \<longrightarrow>
           \<not> idempotency_enabled rq \<or> \<not> supported \<longrightarrow>
           allocate_timestamps_with_cancellation later n supported cancellable rq w'' = (w'', Inl ServiceShuttingDown))
        \<and> (\<forall>supported cancellable rq w3 response.
           allocate_timestamps_with_cancellation later n supported cancellable rq w'' = (w3, Inr (Some response)) \<longrightarrow>
           prepare_idempotent_allocation later n supported rq w'' = (w3, Inr (Some (Replay response)))
           \<and> recorded_response (w_store w3) rq response)
        \<and> (\<forall>tk tier. validate_timeline_key tk = Inr () \<longrightarrow>
           ensure_timeline_with_tier later n hash tk tier w'' = (w'', Inl ServiceShuttingDown)))
    \<and> (\<forall>stuck. (\<exists>t \<in> set (bg_tasks bg). \<forall>i. \<not> stuck i t) \<longrightarrow>
        snd (shutdown ax stuck fuel hash timed_out bg w) = Inr None)"
proof -
  let ?bg = "bg \<lparr> bg_shutdown_started := True, bg_shutdown_tx := True \<rparr>"
  let ?w0 = "w \<lparr> w_service := request_local_shutdown_gate (w_service w) \<rparr>"
  let ?flush = "if timed_out then pause ax else best_effort_persist_runtime_before_shutdown ax fuel hash"
  obtain w1 where w1: "?flush ?w0 = (w1, Inr ())"
    using flush_succeeds [of ax fuel hash ?w0] by (cases timed_out) (auto simp: pause_def Let_def case_prod_beta)
  obtain w2 where w2: "drain_tasks ax ended fuel ?bg w1 = (w2, Inr (Some (?bg \<lparr> bg_tasks := [] \<rparr>)))"
    using drain_ends [of ?bg K ended fuel ax w1] assms(3-5) by auto
  let ?w' = "w2 \<lparr> w_service := invalidate_local_runtime_after_shutdown (w_service w2) \<rparr>"
  have run: "shutdown ax ended fuel hash timed_out bg w = (?w', Inr (Some (?bg \<lparr> bg_tasks := [] \<rparr>)))"
    using assms(2) w1 w2 by (simp add: shutdown_def begin_shutdown_def bnd_def on_service_def ret_def)
  have stuck: "snd (shutdown ax stuck fuel hash timed_out bg w) = Inr None" if never: "\<exists>t \<in> set (bg_tasks bg). \<forall>i. \<not> stuck i t" for stuck
  proof -
    obtain w3 where "drain_tasks ax stuck fuel ?bg w1 = (w3, Inr None)"
      using never drain_waits [of _ ?bg stuck ax fuel w1] by (cases "drain_tasks ax stuck fuel ?bg w1") auto
    then show ?thesis using assms(2) w1 by (simp add: shutdown_def begin_shutdown_def bnd_def on_service_def ret_def)
  qed
  have "guarantees ?flush" "guarantees (drain_tasks ax ended fuel ?bg)"
    using assms(1) flush_guarantee drain_guarantee by (auto intro!: guarantee)
  then have "advances (w_service ?w0) (w_service w1)" "advances (w_service w1) (w_service w2)"
    using w1 w2 unfolding guarantees_def by (metis fst_conv)+
  then have gate: "sv_shutdown_gate (w_service ?w')"
    by (simp add: advances_def request_local_shutdown_gate_def invalidate_local_runtime_after_shutdown_def on_runtime_def)
  let ?ended = "\<lparr> bg_shutdown_tx = True, bg_tasks = [], bg_shutdown_started = True \<rparr> :: background_coordinator"
  have bg: "?bg \<lparr> bg_tasks := [] \<rparr> = ?ended" by simp
  have later: "sv_shutdown_gate (w_service w'')" if "advances (w_service ?w') (w_service w'')" for w''
    using that gate by (simp add: advances_def)
  have again: "shutdown ax' other fuel hash timed_out ?ended v = (v, Inr (Some ?ended))" for ax' other v
    by (simp add: shutdown_def begin_shutdown_def ret_def)
  show ?thesis
    by (intro exI [of _ ?w'] exI [of _ ?ended] conjI refl allI impI run [unfolded bg] again stuck
        invalidated_empty allocation_refused later replay_recorded_before ensure_refused | assumption)+
qed

theorem shutdown_leaves_nothing_witness:
  "\<exists>w' bg'. shutdown quiet_surroundings (\<lambda>i _. 3 \<le> i) 5 (\<lambda>_. 0) False (started_tasks tso_config_default)
      (serving_world memory_store_new) = (w', Inr (Some bg'))
    \<and> grs_leases (sv_generator_runtime (w_service w')) = [] \<and> bg_tasks bg' = []"
proof -
  have "\<not> bg_shutdown_started (started_tasks tso_config_default)"
    by (simp add: started_tasks_def register_task_def background_new_def)
  from shutdown_leaves_nothing [OF quiet_others this, of 3 "\<lambda>i _. 3 \<le> i" 5 "\<lambda>_. 0" False "serving_world memory_store_new"]
  show ?thesis by (auto simp: Let_def)
qed

end
