(* ===== verification/Spec2Isabelle.thy ===== *)
theory Spec2Isabelle
  imports Generator_Threads Keys Endpoint Store_Listing Store_Requests Clock
    Authz Config_Validation Planning Drift Status Renewal Fencing Unfenced Fairness Idempotency Transfers Facade Worker
begin

text \<open>
  Chronos is a timestamp service. Clients ask a worker for timestamps of a named timeline; a timeline is served
  by one generator, a generator belongs to at most one worker at a time through a lease in a metadata store, and
  a timestamp is physical milliseconds, generator id and sequence number packed into 64 bits. Timelines can be
  moved between generators and workers, and a worker takes over what a dead one leaves behind. This library models
  the service crate down to its in-memory store and proves what makes it correct. Source paths below are relative
  to \<open>src/src\<close>.

  \<^bold>\<open>How the parts interact.\<close> An allocation enters at \<open>allocate_timestamps_with_cancellation\<close>: the request is
  validated, a request with a client id is looked up or recorded as pending, and the timestamps are drawn under the
  lock of the cached timeline state from the generator of its route, after the lease of that generator was found
  valid or was ensured, and below the upper bound the lease has persisted. Leases, timelines and request records are
  written to the store by conditional writes on revisions only. Background tasks refresh leases, prune request
  records and fail timelines over; a transfer rewrites the route of a timeline above a floor.

  \<^bold>\<open>Vocabulary.\<close> \<open>Prelude\<close> has machine words, results as sums (\<open>Inl\<close> is \<open>Err\<close>) and the fact collections;
  \<open>Rust_Strings\<close> and \<open>Rust_Text\<close> have the string functions of the standard library on UTF-8 bytes; \<open>Types\<close> has
  \<open>types.rs\<close>, \<open>error.rs\<close> and \<open>lifecycle.rs\<close>.

  \<^bold>\<open>Pure components\<close>, one theory for each, with the functions under their source names:
  \<^item> \<open>Timestamp\<close> (\<open>timestamp.rs\<close>, \<open>cursor.rs\<close>): round trip and order of the codec, the least cursor above a floor;
  \<^item> \<open>Clock\<close> (\<open>clock.rs\<close>, \<open>lease_policy.rs\<close>): the locale \<open>monotone_clock\<close>, interpreted for the layout clock and
    the system clock: readings never decrease and saturate one above the capacity of the layout;
  \<^item> \<open>Generator\<close> (\<open>runtime/generator_lease.rs\<close>): the allocation loop on the atomic counter, correct and available
    for any interference; \<open>Generator_Threads\<close> gives the interference its meaning as a step relation of threads;
  \<^item> \<open>Keys\<close>, \<open>Endpoint\<close>, \<open>Metadata\<close>, \<open>Planning\<close>, \<open>Renewal\<close>, \<open>Status\<close>, \<open>Drift\<close>, \<open>Cache\<close>, \<open>Quota\<close>, \<open>Authz\<close>,
    \<open>Config\<close>, \<open>Config_Validation\<close> (\<open>metadata/keys.rs\<close>, \<open>service/mod.rs\<close>, \<open>metadata/types.rs\<close>, \<open>planning.rs\<close>,
    \<open>service/lease/renewal.rs\<close>, \<open>status.rs\<close>, \<open>service/worker_readiness.rs\<close>, \<open>runtime/cache_eviction.rs\<close>,
    \<open>service/allocation/quota.rs\<close>, \<open>authz.rs\<close>, \<open>config.rs\<close>): injective keys, the ownership plan, paging, what a refresh
    writes, readiness, eviction, the token bucket in floating point, and the whole start-up check;
  \<^item> \<open>Fairness\<close> (\<open>service/mod.rs\<close>): the admission queue of a shared generator as interleaved requests.

  \<^bold>\<open>The store.\<close> \<open>Memory_Store\<close> (\<open>metadata/memory.rs\<close>) has every operation as a function on tables.
  \<open>Store_Contract\<close> states the contract of revisions as the locale \<open>revision_table\<close>, interpreted for timelines and
  generators: no lost update, batches all or nothing. \<open>Store_Listing\<close> proves the cached listings equal to the
  reference methods after any sequence of operations, and the race that breaks the cache; \<open>Store_Requests\<close> proves
  the life cycle of request records over both key formats and what pruning removes.

  \<^bold>\<open>The service.\<close> \<open>Service\<close> (\<open>service/mod.rs\<close>, \<open>service/contention.rs\<close>) has the state of a worker as a record and
  an asynchronous operation as a function on the world: the service, the store, and a count of observations. What
  other tasks and workers do at an await, what the clocks show, whether the request is cancelled, and what others
  hold or have in flight are fields of the record \<open>surroundings\<close>, indexed by that count, so a theorem over all
  surroundings is a theorem over all interleavings at await points. On it stand \<open>Lease\<close> (\<open>service/lease.rs\<close>,
  \<open>service/lease/coordination.rs\<close>), \<open>Timelines\<close> (\<open>service/runtime_coordination\<close>, \<open>service/allocation/ensure.rs\<close>),
  \<open>Serve\<close> (\<open>service/allocation/serve.rs\<close>), \<open>Idempotency\<close> (\<open>service/allocation/idempotency.rs\<close> and the entry point of
  \<open>service/allocation.rs\<close>), \<open>Transfers\<close> (\<open>service/transfer.rs\<close>), \<open>Background\<close> (\<open>service/background.rs\<close>) and \<open>Facade\<close>
  (\<open>service/facade.rs\<close>). \<open>Outcomes\<close>, \<open>Guarantee\<close> and part of \<open>Lease\<close> are calculi with one rule for each combinator:
  what a success has achieved (\<open>ends\<close>), what every operation guarantees under the same guarantee of the others
  (\<open>guarantees\<close>), and that fuel does not run out (\<open>never\<close>). \<open>Serving\<close> is a worker in a concrete state.

  \<^bold>\<open>What spans components.\<close> \<open>Fencing\<close>: timestamps issued by any number of workers under the bounds of their leases
  are distinct, with arbitrary clocks, delays and crashes. Its steps are the lease operations and allocations; the
  write of the last issued timestamp when a worker shuts down is not among them. \<open>Unfenced\<close>: a run of the entry
  point in which a lease expires under way and the allocation is served without a bound. \<open>Worker\<close>: the state of a
  worker is well formed in all its life, an answer contains exactly what was asked for, and what a shutdown leaves.
  This theory: the timestamps of one cached timeline strictly increase over any run.

  \<^bold>\<open>Fuel.\<close> Loops that wait or retry take a number of turns, and \<open>None\<close> says that it was not enough. The retry loop of
  a lease needs \<open>R * 2 ^ 64\<close> turns when the monotonic clock gains a millisecond every \<open>R\<close> observations, since a retry
  budget is a 64-bit number of milliseconds; the wait for a single flight needs \<open>K\<close> turns when it is found free
  within \<open>K\<close> looks (the code has no queue there, so a waiting task may starve, which is proved too); a batch refresh
  needs two turns for each lease; a shutdown needs as many turns as its background tasks take to end. Statements
  about successful results hold for every fuel.

  \<^bold>\<open>Simplifications.\<close> Others act at await points and, on the counter of a generator, between any two atomic
  accesses; a section under a lock is one step. A concurrent map is an association list. Work that the code runs
  concurrently with \<open>for_each_concurrent\<close> runs in order, its siblings being part of the surroundings. Metrics, log
  events and the recovery of poisoned locks are left out: no result depends on them.

  \<^bold>\<open>Not modelled.\<close> The etcd store and the worker identity (\<open>metadata/etcd\<close>, \<open>metadata/identity.rs\<close>), which are
  transactions of a client library; the gRPC surface (\<open>rpc\<close>), over generated code; clients and proxies (\<open>client.rs\<close>,
  \<open>timeline_proxy.rs\<close>); the process around the service (\<open>startup\<close>, \<open>process_runtime.rs\<close>, \<open>tls.rs\<close>), which is input
  and output; benchmarks and tests. SHA-256, the standard hasher and the file system are parameters.
\<close>

section \<open>The timestamps of one timeline\<close>

text \<open>
  The cached state of a timeline is written at three places: after an allocation under its lock
  (\<open>serve.rs\<close>), when a record read from the metadata is merged into it (\<open>cache.rs\<close>), and when the
  timeline moves to another generator of this worker (\<open>transfer.rs\<close>). A run is any sequence of such
  writes, each allocation with any generator, configuration, clock reading, bound and interference.
\<close>

inductive handle_step :: "timeline_state \<Rightarrow> nat list \<Rightarrow> timeline_state \<Rightarrow> bool" where
  served: "layout_valid (gn_layout g) \<Longrightarrow> gn_id g < max_generators (gn_layout g) \<Longrightarrow> rq_count rq \<noteq> 0
    \<Longrightarrow> serve_section race rq gid now_ms bound c (st, g) = ((st', g'), Inr (Served response))
    \<Longrightarrow> handle_step st (ranges_tsos (rs_ranges response)) st'"
| unserved: "serve_section race rq gid now_ms bound c (st, g) = ((st', g'), out)
    \<Longrightarrow> (\<And>response. out \<noteq> Inr (Served response)) \<Longrightarrow> handle_step st [] st'"
| merged: "handle_step st [] (merge_record r revision st)"
| moved: "handle_step st [] (fenced_state r (tl_last_graceful_issued (fenced_record st r')) revision st)"

inductive handle_run :: "timeline_state \<Rightarrow> nat list \<Rightarrow> timeline_state \<Rightarrow> bool" where
  nothing: "handle_run st [] st"
| more: "handle_run st ts st' \<Longrightarrow> handle_step st' us st'' \<Longrightarrow> handle_run st (ts @ us) st''"

definition issued_below :: "timeline_state \<Rightarrow> nat list \<Rightarrow> bool" where
  \<comment> \<open>the state knows a timestamp at or above all of these\<close>
  "issued_below st ts \<longleftrightarrow> (\<forall>t \<in> set ts. \<exists>f. tst_last_issued_tso st = Some f \<and> t \<le> unat f)"

lemma sorted_le_last: "sorted_wrt (<) ts \<Longrightarrow> t \<in> set ts \<Longrightarrow> t \<le> last (ts :: nat list)"
  by (induction ts) (auto simp: less_imp_le)

lemma handle_step_issues:
  assumes "handle_step st us st'"
  shows "sorted_wrt (<) us \<and> (\<forall>f. tst_last_issued_tso st = Some f \<longrightarrow> (\<forall>t \<in> set us. unat f < t))
    \<and> issued_below st' us \<and> (\<forall>ts. issued_below st ts \<longrightarrow> issued_below st' ts)"
  using assms
proof cases
  case (served g rq race gid now_ms bound c g' response)
  note s = serve_section_served [OF served(2-5)]
  from s(5) obtain l where l: "tst_last_issued_tso st' = Some l" "unat l = last us"
    by (cases "tst_last_issued_tso st'") (auto simp: served(1))
  have below: "t \<le> unat l" if "t \<in> set us" for t
    using that sorted_le_last [OF s(2) [folded served(1)]] l(2) by simp
  have old: "t \<le> unat l" if "tst_last_issued_tso st = Some f" "t \<le> unat f" for f t
  proof -
    have "us \<noteq> []" using s(1) served(1,4) by (auto simp: unat_eq_0)
    then have "last us \<in> set us" by simp
    then have "unat f < last us" using s(3) that(1) served(1) by blast
    then show ?thesis using that(2) l(2) by simp
  qed
  show ?thesis
    using s(2,3) l(1) below old unfolding issued_below_def served(1) by auto
next
  case (unserved race rq gid now_ms bound c g g' out)
  then show ?thesis using serve_section_unserved [OF unserved(2,3)] by (simp add: issued_below_def)
next
  case (merged r revision)
  then show ?thesis by (cases "recovered_timeline_floor_tso r") (auto simp: issued_below_def merge_record_def
        word_le_nat_alt max_def split: if_splits)
next
  case (moved r r' revision)
  then show ?thesis by (cases "tl_last_graceful_issued (fenced_record st r')") (auto simp: issued_below_def fenced_state_def
        word_le_nat_alt max_def split: if_splits)
qed

text \<open>
  C2: the timestamps one cached timeline hands out strictly increase. However allocations, refused
  allocations, merges of records read from the metadata and moves between generators of this worker
  follow each other, whatever generator, clock, bound and interference an allocation meets, all
  timestamps handed out through the state are in strictly increasing order, above everything the
  state knew to be issued when it was built.
\<close>
theorem handle_strictly_increasing:
  assumes "handle_run st ts st'"
  shows "sorted_wrt (<) ts \<and> (\<forall>f. tst_last_issued_tso st = Some f \<longrightarrow> (\<forall>t \<in> set ts. unat f < t))"
proof -
  have "sorted_wrt (<) ts \<and> (\<forall>f. tst_last_issued_tso st = Some f \<longrightarrow> (\<forall>t \<in> set ts. unat f < t))
    \<and> issued_below st' ts \<and> (\<forall>us. issued_below st us \<longrightarrow> issued_below st' us)"
    using assms
  proof induction
    case (more st ts st' us st'')
    note step = handle_step_issues [OF more.hyps(2)]
    have above: "t < u" if "t \<in> set ts" "u \<in> set us" for t u
      using more.IH that step unfolding issued_below_def by (meson le_less_trans)
    have first: "unat f < u" if "tst_last_issued_tso st = Some f" "u \<in> set us" for f u
    proof -
      have "issued_below st [unat f]" using that(1) by (simp add: issued_below_def)
      then have "issued_below st' [unat f]" using more.IH by blast
      then obtain f' where "tst_last_issued_tso st' = Some f'" "unat f \<le> unat f'" by (auto simp: issued_below_def)
      then show ?thesis using step that(2) by (meson le_less_trans)
    qed
    have "issued_below st'' ts" using more.IH step by blast
    then have "issued_below st'' (ts @ us)" using step by (auto simp: issued_below_def)
    moreover have "sorted_wrt (<) (ts @ us)" using more.IH step above by (simp add: sorted_wrt_append)
    ultimately show ?case using more.IH step first by auto
  qed (auto simp: issued_below_def)
  then show ?thesis by blast
qed

definition moved_record :: timeline_record where
  "moved_record = \<lparr> tl_schema_version = 1, tl_route = (tst_route owned_timeline) \<lparr> rt_generator_id := 9 \<rparr>, tl_state = Active,
     tl_recovery_floor_tso = None, tl_issued_upper_bound = None, tl_last_graceful_issued = None,
     tl_lease_expire_at_ms = None, tl_updated_at_ms = 5 \<rparr>"

lemma moved_allocate:
  "allocate_after (\<lambda>_ v. v)
     \<lparr> al_count = 3, al_floor = Some 83900418, al_now_ms = 5, al_max_future_borrow_ms = 10,
       al_max_clock_rewind_ms = 30000, al_issued_upper_bound = None \<rparr> (generator_with_layout 9 DEFAULT_TIMESTAMP_LAYOUT)
   = (generator_with_layout 9 DEFAULT_TIMESTAMP_LAYOUT \<lparr> gn_next_index := 10243 \<rparr>,
      Inr (Allocated [\<lparr> rg_start_tso = 83904512, rg_end_tso = 83904514 \<rparr>]))"
  by (simp add: alloc_eval allocate_loop.simps build_ranges.simps [of _ _ _ 3] build_ranges.simps [of _ _ _ 0])

lemmas serve_eval = serve_section_def charge_timeline_quota_def timeline_quota_capacity_for_route_def owned_timeline_def
  serving_fields effective_future_borrow_ms_for_timeline_state_def effective_future_borrow_ms_for_route_def
  last_issued_def Let_def plain_request_def

lemma moved_run:
  "\<exists>st'. handle_run owned_timeline [83900416, 83900417, 83900418, 83904512, 83904513, 83904514] st'"
proof -
  let ?race = "\<lambda>_ v. v" and ?c = "sv_config sample_held"
  let ?g7 = "generator_with_layout 7 DEFAULT_TIMESTAMP_LAYOUT \<lparr> gn_ready_lease_token := 1 \<rparr>"
  let ?g9 = "generator_with_layout 9 DEFAULT_TIMESTAMP_LAYOUT"
  have layouts: "layout_valid (gn_layout ?g7)" "layout_valid (gn_layout ?g9)"
    "gn_id ?g7 < max_generators (gn_layout ?g7)" "gn_id ?g9 < max_generators (gn_layout ?g9)"
    "rq_count plain_request \<noteq> 0"
    using default_layout_valid by (simp_all add: alloc_eval plain_request_def)
  have physical: "dt_physical_ms (decode (cfg_timestamp_layout ?c) 83900418) \<le> 5"
    by (simp add: sample_held_runtime) (simp add: alloc_eval)
  let ?st1 = "owned_timeline \<lparr> tst_last_issued_tso := Some 83900418 \<rparr>"
  have "\<exists>g' response. serve_section ?race plain_request 7 5 (Some 1761624063) ?c (owned_timeline, ?g7)
      = ((?st1, g'), Inr (Served response)) \<and> ranges_tsos (rs_ranges response) = [83900416, 83900417, 83900418]"
    using serving_allocate by (simp add: serve_eval ranges_tsos_def range_tsos_def upt_rec)
  then have "handle_step owned_timeline [83900416, 83900417, 83900418] ?st1"
    using handle_step.served [OF layouts(1,3,5)] by metis
  moreover let ?st2 = "fenced_state moved_record (tl_last_graceful_issued (fenced_record ?st1 moved_record)) 2 ?st1"
  have "handle_step ?st1 [] ?st2" by (rule handle_step.moved)
  moreover have "\<exists>st' g' response. serve_section ?race plain_request 9 5 None ?c (?st2, ?g9)
      = ((st', g'), Inr (Served response)) \<and> ranges_tsos (rs_ranges response) = [83904512, 83904513, 83904514]"
    using moved_allocate physical
    by (simp add: serve_eval fenced_state_def fenced_record_def moved_record_def ranges_tsos_def range_tsos_def upt_rec)
  then obtain st' where "handle_step ?st2 [83904512, 83904513, 83904514] st'"
    using handle_step.served [OF layouts(2,4,5)] by metis
  ultimately have "handle_run owned_timeline ((([] @ [83900416, 83900417, 83900418]) @ []) @ [83904512, 83904513, 83904514]) st'"
    by (rule handle_run.more [OF handle_run.more [OF handle_run.more [OF handle_run.nothing]]])
  then show ?thesis by auto
qed

theorem handle_strictly_increasing_witness:
  "\<exists>st'. handle_run owned_timeline [83900416, 83900417, 83900418, 83904512, 83904513, 83904514] st'
     \<and> sorted_wrt (<) [83900416, 83900417, 83900418, 83904512, 83904513, 83904514 :: nat]"
  using moved_run handle_strictly_increasing by blast

end
